(* ===== verification/Prelude.thy ===== *)
theory Prelude
  imports Main "HOL-Library.Word"
begin

text \<open>
  Shared vocabulary of the development: Python values (bytes, code points,
  exceptions), the result type of code that raises, the fixed-width integer
  encodings of \<^verbatim>\<open>struct\<close>, UTF-8, and the generic list lemmas the components share.

  A Python \<^verbatim>\<open>int\<close> is an \<open>int\<close>; \<^verbatim>\<open>bytes\<close> is a list of \<open>8 word\<close>; a \<^verbatim>\<open>str\<close> is the
  list of its code points; a raise is the left injection of a sum.
\<close>

section \<open>Python values and exceptions\<close>

type_synonym byte = "8 word"
type_synonym pystr = "nat list"

text \<open>
  The exceptions the modelled code can raise. \<open>Refused r\<close> is a \<^verbatim>\<open>raise\<close> of the
  component's own (a \<^verbatim>\<open>ValueError\<close>, \<^verbatim>\<open>ImageError\<close>, \<^verbatim>\<open>ContractError\<close>), with a
  constructor of the component's type of refusals instead of the message text.
\<close>

datatype 'r py_error =
    AssertionError
  | IndexError
  | KeyError
  | StopIteration
  | StructError
  | ValueError
  | OverflowError
  | UnicodeEncodeError
  | UnicodeDecodeError
  | TypeError
  | OSError
  | ZeroDivisionError
  | AttributeError
  | Refused 'r

type_synonym ('r, 'a) result = "'r py_error + 'a"

named_theorems codec \<open>lengths and round trips of the field encodings\<close>

definition lit :: "string \<Rightarrow> pystr" where
  "lit s = map of_char s"

lemma lit_inject: "lit s = lit t \<longleftrightarrow> s = t"
  unfolding lit_def by (rule inj_map_eq_map) (simp add: inj_def)

section \<open>Code that raises\<close>

fun rbind :: "'e + 'a \<Rightarrow> ('a \<Rightarrow> 'e + 'b) \<Rightarrow> 'e + 'b" where
  "rbind (Inl e) f = Inl e"
| "rbind (Inr x) f = f x"

definition ensure :: "bool \<Rightarrow> 'e \<Rightarrow> 'e + unit" where
  "ensure P e = (if P then Inr () else Inl e)"

fun mapE :: "('a \<Rightarrow> 'e + 'b) \<Rightarrow> 'a list \<Rightarrow> 'e + 'b list" where
  "mapE f [] = Inr []"
| "mapE f (x # xs) = rbind (f x) (\<lambda>y. rbind (mapE f xs) (\<lambda>ys. Inr (y # ys)))"

fun foldE :: "('a \<Rightarrow> 's \<Rightarrow> 'e + 's) \<Rightarrow> 'a list \<Rightarrow> 's \<Rightarrow> 'e + 's" where
  "foldE f [] s = Inr s"
| "foldE f (x # xs) s = rbind (f x s) (foldE f xs)"

text \<open>Appending the fields of a descriptor one after the other: the first that raises wins.\<close>

fun concatE :: "('e + 'a list) list \<Rightarrow> 'e + 'a list" where
  "concatE [] = Inr []"
| "concatE (r # rs) = rbind r (\<lambda>b. rbind (concatE rs) (\<lambda>bs. Inr (b @ bs)))"

lemma rbind_Inr_iff [simp]: "rbind m f = Inr y \<longleftrightarrow> (\<exists>x. m = Inr x \<and> f x = Inr y)"
  by (cases m) auto

lemma rbind_Inl_iff: "rbind m f = Inl e \<longleftrightarrow> m = Inl e \<or> (\<exists>x. m = Inr x \<and> f x = Inl e)"
  by (cases m) auto

lemma rbind_cong [fundef_cong]:
  "m = m' \<Longrightarrow> (\<And>x. m' = Inr x \<Longrightarrow> f x = g x) \<Longrightarrow> rbind m f = rbind m' g"
  by (cases m') auto

lemma rbind_assoc: "rbind (rbind m f) g = rbind m (\<lambda>x. rbind (f x) g)"
  by (cases m) auto

lemma ensure_Inr_iff [simp]: "ensure P e = Inr u \<longleftrightarrow> P"
  by (simp add: ensure_def)

lemma ensure_Inl_iff [simp]: "ensure P e = Inl e' \<longleftrightarrow> \<not> P \<and> e' = e"
  by (auto simp: ensure_def)

lemma ensure_True [simp]: "ensure True e = Inr ()"
  by (simp add: ensure_def)

lemma mapE_Inr_iff: "mapE f xs = Inr ys \<longleftrightarrow> list_all2 (\<lambda>x y. f x = Inr y) xs ys"
proof (induction xs arbitrary: ys)
  case Nil
  then show ?case by auto
next
  case (Cons x xs)
  then show ?case by (cases ys) auto
qed

lemma mapE_length: "mapE f xs = Inr ys \<Longrightarrow> length ys = length xs"
  by (auto simp: mapE_Inr_iff dest: list_all2_lengthD)

lemma mapE_nth: "mapE f xs = Inr ys \<Longrightarrow> i < length xs \<Longrightarrow> f (xs ! i) = Inr (ys ! i)"
  by (auto simp: mapE_Inr_iff list_all2_conv_all_nth)

lemma mapE_mem: "mapE f xs = Inr ys \<Longrightarrow> y \<in> set ys \<Longrightarrow> \<exists>x \<in> set xs. f x = Inr y"
  by (auto simp: mapE_Inr_iff list_all2_conv_all_nth in_set_conv_nth) (metis nth_mem)

lemma mapE_total: "(\<And>x. x \<in> set xs \<Longrightarrow> f x = Inr (g x)) \<Longrightarrow> mapE f xs = Inr (map g xs)"
  by (induction xs) auto

lemma foldE_append: "foldE f (xs @ ys) s = rbind (foldE f xs s) (foldE f ys)"
proof (induction xs arbitrary: s)
  case Nil
  then show ?case by simp
next
  case (Cons x xs)
  then have "foldE f (xs @ ys) = (\<lambda>t. rbind (foldE f xs t) (foldE f ys))" by (rule ext)
  then show ?case by (simp add: rbind_assoc)
qed

lemma foldE_invariant:
  assumes "foldE f xs s = Inr s'" and "P s"
    and "\<And>x s s'. x \<in> set xs \<Longrightarrow> P s \<Longrightarrow> f x s = Inr s' \<Longrightarrow> P s'"
  shows "P s'"
  using assms
proof (induction xs arbitrary: s)
  case Nil
  then show ?case by simp
next
  case (Cons x xs)
  from Cons.prems(1) obtain t where t: "f x s = Inr t" "foldE f xs t = Inr s'" by auto
  have "P t" using Cons.prems(3)[of x s t] Cons.prems(2) t(1) by simp
  with t(2) Cons.prems(3) show ?case by (intro Cons.IH[of t]) auto
qed

lemma concatE_append:
  "concatE (rs @ ss) = rbind (concatE rs) (\<lambda>b. rbind (concatE ss) (\<lambda>c. Inr (b @ c)))"
proof (induction rs)
  case Nil
  show ?case by (cases "concatE ss") auto
next
  case (Cons r rs)
  then show ?case by (simp add: rbind_assoc)
qed

lemma concatE_length:
  "concatE rs = Inr b \<Longrightarrow> list_all2 (\<lambda>r n. \<forall>x. r = Inr x \<longrightarrow> length x = n) rs ns
    \<Longrightarrow> length b = sum_list ns"
proof (induction rs arbitrary: b ns)
  case Nil
  then show ?case by simp
next
  case (Cons r rs)
  then show ?case by (cases ns) auto
qed

section \<open>Sequences\<close>

text \<open>Python \<^verbatim>\<open>xs[i:j]\<close> at non-negative bounds, and the slice assignment \<^verbatim>\<open>xs[i:i+n] = v\<close>.\<close>

definition slice :: "nat \<Rightarrow> nat \<Rightarrow> 'a list \<Rightarrow> 'a list" where
  "slice i j xs = take (j - i) (drop i xs)"

definition splice :: "nat \<Rightarrow> nat \<Rightarrow> 'a list \<Rightarrow> 'a list \<Rightarrow> 'a list" where
  "splice i n v xs = take i xs @ v @ drop (i + n) xs"

text \<open>\<^verbatim>\<open>str(n)\<close> of a Python \<^verbatim>\<open>int\<close>, as code points.\<close>

fun dec_nat :: "nat \<Rightarrow> pystr" where
  "dec_nat n = (if n < 10 then [48 + n] else dec_nat (n div 10) @ [48 + n mod 10])"

declare dec_nat.simps [simp del]

definition dec :: "int \<Rightarrow> pystr" where
  "dec v = (if v < 0 then 45 # dec_nat (nat (- v)) else dec_nat (nat v))"

text \<open>The value of a run of decimal digits, most significant first.\<close>

definition undec :: "pystr \<Rightarrow> nat" where
  "undec = foldl (\<lambda>v c. 10 * v + (c - 48)) 0"

lemma undec_dec_nat [simp]: "undec (dec_nat n) = n"
proof (induction n rule: dec_nat.induct)
  case (1 n)
  then show ?case by (subst dec_nat.simps) (auto simp: undec_def)
qed

lemma dec_nat_digits: "c \<in> set (dec_nat n) \<Longrightarrow> 48 \<le> c \<and> c \<le> 57"
proof (induction n rule: dec_nat.induct)
  case (1 n)
  then show ?case by (subst (asm) (2) dec_nat.simps) (auto split: if_splits)
qed

lemma dec_nat_inject [simp]: "dec_nat m = dec_nat n \<longleftrightarrow> m = n"
  by (metis undec_dec_nat)

text \<open>Python indexing: a negative index counts from the end, an index out of range raises.\<close>

definition py_nth :: "'a list \<Rightarrow> int \<Rightarrow> ('r, 'a) result" where
  "py_nth xs i =
     (if nat i < length xs \<and> 0 \<le> i then Inr (xs ! nat i)
      else if i < 0 \<and> nat (- i) \<le> length xs then Inr (xs ! (length xs - nat (- i)))
      else Inl IndexError)"

definition enum :: "'a list \<Rightarrow> (nat \<times> 'a) list" where
  "enum xs = zip [0..<length xs] xs"

lemma py_nth_nat [simp]: "i < length xs \<Longrightarrow> py_nth xs (int i) = Inr (xs ! i)"
  by (simp add: py_nth_def)

lemma py_nth_0 [simp]: "py_nth xs 0 = Inr x \<longleftrightarrow> xs \<noteq> [] \<and> x = xs ! 0"
  by (auto simp: py_nth_def Let_def)

lemma enum_nth: "i < length xs \<Longrightarrow> enum xs ! i = (i, xs ! i)"
  by (simp add: enum_def)

lemma length_enum [simp]: "length (enum xs) = length xs"
  by (simp add: enum_def)

lemma map_snd_enum [simp]: "map snd (enum xs) = xs"
  by (simp add: enum_def)

lemma map_fst_enum [simp]: "map fst (enum xs) = [0..<length xs]"
  by (simp add: enum_def)

lemma in_set_enum: "(i, x) \<in> set (enum xs) \<longleftrightarrow> i < length xs \<and> x = xs ! i"
proof -
  have "(i, x) \<in> set (enum xs) \<longleftrightarrow> (\<exists>k < length xs. (i, x) = enum xs ! k)"
    by (auto simp: in_set_conv_nth)
  then show ?thesis by (auto simp: enum_nth)
qed

lemma enum_append1: "enum (xs @ [x]) = enum xs @ [(length xs, x)]"
  by (simp add: enum_def)

lemma length_slice [simp]: "length (slice i j xs) = min (j - i) (length xs - i)"
  by (simp add: slice_def)

lemma slice_append_skip: "slice (length a + i) (length a + j) (a @ b) = slice i j b"
  by (simp add: slice_def)

lemma slice_append_hit: "slice (length a) (length a + length b) (a @ b @ c) = b"
  by (simp add: slice_def)

lemma slice_skip: "length a \<le> i \<Longrightarrow> slice i j (a @ b) = slice (i - length a) (j - length a) b"
  by (cases "i \<le> j") (simp_all add: slice_def)

lemma slice_head: "j \<le> length a \<Longrightarrow> slice i j (a @ b) = slice i j a"
  by (cases "i \<le> j") (simp_all add: slice_def)

lemmas slice_simps = slice_skip slice_head

lemma length_concat_replicate [simp]: "length (concat (replicate n xs)) = n * length xs"
  by (induction n) auto

lemma length_4_obtain:
  assumes "length r = 4"
  obtains a b c d where "r = [a, b, c, d]"
  using assms by (auto simp: numeral_eq_Suc length_Suc_conv)

lemma slice_all: "length xs \<le> n \<Longrightarrow> slice 0 n xs = xs"
  by (simp add: slice_def)

lemma slice_slice: "b + d \<le> c \<Longrightarrow> slice b (b + d) (slice a (a + c) xs) = slice (a + b) (a + b + d) xs"
  by (simp add: slice_def drop_take min_def add.commute)

lemma length_splice: "i + n \<le> length xs \<Longrightarrow> length v = n \<Longrightarrow> length (splice i n v xs) = length xs"
  by (simp add: splice_def)

lemma nth_splice:
  assumes "i + n \<le> length xs" "length v = n" "k < length xs"
  shows "splice i n v xs ! k = (if i \<le> k \<and> k < i + n then v ! (k - i) else xs ! k)"
  using assms by (auto simp: splice_def nth_append min_def)

lemma slice_nth: "k < j - i \<Longrightarrow> i + k < length xs \<Longrightarrow> slice i j xs ! k = xs ! (i + k)"
  by (simp add: slice_def)

lemma slice_eqI:
  assumes "length xs = length ys" and "\<And>k. i \<le> k \<Longrightarrow> k < j \<Longrightarrow> k < length xs \<Longrightarrow> xs ! k = ys ! k"
  shows "slice i j xs = slice i j ys"
  using assms by (intro nth_equalityI) (auto simp: slice_nth)

lemma slice_splice_same:
  "i + n \<le> length xs \<Longrightarrow> length v = n \<Longrightarrow> slice i (i + n) (splice i n v xs) = v"
  by (simp add: slice_def splice_def)

lemma slice_splice_other:
  assumes "i + n \<le> length xs" "length v = n" "a + m \<le> i \<or> i + n \<le> a"
  shows "slice a (a + m) (splice i n v xs) = slice a (a + m) xs"
  using assms by (intro slice_eqI) (auto simp: length_splice nth_splice)

section \<open>Fixed-width integers\<close>

fun le_bytes :: "nat \<Rightarrow> int \<Rightarrow> byte list" where
  "le_bytes 0 v = []"
| "le_bytes (Suc n) v = word_of_int v # le_bytes n (v div 256)"

fun le_int :: "byte list \<Rightarrow> int" where
  "le_int [] = 0"
| "le_int (b # bs) = uint b + 256 * le_int bs"

definition be_bytes :: "nat \<Rightarrow> int \<Rightarrow> byte list" where
  "be_bytes n v = rev (le_bytes n v)"

definition be_int :: "byte list \<Rightarrow> int" where
  "be_int bs = le_int (rev bs)"

lemma uint_byte: "uint (word_of_int v :: byte) = v mod 256"
  by (simp add: uint_word_of_int)

lemma length_le_bytes [simp, codec]: "length (le_bytes n v) = n"
  by (induction n arbitrary: v) auto

lemma length_be_bytes [simp, codec]: "length (be_bytes n v) = n"
  by (simp add: be_bytes_def)

lemma le_int_le_bytes [codec]: "le_int (le_bytes n v) = v mod 256 ^ n"
proof (induction n arbitrary: v)
  case 0
  then show ?case by simp
next
  case (Suc n)
  have "v mod (256 * 256 ^ n) = 256 * (v div 256 mod 256 ^ n) + v mod 256"
    by (rule zmod_zmult2_eq) simp
  then show ?case using Suc by (simp add: uint_byte)
qed

lemma be_int_be_bytes [codec]: "be_int (be_bytes n v) = v mod 256 ^ n"
  by (simp add: be_int_def be_bytes_def le_int_le_bytes)

lemma le_int_bounds: "0 \<le> le_int bs \<and> le_int bs < 256 ^ length bs"
proof (induction bs)
  case Nil
  then show ?case by simp
next
  case (Cons b bs)
  have "uint b < 2 ^ 8" "0 \<le> uint b" using uint_bounded[of b] by simp_all
  with Cons show ?case by simp
qed

lemma be_int_bounds: "0 \<le> be_int bs \<and> be_int bs < 256 ^ length bs"
  using le_int_bounds[of "rev bs"] by (simp add: be_int_def)

lemma le_bytes_le_int [codec]: "le_bytes (length bs) (le_int bs) = bs"
proof (induction bs)
  case Nil
  then show ?case by simp
next
  case (Cons b bs)
  have b: "uint b < 2 ^ 8" "0 \<le> uint b" using uint_bounded[of b] by simp_all
  then have "(uint b + 256 * le_int bs) div 256 = le_int bs" by simp
  moreover have "(word_of_int (uint b + 256 * le_int bs) :: byte) = b"
  proof (rule word_uint_eqI)
    show "uint (word_of_int (uint b + 256 * le_int bs) :: byte) = uint b"
      using b by (simp only: uint_byte) simp
  qed
  ultimately show ?case using Cons by simp
qed

lemma be_bytes_be_int [codec]: "be_bytes (length bs) (be_int bs) = bs"
  using le_bytes_le_int[of "rev bs"] by (simp add: be_bytes_def be_int_def)

lemma le_bytes_inject: "length a = length b \<Longrightarrow> le_int a = le_int b \<Longrightarrow> a = b"
  by (metis le_bytes_le_int)

text \<open>\<^verbatim>\<open>struct.pack\<close> of an unsigned field: a value outside its range raises \<^verbatim>\<open>struct.error\<close>.\<close>

definition pack_be :: "nat \<Rightarrow> int \<Rightarrow> ('r, byte list) result" where
  "pack_be n v = (if 0 \<le> v \<and> v < 256 ^ n then Inr (be_bytes n v) else Inl StructError)"

definition pack_le :: "nat \<Rightarrow> int \<Rightarrow> ('r, byte list) result" where
  "pack_le n v = (if 0 \<le> v \<and> v < 256 ^ n then Inr (le_bytes n v) else Inl StructError)"

text \<open>\<^verbatim>\<open>bytes([v])\<close>: a \<^verbatim>\<open>ValueError\<close> of the interpreter outside 0..255.\<close>

definition byte_of :: "int \<Rightarrow> ('r, byte list) result" where
  "byte_of v = (if 0 \<le> v \<and> v < 256 then Inr [word_of_int v] else Inl ValueError)"

lemma pack_be_length [codec]: "pack_be n v = Inr b \<Longrightarrow> length b = n"
  by (auto simp: pack_be_def split: if_splits)

lemma pack_be_value [codec]: "pack_be n v = Inr b \<Longrightarrow> be_int b = v"
  by (auto simp: pack_be_def be_int_be_bytes split: if_splits)

lemma byte_of_length [codec]: "byte_of v = Inr b \<Longrightarrow> length b = 1"
  by (auto simp: byte_of_def split: if_splits)

section \<open>UTF-8\<close>

text \<open>\<^verbatim>\<open>str.encode()\<close>: a lone surrogate cannot be encoded and raises \<^verbatim>\<open>UnicodeEncodeError\<close>.\<close>

definition utf8_char :: "nat \<Rightarrow> ('r, byte list) result" where
  "utf8_char c =
     (if c < 0x80 then Inr [of_nat c]
      else if c < 0x800 then Inr [of_nat (0xC0 + c div 64), of_nat (0x80 + c mod 64)]
      else if 0xD800 \<le> c \<and> c \<le> 0xDFFF then Inl UnicodeEncodeError
      else if c < 0x10000 then
        Inr [of_nat (0xE0 + c div 4096), of_nat (0x80 + c div 64 mod 64), of_nat (0x80 + c mod 64)]
      else if c < 0x110000 then
        Inr [of_nat (0xF0 + c div 262144), of_nat (0x80 + c div 4096 mod 64),
             of_nat (0x80 + c div 64 mod 64), of_nat (0x80 + c mod 64)]
      else Inl UnicodeEncodeError)"

definition utf8_encode :: "pystr \<Rightarrow> ('r, byte list) result" where
  "utf8_encode s = concatE (map utf8_char s)"

text \<open>
  \<^verbatim>\<open>bytes.decode("utf-8")\<close>, strict: overlong forms, surrogates, values past
  \<^verbatim>\<open>0x10FFFF\<close> and a missing continuation octet raise \<^verbatim>\<open>UnicodeDecodeError\<close>.
\<close>

definition cont :: "byte \<Rightarrow> bool" where
  "cont b = (unat b div 64 = 2)"

definition low6 :: "byte \<Rightarrow> nat" where
  "low6 b = unat b mod 64"

fun utf8_decode :: "byte list \<Rightarrow> ('r, pystr) result" where
  "utf8_decode [] = Inr []"
| "utf8_decode (a # bs) =
     (let x = unat a in
      if x < 0x80 then rbind (utf8_decode bs) (\<lambda>s. Inr (x # s))
      else if 0xC2 \<le> x \<and> x \<le> 0xDF then
        (case bs of
          b # r \<Rightarrow> if cont b then rbind (utf8_decode r) (\<lambda>s. Inr (((x - 0xC0) * 64 + low6 b) # s))
                   else Inl UnicodeDecodeError
        | _ \<Rightarrow> Inl UnicodeDecodeError)
      else if 0xE0 \<le> x \<and> x \<le> 0xEF then
        (case bs of
          b # c # r \<Rightarrow>
            (let v = (x - 0xE0) * 4096 + low6 b * 64 + low6 c in
             if cont b \<and> cont c \<and> 0x800 \<le> v \<and> \<not> (0xD800 \<le> v \<and> v \<le> 0xDFFF)
             then rbind (utf8_decode r) (\<lambda>s. Inr (v # s)) else Inl UnicodeDecodeError)
        | _ \<Rightarrow> Inl UnicodeDecodeError)
      else if 0xF0 \<le> x \<and> x \<le> 0xF4 then
        (case bs of
          b # c # d # r \<Rightarrow>
            (let v = (x - 0xF0) * 262144 + low6 b * 4096 + low6 c * 64 + low6 d in
             if cont b \<and> cont c \<and> cont d \<and> 0x10000 \<le> v \<and> v < 0x110000
             then rbind (utf8_decode r) (\<lambda>s. Inr (v # s)) else Inl UnicodeDecodeError)
        | _ \<Rightarrow> Inl UnicodeDecodeError)
      else Inl UnicodeDecodeError)"

lemma unat_of_nat_byte: "n < 256 \<Longrightarrow> unat (of_nat n :: byte) = n"
  by (simp add: unat_of_nat)

lemma utf8_decode_1: "unat a < 128 \<Longrightarrow> utf8_decode (a # bs) = rbind (utf8_decode bs) (\<lambda>s. Inr (unat a # s))"
  by simp

lemma cont_low6:
  assumes "unat b = 0x80 + l" "l < 64"
  shows "cont b" "low6 b = l"
proof -
  have "(l + 2 * 64) div 64 = 2" "(l + 2 * 64) mod 64 = l"
    using assms(2) by (simp_all only: div_mult_self1 mod_mult_self1) simp_all
  then have "(128 + l) div 64 = 2" "(128 + l) mod 64 = l" by (simp_all add: add.commute)
  with assms(1) show "cont b" "low6 b = l" by (simp_all add: cont_def low6_def)
qed

lemma utf8_decode_2:
  assumes "unat a = 0xC0 + h" "2 \<le> h" "h < 32" "unat b = 0x80 + l" "l < 64"
  shows "utf8_decode (a # b # bs) = rbind (utf8_decode bs) (\<lambda>s. Inr ((h * 64 + l) # s))"
  using assms(1-3) cont_low6[OF assms(4,5)] by simp

lemma utf8_decode_3:
  assumes "unat a = 0xE0 + h" "h < 16" "unat b = 0x80 + m" "m < 64" "unat c = 0x80 + l" "l < 64"
    and "h * 4096 + m * 64 + l = v" "0x800 \<le> v" "\<not> (0xD800 \<le> v \<and> v \<le> 0xDFFF)"
  shows "utf8_decode (a # b # c # bs) = rbind (utf8_decode bs) (\<lambda>s. Inr (v # s))"
  using assms(1,2,7-9) cont_low6[OF assms(3,4)] cont_low6[OF assms(5,6)] by (simp add: Let_def)

lemma utf8_decode_4:
  assumes "unat a = 0xF0 + h" "h < 5" "unat b = 0x80 + m" "m < 64" "unat c = 0x80 + k" "k < 64"
    "unat d = 0x80 + l" "l < 64"
    and "h * 262144 + m * 4096 + k * 64 + l = v" "0x10000 \<le> v" "v < 0x110000"
  shows "utf8_decode (a # b # c # d # bs) = rbind (utf8_decode bs) (\<lambda>s. Inr (v # s))"
  using assms(1,2,9-11) cont_low6[OF assms(3,4)] cont_low6[OF assms(5,6)] cont_low6[OF assms(7,8)]
  by (simp add: Let_def)

lemma base64_digits: "(c::nat) div 4096 * 4096 + c div 64 mod 64 * 64 + c mod 64 = c"
proof -
  have "c div 4096 = c div 64 div 64" by (simp add: div_mult2_eq[symmetric])
  then have "c div 4096 * 4096 + c div 64 mod 64 * 64 = (c div 64 div 64 * 64 + c div 64 mod 64) * 64"
    by (simp only: distrib_right)
  then show ?thesis by (simp only: div_mult_mod_eq)
qed

lemma base64_digits4:
  "(c::nat) div 262144 * 262144 + c div 4096 mod 64 * 4096 + c div 64 mod 64 * 64 + c mod 64 = c"
proof -
  have "c div 262144 = c div 4096 div 64" by (simp add: div_mult2_eq[symmetric])
  then have "c div 262144 * 262144 + c div 4096 mod 64 * 4096
      = (c div 4096 div 64 * 64 + c div 4096 mod 64) * 4096"
    by (simp only: distrib_right)
  then show ?thesis using base64_digits[of c] by (simp only: div_mult_mod_eq)
qed

lemma utf8_decode_char:
  assumes "utf8_char c = (Inr b :: ('r, byte list) result)"
  shows "utf8_decode (b @ bs) = rbind (utf8_decode bs) (\<lambda>s. Inr (c # s))"
proof -
  note u = unat_of_nat_byte
  consider "c < 0x80" | "0x80 \<le> c" "c < 0x800"
    | "0x800 \<le> c" "c < 0x10000" "\<not> (0xD800 \<le> c \<and> c \<le> 0xDFFF)"
    | "0x10000 \<le> c" "c < 0x110000"
    using assms by (auto simp: utf8_char_def split: if_splits)
  then show ?thesis
  proof cases
    case 1
    then show ?thesis using assms by (auto simp: utf8_char_def u)
  next
    case 2
    then have h: "2 \<le> c div 64" "c div 64 < 32" by auto
    have b: "b = [of_nat (0xC0 + c div 64), of_nat (0x80 + c mod 64)]"
      using assms 2 by (simp add: utf8_char_def del: of_nat_add)
    have "c div 64 * 64 + c mod 64 = c" by simp
    with utf8_decode_2[of "of_nat (0xC0 + c div 64)" "c div 64" "of_nat (0x80 + c mod 64)" "c mod 64" bs] h
    show ?thesis unfolding b by (simp add: u del: of_nat_add utf8_decode.simps)
  next
    case 3
    then have h: "c div 4096 < 16" by auto
    have b: "b = [of_nat (0xE0 + c div 4096), of_nat (0x80 + c div 64 mod 64), of_nat (0x80 + c mod 64)]"
      using assms 3 by (auto simp: utf8_char_def simp del: of_nat_add split: if_splits)
    from base64_digits[of c] utf8_decode_3[of "of_nat (0xE0 + c div 4096)" "c div 4096" "of_nat (0x80 + c div 64 mod 64)"
        "c div 64 mod 64" "of_nat (0x80 + c mod 64)" "c mod 64" c bs] h 3
    show ?thesis unfolding b by (simp add: u del: of_nat_add utf8_decode.simps)
  next
    case 4
    then have h: "c div 262144 < 5" by auto
    have b: "b = [of_nat (0xF0 + c div 262144), of_nat (0x80 + c div 4096 mod 64),
        of_nat (0x80 + c div 64 mod 64), of_nat (0x80 + c mod 64)]"
      using assms 4 by (auto simp: utf8_char_def simp del: of_nat_add split: if_splits)
    from base64_digits4[of c] utf8_decode_4[of "of_nat (0xF0 + c div 262144)" "c div 262144" "of_nat (0x80 + c div 4096 mod 64)"
        "c div 4096 mod 64" "of_nat (0x80 + c div 64 mod 64)" "c div 64 mod 64"
        "of_nat (0x80 + c mod 64)" "c mod 64" c bs] h 4
    show ?thesis unfolding b by (simp add: u del: of_nat_add utf8_decode.simps)
  qed
qed

lemma utf8_round_trip:
  assumes "utf8_encode s = (Inr b :: ('r, byte list) result)"
  shows "utf8_decode b = Inr s"
  using assms
proof (induction s arbitrary: b)
  case Nil
  then show ?case by (simp add: utf8_encode_def)
next
  case (Cons c s)
  then obtain x y where "utf8_char c = (Inr x :: ('r, byte list) result)" "utf8_encode s = (Inr y :: ('r, byte list) result)" "b = x @ y"
    by (auto simp: utf8_encode_def)
  then show ?case using Cons.IH by (auto simp: utf8_decode_char)
qed

lemma utf8_encode_ascii:
  "\<forall>c \<in> set s. c < 128 \<Longrightarrow> utf8_encode s = Inr (map of_nat s)"
  by (induction s) (auto simp: utf8_encode_def utf8_char_def)

lemma concatE_Inl: "concatE rs = Inl e \<Longrightarrow> Inl e \<in> set rs"
  by (induction rs) (auto simp: rbind_Inl_iff)

lemma concatE_total_iff: "(\<exists>b. concatE rs = Inr b) \<longleftrightarrow> (\<forall>r \<in> set rs. \<exists>x. r = Inr x)"
  by (induction rs) auto

definition encodable :: "pystr \<Rightarrow> bool" where
  "encodable s = list_all (\<lambda>c. c < 0x110000 \<and> \<not> (0xD800 \<le> c \<and> c \<le> 0xDFFF)) s"

lemma utf8_char_total_iff:
  "(\<exists>b. utf8_char c = Inr b) \<longleftrightarrow> c < 0x110000 \<and> \<not> (0xD800 \<le> c \<and> c \<le> 0xDFFF)"
  by (auto simp: utf8_char_def)

lemma utf8_encode_total_iff: "(\<exists>b. utf8_encode s = Inr b) \<longleftrightarrow> encodable s"
  unfolding utf8_encode_def concatE_total_iff
  by (auto simp: encodable_def utf8_char_total_iff list_all_iff)

lemma utf8_char_Inl: "utf8_char c = Inl e \<Longrightarrow> e = UnicodeEncodeError"
  by (auto simp: utf8_char_def split: if_splits)

lemma utf8_encode_Inl: "utf8_encode s = Inl e \<Longrightarrow> e = UnicodeEncodeError"
  unfolding utf8_encode_def by (auto dest!: concatE_Inl sym[of "Inl e"] utf8_char_Inl)

section \<open>Tables of fixed-width entries\<close>

text \<open>
  The interface of a fixed-width entry: an encoder of \<open>width\<close> octets and the value a reader
  of those octets gets. A table of such entries, at any offset of a larger image, reads
  back entry by entry.
\<close>

locale fixed_width =
  fixes enc :: "'v \<Rightarrow> 'b list" and rd :: "'b list \<Rightarrow> 'w" and norm :: "'v \<Rightarrow> 'w" and width :: nat
  assumes enc_width: "length (enc v) = width"
    and rd_enc: "rd (enc v) = norm v"
begin

lemma table_length: "length (concat (map enc vs)) = width * length vs"
  by (induction vs) (simp_all add: enc_width)

lemma table_slice:
  "k < length vs \<Longrightarrow> slice (width * k) (width * k + width) (concat (map enc vs)) = enc (vs ! k)"
proof (induction vs arbitrary: k)
  case Nil
  then show ?case by simp
next
  case (Cons v vs)
  then show ?case
  proof (cases k)
    case 0
    then show ?thesis by (simp add: slice_def enc_width)
  next
    case (Suc j)
    have "slice (width * Suc j) (width * Suc j + width) (enc v @ concat (map enc vs))
        = slice (width * j) (width * j + width) (concat (map enc vs))"
      by (simp add: slice_skip enc_width add.commute)
    then show ?thesis using Cons Suc by simp
  qed
qed

lemma table_read:
  assumes "k < length vs" and "length p = off"
  shows "rd (slice (off + width * k) (off + width * k + width) (p @ concat (map enc vs) @ q)) = norm (vs ! k)"
proof -
  have "width * Suc k \<le> width * length vs" using assms(1) by (intro mult_le_mono2) simp
  then have "width * k + width \<le> length (concat (map enc vs))" by (simp add: table_length)
  then have "slice (off + width * k) (off + width * k + width) (p @ concat (map enc vs) @ q)
      = slice (width * k) (width * k + width) (concat (map enc vs))"
    using assms(2) by (simp add: slice_simps)
  then show ?thesis using table_slice[OF assms(1)] by (simp add: rd_enc)
qed

end

end
