(* ===== verification/Aem_Descriptors.thy ===== *)
theory Aem_Descriptors
  imports Prelude
begin

text \<open>
  Descriptor octets (\<^verbatim>\<open>src/avdecc/aem_descriptors.py\<close>): the IEEE 1722.1-2021 clause 7.2
  field layouts, one definition per \<^verbatim>\<open>d_*\<close> function, in the order of the file.

  Every function returns the octets or the exception it raises. A \<^verbatim>\<open>b += f\<close> sequence is
  \<open>concatE\<close> of the fields (the first that raises wins), \<open>sized n\<close> is the
  \<^verbatim>\<open>assert len(b) == n\<close> of the source and \<open>assertE\<close> its other assertions. The lemmas show
  that the length assertions never fire, the exact length of every descriptor, and that a
  reader of the octets gets the fields back.
\<close>

section \<open>The refusals of the package\<close>

text \<open>
  One constructor per \<^verbatim>\<open>raise\<close> of \<^verbatim>\<open>src/avdecc\<close>, with the values its message names.
  A direction is \<open>True\<close> for INPUT.
\<close>

datatype aem_refusal =
    NoVersionParameter
  | NotContiguous nat nat nat
  | NotAscending nat nat nat nat
  | TypeTooHigh nat
  | TwoLevelDiverges nat nat
  | NameLookupDiverges nat nat nat
  | ClusterNameCount nat nat int int
  | RomTooBig nat
  | MapPageNotShared "int list"
  | MapPageRange int
  | TooManyKeys int
  | OutputsNeedDynamicInputs
  | NoSourceTopology nat
  | ClusterSourceCount nat nat int
  | TooManyPorts
  | BadNumberOfMaps bool nat int
  | BadBaseMap bool nat int
  | TooManyMappings bool nat int nat
  | BadClusterOffset bool nat "int list"
  | BadClusterChannel bool nat "int list"
  | BadStreamIndex bool nat "int list"
  | NoChannelFormat bool nat "int list"
  | DuplicateCluster bool nat "int list"
  | DuplicateStreamChannel bool nat "int list"
  | UnrecordedDeviation
  | NotAnOverlay
  | BadSchemaVersion
  | UnsupportedRates "int list"
  | NoFirmwareVersion
  | NoCrfSink
  | UnknownClockSource string
  | NoSourcePool nat
  | UnsupportedRole string
  | UnknownNames

type_synonym 'a aem = "(aem_refusal, 'a) result"

definition assertE :: "bool \<Rightarrow> byte list aem" where
  "assertE P = (if P then Inr [] else Inl AssertionError)"

definition sized :: "nat \<Rightarrow> byte list aem \<Rightarrow> byte list aem" where
  "sized n r = rbind r (\<lambda>b. if length b = n then Inr b else Inl AssertionError)"

lemma assertE_Inr_iff [simp]: "assertE P = Inr b \<longleftrightarrow> P \<and> b = []"
  by (auto simp: assertE_def)

lemma sized_Inr_iff [simp]: "sized n r = Inr b \<longleftrightarrow> r = Inr b \<and> length b = n"
  by (auto simp: sized_def split: if_splits)

lemma sized_id: "(\<And>b. r = Inr b \<Longrightarrow> length b = n) \<Longrightarrow> sized n r = r"
  by (cases r) (auto simp: sized_def)

section \<open>The gateware version\<close>

text \<open>\<^verbatim>\<open>\s\<close> of a Python text pattern: the characters \<^verbatim>\<open>str.isspace\<close> holds for.\<close>

definition is_space :: "nat \<Rightarrow> bool" where
  "is_space c =
     ((9 \<le> c \<and> c \<le> 13) \<or> (28 \<le> c \<and> c \<le> 32) \<or> c = 133 \<or> c = 160 \<or> c = 5760
      \<or> (8192 \<le> c \<and> c \<le> 8202) \<or> c = 8232 \<or> c = 8233 \<or> c = 8239 \<or> c = 8287 \<or> c = 12288)"

definition hex_digit :: "nat \<Rightarrow> nat option" where
  "hex_digit c =
     (if 48 \<le> c \<and> c \<le> 57 then Some (c - 48)
      else if 97 \<le> c \<and> c \<le> 102 then Some (c - 87)
      else if 65 \<le> c \<and> c \<le> 70 then Some (c - 55) else None)"

fun strip_prefix :: "pystr \<Rightarrow> pystr \<Rightarrow> pystr option" where
  "strip_prefix [] s = Some s"
| "strip_prefix (p # ps) (c # s) = (if p = c then strip_prefix ps s else None)"
| "strip_prefix (p # ps) [] = None"

definition spaces0 :: "pystr \<Rightarrow> pystr option" where
  "spaces0 s = Some (dropWhile is_space s)"

definition spaces1 :: "pystr \<Rightarrow> pystr option" where
  "spaces1 s = (case s of c # r \<Rightarrow> if is_space c then Some (dropWhile is_space r) else None | [] \<Rightarrow> None)"

fun chain :: "('a \<Rightarrow> 'a option) list \<Rightarrow> 'a \<Rightarrow> 'a option" where
  "chain [] x = Some x"
| "chain (f # fs) x = Option.bind (f x) (chain fs)"

text \<open>
  \<^verbatim>\<open>_VERSION_RE\<close>. No literal of the pattern starts with a space, so the greedy \<^verbatim>\<open>\s*\<close> never
  has to give a character back and the match is deterministic.
\<close>

definition match_version :: "pystr \<Rightarrow> pystr option" where
  "match_version s =
     (case chain [strip_prefix (lit ''parameter''), spaces1, strip_prefix (lit ''logic''), spaces0,
                  strip_prefix (lit ''[31:0]''), spaces1, strip_prefix (lit ''VERSION''), spaces0,
                  strip_prefix (lit ''=''), spaces0, strip_prefix (lit ''32'' @ [39, 104])] s of
        None \<Rightarrow> None
      | Some r \<Rightarrow>
          (let g = takeWhile (\<lambda>c. hex_digit c \<noteq> None \<or> c = 95) r
           in if g = [] then None else Some g))"

fun search_version :: "pystr \<Rightarrow> pystr option" where
  "search_version [] = match_version []"
| "search_version (c # s) =
     (case match_version (c # s) of Some g \<Rightarrow> Some g | None \<Rightarrow> search_version s)"

text \<open>\<^verbatim>\<open>int(s, 16)\<close> of a run of hex digits; the empty run raises \<^verbatim>\<open>ValueError\<close>.\<close>

definition int16 :: "pystr \<Rightarrow> int aem" where
  "int16 s = (if s = [] then Inl ValueError
     else Inr (foldl (\<lambda>v c. 16 * v + (case hex_digit c of Some d \<Rightarrow> int d | None \<Rightarrow> 0)) 0 s))"

definition rtl_version :: "pystr \<Rightarrow> (int \<times> int) aem" where
  "rtl_version src =
     (case search_version src of
        None \<Rightarrow> Inl (Refused NoVersionParameter)
      | Some g \<Rightarrow> rbind (int16 (filter (\<lambda>c. c \<noteq> 95) g))
          (\<lambda>v. Inr (v div 65536 mod 65536, v mod 65536)))"

definition firmware_version_string :: "int \<Rightarrow> pystr \<Rightarrow> pystr aem" where
  "firmware_version_string r src =
     rbind (rtl_version src) (\<lambda>(major, minor). Inr (dec major @ [46] @ dec minor @ [46] @ dec r))"

section \<open>Constants\<close>

text \<open>Descriptor type codes (Table 7-1).\<close>

definition ENTITY :: nat where [simp]: "ENTITY = 0x0000"
definition CONFIGURATION :: nat where [simp]: "CONFIGURATION = 0x0001"
definition AUDIO_UNIT :: nat where [simp]: "AUDIO_UNIT = 0x0002"
definition STREAM_INPUT :: nat where [simp]: "STREAM_INPUT = 0x0005"
definition STREAM_OUTPUT :: nat where [simp]: "STREAM_OUTPUT = 0x0006"
definition AVB_INTERFACE :: nat where [simp]: "AVB_INTERFACE = 0x0009"
definition CLOCK_SOURCE :: nat where [simp]: "CLOCK_SOURCE = 0x000A"
definition LOCALE :: nat where [simp]: "LOCALE = 0x000C"
definition STRINGS :: nat where [simp]: "STRINGS = 0x000D"
definition STREAM_PORT_INPUT :: nat where [simp]: "STREAM_PORT_INPUT = 0x000E"
definition STREAM_PORT_OUTPUT :: nat where [simp]: "STREAM_PORT_OUTPUT = 0x000F"
definition AUDIO_CLUSTER :: nat where [simp]: "AUDIO_CLUSTER = 0x0014"
definition AUDIO_MAP :: nat where [simp]: "AUDIO_MAP = 0x0017"
definition CONTROL :: nat where [simp]: "CONTROL = 0x001A"
definition CLOCK_DOMAIN :: nat where [simp]: "CLOCK_DOMAIN = 0x0024"

definition NO_STRING :: int where [simp]: "NO_STRING = 0xFFFF"

definition RATES :: "int list" where "RATES = [0x0000BB80, 0x00017700, 0x0002EE00]"
definition FORMATS :: "int list" where "FORMATS = [0x0205022000806000, 0x0215022002006000]"
definition OUT_FORMATS :: "int list" where "OUT_FORMATS = [0x0205022000806000]"
definition CRF_FORMATS :: "int list" where "CRF_FORMATS = [0x041060010000BB80]"
definition CTRL_TYPE_IDENTIFY :: int where "CTRL_TYPE_IDENTIFY = 0x90E0F00000000001"
definition CTRL_LINEAR_UINT8 :: int where "CTRL_LINEAR_UINT8 = 0x0001"

text \<open>The object name of each singleton descriptor when a build declares none.\<close>

definition OBJECT_NAMES :: "(string \<times> pystr) list" where
  "OBJECT_NAMES =
     [(''configuration'', lit ''Default''),
      (''audio_unit'', lit ''Audio Unit''),
      (''avb_interface'', lit ''AVB Interface 0''),
      (''clock_domain'', lit ''Clock Reference Format''),
      (''control_identify'', lit ''Identify'')]"

definition LOCALE_IDENTIFIER :: pystr where "LOCALE_IDENTIFIER = lit ''en-EN''"

section \<open>Field encodings\<close>

definition cstr :: "pystr \<Rightarrow> nat \<Rightarrow> byte list aem" where
  "cstr s n = rbind (utf8_encode s) (\<lambda>e. let b = take n e in Inr (b @ replicate (n - length b) 0))"

definition be16 :: "int \<Rightarrow> byte list" where
  "be16 v = be_bytes 2 (v mod 0x10000)"

definition be32 :: "int \<Rightarrow> byte list aem" where
  "be32 v = pack_be 4 v"

definition be64 :: "int \<Rightarrow> byte list" where
  "be64 v = be_bytes 8 (v mod 0x10000000000000000)"

lemma length_be16 [simp, codec]: "length (be16 v) = 2"
  by (simp add: be16_def)

lemma length_be64 [simp, codec]: "length (be64 v) = 8"
  by (simp add: be64_def)

lemma length_be32 [dest, codec]: "be32 v = Inr b \<Longrightarrow> length b = 4"
  unfolding be32_def by (rule pack_be_length)

lemma length_cstr [dest, codec]: "cstr s n = Inr b \<Longrightarrow> length b = n"
  by (auto simp: cstr_def Let_def)

lemma be16_value [codec]: "be_int (be16 v) = v mod 0x10000"
  by (simp add: be16_def be_int_be_bytes)

lemma be64_value [codec]: "be_int (be64 v) = v mod 0x10000000000000000"
  by (simp add: be64_def be_int_be_bytes)

lemma be32_value [codec]: "be32 v = Inr b \<Longrightarrow> be_int b = v"
  unfolding be32_def by (rule pack_be_value)

lemma be32_Inr_iff: "(\<exists>b. be32 v = Inr b) \<longleftrightarrow> 0 \<le> v \<and> v < 2 ^ 32"
  by (simp add: be32_def pack_be_def)

text \<open>The masked encoders never raise: \<^verbatim>\<open>struct.pack\<close> only sees a value in range.\<close>

lemma be16_is_pack: "pack_be 2 (v mod 0x10000) = Inr (be16 v)"
  by (simp add: pack_be_def be16_def)

lemma be64_is_pack: "pack_be 8 (v mod 0x10000000000000000) = Inr (be64 v)"
  by (simp add: pack_be_def be64_def)

section \<open>Descriptors\<close>

record entity_spec =
  e_name :: pystr
  e_firmware_version :: pystr
  e_group_name :: pystr
  e_serial_number :: pystr
  e_vendor_name :: pystr

definition d_entity :: "entity_spec \<Rightarrow> byte list aem" where
  "d_entity e = concatE
     [Inr (be16 (int ENTITY) @ be16 0),
      Inr (be64 0), Inr (be64 0), be32 0,
      Inr (be16 0), Inr (be16 0), Inr (be16 0), Inr (be16 0),
      be32 0, be32 0, Inr (be64 0),
      cstr (e_name e) 64,
      Inr (be16 2 @ be16 0),
      cstr (e_firmware_version e) 64,
      cstr (e_group_name e) 64,
      cstr (e_serial_number e) 64,
      Inr (be16 1), Inr (be16 0)]"

definition configuration_counts :: "int \<Rightarrow> int \<Rightarrow> int \<Rightarrow> (nat \<times> int) list" where
  "configuration_counts n_inputs n_outputs n_clk_sources =
     [(AUDIO_UNIT, 1), (STREAM_INPUT, n_inputs), (STREAM_OUTPUT, n_outputs),
      (AVB_INTERFACE, 1), (CLOCK_DOMAIN, 1), (CLOCK_SOURCE, n_clk_sources),
      (CONTROL, 1), (LOCALE, 1)]"

definition d_configuration :: "int \<Rightarrow> int \<Rightarrow> int \<Rightarrow> pystr \<Rightarrow> byte list aem" where
  "d_configuration n_inputs n_outputs n_clk_sources name =
     (let counts = configuration_counts n_inputs n_outputs n_clk_sources in
      rbind (sized 74 (concatE
        [Inr (be16 (int CONFIGURATION) @ be16 0), cstr name 64,
         Inr (be16 1), Inr (be16 (int (length counts))), Inr (be16 74)]))
      (\<lambda>b. Inr (b @ concat (map (\<lambda>(t, c). be16 (int t) @ be16 c) counts))))"

definition d_audio_unit :: "int list \<Rightarrow> int \<Rightarrow> int \<Rightarrow> int \<Rightarrow> pystr \<Rightarrow> byte list aem" where
  "d_audio_unit rates current_rate n_in_ports n_out_ports name =
     rbind (sized 144 (concatE
       [Inr (be16 (int AUDIO_UNIT) @ be16 0), cstr name 64,
        Inr (be16 NO_STRING), Inr (be16 0),
        Inr (be16 n_in_ports @ be16 0), Inr (be16 n_out_ports @ be16 0),
        Inr (concat (replicate 28 (be16 0))),
        be32 current_rate, Inr (be16 144), Inr (be16 (int (length rates)))]))
     (\<lambda>b. rbind (concatE (map be32 rates)) (\<lambda>r. Inr (b @ r)))"

definition AEM_DESCRIPTOR_MAX_BYTES :: nat where "AEM_DESCRIPTOR_MAX_BYTES = 508"
definition STREAM_FORMATS_OFFSET :: nat where [simp]: "STREAM_FORMATS_OFFSET = 138"
definition STREAM_FORMAT_BYTES :: nat where [simp]: "STREAM_FORMAT_BYTES = 8"
definition MAX_STREAM_FORMATS :: nat where
  "MAX_STREAM_FORMATS = (AEM_DESCRIPTOR_MAX_BYTES - STREAM_FORMATS_OFFSET) div STREAM_FORMAT_BYTES"

definition d_stream :: "nat \<Rightarrow> nat \<Rightarrow> pystr \<Rightarrow> int \<Rightarrow> int list \<Rightarrow> int \<Rightarrow> byte list aem" where
  "d_stream dtype index name flags formats buffer_len =
     rbind (sized 138 (concatE
       [Inr (be16 (int dtype) @ be16 (int index)), cstr name 64,
        Inr (be16 NO_STRING), Inr (be16 0), Inr (be16 flags),
        rbind (py_nth formats 0) (\<lambda>f. Inr (be64 f)),
        Inr (be16 (int STREAM_FORMATS_OFFSET)), Inr (be16 (int (length formats))),
        Inr (concat (replicate 4 (be64 0 @ be16 0))),
        Inr (be16 0), be32 buffer_len,
        Inr (be16 (int (STREAM_FORMATS_OFFSET + STREAM_FORMAT_BYTES * length formats))),
        Inr (be16 0), assertE (flags div 0x2000 mod 2 = 0), Inr (be16 0)]))
     (\<lambda>b. Inr (b @ concat (map be64 formats)))"

text \<open>The \<^verbatim>\<open>gptp\<close> dataset of the overlay: a key that is absent takes the historical constant.\<close>

record gptp_set =
  gp_priority1 :: "int option"
  gp_clock_class :: "int option"
  gp_offset_scaled_log_variance :: "int option"
  gp_clock_accuracy :: "int option"
  gp_priority2 :: "int option"
  gp_domain :: "int option"
  gp_log_sync_interval :: "int option"
  gp_log_announce_interval :: "int option"
  gp_log_pdelay_interval :: "int option"
  gp_port_number :: "int option"

definition gptp_empty :: gptp_set where
  "gptp_empty = \<lparr>gp_priority1 = None, gp_clock_class = None, gp_offset_scaled_log_variance = None,
     gp_clock_accuracy = None, gp_priority2 = None, gp_domain = None, gp_log_sync_interval = None,
     gp_log_announce_interval = None, gp_log_pdelay_interval = None, gp_port_number = None\<rparr>"

definition get_or :: "'a option \<Rightarrow> 'a \<Rightarrow> 'a" where
  "get_or v d = (case v of Some x \<Rightarrow> x | None \<Rightarrow> d)"

definition d_avb_interface :: "gptp_set option \<Rightarrow> pystr \<Rightarrow> byte list aem" where
  "d_avb_interface gpo name =
     (let gp = get_or gpo gptp_empty in
      sized 102 (concatE
        [Inr (be16 (int AVB_INTERFACE) @ be16 0), cstr name 64,
         Inr (be16 NO_STRING), Inr (replicate 6 0), Inr (be16 0x0007), Inr (be64 0),
         concatE [byte_of (get_or (gp_priority1 gp) 0xF8), byte_of (get_or (gp_clock_class gp) 0xF8)],
         Inr (be16 (get_or (gp_offset_scaled_log_variance gp) 0x436A)),
         concatE [byte_of (get_or (gp_clock_accuracy gp) 0x21), byte_of (get_or (gp_priority2 gp) 0xF8),
                  byte_of (get_or (gp_domain gp) 0)],
         concatE [byte_of (get_or (gp_log_sync_interval gp) 0 mod 256),
                  byte_of (get_or (gp_log_announce_interval gp) 0 mod 256),
                  byte_of (get_or (gp_log_pdelay_interval gp) 0 mod 256)],
         Inr (be16 (get_or (gp_port_number gp) 0)),
         Inr (be16 0), Inr (be16 0)]))"

subsection \<open>Clock sources\<close>

text \<open>
  The two shapes of a CLOCK_SOURCE row: a row of a model specification
  (\<^verbatim>\<open>raw_type\<close>/\<^verbatim>\<open>loc_type\<close>/\<^verbatim>\<open>loc_index\<close>) and a row of a builder overlay
  (\<^verbatim>\<open>type\<close>/\<^verbatim>\<open>location_type\<close>/\<^verbatim>\<open>location_index\<close>).
\<close>

record clock_source =
  cs_name :: pystr
  cs_type :: int
  cs_raw_type :: string
  cs_loc_type :: int
  cs_loc_index :: int

record overlay_clock =
  oc_name :: pystr
  oc_type :: string
  oc_location_type :: string
  oc_location_index :: int

datatype clock_row = SpecRow clock_source | OverlayRow overlay_clock

fun row_type :: "clock_row \<Rightarrow> string" where
  "row_type (SpecRow c) = cs_raw_type c"
| "row_type (OverlayRow c) = oc_type c"

fun row_on_stream :: "clock_row \<Rightarrow> bool" where
  "row_on_stream (SpecRow c) = (cs_loc_type c = int STREAM_INPUT)"
| "row_on_stream (OverlayRow c) = (oc_location_type c = ''STREAM_INPUT'')"

fun row_location :: "clock_row \<Rightarrow> int" where
  "row_location (SpecRow c) = cs_loc_index c"
| "row_location (OverlayRow c) = oc_location_index c"

definition clock_source_shape :: "clock_row list \<Rightarrow> nat \<times> nat option" where
  "clock_source_shape rows =
     (length rows, map_option fst (find (\<lambda>(i, c). row_type c = ''crf'') (enum rows)))"

definition CLKSRC_KIND :: "string \<Rightarrow> nat option" where
  "CLKSRC_KIND = map_of [(''internal'', 0), (''crf'', 1), (''input_stream'', 2)]"

definition clock_source_table :: "clock_row list \<Rightarrow> (nat \<times> int option) list aem" where
  "clock_source_table rows = mapE (\<lambda>c.
     let si = (if row_on_stream c then Some (row_location c) else None) in
     case CLKSRC_KIND (row_type c) of None \<Rightarrow> Inl KeyError | Some k \<Rightarrow> Inr (k, si)) rows"

definition d_clock_source :: "nat \<Rightarrow> pystr \<Rightarrow> int \<Rightarrow> int \<Rightarrow> int \<Rightarrow> byte list aem" where
  "d_clock_source index name ctype loc_type loc_index =
     sized 86 (concatE
       [Inr (be16 (int CLOCK_SOURCE) @ be16 (int index)), cstr name 64,
        Inr (be16 NO_STRING), Inr (be16 0x0002), Inr (be16 ctype), Inr (be64 0),
        Inr (be16 loc_type), Inr (be16 loc_index)])"

definition d_clock_domain :: "nat \<Rightarrow> pystr \<Rightarrow> byte list aem" where
  "d_clock_domain n_sources name =
     (let sources = [0..<n_sources] in
      rbind (sized 76 (concatE
        [Inr (be16 (int CLOCK_DOMAIN) @ be16 0), cstr name 64,
         Inr (be16 NO_STRING), Inr (be16 0), Inr (be16 76),
         Inr (be16 (int (length sources)))]))
      (\<lambda>b. Inr (b @ concat (map (\<lambda>s. be16 (int s)) sources))))"

subsection \<open>Control, locale, strings\<close>

definition d_control_identify :: "pystr \<Rightarrow> byte list aem" where
  "d_control_identify name =
     rbind (sized 104 (concatE
       [Inr (be16 (int CONTROL) @ be16 0), cstr name 64,
        Inr (be16 NO_STRING), be32 500, be32 500, Inr (be16 0),
        Inr (be16 CTRL_LINEAR_UINT8), Inr (be64 CTRL_TYPE_IDENTIFY), be32 0,
        Inr (be16 104), Inr (be16 1), Inr (be16 NO_STRING @ be16 0 @ be16 0)]))
     (\<lambda>b. Inr (b @ [0, 255, 255, 0, 0] @ be16 0 @ be16 NO_STRING))"

definition d_locale :: "pystr \<Rightarrow> byte list aem" where
  "d_locale identifier =
     sized 72 (concatE
       [Inr (be16 (int LOCALE) @ be16 0), cstr identifier 64, Inr (be16 1), Inr (be16 0)])"

definition d_strings :: "pystr list \<Rightarrow> byte list aem" where
  "d_strings strs =
     rbind (assertE (length strs = 7)) (\<lambda>_.
       sized 452 (concatE (Inr (be16 (int STRINGS) @ be16 0) # map (\<lambda>s. cstr s 64) strs)))"

subsection \<open>Stream ports, clusters, maps\<close>

record PortMapBounds =
  pb_clusters :: int
  pb_base_cluster :: int
  pb_maps :: int
  pb_base_map :: int

definition d_stream_port :: "nat \<Rightarrow> nat \<Rightarrow> int \<Rightarrow> PortMapBounds \<Rightarrow> byte list aem" where
  "d_stream_port dtype index flags bounds =
     sized 20 (concatE
       [Inr (be16 (int dtype) @ be16 (int index)), Inr (be16 0), Inr (be16 flags),
        Inr (be16 0 @ be16 0),
        Inr (be16 (pb_clusters bounds) @ be16 (pb_base_cluster bounds)),
        Inr (be16 (pb_maps bounds) @ be16 (pb_base_map bounds))])"

definition d_audio_cluster :: "int \<Rightarrow> pystr \<Rightarrow> int \<Rightarrow> byte list aem" where
  "d_audio_cluster index name signal_type =
     sized 90 (concatE
       [Inr (be16 (int AUDIO_CLUSTER) @ be16 index), cstr name 64,
        Inr (be16 NO_STRING), Inr (be16 signal_type), Inr (be16 0 @ be16 0),
        concatE [be32 500, be32 500], Inr (be16 1), Inr [0x40], Inr [0x00], Inr (be16 0)])"

text \<open>A mapping row that does not hold four values cannot be unpacked (\<^verbatim>\<open>ValueError\<close>).\<close>

definition map_row :: "int list \<Rightarrow> byte list aem" where
  "map_row r = (case r of
      [stream, ch, cluster_off, cluster_ch] \<Rightarrow>
        Inr (be16 stream @ be16 ch @ be16 cluster_off @ be16 cluster_ch)
    | _ \<Rightarrow> Inl ValueError)"

definition d_audio_map :: "int \<Rightarrow> int list list \<Rightarrow> byte list aem" where
  "d_audio_map index rows =
     rbind (sized 8 (concatE
       [Inr (be16 (int AUDIO_MAP) @ be16 index), Inr (be16 8), Inr (be16 (int (length rows)))]))
     (\<lambda>b. rbind (concatE (map map_row rows)) (\<lambda>r. Inr (b @ r)))"

section \<open>Lengths: the assertions never fire\<close>

lemmas field_lengths = length_cstr length_be32 byte_of_length

lemma length_concat_uniform:
  "(\<And>x. x \<in> set xs \<Longrightarrow> length (f x) = k) \<Longrightarrow> length (concat (map f xs)) = k * length xs"
  by (induction xs) auto

lemma length_concatE_uniform:
  "concatE (map f xs) = Inr b \<Longrightarrow> (\<And>x y. f x = Inr y \<Longrightarrow> length y = k) \<Longrightarrow> length b = k * length xs"
  by (induction xs arbitrary: b) auto

lemma length_map_row [dest, codec]: "map_row r = Inr b \<Longrightarrow> length b = 8"
  by (auto simp: map_row_def split: list.splits)

lemma d_entity_length: "d_entity e = Inr b \<Longrightarrow> length b = 312"
  by (auto simp: d_entity_def dest!: field_lengths)

lemma d_configuration_length: "d_configuration ni no nc name = Inr b \<Longrightarrow> length b = 106"
  by (auto simp: d_configuration_def configuration_counts_def Let_def)

lemma d_audio_unit_length: "d_audio_unit rates cur ni no name = Inr b \<Longrightarrow> length b = 144 + 4 * length rates"
  by (auto simp: d_audio_unit_def dest: length_concatE_uniform)

lemma d_stream_length:
  "d_stream t i name flags formats len = Inr b \<Longrightarrow> length b = STREAM_FORMATS_OFFSET + STREAM_FORMAT_BYTES * length formats"
  by (auto simp: d_stream_def length_concat_uniform)

lemma d_avb_interface_length: "d_avb_interface gp name = Inr b \<Longrightarrow> length b = 102"
  by (auto simp: d_avb_interface_def Let_def)

lemma d_clock_source_length: "d_clock_source i name ty lt li = Inr b \<Longrightarrow> length b = 86"
  by (auto simp: d_clock_source_def)

lemma d_clock_domain_length: "d_clock_domain n name = Inr b \<Longrightarrow> length b = 76 + 2 * n"
  by (auto simp: d_clock_domain_def Let_def length_concat_uniform)

lemma d_control_identify_length: "d_control_identify name = Inr b \<Longrightarrow> length b = 113"
  by (auto simp: d_control_identify_def)

lemma d_locale_length: "d_locale name = Inr b \<Longrightarrow> length b = 72"
  by (auto simp: d_locale_def)

lemma d_strings_length: "d_strings strs = Inr b \<Longrightarrow> length b = 452"
  by (auto simp: d_strings_def)

lemma d_stream_port_length: "d_stream_port t i flags bounds = Inr b \<Longrightarrow> length b = 20"
  by (auto simp: d_stream_port_def)

lemma d_audio_cluster_length: "d_audio_cluster i name sg = Inr b \<Longrightarrow> length b = 90"
  by (auto simp: d_audio_cluster_def)

lemma d_audio_map_length: "d_audio_map i rows = Inr b \<Longrightarrow> length b = 8 + 8 * length rows"
  by (auto simp: d_audio_map_def dest: length_concatE_uniform)

section \<open>Reading the octets back\<close>

definition u16_at :: "byte list \<Rightarrow> nat \<Rightarrow> int" where
  "u16_at b off = be_int (slice off (off + 2) b)"

definition u32_at :: "byte list \<Rightarrow> nat \<Rightarrow> int" where
  "u32_at b off = be_int (slice off (off + 4) b)"

definition u64_at :: "byte list \<Rightarrow> nat \<Rightarrow> int" where
  "u64_at b off = be_int (slice off (off + 8) b)"

interpretation u16: fixed_width be16 be_int "\<lambda>v. v mod 0x10000" 2
  by unfold_locales (simp_all add: be16_value)

interpretation u64: fixed_width be64 be_int "\<lambda>v. v mod 0x10000000000000000" 8
  by unfold_locales (simp_all add: be64_value)

text \<open>A mapping of an AUDIO_MAP as a fixed-width entry of eight octets.\<close>

definition map_bytes :: "int \<times> int \<times> int \<times> int \<Rightarrow> byte list" where
  "map_bytes r = (case r of (s, c, p, q) \<Rightarrow> be16 s @ be16 c @ be16 p @ be16 q)"

definition read_map :: "byte list \<Rightarrow> int list" where
  "read_map b = [u16_at b 0, u16_at b 2, u16_at b 4, u16_at b 6]"

interpretation mapping: fixed_width map_bytes read_map
  "\<lambda>(s, c, p, q). [s mod 0x10000, c mod 0x10000, p mod 0x10000, q mod 0x10000]" 8
proof unfold_locales
  fix r :: "int \<times> int \<times> int \<times> int"
  show "length (map_bytes r) = 8" by (simp add: map_bytes_def split: prod.splits)
  show "read_map (map_bytes r)
      = (case r of (s, c, p, q) \<Rightarrow> [s mod 0x10000, c mod 0x10000, p mod 0x10000, q mod 0x10000])"
    by (simp add: map_bytes_def read_map_def u16_at_def slice_simps slice_all be16_value split: prod.splits)
qed

lemmas read_defs = u16_at_def u32_at_def u64_at_def

lemma d_stream_shape:
  assumes "d_stream t i name flags formats len = Inr b"
  obtains n l where "cstr name 64 = Inr n" "be32 len = Inr l" "formats \<noteq> []"
    "b = (be16 (int t) @ be16 (int i) @ n @ be16 NO_STRING @ be16 0 @ be16 flags @ be64 (formats ! 0)
       @ be16 138 @ be16 (int (length formats)) @ concat (replicate 4 (be64 0 @ be16 0))
       @ be16 0 @ l @ be16 (138 + 8 * int (length formats)) @ be16 0 @ be16 0)
       @ concat (map be64 formats) @ []"
  using assms by (auto simp: d_stream_def)

lemma d_stream_header:
  assumes "d_stream t i name flags formats len = Inr b"
  shows "u16_at b 0 = int t mod 0x10000" and "u16_at b 2 = int i mod 0x10000"
    and "u64_at b 74 = formats ! 0 mod 0x10000000000000000"
    and "u16_at b 82 = 138" and "u16_at b 84 = int (length formats) mod 0x10000"
    and "u32_at b 128 = len" and "u16_at b 132 = int (length b) mod 0x10000"
    and "cstr name 64 = Inr (slice 4 68 b)"
proof -
  from assms obtain n l where 1: "cstr name 64 = Inr n" "be32 len = Inr l"
    and b: "b = (be16 (int t) @ be16 (int i) @ n @ be16 NO_STRING @ be16 0 @ be16 flags @ be64 (formats ! 0)
       @ be16 138 @ be16 (int (length formats)) @ concat (replicate 4 (be64 0 @ be16 0))
       @ be16 0 @ l @ be16 (138 + 8 * int (length formats)) @ be16 0 @ be16 0)
       @ concat (map be64 formats) @ []"
    by (rule d_stream_shape)
  note len = length_cstr[OF 1(1)] length_be32[OF 1(2)] d_stream_length[OF assms]
  note s = read_defs slice_simps slice_all be16_value be64_value be32_value[OF 1(2)] len(1,2)
  show "u16_at b 0 = int t mod 0x10000" "u16_at b 2 = int i mod 0x10000"
    "u64_at b 74 = formats ! 0 mod 0x10000000000000000" "u16_at b 82 = 138"
    "u16_at b 84 = int (length formats) mod 0x10000" "u32_at b 128 = len"
    unfolding b by (simp_all add: s)
  show "u16_at b 132 = int (length b) mod 0x10000"
    unfolding len(3) unfolding b by (simp add: s)
  show "cstr name 64 = Inr (slice 4 68 b)"
    unfolding b by (simp add: s 1(1))
qed

lemma d_stream_formats:
  assumes "d_stream t i name flags formats len = Inr b" and "k < length formats"
  shows "u64_at b (138 + 8 * k) = formats ! k mod 0x10000000000000000"
  using assms(1)
proof (rule d_stream_shape)
  fix n l
  assume "cstr name 64 = Inr n" "be32 len = Inr l"
    and b: "b = (be16 (int t) @ be16 (int i) @ n @ be16 NO_STRING @ be16 0 @ be16 flags @ be64 (formats ! 0)
       @ be16 138 @ be16 (int (length formats)) @ concat (replicate 4 (be64 0 @ be16 0))
       @ be16 0 @ l @ be16 (138 + 8 * int (length formats)) @ be16 0 @ be16 0)
       @ concat (map be64 formats) @ []"
  then show ?thesis
    unfolding u64_at_def b using assms(2) by (intro u64.table_read) (auto dest!: length_cstr length_be32)
qed

lemma cstr_total_iff: "(\<exists>b. cstr s n = Inr b) \<longleftrightarrow> encodable s"
proof -
  have "(\<exists>b. cstr s n = Inr b) \<longleftrightarrow> (\<exists>e. utf8_encode s = (Inr e :: byte list aem))"
    by (auto simp: cstr_def Let_def)
  then show ?thesis by (simp only: utf8_encode_total_iff)
qed

lemma d_audio_map_bytes:
  assumes "\<And>r. r \<in> set rows \<Longrightarrow> length r = 4"
  shows "d_audio_map i rows = Inr ((be16 (int AUDIO_MAP) @ be16 i @ be16 8 @ be16 (int (length rows)))
    @ concat (map map_bytes (map (\<lambda>r. (r ! 0, r ! 1, r ! 2, r ! 3)) rows)) @ [])"
proof -
  have "concatE (map map_row rows)
      = Inr (concat (map map_bytes (map (\<lambda>r. (r ! 0, r ! 1, r ! 2, r ! 3)) rows)))"
    using assms
  proof (induction rows)
    case Nil
    then show ?case by simp
  next
    case (Cons r rows)
    have "length r = 4" using Cons.prems by simp
    then obtain a b c d where "r = [a, b, c, d]" by (rule length_4_obtain)
    then show ?case using Cons by (simp add: map_row_def map_bytes_def)
  qed
  then show ?thesis by (simp add: d_audio_map_def sized_def)
qed

text \<open>What a controller reads out of the octets of an AUDIO_MAP: the mapping rows.\<close>

definition read_audio_map :: "byte list \<Rightarrow> int list list" where
  "read_audio_map b =
     map (\<lambda>k. read_map (slice (nat (u16_at b 4) + 8 * k) (nat (u16_at b 4) + 8 * k + 8) b))
       [0..<nat (u16_at b 6)]"

text \<open>
  The octets of an AUDIO_MAP descriptor, read through their own mappings_offset
  and number_of_mappings fields, are exactly the rows the model declared, when every value
  fits its u16 field.
\<close>

lemma audio_map_round_trip:
  assumes "\<forall>r \<in> set rows. length r = 4 \<and> (\<forall>v \<in> set r. 0 \<le> v \<and> v < 0x10000)"
    and "length rows < 0x10000"
  shows "map_sum id read_audio_map (d_audio_map i rows) = Inr rows"
proof -
  let ?h = "be16 (int AUDIO_MAP) @ be16 i @ be16 8 @ be16 (int (length rows))"
  let ?q = "map (\<lambda>r. (r ! 0, r ! 1, r ! 2, r ! 3)) rows"
  let ?b = "?h @ concat (map map_bytes ?q) @ []"
  have b: "d_audio_map i rows = Inr ?b" by (rule d_audio_map_bytes) (use assms(1) in auto)
  have f: "nat (u16_at ?b 4) = 8" "nat (u16_at ?b 6) = length rows"
    using assms(2) by (simp_all add: read_defs slice_simps slice_all be16_value)
  have row: "read_map (slice (8 + 8 * k) (8 + 8 * k + 8) ?b) = rows ! k" if "k < length rows" for k
  proof -
    have "read_map (slice (8 + 8 * k) (8 + 8 * k + 8) ?b)
        = (case ?q ! k of (s, c, p, q) \<Rightarrow> [s mod 0x10000, c mod 0x10000, p mod 0x10000, q mod 0x10000])"
      using that by (intro mapping.table_read) simp_all
    moreover have v: "length (rows ! k) = 4" "\<forall>v \<in> set (rows ! k). 0 \<le> v \<and> v < 0x10000"
      using assms(1) that by auto
    moreover obtain s c p q where "rows ! k = [s, c, p, q]" using v(1) by (rule length_4_obtain)
    ultimately show ?thesis using that by simp
  qed
  have "read_audio_map ?b = map (\<lambda>k. rows ! k) [0..<length rows]"
    unfolding read_audio_map_def f using row by (intro map_cong) auto
  then show ?thesis unfolding b by (simp add: map_nth)
qed

lemma d_stream_Inr_iff:
  "(\<exists>b. d_stream t i name flags formats len = Inr b) \<longleftrightarrow>
     encodable name \<and> formats \<noteq> [] \<and> 0 \<le> len \<and> len < 2 ^ 32 \<and> flags div 0x2000 mod 2 = 0"
proof -
  have "(\<exists>b. d_stream t i name flags formats len = Inr b) \<longleftrightarrow>
     (\<exists>b. cstr name 64 = Inr b) \<and> formats \<noteq> [] \<and> (\<exists>b. be32 len = Inr b) \<and> flags div 0x2000 mod 2 = 0"
    (is "?L \<longleftrightarrow> ?R")
  proof
    show "?L \<Longrightarrow> ?R" by (auto simp: d_stream_def)
  next
    assume ?R
    then obtain n l where c: "cstr name 64 = Inr n" "be32 len = Inr l"
      and f: "py_nth formats 0 = (Inr (formats ! 0) :: int aem)" "flags div 0x2000 mod 2 = 0"
      by auto
    from length_cstr[OF c(1)] length_be32[OF c(2)] show ?L
      unfolding d_stream_def c f assertE_def sized_def concatE.simps rbind.simps by simp
  qed
  then show ?thesis unfolding cstr_total_iff be32_Inr_iff by (simp only: conj_assoc)
qed

text \<open>
  A STREAM descriptor is produced exactly when its name is encodable, it declares a
  format, its buffer length fits 32 bits and TIMING_FIELD_VALID is clear; so the length
  assertion of \<^verbatim>\<open>d_stream\<close> never fires.
\<close>

lemma d_stream_outcome:
  "(\<exists>b. d_stream t i name flags formats len = Inr b) \<longleftrightarrow>
     encodable name \<and> formats \<noteq> [] \<and> 0 \<le> len \<and> len < 2 ^ 32 \<and> flags div 0x2000 mod 2 = 0"
  by (rule d_stream_Inr_iff)

text \<open>
  Property C15. Whenever a STREAM descriptor is produced, a controller reading the 1722.1-2021
  offsets finds the type, the index, the padded name, current_format = formats[0] at 74,
  formats_offset 138, the format count, the buffer length, redundant_offset at the end of the
  descriptor, and every declared format in the table; the descriptor is 138 + 8 N octets.
\<close>

theorem d_stream_read_back:
  assumes "d_stream t i name flags formats len = Inr b"
  shows "length b = 138 + 8 * length formats
    \<and> u16_at b 0 = int t mod 0x10000 \<and> u16_at b 2 = int i mod 0x10000
    \<and> cstr name 64 = Inr (slice 4 68 b)
    \<and> u64_at b 74 = formats ! 0 mod 0x10000000000000000
    \<and> u16_at b 82 = 138 \<and> u16_at b 84 = int (length formats) mod 0x10000
    \<and> u32_at b 128 = len \<and> u16_at b 132 = int (length b) mod 0x10000
    \<and> (\<forall>k < length formats. u64_at b (138 + 8 * k) = formats ! k mod 0x10000000000000000)"
  using d_stream_header[OF assms] d_stream_formats[OF assms] d_stream_length[OF assms] by simp

theorem d_stream_read_back_witness:
  "\<exists>b. d_stream STREAM_INPUT 1 (lit ''CRF'') 3 CRF_FORMATS 2126000 = Inr b
     \<and> length b = 146 \<and> u64_at b 74 = 0x041060010000BB80 \<and> u32_at b 128 = 2126000"
proof -
  have "encodable (lit ''CRF'')" by (simp add: encodable_def lit_def)
  then obtain b where b: "d_stream STREAM_INPUT 1 (lit ''CRF'') 3 CRF_FORMATS 2126000 = Inr b"
    using d_stream_Inr_iff[of STREAM_INPUT 1 "lit ''CRF''" 3 CRF_FORMATS 2126000]
    by (auto simp: CRF_FORMATS_def)
  then show ?thesis using d_stream_read_back[OF b] by (auto simp: CRF_FORMATS_def)
qed

text \<open>
  A name field gives the name back: when the UTF-8 form fits the field and the name
  holds no NUL, the octets up to the padding decode to the declared name.
\<close>

lemma cstr_round_trip:
  assumes "cstr s n = Inr b" and "utf8_encode s = (Inr e :: byte list aem)" and "length e \<le> n" and "0 \<notin> set e"
  shows "length b = n \<and> (utf8_decode (takeWhile (\<lambda>x. x \<noteq> 0) b) :: pystr aem) = Inr s"
proof -
  have b: "b = e @ replicate (n - length e) 0" using assms(1-3) by (simp add: cstr_def)
  have "takeWhile (\<lambda>x. x \<noteq> 0) b = e"
    unfolding b using assms(4) by (cases "n - length e") (auto simp: takeWhile_append takeWhile_eq_all_conv)
  then show ?thesis using utf8_round_trip[OF assms(2)] length_cstr[OF assms(1)] by simp
qed

end
