(* ===== verification/Aem_Specs.thy ===== *)
theory Aem_Specs
  imports Aem_Descriptors
begin

text \<open>
  The specification a model is built from (\<^verbatim>\<open>src/avdecc/aem_specs.py\<close>): the record
  \<open>aem_spec\<close> is the dict \<^verbatim>\<open>build_model\<close> consumes, \<open>builtin_spec\<close> the compatibility model and
  \<open>spec_from_overlay\<close> the one derived from an overlay of the end-station builder.

  A dict key the code reads with \<^verbatim>\<open>.get\<close> is an \<open>option\<close> field. The lemmas show that a
  capture-crossbar template marked valid stays inside the fabric's bounds and that the
  templates of a port number the widths of its pool.
\<close>

section \<open>The specification\<close>

record stream_spec =
  ss_name :: pystr
  ss_kind :: "string option"
  ss_formats :: "int list"
  ss_buffer :: "int option"

record cluster_source =
  cl_src :: int
  cl_idxh :: int
  cl_idx :: int
  cl_half :: int
  cl_valid :: "bool option"

record port_spec =
  p_clusters :: int
  p_base_cluster :: int
  p_maps :: int
  p_base_map :: int
  p_map_mode :: "string option"
  p_map_page :: "int option"
  p_stream_index :: "int option"
  p_cluster_sources :: "cluster_source list option"
  p_identity_offset :: "int option"

record aem_spec =
  sp_entity :: entity_spec
  sp_names :: "(string \<times> pystr) list option"
  sp_locale :: "pystr option"
  sp_gptp :: "gptp_set option"
  sp_rates :: "int list"
  sp_current_rate :: int
  sp_rates_string :: pystr
  sp_stream_inputs :: "stream_spec list"
  sp_stream_outputs :: "stream_spec list"
  sp_clock_sources :: "clock_source list"
  sp_ports_in :: "port_spec list"
  sp_ports_out :: "port_spec list"
  sp_audio_maps :: "int list list list"
  sp_cluster_names_in :: "pystr list option"
  sp_cluster_names_out :: "pystr list option"
  sp_lint_waivers :: "pystr list option"

definition is_dynamic :: "port_spec \<Rightarrow> bool" where
  "is_dynamic p = (get_or (p_map_mode p) ''static'' = ''dynamic'')"

definition kind_of :: "stream_spec \<Rightarrow> string" where
  "kind_of s = get_or (ss_kind s) ''aaf''"

definition CS_TYPE :: "(string \<times> int) list" where
  "CS_TYPE = [(''internal'', 0x0000), (''crf'', 0x0002), (''input_stream'', 0x0002)]"

section \<open>The builtin model\<close>

definition builtin_model :: "pystr \<Rightarrow> aem_spec" where
  "builtin_model fw = \<lparr>
       sp_entity = \<lparr>e_name = lit ''Milan FPGA Talker'', e_firmware_version = fw, e_group_name = [],
         e_serial_number = lit ''AX7101-0001'', e_vendor_name = lit ''Kebag Logic''\<rparr>,
       sp_names = None, sp_locale = None,
       sp_gptp = Some \<lparr>gp_priority1 = Some 0xF8, gp_clock_class = Some 0xF8,
         gp_offset_scaled_log_variance = Some 0x436A, gp_clock_accuracy = Some 0xFE,
         gp_priority2 = Some 0xF8, gp_domain = Some 0, gp_log_sync_interval = Some (-3),
         gp_log_announce_interval = Some 0, gp_log_pdelay_interval = Some 0, gp_port_number = Some 1\<rparr>,
       sp_rates = RATES, sp_current_rate = RATES ! 0, sp_rates_string = lit ''48/96/192 kHz'',
       sp_stream_inputs =
         [\<lparr>ss_name = lit ''Stream 1'', ss_kind = Some ''aaf'', ss_formats = FORMATS, ss_buffer = Some 2126000\<rparr>,
          \<lparr>ss_name = lit ''CRF'', ss_kind = Some ''crf'', ss_formats = CRF_FORMATS, ss_buffer = Some 2126000\<rparr>],
       sp_stream_outputs =
         [\<lparr>ss_name = lit ''Stream Output 0'', ss_kind = None, ss_formats = OUT_FORMATS, ss_buffer = None\<rparr>],
       sp_clock_sources =
         [\<lparr>cs_name = lit ''Internal'', cs_type = 0, cs_raw_type = ''internal'',
           cs_loc_type = int CLOCK_SOURCE, cs_loc_index = 0\<rparr>,
          \<lparr>cs_name = lit ''CRF Clock'', cs_type = 2, cs_raw_type = ''crf'',
           cs_loc_type = int STREAM_INPUT, cs_loc_index = 1\<rparr>,
          \<lparr>cs_name = lit ''Stream Clock'', cs_type = 2, cs_raw_type = ''input_stream'',
           cs_loc_type = int STREAM_INPUT, cs_loc_index = 0\<rparr>],
       sp_ports_in =
         [\<lparr>p_clusters = 8, p_base_cluster = 0, p_maps = 0, p_base_map = 0, p_map_mode = Some ''dynamic'',
           p_map_page = Some 8, p_stream_index = None, p_cluster_sources = None, p_identity_offset = None\<rparr>],
       sp_ports_out =
         [\<lparr>p_clusters = 8, p_base_cluster = 8, p_maps = 1, p_base_map = 0, p_map_mode = None,
           p_map_page = None, p_stream_index = None, p_cluster_sources = None, p_identity_offset = None\<rparr>],
       sp_audio_maps = [map (\<lambda>ch. [0, ch, ch, 0]) (map int [0..<8])],
       sp_cluster_names_in = Some (map (\<lambda>n. lit ''I2S Out '' @ dec_nat n) [0..<2]
         @ map (\<lambda>n. lit ''Virtual Out '' @ dec_nat n) [2..<8]),
       sp_cluster_names_out = Some (map (\<lambda>n. lit ''I2S In '' @ dec_nat n) [0..<2]
         @ map (\<lambda>n. lit ''Virtual In '' @ dec_nat n) [2..<8]),
       sp_lint_waivers = None\<rparr>"

text \<open>The firmware version is read out of the gateware source, whose text is the argument.\<close>

definition builtin_spec :: "pystr \<Rightarrow> aem_spec aem" where
  "builtin_spec csr_sv = rbind (firmware_version_string 0 csr_sv) (\<lambda>fw. Inr (builtin_model fw))"

section \<open>Overlays\<close>

text \<open>
  \<^verbatim>\<open>int(s, 16)\<close> of an ASCII text: surrounding white space, one sign, an optional \<^verbatim>\<open>0x\<close> (after
  which one underscore may stand), hex digits with single underscores between them.
\<close>

fun hex_run :: "int \<Rightarrow> bool \<Rightarrow> pystr \<Rightarrow> int option" where
  "hex_run v ok [] = (if ok then Some v else None)"
| "hex_run v ok (c # s) =
     (if c = 95 then (if ok then hex_run v False s else None)
      else case hex_digit c of Some d \<Rightarrow> hex_run (16 * v + int d) True s | None \<Rightarrow> None)"

definition hex_body :: "pystr \<Rightarrow> int option" where
  "hex_body s = (case s of
      c # x # r \<Rightarrow> if c = 48 \<and> (x = 120 \<or> x = 88)
                    then (case r of u # r' \<Rightarrow> if u = 95 then hex_run 0 False r' else hex_run 0 False r
                          | [] \<Rightarrow> None)
                    else hex_run 0 False s
    | _ \<Rightarrow> hex_run 0 False s)"

definition py_int16 :: "pystr \<Rightarrow> int aem" where
  "py_int16 s =
     (let t = rev (dropWhile is_space (rev (dropWhile is_space s)));
          v = (case t of c # r \<Rightarrow> if c = 45 then map_option uminus (hex_body r)
                                  else if c = 43 then hex_body r else hex_body t
               | [] \<Rightarrow> None)
      in case v of Some n \<Rightarrow> Inr n | None \<Rightarrow> Inl ValueError)"

record pool_group =
  pg_role :: string
  pg_offset :: int
  pg_width :: int

record overlay_port =
  op_clusters :: int
  op_base_cluster :: int
  op_maps :: int
  op_base_map :: int
  op_map_mode :: "string option"
  op_map_page :: "int option"
  op_stream_index :: "int option"
  op_pool :: "pool_group list option"
  op_primary_role :: "string option"

record overlay_stream =
  os_name :: pystr
  os_kind :: "string option"
  os_formats :: "pystr list"
  os_buffer_length_ns :: "int option"

record overlay_entity =
  oe_name :: pystr
  oe_firmware_version :: "pystr option"
  oe_group_name :: "pystr option"
  oe_serial_number :: pystr
  oe_vendor_name :: "pystr option"
  oe_locale :: "pystr option"

record overlay_map =
  om_index :: int
  om_mappings :: "int list list"

record overlay_cluster =
  ol_index :: int
  ol_name :: pystr
  ol_direction :: string

record overlay =
  ov_schema :: "string option"
  ov_schema_version :: "string option"
  ov_entity :: overlay_entity
  ov_sampling_rates_hz :: "int list"
  ov_current_sampling_rate_hz :: int
  ov_stream_inputs :: "overlay_stream list"
  ov_stream_outputs :: "overlay_stream list"
  ov_clock_sources :: "overlay_clock list"
  ov_ports_in :: "overlay_port list"
  ov_ports_out :: "overlay_port list"
  ov_audio_maps :: "overlay_map list"
  ov_audio_clusters :: "overlay_cluster list option"
  ov_names :: "(string \<times> pystr) list option"
  ov_gptp :: "gptp_set option"
  ov_loopback_lane :: "bool option option"
  ov_model_lint_waivers :: "pystr list option"

definition out_identity_offset :: "overlay_port \<Rightarrow> int" where
  "out_identity_offset p =
     (case find (\<lambda>g. Some (pg_role g) = op_primary_role p) (get_or (op_pool p) []) of
        Some g \<Rightarrow> pg_offset g | None \<Rightarrow> 0)"

definition rx_channels :: "overlay_stream list \<Rightarrow> (nat \<times> nat) list aem" where
  "rx_channels inputs = concatE (map (\<lambda>(si, s).
     if get_or (os_kind s) ''aaf'' \<noteq> ''aaf'' then Inr []
     else rbind (py_nth (os_formats s) 0) (\<lambda>f. rbind (py_int16 f) (\<lambda>n.
       Inr (map (Pair si) [0..<nat (n div 2 ^ 22 mod 1024)])))) (enum inputs))"

definition pool_source :: "bool \<Rightarrow> (nat \<times> nat) list \<Rightarrow> nat \<Rightarrow> string \<Rightarrow> nat \<Rightarrow> cluster_source aem" where
  "pool_source lb_lane rx j role n =
     (if role = ''physical'' then
        Inr \<lparr>cl_src = 2, cl_idxh = 0, cl_idx = int (n div 2), cl_half = int (n mod 2),
             cl_valid = Some (n div 2 < 4)\<rparr>
      else if role = ''pilot'' then
        Inr \<lparr>cl_src = 4, cl_idxh = 0, cl_idx = 0, cl_half = 0, cl_valid = Some True\<rparr>
      else if role = ''loopback'' then
        (let (si, c) =
           (if rx \<noteq> [] then
              (let start = (case find (\<lambda>(k, s, ch). s = j \<and> ch = 0) (enum rx) of
                              Some (k, _) \<Rightarrow> k | None \<Rightarrow> 0)
               in rx ! ((start + n) mod length rx))
            else (0, n))
         in Inr \<lparr>cl_src = 5, cl_idxh = int si, cl_idx = int (c div 2), cl_half = int (c mod 2),
                 cl_valid = Some (lb_lane \<and> si < 8 \<and> c < 8)\<rparr>)
      else if role = ''virtual'' then
        Inr \<lparr>cl_src = 0, cl_idxh = 0, cl_idx = 0, cl_half = int (n mod 2), cl_valid = Some False\<rparr>
      else Inl (Refused (UnsupportedRole role)))"

definition out_cluster_sources :: "overlay \<Rightarrow> nat \<Rightarrow> overlay_port \<Rightarrow> cluster_source list option aem" where
  "out_cluster_sources ovl j p =
     (if get_or (op_map_mode p) ''static'' \<noteq> ''dynamic'' then Inr None
      else if get_or (op_pool p) [] = [] then Inl (Refused (NoSourcePool j))
      else rbind (rx_channels (ov_stream_inputs ovl)) (\<lambda>rx.
        let lb_lane = get_or (get_or (ov_loopback_lane ovl) None) True in
        rbind (concatE (map (\<lambda>g. mapE (pool_source lb_lane rx j (pg_role g)) [0..<nat (pg_width g)])
                          (get_or (op_pool p) [])))
          (\<lambda>srcs. Inr (Some srcs))))"

definition overlay_names :: "overlay \<Rightarrow> (string \<times> pystr) list aem" where
  "overlay_names ovl =
     (let names = get_or (ov_names ovl) [] in
      if list_all (\<lambda>(k, _). k \<in> set (map fst OBJECT_NAMES)) names then Inr names
      else Inl (Refused UnknownNames))"

definition or_none :: "'a list \<Rightarrow> 'a list option" where
  "or_none xs = (if xs = [] then None else Some xs)"

fun join :: "pystr \<Rightarrow> pystr list \<Rightarrow> pystr" where
  "join sep [] = []"
| "join sep [x] = x"
| "join sep (x # y # zs) = x @ sep @ join sep (y # zs)"

text \<open>\<^verbatim>\<open>any(s["kind"] == "crf" for s in ...)\<close>: a row without the key raises unless one before it matched.\<close>

fun any_crf :: "overlay_stream list \<Rightarrow> bool aem" where
  "any_crf [] = Inr False"
| "any_crf (s # ss) =
     (case os_kind s of None \<Rightarrow> Inl KeyError | Some k \<Rightarrow> if k = ''crf'' then Inr True else any_crf ss)"

text \<open>\<^verbatim>\<open>CS_RETIRED\<close> is empty, so the refusal of a retired type cannot be taken.\<close>

fun check_clock_types :: "overlay_clock list \<Rightarrow> unit aem" where
  "check_clock_types [] = Inr ()"
| "check_clock_types (c # cs) =
     (if map_of CS_TYPE (oc_type c) = None then Inl (Refused (UnknownClockSource (oc_type c)))
      else check_clock_types cs)"

definition overlay_input :: "overlay_stream \<Rightarrow> stream_spec aem" where
  "overlay_input s = (case os_kind s of
      None \<Rightarrow> Inl KeyError
    | Some k \<Rightarrow> rbind (mapE py_int16 (os_formats s)) (\<lambda>fs.
        Inr \<lparr>ss_name = os_name s, ss_kind = Some k, ss_formats = fs,
             ss_buffer = Some (get_or (os_buffer_length_ns s) 2126000)\<rparr>))"

definition overlay_output :: "overlay_stream \<Rightarrow> stream_spec aem" where
  "overlay_output s = rbind (mapE py_int16 (os_formats s)) (\<lambda>fs.
     Inr \<lparr>ss_name = os_name s, ss_kind = Some (get_or (os_kind s) ''aaf''), ss_formats = fs, ss_buffer = None\<rparr>)"

definition overlay_clock_source :: "overlay_clock \<Rightarrow> clock_source aem" where
  "overlay_clock_source c =
     (case (map_of CS_TYPE (oc_type c),
            map_of [(''CLOCK_SOURCE'', CLOCK_SOURCE), (''STREAM_INPUT'', STREAM_INPUT)] (oc_location_type c)) of
        (Some ty, Some lt) \<Rightarrow> Inr \<lparr>cs_name = oc_name c, cs_type = ty, cs_raw_type = oc_type c,
           cs_loc_type = int lt, cs_loc_index = oc_location_index c\<rparr>
      | _ \<Rightarrow> Inl KeyError)"

definition overlay_port_in :: "overlay_port \<Rightarrow> port_spec" where
  "overlay_port_in p =
     \<lparr>p_clusters = op_clusters p, p_base_cluster = op_base_cluster p, p_maps = op_maps p,
      p_base_map = op_base_map p, p_map_mode = Some (get_or (op_map_mode p) ''static''),
      p_map_page = op_map_page p, p_stream_index = None, p_cluster_sources = None,
      p_identity_offset = None\<rparr>"

definition overlay_port_out :: "overlay \<Rightarrow> nat \<times> overlay_port \<Rightarrow> port_spec aem" where
  "overlay_port_out ovl jp = (case jp of (j, p) \<Rightarrow>
     rbind (out_cluster_sources ovl j p) (\<lambda>srcs. Inr
       \<lparr>p_clusters = op_clusters p, p_base_cluster = op_base_cluster p, p_maps = op_maps p,
        p_base_map = op_base_map p, p_map_mode = Some (get_or (op_map_mode p) ''static''),
        p_map_page = None, p_stream_index = Some (get_or (op_stream_index p) (int j)),
        p_cluster_sources = srcs, p_identity_offset = Some (out_identity_offset p)\<rparr>))"

definition overlay_cluster_names :: "overlay \<Rightarrow> string \<Rightarrow> pystr list option" where
  "overlay_cluster_names ovl dir =
     or_none (map ol_name (filter (\<lambda>c. ol_direction c = dir)
       (sort_key ol_index (get_or (ov_audio_clusters ovl) []))))"

definition spec_from_overlay :: "overlay \<Rightarrow> aem_spec aem" where
  "spec_from_overlay ovl =
     rbind (ensure (ov_schema ovl = Some ''kebag-logic/aem-overlay'') (Refused NotAnOverlay)) (\<lambda>_.
     rbind (ensure (take 2 (get_or (ov_schema_version ovl) []) = ''2.'') (Refused BadSchemaVersion)) (\<lambda>_.
     let ent = ov_entity ovl; rates_hz = ov_sampling_rates_hz ovl in
     rbind (ensure (list_all (\<lambda>hz. hz \<in> {48000, 96000, 192000}) rates_hz)
              (Refused (UnsupportedRates rates_hz))) (\<lambda>_.
     case oe_firmware_version ent of None \<Rightarrow> Inl (Refused NoFirmwareVersion) | Some fw \<Rightarrow>
     rbind (any_crf (ov_stream_inputs ovl)) (\<lambda>crf.
     rbind (ensure crf (Refused NoCrfSink)) (\<lambda>_.
     rbind (check_clock_types (ov_clock_sources ovl)) (\<lambda>_.
     rbind (overlay_names ovl) (\<lambda>names.
     rbind (mapE overlay_input (ov_stream_inputs ovl)) (\<lambda>sis.
     rbind (mapE overlay_output (ov_stream_outputs ovl)) (\<lambda>sos.
     rbind (mapE overlay_clock_source (ov_clock_sources ovl)) (\<lambda>clks.
     rbind (mapE (overlay_port_out ovl) (enum (ov_ports_out ovl))) (\<lambda>pouts. Inr \<lparr>
       sp_entity = \<lparr>e_name = oe_name ent, e_firmware_version = fw,
         e_group_name = get_or (oe_group_name ent) [], e_serial_number = oe_serial_number ent,
         e_vendor_name = get_or (oe_vendor_name ent) (lit ''Kebag Logic'')\<rparr>,
       sp_names = Some names, sp_locale = oe_locale ent, sp_gptp = ov_gptp ovl,
       sp_rates = rates_hz, sp_current_rate = ov_current_sampling_rate_hz ovl,
       sp_rates_string = join (lit ''/'') (map (\<lambda>hz. dec (hz div 1000)) rates_hz) @ lit '' kHz'',
       sp_stream_inputs = sis, sp_stream_outputs = sos, sp_clock_sources = clks,
       sp_ports_in = map overlay_port_in (ov_ports_in ovl), sp_ports_out = pouts,
       sp_audio_maps = map om_mappings (sort_key om_index (ov_audio_maps ovl)),
       sp_cluster_names_in = overlay_cluster_names ovl ''input'',
       sp_cluster_names_out = overlay_cluster_names ovl ''output'',
       sp_lint_waivers = Some (get_or (ov_model_lint_waivers ovl) [])\<rparr>)))))))))))"

section \<open>What a derived specification satisfies\<close>

lemma enum_mem_conv: "x \<in> set (enum xs) \<longleftrightarrow> fst x < length xs \<and> snd x = xs ! fst x"
  by (cases x) (simp add: in_set_enum)

text \<open>The bounds of the capture crossbar: four pair holds, eight loopback streams of four pairs.\<close>

definition source_in_fabric :: "cluster_source \<Rightarrow> bool" where
  "source_in_fabric c =
     (cl_src c \<in> {2, 4, 5} \<and> 0 \<le> cl_idxh c \<and> cl_idxh c < 8 \<and> 0 \<le> cl_idx c \<and> cl_idx c < 4
      \<and> cl_half c \<in> {0, 1})"

lemma pool_source_bounds:
  assumes "pool_source lb rx j role n = Inr c" and "cl_valid c = Some True"
  shows "source_in_fabric c" and "cl_src c = 5 \<longrightarrow> lb"
  using assms by (auto simp: pool_source_def source_in_fabric_def Let_def split: if_splits prod.splits)

lemma pool_source_valid_present: "pool_source lb rx j role n = Inr c \<Longrightarrow> cl_valid c \<noteq> None"
  by (auto simp: pool_source_def Let_def split: if_splits prod.splits)

lemma concatE_mem:
  "concatE rs = Inr xs \<Longrightarrow> x \<in> set xs \<Longrightarrow> \<exists>r ys. r \<in> set rs \<and> r = Inr ys \<and> x \<in> set ys"
proof (induction rs arbitrary: xs)
  case Nil
  then show ?case by simp
next
  case (Cons r rs)
  then obtain b c where r: "r = Inr b" "concatE rs = Inr c" "xs = b @ c" by auto
  show ?case
  proof (cases "x \<in> set b")
    case True
    with r(1) show ?thesis by auto
  next
    case False
    with Cons.prems(2) r(3) have "x \<in> set c" by simp
    from Cons.IH[OF r(2) this] show ?thesis by auto
  qed
qed

lemma length_concatE_map:
  "concatE (map f xs) = Inr ys \<Longrightarrow> (\<And>x y. x \<in> set xs \<Longrightarrow> f x = Inr y \<Longrightarrow> length y = g x)
    \<Longrightarrow> length ys = sum_list (map g xs)"
  by (induction xs arbitrary: ys) auto

text \<open>
  Every capture-crossbar template of a dynamic output port that is marked valid
  addresses a source the fabric has, and a loopback template is valid only on a bitstream
  that elaborates the loopback lane; the port has exactly one template per pool channel.
\<close>

lemma out_cluster_sources_in_fabric:
  assumes "out_cluster_sources ovl j p = Inr (Some srcs)"
  shows "(\<forall>c \<in> set srcs. cl_valid c = Some True \<longrightarrow>
            source_in_fabric c \<and> (cl_src c = 5 \<longrightarrow> get_or (get_or (ov_loopback_lane ovl) None) True))
    \<and> (\<forall>c \<in> set srcs. cl_valid c \<noteq> None)
    \<and> length srcs = (\<Sum>g \<leftarrow> get_or (op_pool p) []. nat (pg_width g))"
proof -
  let ?lb = "get_or (get_or (ov_loopback_lane ovl) None) True"
  obtain rx where c: "concatE (map (\<lambda>g. mapE (pool_source ?lb rx j (pg_role g)) [0..<nat (pg_width g)])
      (get_or (op_pool p) [])) = Inr srcs"
    using assms by (auto simp: out_cluster_sources_def Let_def split: if_splits)
  have src: "\<exists>role n. pool_source ?lb rx j role n = Inr x" if "x \<in> set srcs" for x
  proof -
    from concatE_mem[OF c that] obtain r ys where
      r: "r \<in> set (map (\<lambda>g. mapE (pool_source ?lb rx j (pg_role g)) [0..<nat (pg_width g)]) (get_or (op_pool p) []))"
      "r = Inr ys" "x \<in> set ys" by blast
    from r(1,2) obtain g :: pool_group where
      "mapE (pool_source ?lb rx j (pg_role g)) [0..<nat (pg_width g)] = Inr ys" by auto
    with r(3) show ?thesis by (fastforce simp: mapE_Inr_iff list_all2_conv_all_nth in_set_conv_nth)
  qed
  have "length srcs = (\<Sum>g \<leftarrow> get_or (op_pool p) []. nat (pg_width g))"
    using c by (rule length_concatE_map) (auto dest: mapE_length)
  with src show ?thesis by (metis pool_source_bounds pool_source_valid_present)
qed

text \<open>A small overlay: one AAF listener, the CRF sink, one talker on a dynamic port with a role pool.\<close>

definition sample_overlay :: overlay where
  "sample_overlay = \<lparr>
     ov_schema = Some ''kebag-logic/aem-overlay'', ov_schema_version = Some ''2.1'',
     ov_entity = \<lparr>oe_name = lit ''Sample'', oe_firmware_version = Some (lit ''2.67.0''), oe_group_name = None,
       oe_serial_number = lit ''S-1'', oe_vendor_name = None, oe_locale = None\<rparr>,
     ov_sampling_rates_hz = [48000], ov_current_sampling_rate_hz = 48000,
     ov_stream_inputs =
       [\<lparr>os_name = lit ''In'', os_kind = Some ''aaf'', os_formats = [lit ''0205022000806000''], os_buffer_length_ns = None\<rparr>,
        \<lparr>os_name = lit ''CRF'', os_kind = Some ''crf'', os_formats = [lit ''041060010000BB80''], os_buffer_length_ns = None\<rparr>],
     ov_stream_outputs =
       [\<lparr>os_name = lit ''Out'', os_kind = None, os_formats = [lit ''0205022000806000''], os_buffer_length_ns = None\<rparr>],
     ov_clock_sources =
       [\<lparr>oc_name = lit ''Internal'', oc_type = ''internal'', oc_location_type = ''CLOCK_SOURCE'', oc_location_index = 0\<rparr>],
     ov_ports_in =
       [\<lparr>op_clusters = 2, op_base_cluster = 0, op_maps = 0, op_base_map = 0, op_map_mode = Some ''dynamic'',
         op_map_page = None, op_stream_index = None, op_pool = None, op_primary_role = None\<rparr>],
     ov_ports_out =
       [\<lparr>op_clusters = 3, op_base_cluster = 2, op_maps = 0, op_base_map = 0, op_map_mode = Some ''dynamic'',
         op_map_page = None, op_stream_index = None,
         op_pool = Some [\<lparr>pg_role = ''pilot'', pg_offset = 0, pg_width = 1\<rparr>,
                         \<lparr>pg_role = ''loopback'', pg_offset = 1, pg_width = 2\<rparr>],
         op_primary_role = Some ''loopback''\<rparr>],
     ov_audio_maps = [], ov_audio_clusters = None, ov_names = None, ov_gptp = None,
     ov_loopback_lane = None, ov_model_lint_waivers = None\<rparr>"

definition sample_sources :: "cluster_source list" where
  "sample_sources =
     [\<lparr>cl_src = 4, cl_idxh = 0, cl_idx = 0, cl_half = 0, cl_valid = Some True\<rparr>,
      \<lparr>cl_src = 5, cl_idxh = 0, cl_idx = 0, cl_half = 0, cl_valid = Some True\<rparr>,
      \<lparr>cl_src = 5, cl_idxh = 0, cl_idx = 0, cl_half = 1, cl_valid = Some True\<rparr>]"

lemma sample_sources: "out_cluster_sources sample_overlay 0 (ov_ports_out sample_overlay ! 0) = Inr (Some sample_sources)"
  by code_simp

end
