(* ===== verification/Aem_Maps.thy ===== *)
theory Aem_Maps
  imports Aem_Specs
begin

text \<open>
  The AUDIO_MAP gate (\<^verbatim>\<open>src/avdecc/aem_maps.py\<close>): the bounds every static mapping has to
  satisfy and the per-port serving tables built from them. \<open>static_map_tables\<close> returns the
  tables or the refusal; the lemmas give the exact condition under which each direction is
  accepted, what the tables then hold, and which deviations are recorded.

  The deviation texts and the position texts of the messages are structured values here: a
  text holds exactly the fields of its value, so two texts are equal exactly when the values are.
\<close>

unbundle bit_operations_syntax

section \<open>Stream formats\<close>

definition fmt_channels :: "int \<Rightarrow> int option" where
  "fmt_channels fmt = (if drop_bit 56 fmt \<noteq> 0x02 then None else Some (drop_bit 22 fmt AND 0x3FF))"

definition MILAN_BASE_CHANNELS :: "int list" where
  "MILAN_BASE_CHANNELS = [1, 2, 4, 6, 8]"

datatype fmt_arg = FmtInt int | FmtStr pystr

fun fmt_value :: "fmt_arg \<Rightarrow> int aem" where
  "fmt_value (FmtInt n) = Inr n"
| "fmt_value (FmtStr s) = py_int16 s"

definition cover_one :: "int \<Rightarrow> int \<Rightarrow> int set" where
  "cover_one rate_fmt n =
     (let ut = drop_bit 52 n AND 1; ch = drop_bit 22 n AND 0x3FF in
      if n AND NOT (push_bit 52 1 OR push_bit 22 0x3FF) \<noteq> rate_fmt then {}
      else if ut = 1 then set (filter (\<lambda>c. c \<le> ch) MILAN_BASE_CHANNELS)
      else {ch} \<inter> set MILAN_BASE_CHANNELS)"

definition base_channel_cover :: "fmt_arg list \<Rightarrow> int \<Rightarrow> int set aem" where
  "base_channel_cover fmts rate_fmt =
     foldE (\<lambda>f got. rbind (fmt_value f) (\<lambda>n. Inr (got \<union> cover_one rate_fmt n))) fmts {}"

section \<open>The gate\<close>

definition SMAP_MAX_PORTS :: nat where "SMAP_MAX_PORTS = 32"
definition SMAP_MAX_ROWS :: nat where "SMAP_MAX_ROWS = 62"
definition SMAP_CLUSTER_CHANNELS :: int where "SMAP_CLUSTER_CHANNELS = 1"

text \<open>A recorded deviation: direction, port, AUDIO_MAP, mapping, widest channel count, formats.\<close>

datatype deviation = Deviation string nat int "int list" int "int list"

definition KNOWN_MAP_DEVIATIONS :: "deviation set" where
  "KNOWN_MAP_DEVIATIONS =
     set (map (\<lambda>c. Deviation ''OUTPUT'' 0 0 [0, c, c, 0] 2 [0x205022000806000]) (map int [2..<8]))"

definition assert_no_map_deviations :: "deviation list \<Rightarrow> deviation set \<Rightarrow> deviation set aem" where
  "assert_no_map_deviations deviations allow =
     (if set deviations - allow \<noteq> {} then Inl (Refused UnrecordedDeviation) else Inr (set deviations))"

record MapDirection =
  md_direction :: string
  md_ports :: "port_spec list"
  md_n_streams :: int
  md_stream_specs :: "stream_spec list"

definition is_input :: "MapDirection \<Rightarrow> bool" where
  "is_input side = (md_direction side = ''INPUT'')"

definition static_map_of :: "MapDirection \<Rightarrow> nat \<Rightarrow> port_spec \<Rightarrow> int list list list \<Rightarrow> (int \<times> int list list) aem" where
  "static_map_of side k port maps =
     (let bm = p_base_map port in
      if p_maps port \<noteq> 1 then Inl (Refused (BadNumberOfMaps (is_input side) k (p_maps port)))
      else if \<not> (0 \<le> bm \<and> bm < int (length maps)) then Inl (Refused (BadBaseMap (is_input side) k bm))
      else let rows = maps ! nat bm in
        if length rows > SMAP_MAX_ROWS then Inl (Refused (TooManyMappings (is_input side) k bm (length rows)))
        else Inr (bm, rows))"

text \<open>The channel counts of the formats that carry audio.\<close>

definition stream_channels :: "stream_spec \<Rightarrow> int list" where
  "stream_channels s = List.map_filter fmt_channels (ss_formats s)"

definition map_row_bounds ::
  "MapDirection \<Rightarrow> nat \<Rightarrow> int \<Rightarrow> int \<times> int \<times> int \<times> int \<Rightarrow> port_spec \<Rightarrow> deviation option aem" where
  "map_row_bounds side k bm row port = (case row of (si, sc, co, cc) \<Rightarrow>
     if co \<ge> p_clusters port then Inl (Refused (BadClusterOffset (is_input side) k [si, sc, co, cc]))
     else if cc \<ge> SMAP_CLUSTER_CHANNELS then Inl (Refused (BadClusterChannel (is_input side) k [si, sc, co, cc]))
     else if si \<ge> md_n_streams side then Inl (Refused (BadStreamIndex (is_input side) k [si, sc, co, cc]))
     else rbind (py_nth (md_stream_specs side) si) (\<lambda>s.
       let chans = stream_channels s in
       if chans = [] then Inl (Refused (NoChannelFormat (is_input side) k [si, sc, co, cc]))
       else if sc \<ge> Max (set chans)
       then Inr (Some (Deviation (md_direction side) k bm [si, sc, co, cc] (Max (set chans)) (ss_formats s)))
       else Inr None))"

type_synonym seen_pairs = "(int \<times> int) list"

definition map_duplicate_rule ::
  "MapDirection \<Rightarrow> nat \<Rightarrow> int \<times> int \<times> int \<times> int \<Rightarrow> seen_pairs \<Rightarrow> seen_pairs \<Rightarrow> (seen_pairs \<times> seen_pairs) aem" where
  "map_duplicate_rule side k row seen cfg_stream_ch = (case row of (si, sc, co, cc) \<Rightarrow>
     if is_input side then
       (if (co, cc) \<in> set seen then Inl (Refused (DuplicateCluster True k [si, sc, co, cc]))
        else Inr (seen @ [(co, cc)], cfg_stream_ch))
     else
       (if (si, sc) \<in> set cfg_stream_ch then Inl (Refused (DuplicateStreamChannel False k [si, sc, co, cc]))
        else Inr (seen, cfg_stream_ch @ [(si, sc)])))"

text \<open>\<^verbatim>\<open>si, sc, co, cc = row\<close>: a row of any other length raises \<^verbatim>\<open>ValueError\<close>.\<close>

definition unpack4 :: "int list \<Rightarrow> (int \<times> int \<times> int \<times> int) aem" where
  "unpack4 r = (case r of [a, b, c, d] \<Rightarrow> Inr (a, b, c, d) | _ \<Rightarrow> Inl ValueError)"

definition map_row_step ::
  "MapDirection \<Rightarrow> nat \<Rightarrow> int \<Rightarrow> port_spec \<Rightarrow> int list
     \<Rightarrow> deviation list \<times> seen_pairs \<times> seen_pairs \<Rightarrow> (deviation list \<times> seen_pairs \<times> seen_pairs) aem" where
  "map_row_step side k bm p r st = (case st of (devs, seen, cfg) \<Rightarrow>
     rbind (unpack4 r) (\<lambda>row.
     rbind (map_row_bounds side k bm row p) (\<lambda>d.
     rbind (map_duplicate_rule side k row seen cfg) (\<lambda>(seen', cfg').
       Inr (devs @ (case d of Some x \<Rightarrow> [x] | None \<Rightarrow> []), seen', cfg')))))"

record direction_tables =
  dt_addr :: "nat list"
  dt_rows :: "nat list"
  dt_moff :: "int list"
  dt_devs :: "deviation list"
  dt_cfg :: seen_pairs

definition port_step ::
  "MapDirection \<Rightarrow> int list list list \<Rightarrow> (nat \<Rightarrow> nat \<Rightarrow> nat aem) \<Rightarrow> nat \<times> port_spec
     \<Rightarrow> direction_tables \<Rightarrow> direction_tables aem" where
  "port_step side maps base_of kp t = (case kp of (k, p) \<Rightarrow>
     if is_dynamic p then
       Inr (t\<lparr>dt_addr := dt_addr t @ [0], dt_rows := dt_rows t @ [0], dt_moff := dt_moff t @ [0]\<rparr>)
     else rbind (static_map_of side k p maps) (\<lambda>(bm, rows).
       rbind (foldE (map_row_step side k bm p) rows (dt_devs t, [], dt_cfg t)) (\<lambda>(devs, seen, cfg).
       rbind (base_of AUDIO_MAP (nat bm)) (\<lambda>a.
       rbind (d_audio_map bm rows) (\<lambda>img.
         Inr \<lparr>dt_addr = dt_addr t @ [a], dt_rows = dt_rows t @ [length rows],
              dt_moff = dt_moff t @ [u16_at img 4], dt_devs = devs, dt_cfg = cfg\<rparr>)))))"

definition no_tables :: direction_tables where
  "no_tables = \<lparr>dt_addr = [], dt_rows = [], dt_moff = [], dt_devs = [], dt_cfg = []\<rparr>"

definition direction_tables_of ::
  "MapDirection \<Rightarrow> int list list list \<Rightarrow> (nat \<Rightarrow> nat \<Rightarrow> nat aem) \<Rightarrow> direction_tables aem" where
  "direction_tables_of side maps base_of = foldE (port_step side maps base_of) (enum (md_ports side)) no_tables"

record smap_tables =
  IN_N :: nat
  OUT_N :: nat
  IN_ADDR :: "nat list"
  IN_ROWS :: "nat list"
  IN_MOFF :: "int list"
  OUT_ADDR :: "nat list"
  OUT_ROWS :: "nat list"
  OUT_MOFF :: "int list"
  DEVIATIONS :: "deviation list"

definition or_zero :: "'a::zero list \<Rightarrow> 'a list" where
  "or_zero xs = (if xs = [] then [0] else xs)"

definition map_inputs :: "aem_spec \<Rightarrow> nat \<Rightarrow> MapDirection" where
  "map_inputs spec n = \<lparr>md_direction = ''INPUT'', md_ports = sp_ports_in spec, md_n_streams = int n,
     md_stream_specs = sp_stream_inputs spec\<rparr>"

definition map_outputs :: "aem_spec \<Rightarrow> nat \<Rightarrow> MapDirection" where
  "map_outputs spec n = \<lparr>md_direction = ''OUTPUT'', md_ports = sp_ports_out spec, md_n_streams = int n,
     md_stream_specs = sp_stream_outputs spec\<rparr>"

definition static_map_tables :: "aem_spec \<Rightarrow> (nat \<Rightarrow> nat \<Rightarrow> nat aem) \<Rightarrow> nat \<Rightarrow> nat \<Rightarrow> smap_tables aem" where
  "static_map_tables spec base_of n_str_in n_str_out =
     (if length (sp_ports_in spec) > SMAP_MAX_PORTS \<or> length (sp_ports_out spec) > SMAP_MAX_PORTS
      then Inl (Refused TooManyPorts)
      else
        rbind (direction_tables_of (map_inputs spec n_str_in) (sp_audio_maps spec) base_of) (\<lambda>i.
        rbind (direction_tables_of (map_outputs spec n_str_out) (sp_audio_maps spec) base_of) (\<lambda>u.
          Inr \<lparr>IN_N = length (dt_addr i), OUT_N = length (dt_addr u),
               IN_ADDR = or_zero (dt_addr i), IN_ROWS = or_zero (dt_rows i), IN_MOFF = or_zero (dt_moff i),
               OUT_ADDR = or_zero (dt_addr u), OUT_ROWS = or_zero (dt_rows u), OUT_MOFF = or_zero (dt_moff u),
               DEVIATIONS = dt_devs i @ dt_devs u\<rparr>)))"

section \<open>What the gate accepts\<close>

definition quad :: "int list \<Rightarrow> int \<times> int \<times> int \<times> int" where
  "quad r = (r ! 0, r ! 1, r ! 2, r ! 3)"

definition mapping_stream :: "MapDirection \<Rightarrow> int \<Rightarrow> stream_spec option" where
  "mapping_stream side si =
     (case (py_nth (md_stream_specs side) si :: stream_spec aem) of Inr s \<Rightarrow> Some s | Inl _ \<Rightarrow> None)"

definition mapping_ok :: "MapDirection \<Rightarrow> port_spec \<Rightarrow> int list \<Rightarrow> bool" where
  "mapping_ok side p r =
     (length r = 4 \<and> r ! 2 < p_clusters p \<and> r ! 3 < SMAP_CLUSTER_CHANNELS \<and> r ! 0 < md_n_streams side
      \<and> (case mapping_stream side (r ! 0) of Some s \<Rightarrow> stream_channels s \<noteq> [] | None \<Rightarrow> False))"

definition row_devs :: "MapDirection \<Rightarrow> nat \<Rightarrow> int \<Rightarrow> int list \<Rightarrow> deviation list" where
  "row_devs side k bm r =
     (case mapping_stream side (r ! 0) of
        Some s \<Rightarrow> if r ! 1 \<ge> Max (set (stream_channels s))
                   then [Deviation (md_direction side) k bm r (Max (set (stream_channels s))) (ss_formats s)]
                   else []
      | None \<Rightarrow> [])"

definition in_keys :: "MapDirection \<Rightarrow> int list list \<Rightarrow> (int \<times> int) list" where
  "in_keys side rows = (if is_input side then map (\<lambda>r. (r ! 2, r ! 3)) rows else [])"

definition out_keys :: "MapDirection \<Rightarrow> int list list \<Rightarrow> (int \<times> int) list" where
  "out_keys side rows = (if is_input side then [] else map (\<lambda>r. (r ! 0, r ! 1)) rows)"

lemma keys_Nil [simp]: "in_keys side [] = []" "out_keys side [] = []"
  by (simp_all add: in_keys_def out_keys_def)

lemma keys_Cons:
  "in_keys side (r # rs) = in_keys side [r] @ in_keys side rs"
  "out_keys side (r # rs) = out_keys side [r] @ out_keys side rs"
  by (simp_all add: in_keys_def out_keys_def)

lemma unpack4_Inr_iff: "unpack4 r = Inr q \<longleftrightarrow> length r = 4 \<and> q = quad r"
proof
  show "unpack4 r = Inr q \<Longrightarrow> length r = 4 \<and> q = quad r"
    by (auto simp: unpack4_def quad_def split: list.splits)
  show "length r = 4 \<and> q = quad r \<Longrightarrow> unpack4 r = Inr q"
    by (auto simp: unpack4_def quad_def elim!: length_4_obtain)
qed

lemma map_row_bounds_Inr_iff:
  assumes "length r = 4"
  shows "map_row_bounds side k bm (quad r) p = Inr d \<longleftrightarrow>
     mapping_ok side p r \<and> (case d of Some x \<Rightarrow> [x] | None \<Rightarrow> []) = row_devs side k bm r"
proof -
  obtain a b c e where r: "r = [a, b, c, e]" using assms by (rule length_4_obtain)
  show ?thesis
    unfolding r map_row_bounds_def quad_def mapping_ok_def row_devs_def mapping_stream_def
    by (auto simp: Let_def split: sum.splits option.splits if_splits)
qed

lemma map_duplicate_rule_Inr_iff:
  "map_duplicate_rule side k (quad r) seen cfg = Inr (seen', cfg') \<longleftrightarrow>
     set (in_keys side [r]) \<inter> set seen = {} \<and> set (out_keys side [r]) \<inter> set cfg = {}
     \<and> seen' = seen @ in_keys side [r] \<and> cfg' = cfg @ out_keys side [r]"
  by (auto simp: map_duplicate_rule_def quad_def in_keys_def out_keys_def)

lemma map_row_step_Inr_iff:
  "map_row_step side k bm p r (devs, seen, cfg) = Inr (devs', seen', cfg') \<longleftrightarrow>
     mapping_ok side p r \<and> set (in_keys side [r]) \<inter> set seen = {} \<and> set (out_keys side [r]) \<inter> set cfg = {}
     \<and> devs' = devs @ row_devs side k bm r \<and> seen' = seen @ in_keys side [r] \<and> cfg' = cfg @ out_keys side [r]"
proof (cases "length r = 4")
  case True
  have e: "\<exists>d. (case d of Some x \<Rightarrow> [x] | None \<Rightarrow> []) = row_devs side k bm r"
    by (auto simp: row_devs_def split: option.splits intro: exI[of _ None] exI[of _ "Some _"])
  show ?thesis
    using True e
    by (auto simp: map_row_step_def unpack4_Inr_iff map_row_bounds_Inr_iff map_duplicate_rule_Inr_iff
        split: prod.splits)
next
  case False
  then show ?thesis by (auto simp: map_row_step_def unpack4_Inr_iff mapping_ok_def)
qed

lemma map_rows_Inr_iff:
  assumes "distinct seen" "distinct cfg"
  shows "foldE (map_row_step side k bm p) rows (devs, seen, cfg) = Inr (devs', seen', cfg') \<longleftrightarrow>
    list_all (mapping_ok side p) rows \<and> distinct (seen @ in_keys side rows) \<and> distinct (cfg @ out_keys side rows)
    \<and> devs' = devs @ concat (map (row_devs side k bm) rows)
    \<and> seen' = seen @ in_keys side rows \<and> cfg' = cfg @ out_keys side rows"
  using assms
proof (induction rows arbitrary: devs seen cfg)
  case Nil
  then show ?case by auto
next
  case (Cons r rows)
  have d1: "distinct (in_keys side [r])" "distinct (out_keys side [r])"
    by (simp_all add: in_keys_def out_keys_def)
  let ?fr = "set (in_keys side [r]) \<inter> set seen = {} \<and> set (out_keys side [r]) \<inter> set cfg = {}"
  have step: "foldE (map_row_step side k bm p) (r # rows) (devs, seen, cfg) = Inr (devs', seen', cfg') \<longleftrightarrow>
      mapping_ok side p r \<and> ?fr \<and>
      foldE (map_row_step side k bm p) rows
        (devs @ row_devs side k bm r, seen @ in_keys side [r], cfg @ out_keys side [r]) = Inr (devs', seen', cfg')"
    by (simp add: map_row_step_Inr_iff split_paired_Ex)
  show ?case
  proof (cases ?fr)
    case True
    then have "distinct (seen @ in_keys side [r])" "distinct (cfg @ out_keys side [r])"
      using Cons.prems d1 by auto
    from Cons.IH[OF this] True show ?thesis
      unfolding step by (auto simp: keys_Cons[of side r rows])
  next
    case False
    then have "\<not> (distinct (seen @ in_keys side (r # rows)) \<and> distinct (cfg @ out_keys side (r # rows)))"
      by (auto simp: keys_Cons[of side r rows])
    with False show ?thesis unfolding step by blast
  qed
qed

text \<open>The rows a port serves statically, and when one port passes every bound of its own.\<close>

definition port_rows :: "int list list list \<Rightarrow> port_spec \<Rightarrow> int list list" where
  "port_rows maps p = (if is_dynamic p then [] else maps ! nat (p_base_map p))"

definition port_accepts :: "MapDirection \<Rightarrow> int list list list \<Rightarrow> port_spec \<Rightarrow> bool" where
  "port_accepts side maps p =
     (is_dynamic p \<or>
      (p_maps p = 1 \<and> 0 \<le> p_base_map p \<and> p_base_map p < int (length maps)
       \<and> length (port_rows maps p) \<le> SMAP_MAX_ROWS
       \<and> list_all (mapping_ok side p) (port_rows maps p)
       \<and> distinct (in_keys side (port_rows maps p))))"

definition port_devs :: "MapDirection \<Rightarrow> int list list list \<Rightarrow> nat \<times> port_spec \<Rightarrow> deviation list" where
  "port_devs side maps kp =
     concat (map (row_devs side (fst kp) (p_base_map (snd kp))) (port_rows maps (snd kp)))"

definition map_base :: "(nat \<Rightarrow> nat \<Rightarrow> nat aem) \<Rightarrow> port_spec \<Rightarrow> nat aem" where
  "map_base base_of p = (if is_dynamic p then Inr 0 else base_of AUDIO_MAP (nat (p_base_map p)))"

lemma static_map_of_Inr_iff:
  "\<not> is_dynamic p \<Longrightarrow> static_map_of side k p maps = Inr (bm, rows) \<longleftrightarrow>
     p_maps p = 1 \<and> bm = p_base_map p \<and> 0 \<le> bm \<and> bm < int (length maps)
     \<and> rows = port_rows maps p \<and> length rows \<le> SMAP_MAX_ROWS"
  by (auto simp: static_map_of_def port_rows_def Let_def)

lemma d_audio_map_mappings_offset:
  assumes "list_all (\<lambda>r. length r = 4) rows"
  shows "\<exists>img. d_audio_map i rows = Inr img \<and> u16_at img 4 = 8"
proof -
  have "\<And>r. r \<in> set rows \<Longrightarrow> length r = 4" using assms by (simp add: list_all_iff)
  from d_audio_map_bytes[OF this] show ?thesis
    by (simp add: read_defs slice_simps slice_all be16_value)
qed

lemma mapping_ok_length: "list_all (mapping_ok side p) rows \<Longrightarrow> list_all (\<lambda>r. length r = 4) rows"
  by (auto simp: list_all_iff mapping_ok_def)

lemma port_step_Inr_iff:
  assumes "distinct (dt_cfg t)"
  shows "port_step side maps base_of (k, p) t = Inr t' \<longleftrightarrow>
    port_accepts side maps p \<and> distinct (dt_cfg t @ out_keys side (port_rows maps p))
    \<and> (\<exists>a. map_base base_of p = Inr a \<and> t' =
      \<lparr>dt_addr = dt_addr t @ [a], dt_rows = dt_rows t @ [length (port_rows maps p)],
       dt_moff = dt_moff t @ [if is_dynamic p then 0 else 8],
       dt_devs = dt_devs t @ port_devs side maps (k, p),
       dt_cfg = dt_cfg t @ out_keys side (port_rows maps p)\<rparr>)"
proof (cases "is_dynamic p")
  case True
  with assms show ?thesis
    by (auto simp: port_step_def port_accepts_def port_rows_def map_base_def port_devs_def)
next
  case False
  have img: "\<exists>img. d_audio_map (p_base_map p) (port_rows maps p) = Inr img \<and> u16_at img 4 = 8"
    if "list_all (mapping_ok side p) (port_rows maps p)"
    using d_audio_map_mappings_offset[OF mapping_ok_length[OF that]] .
  show ?thesis
  proof
    assume "port_step side maps base_of (k, p) t = Inr t'"
    with False obtain devs seen cfg a im where
      s: "static_map_of side k p maps = Inr (p_base_map p, port_rows maps p)"
      and f: "foldE (map_row_step side k (p_base_map p) p) (port_rows maps p) (dt_devs t, [], dt_cfg t) = Inr (devs, seen, cfg)"
      and a: "base_of AUDIO_MAP (nat (p_base_map p)) = Inr a"
      and im: "d_audio_map (p_base_map p) (port_rows maps p) = Inr im"
      and t': "t' = \<lparr>dt_addr = dt_addr t @ [a], dt_rows = dt_rows t @ [length (port_rows maps p)],
         dt_moff = dt_moff t @ [u16_at im 4], dt_devs = devs, dt_cfg = cfg\<rparr>"
      by (auto simp: port_step_def static_map_of_Inr_iff split_paired_Ex)
    from f assms have "list_all (mapping_ok side p) (port_rows maps p)" by (simp add: map_rows_Inr_iff)
    with img im have "u16_at im 4 = 8" by auto
    with s f a t' False assms show "port_accepts side maps p \<and> distinct (dt_cfg t @ out_keys side (port_rows maps p))
      \<and> (\<exists>a. map_base base_of p = Inr a \<and> t' =
        \<lparr>dt_addr = dt_addr t @ [a], dt_rows = dt_rows t @ [length (port_rows maps p)],
         dt_moff = dt_moff t @ [if is_dynamic p then 0 else 8],
         dt_devs = dt_devs t @ port_devs side maps (k, p),
         dt_cfg = dt_cfg t @ out_keys side (port_rows maps p)\<rparr>)"
      by (simp add: port_accepts_def map_base_def port_devs_def map_rows_Inr_iff static_map_of_Inr_iff)
  next
    assume r: "port_accepts side maps p \<and> distinct (dt_cfg t @ out_keys side (port_rows maps p))
      \<and> (\<exists>a. map_base base_of p = Inr a \<and> t' =
        \<lparr>dt_addr = dt_addr t @ [a], dt_rows = dt_rows t @ [length (port_rows maps p)],
         dt_moff = dt_moff t @ [if is_dynamic p then 0 else 8],
         dt_devs = dt_devs t @ port_devs side maps (k, p),
         dt_cfg = dt_cfg t @ out_keys side (port_rows maps p)\<rparr>)"
    with False have p: "p_maps p = 1" "0 \<le> p_base_map p" "p_base_map p < int (length maps)"
      "length (port_rows maps p) \<le> SMAP_MAX_ROWS" "list_all (mapping_ok side p) (port_rows maps p)"
      "distinct (in_keys side (port_rows maps p))"
      by (simp_all add: port_accepts_def)
    have s: "static_map_of side k p maps = Inr (p_base_map p, port_rows maps p)"
      using p False by (simp add: static_map_of_Inr_iff)
    have f: "foldE (map_row_step side k (p_base_map p) p) (port_rows maps p) (dt_devs t, [], dt_cfg t)
      = Inr (dt_devs t @ port_devs side maps (k, p), in_keys side (port_rows maps p),
             dt_cfg t @ out_keys side (port_rows maps p))"
      using p r assms by (simp add: map_rows_Inr_iff port_devs_def)
    show "port_step side maps base_of (k, p) t = Inr t'"
      using r False s f img[OF p(5)] by (auto simp: port_step_def map_base_def)
  qed
qed

lemma ports_Inr_iff:
  assumes "distinct (dt_cfg t)"
  shows "foldE (port_step side maps base_of) kps t = Inr t' \<longleftrightarrow>
    list_all (\<lambda>kp. port_accepts side maps (snd kp)) kps
    \<and> distinct (dt_cfg t @ concat (map (\<lambda>kp. out_keys side (port_rows maps (snd kp))) kps))
    \<and> (\<exists>as. mapE (\<lambda>kp. map_base base_of (snd kp)) kps = Inr as \<and> t' =
      \<lparr>dt_addr = dt_addr t @ as,
       dt_rows = dt_rows t @ map (\<lambda>kp. length (port_rows maps (snd kp))) kps,
       dt_moff = dt_moff t @ map (\<lambda>kp. if is_dynamic (snd kp) then 0 else 8) kps,
       dt_devs = dt_devs t @ concat (map (port_devs side maps) kps),
       dt_cfg = dt_cfg t @ concat (map (\<lambda>kp. out_keys side (port_rows maps (snd kp))) kps)\<rparr>)"
  using assms
proof (induction kps arbitrary: t)
  case Nil
  then show ?case by auto
next
  case (Cons kp kps)
  obtain k p where kp: "kp = (k, p)" by (cases kp)
  let ?keys = "out_keys side (port_rows maps p)"
  show ?case
  proof (cases "port_accepts side maps p \<and> distinct (dt_cfg t @ ?keys) \<and> (\<exists>a. map_base base_of p = Inr a)")
    case True
    then obtain a where a: "map_base base_of p = Inr a" by blast
    let ?t = "\<lparr>dt_addr = dt_addr t @ [a], dt_rows = dt_rows t @ [length (port_rows maps p)],
       dt_moff = dt_moff t @ [if is_dynamic p then 0 else 8],
       dt_devs = dt_devs t @ port_devs side maps (k, p), dt_cfg = dt_cfg t @ ?keys\<rparr>"
    have "port_step side maps base_of kp t = Inr ?t"
      unfolding kp using True a Cons.prems by (simp add: port_step_Inr_iff)
    then show ?thesis using True a Cons.IH[of ?t] by (auto simp: kp)
  next
    case False
    then have "\<And>x. port_step side maps base_of kp t \<noteq> Inr x"
      unfolding kp using Cons.prems by (auto simp: port_step_Inr_iff)
    with False show ?thesis by (auto simp: kp)
  qed
qed

lemma concat_replicate_Nil: "(\<And>x. x \<in> set xs \<Longrightarrow> f x = []) \<Longrightarrow> concat (map f xs) = []"
  by (induction xs) auto

lemma list_all_snd_enum: "list_all (\<lambda>kp. P (snd kp)) (enum xs) \<longleftrightarrow> list_all P xs"
  by (auto simp: list_all_length enum_nth)

lemma map_snd_enum_comp: "map (\<lambda>kp. f (snd kp)) (enum xs) = map f xs"
  by (rule nth_equalityI) (simp_all add: enum_nth)

lemma mapE_snd_enum: "mapE (\<lambda>kp. f (snd kp)) (enum (xs :: 'a list)) = mapE f xs"
proof -
  have "mapE (\<lambda>kp. f (snd kp)) kps = mapE f (map snd kps)" for kps :: "(nat \<times> 'a) list"
    by (induction kps) auto
  from this[of "enum xs"] show ?thesis by simp
qed

lemma direction_tables_Inr_iff:
  "direction_tables_of side maps base_of = Inr t \<longleftrightarrow>
    list_all (port_accepts side maps) (md_ports side)
    \<and> distinct (concat (map (\<lambda>p. out_keys side (port_rows maps p)) (md_ports side)))
    \<and> (\<exists>as. mapE (map_base base_of) (md_ports side) = Inr as \<and> t =
      \<lparr>dt_addr = as, dt_rows = map (\<lambda>p. length (port_rows maps p)) (md_ports side),
       dt_moff = map (\<lambda>p. if is_dynamic p then 0 else 8) (md_ports side),
       dt_devs = concat (map (port_devs side maps) (enum (md_ports side))),
       dt_cfg = concat (map (\<lambda>p. out_keys side (port_rows maps p)) (md_ports side))\<rparr>)"
  unfolding direction_tables_of_def
  by (subst ports_Inr_iff)
     (simp_all add: no_tables_def list_all_snd_enum mapE_snd_enum
        map_snd_enum_comp[of "\<lambda>p. out_keys side (port_rows maps p)"]
        map_snd_enum_comp[of "\<lambda>p. length (port_rows maps p)"]
        map_snd_enum_comp[of "\<lambda>p. if is_dynamic p then 0 else 8"])

lemma mapE_ex_iff: "(\<exists>ys. mapE f xs = Inr ys) \<longleftrightarrow> (\<forall>x \<in> set xs. \<exists>y. f x = Inr y)"
  by (induction xs) auto

lemma map_base_total:
  assumes "\<forall>b < length maps. \<exists>a. base_of AUDIO_MAP b = Inr a"
    and "list_all (port_accepts side maps) ps"
  shows "\<exists>as. mapE (map_base base_of) ps = Inr as"
proof -
  have "\<exists>a. map_base base_of p = Inr a" if "p \<in> set ps" for p
  proof (cases "is_dynamic p")
    case True
    then show ?thesis by (simp add: map_base_def)
  next
    case False
    with assms(2) that have "nat (p_base_map p) < length maps"
      by (auto simp: list_all_iff port_accepts_def)
    with assms(1) False show ?thesis by (auto simp: map_base_def)
  qed
  then obtain g where "\<And>p. p \<in> set ps \<Longrightarrow> map_base base_of p = Inr (g p)" by metis
  then have "mapE (map_base base_of) ps = Inr (map g ps)" by (rule mapE_total)
  then show ?thesis by blast
qed

definition gate_accepts :: "aem_spec \<Rightarrow> nat \<Rightarrow> nat \<Rightarrow> bool" where
  "gate_accepts spec n_in n_out =
     (let maps = sp_audio_maps spec; i = map_inputs spec n_in; u = map_outputs spec n_out in
      length (sp_ports_in spec) \<le> 32 \<and> length (sp_ports_out spec) \<le> 32
      \<and> list_all (port_accepts i maps) (sp_ports_in spec)
      \<and> list_all (port_accepts u maps) (sp_ports_out spec)
      \<and> distinct (concat (map (\<lambda>p. map (\<lambda>r. (r ! 0, r ! 1)) (port_rows maps p)) (sp_ports_out spec))))"

lemma input_side [simp]: "is_input (map_inputs spec n)" "\<not> is_input (map_outputs spec n)"
  "md_ports (map_inputs spec n) = sp_ports_in spec" "md_ports (map_outputs spec n) = sp_ports_out spec"
  by (simp_all add: is_input_def map_inputs_def map_outputs_def)

lemma static_map_tables_Inr_iff:
  "static_map_tables spec base_of n_in n_out = Inr t \<longleftrightarrow>
     gate_accepts spec n_in n_out
     \<and> (\<exists>ia oa. mapE (map_base base_of) (sp_ports_in spec) = Inr ia
       \<and> mapE (map_base base_of) (sp_ports_out spec) = Inr oa
       \<and> t = \<lparr>IN_N = length ia, OUT_N = length oa, IN_ADDR = or_zero ia,
           IN_ROWS = or_zero (map (\<lambda>p. length (port_rows (sp_audio_maps spec) p)) (sp_ports_in spec)),
           IN_MOFF = or_zero (map (\<lambda>p. if is_dynamic p then 0 else 8) (sp_ports_in spec)),
           OUT_ADDR = or_zero oa,
           OUT_ROWS = or_zero (map (\<lambda>p. length (port_rows (sp_audio_maps spec) p)) (sp_ports_out spec)),
           OUT_MOFF = or_zero (map (\<lambda>p. if is_dynamic p then 0 else 8) (sp_ports_out spec)),
           DEVIATIONS = concat (map (port_devs (map_inputs spec n_in) (sp_audio_maps spec)) (enum (sp_ports_in spec)))
             @ concat (map (port_devs (map_outputs spec n_out) (sp_audio_maps spec)) (enum (sp_ports_out spec)))\<rparr>)"
proof -
  have "out_keys (map_inputs spec n_in) rs = []" for rs by (simp add: out_keys_def)
  moreover have "out_keys (map_outputs spec n_out) rs = map (\<lambda>r. (r ! 0, r ! 1)) rs" for rs
    by (simp add: out_keys_def)
  ultimately show ?thesis
    by (auto simp: static_map_tables_def direction_tables_Inr_iff gate_accepts_def Let_def
        SMAP_MAX_PORTS_def concat_replicate_Nil)
qed

lemma gate_sufficient:
  assumes "\<forall>b < length (sp_audio_maps spec). \<exists>a. base_of AUDIO_MAP b = Inr a"
    and "gate_accepts spec n_in n_out"
  shows "\<exists>t. static_map_tables spec base_of n_in n_out = Inr t"
proof -
  have "list_all (port_accepts (map_inputs spec n_in) (sp_audio_maps spec)) (sp_ports_in spec)"
    "list_all (port_accepts (map_outputs spec n_out) (sp_audio_maps spec)) (sp_ports_out spec)"
    using assms(2) by (simp_all add: gate_accepts_def Let_def)
  from map_base_total[of _ base_of, OF assms(1) this(1)] map_base_total[of _ base_of, OF assms(1) this(2)] assms(2)
  show ?thesis unfolding static_map_tables_Inr_iff by blast
qed


text \<open>
  The serving tables of an accepted specification have one entry per port: a dynamic
  port serves no static rows, a static port serves the address of its own base_map, as many
  rows as that map declares and the mappings offset of the encoded descriptor.
\<close>

lemma static_map_tables_serve:
  assumes "static_map_tables spec base_of n_in n_out = Inr t" and "k < length (sp_ports_out spec)"
  shows "OUT_N t = length (sp_ports_out spec)
    \<and> (if is_dynamic (sp_ports_out spec ! k) then OUT_ADDR t ! k = 0 \<and> OUT_ROWS t ! k = 0 \<and> OUT_MOFF t ! k = 0
       else base_of AUDIO_MAP (nat (p_base_map (sp_ports_out spec ! k))) = Inr (OUT_ADDR t ! k)
         \<and> OUT_ROWS t ! k = length (sp_audio_maps spec ! nat (p_base_map (sp_ports_out spec ! k)))
         \<and> OUT_ROWS t ! k \<le> 62 \<and> OUT_MOFF t ! k = 8)"
proof -
  let ?p = "sp_ports_out spec ! k"
  from assms(1) obtain oa where oa: "mapE (map_base base_of) (sp_ports_out spec) = Inr oa"
    and t: "OUT_N t = length oa" "OUT_ADDR t = or_zero oa"
      "OUT_ROWS t = or_zero (map (\<lambda>p. length (port_rows (sp_audio_maps spec) p)) (sp_ports_out spec))"
      "OUT_MOFF t = or_zero (map (\<lambda>p. if is_dynamic p then 0 else 8) (sp_ports_out spec))"
    and g: "gate_accepts spec n_in n_out"
    by (auto simp: static_map_tables_Inr_iff)
  have nonempty: "oa \<noteq> []" "sp_ports_out spec \<noteq> []" using mapE_length[OF oa] assms(2) by auto
  have a: "map_base base_of ?p = Inr (oa ! k)" using mapE_nth[OF oa assms(2)] .
  have "port_accepts (map_outputs spec n_out) (sp_audio_maps spec) ?p"
    using g assms(2) by (auto simp: gate_accepts_def list_all_iff Let_def)
  then show ?thesis
    using a nonempty assms(2) mapE_length[OF oa] t
    by (auto simp: or_zero_def map_base_def port_rows_def port_accepts_def SMAP_MAX_ROWS_def)
qed

text \<open>
  The recorded deviations are exactly the static mappings whose stream channel no
  advertised format of the stream carries: with an empty allow list the model passes
  \<^verbatim>\<open>assert_no_map_deviations\<close> iff every mapping of an accepted specification names a channel below
  the widest advertised channel count.
\<close>

lemma no_deviation_iff_channels_exist:
  assumes "static_map_tables spec base_of n_in n_out = Inr t"
  shows "assert_no_map_deviations (DEVIATIONS t) {} = Inr {} \<longleftrightarrow>
    (\<forall>(side, ports) \<in> {(map_inputs spec n_in, sp_ports_in spec), (map_outputs spec n_out, sp_ports_out spec)}.
       \<forall>p \<in> set ports. \<forall>r \<in> set (port_rows (sp_audio_maps spec) p).
         \<forall>s. mapping_stream side (r ! 0) = Some s \<longrightarrow> r ! 1 < Max (set (stream_channels s)))"
proof -
  have row: "row_devs side k bm r = [] \<longleftrightarrow>
      (\<forall>s. mapping_stream side (r ! 0) = Some s \<longrightarrow> r ! 1 < Max (set (stream_channels s)))" for side k bm r
    by (auto simp: row_devs_def split: option.splits)
  have dir: "concat (map (port_devs side maps) (enum ps)) = [] \<longleftrightarrow>
      (\<forall>p \<in> set ps. \<forall>r \<in> set (port_rows maps p).
        \<forall>s. mapping_stream side (r ! 0) = Some s \<longrightarrow> r ! 1 < Max (set (stream_channels s)))" for side maps ps
  proof -
    have port: "port_devs side maps kp = [] \<longleftrightarrow> (\<forall>r \<in> set (port_rows maps (snd kp)).
        \<forall>s. mapping_stream side (r ! 0) = Some s \<longrightarrow> r ! 1 < Max (set (stream_channels s)))" for kp
      by (auto simp: port_devs_def row)
    have "concat (map (port_devs side maps) (enum ps)) = [] \<longleftrightarrow> (\<forall>kp \<in> set (enum ps). port_devs side maps kp = [])"
      by auto
    also have "\<dots> \<longleftrightarrow> (\<forall>p \<in> snd ` set (enum ps). \<forall>r \<in> set (port_rows maps p).
        \<forall>s. mapping_stream side (r ! 0) = Some s \<longrightarrow> r ! 1 < Max (set (stream_channels s)))"
      unfolding port by blast
    also have "snd ` set (enum ps) = set ps" by (metis map_snd_enum set_map)
    finally show ?thesis .
  qed
  have "assert_no_map_deviations ds {} = Inr {} \<longleftrightarrow> ds = []" for ds
    by (auto simp: assert_no_map_deviations_def)
  moreover have "DEVIATIONS t = concat (map (port_devs (map_inputs spec n_in) (sp_audio_maps spec)) (enum (sp_ports_in spec)))
      @ concat (map (port_devs (map_outputs spec n_out) (sp_audio_maps spec)) (enum (sp_ports_out spec)))"
    using assms by (auto simp: static_map_tables_Inr_iff)
  ultimately have "assert_no_map_deviations (DEVIATIONS t) {} = Inr {} \<longleftrightarrow>
      concat (map (port_devs (map_inputs spec n_in) (sp_audio_maps spec)) (enum (sp_ports_in spec))) = []
      \<and> concat (map (port_devs (map_outputs spec n_out) (sp_audio_maps spec)) (enum (sp_ports_out spec))) = []"
    by (simp only: append_is_Nil_conv)
  then show ?thesis unfolding dir by simp
qed

section \<open>Instances\<close>

text \<open>The builtin model with its talker map cut to the two channels the talker's format carries.\<close>

definition narrow_model :: aem_spec where
  "narrow_model = (builtin_model (lit ''2.67.0''))\<lparr>sp_audio_maps := [[[0, 0, 0, 0], [0, 1, 1, 0]]]\<rparr>"

lemma builtin_gate: "gate_accepts (builtin_model (lit ''2.67.0'')) 2 1"
  by code_simp

lemma narrow_gate: "gate_accepts narrow_model 2 1"
  by code_simp


end
