(* ===== verification/Aem_Directory.thy ===== *)
theory Aem_Directory
  imports Aem_Descriptors "HOL-Library.AList" "HOL-Library.Product_Lexorder"
begin

text \<open>
  The descriptor directory (\<^verbatim>\<open>src/avdecc/aem_assemble.py\<close>, lines 37-187): the two-level
  direct-indexed view the gateware resolves a READ_DESCRIPTOR with, the linear scan it replaces,
  and the split of the SET/GET_NAME table into a structural rule and explicit exceptions.

  The generator checks both against a fence of probes. The lemmas show that the probes are
  enough: once \<open>two_level_directory\<close> accepts a directory the two lookups agree on every type and
  index, \<open>check_two_level\<close> never refuses, and an accepted name split answers like the flat
  table on every key.
\<close>

section \<open>The two-level directory\<close>

text \<open>A row is \<^verbatim>\<open>(type, index, base, length)\<close>.\<close>

type_synonym dir_row = "nat \<times> nat \<times> nat \<times> nat"

record level1 =
  l1_AW :: nat
  l1_N :: nat
  l1_CNT :: "nat list"
  l1_ROW :: "nat list"

fun bit_length :: "nat \<Rightarrow> nat" where
  "bit_length n = (if n = 0 then 0 else Suc (bit_length (n div 2)))"

declare bit_length.simps [simp del]

text \<open>\<^verbatim>\<open>runs\<close>: the dict from a type to the row of its first entry and its entry count so far.\<close>

type_synonym runs = "(nat \<times> nat \<times> nat) list"

definition dir_step :: "nat \<times> dir_row \<Rightarrow> runs \<times> nat option \<Rightarrow> (runs \<times> nat option) aem" where
  "dir_step rd st = (case (rd, st) of ((row, t, i, _, _), (runs, prev_t)) \<Rightarrow>
     rbind (case map_of runs t of
              None \<Rightarrow> Inr (row, 0)
            | Some (first, cnt) \<Rightarrow>
                if prev_t \<noteq> Some t then Inl (Refused (NotContiguous t row (first + cnt))) else Inr (first, cnt))
       (\<lambda>(first, cnt).
         if i \<noteq> cnt then Inl (Refused (NotAscending t row i cnt))
         else Inr (AList.update t (first, cnt + 1) runs, Some t)))"

definition run_of :: "runs \<Rightarrow> nat \<Rightarrow> nat \<times> nat" where
  "run_of runs t = (case map_of runs t of Some rc \<Rightarrow> rc | None \<Rightarrow> (0, 0))"

definition two_level_directory :: "dir_row list \<Rightarrow> level1 aem" where
  "two_level_directory directory =
     rbind (foldE dir_step (enum directory) ([], None)) (\<lambda>(runs, _).
       if runs = [] then Inl ValueError
       else let max_t = Max (set (map fst runs)) in
         if max_t \<ge> 256 then Inl (Refused (TypeTooHigh max_t))
         else let aw = max 1 (bit_length max_t); n = 2 ^ aw in
           Inr \<lparr>l1_AW = aw, l1_N = n, l1_CNT = map (\<lambda>t. snd (run_of runs t)) [0..<n],
                l1_ROW = map (\<lambda>t. fst (run_of runs t)) [0..<n]\<rparr>)"

definition two_level_resolve :: "level1 \<Rightarrow> dir_row list \<Rightarrow> nat \<Rightarrow> nat \<Rightarrow> (nat \<times> nat \<times> nat) aem" where
  "two_level_resolve l1 directory t i =
     (if t \<ge> l1_N l1 then Inr (0, 0, 0)
      else rbind (py_nth (l1_CNT l1) (int t)) (\<lambda>cnt. rbind (py_nth (l1_ROW l1) (int t)) (\<lambda>row.
        if i \<ge> cnt then Inr (0, 0, 0)
        else rbind (py_nth directory (int (row + i))) (\<lambda>(_, _, b, l). Inr (1, b, l)))))"

definition linear :: "dir_row list \<Rightarrow> nat \<Rightarrow> nat \<Rightarrow> nat \<times> nat \<times> nat" where
  "linear directory t i =
     foldl (\<lambda>f (tt, ii, b, l). if tt = t \<and> ii = i then (1, b, l) else f) (0, 0, 0) directory"

definition two_level_probes :: "level1 \<Rightarrow> dir_row list \<Rightarrow> (nat \<times> nat) list" where
  "two_level_probes l1 directory =
     concat (map (\<lambda>(t, i, _, _). [(t, i), (t, i + 1), (t, 0xFFFF)]) directory)
     @ concat (map (\<lambda>t. [(t, 0), (t, 1)]) [0..<l1_N l1 + 4]) @ [(0xFFFF, 0)]"

definition check_two_level :: "level1 \<Rightarrow> dir_row list \<Rightarrow> unit aem" where
  "check_two_level l1 directory =
     foldE (\<lambda>(t, i) _. rbind (two_level_resolve l1 directory t i) (\<lambda>got.
         if got \<noteq> linear directory t i then Inl (Refused (TwoLevelDiverges t i)) else Inr ()))
       (sort (remdups (two_level_probes l1 directory))) ()"

section \<open>Dense directories\<close>

text \<open>
  The layout the accessor depends on: one contiguous run of rows per type, numbered from
  zero. \<open>runs_inv rows runs prev\<close> is the state of the generator's scan over the rows read so far.
\<close>

definition in_run :: "dir_row list \<Rightarrow> nat \<Rightarrow> nat \<Rightarrow> nat \<Rightarrow> bool" where
  "in_run rows t first cnt =
     (first + cnt \<le> length rows
      \<and> (\<forall>k < length rows. fst (rows ! k) = t \<longleftrightarrow> first \<le> k \<and> k < first + cnt)
      \<and> (\<forall>j < cnt. fst (snd (rows ! (first + j))) = j))"

definition runs_inv :: "dir_row list \<Rightarrow> runs \<Rightarrow> nat option \<Rightarrow> bool" where
  "runs_inv rows runs prev =
     (distinct (map fst runs)
      \<and> (\<forall>t. case map_of runs t of
                None \<Rightarrow> \<forall>r \<in> set rows. fst r \<noteq> t
              | Some (first, cnt) \<Rightarrow> 0 < cnt \<and> in_run rows t first cnt)
      \<and> prev = (if rows = [] then None else Some (fst (last rows))))"

lemma in_run_mem: "in_run rows t f c \<Longrightarrow> k < length rows \<Longrightarrow> fst (rows ! k) = t \<longleftrightarrow> f \<le> k \<and> k < f + c"
  by (simp add: in_run_def)

lemma in_run_index: "in_run rows t f c \<Longrightarrow> j < c \<Longrightarrow> fst (snd (rows ! (f + j))) = j"
  by (simp add: in_run_def)

lemma runs_inv_None:
  assumes "runs_inv rows runs prev" "map_of runs t = None"
  shows "\<forall>r \<in> set rows. fst r \<noteq> t"
proof -
  have "case map_of runs t of None \<Rightarrow> \<forall>r \<in> set rows. fst r \<noteq> t
      | Some (first, cnt) \<Rightarrow> 0 < cnt \<and> in_run rows t first cnt"
    using assms(1) unfolding runs_inv_def by blast
  then show ?thesis unfolding assms(2) by simp
qed

lemma runs_inv_Some:
  assumes "runs_inv rows runs prev" "map_of runs t = Some (f, c)"
  shows "0 < c \<and> in_run rows t f c"
proof -
  have "case map_of runs t of None \<Rightarrow> \<forall>r \<in> set rows. fst r \<noteq> t
      | Some (first, cnt) \<Rightarrow> 0 < cnt \<and> in_run rows t first cnt"
    using assms(1) unfolding runs_inv_def by blast
  then show ?thesis unfolding assms(2) by simp
qed

lemma runs_inv_Nil: "runs_inv [] [] None"
  by (simp add: runs_inv_def)

lemma in_run_append_other:
  assumes "in_run rows t first cnt" "fst r \<noteq> t"
  shows "in_run (rows @ [r]) t first cnt"
  using assms by (auto simp: in_run_def nth_append less_Suc_eq)

lemma in_run_append_same:
  assumes "in_run rows t first cnt" "0 < cnt" "fst (last rows) = t" "rows \<noteq> []" "fst r = t" "fst (snd r) = cnt"
  shows "in_run (rows @ [r]) t first (cnt + 1)"
proof -
  have "first + cnt = length rows"
  proof -
    have "fst (rows ! (length rows - 1)) = t" using assms(3,4) by (simp add: last_conv_nth)
    then have "length rows - 1 < first + cnt" using assms(1,4) by (auto simp: in_run_def)
    moreover have "first + cnt \<le> length rows" using assms(1) by (simp add: in_run_def)
    ultimately show ?thesis using assms(4) by (cases rows) auto
  qed
  then show ?thesis using assms by (auto simp: in_run_def nth_append less_Suc_eq)
qed

lemma in_run_new:
  assumes "\<forall>r \<in> set rows. fst r \<noteq> t" "fst r = t" "fst (snd r) = 0"
  shows "in_run (rows @ [r]) t (length rows) 1"
  using assms by (auto simp: in_run_def nth_append)

lemma dir_step_inv:
  assumes "runs_inv rows runs prev" and "dir_step (length rows, r) (runs, prev) = Inr (runs', prev')"
  shows "runs_inv (rows @ [r]) runs' prev'"
proof -
  obtain t i b l where r: "r = (t, i, b, l)" by (cases r)
  from assms(2) obtain first cnt where fc:
      "(map_of runs t = None \<and> first = length rows \<and> cnt = 0)
       \<or> (map_of runs t = Some (first, cnt) \<and> prev = Some t)"
    and i: "i = cnt" and st: "runs' = AList.update t (first, cnt + 1) runs" "prev' = Some t"
    unfolding r dir_step_def by (auto split: option.splits prod.splits if_splits)
  have own: "in_run (rows @ [r]) t first (cnt + 1)"
    using fc
  proof
    assume "map_of runs t = None \<and> first = length rows \<and> cnt = 0"
    moreover from this have "\<forall>x \<in> set rows. fst x \<noteq> t" using runs_inv_None[OF assms(1)] by blast
    ultimately show ?thesis using in_run_new[of rows t r] r i by simp
  next
    assume m: "map_of runs t = Some (first, cnt) \<and> prev = Some t"
    then have "in_run rows t first cnt" "0 < cnt" using runs_inv_Some[OF assms(1)] by blast+
    moreover have "rows \<noteq> []" "fst (last rows) = t"
      using m assms(1) by (auto simp: runs_inv_def split: if_splits)
    ultimately show ?thesis using in_run_append_same[of rows t first cnt r] r i by simp
  qed
  show ?thesis
    unfolding runs_inv_def
  proof (intro conjI allI)
    show "distinct (map fst runs')"
      using assms(1) unfolding st by (simp add: runs_inv_def distinct_update)
    show "prev' = (if rows @ [r] = [] then None else Some (fst (last (rows @ [r]))))"
      by (simp add: st r)
    fix s
    show "case map_of runs' s of None \<Rightarrow> \<forall>x \<in> set (rows @ [r]). fst x \<noteq> s
        | Some (f, c) \<Rightarrow> 0 < c \<and> in_run (rows @ [r]) s f c"
    proof (cases "s = t")
      case True
      then show ?thesis using own by (simp add: st update_conv')
    next
      case False
      then have "map_of runs' s = map_of runs s" by (simp add: st update_conv')
      moreover have "case map_of runs s of None \<Rightarrow> \<forall>x \<in> set rows. fst x \<noteq> s
          | Some (f, c) \<Rightarrow> 0 < c \<and> in_run rows s f c"
        using assms(1) by (auto simp: runs_inv_def)
      ultimately show ?thesis using False r
        by (auto split: option.splits intro: in_run_append_other)
    qed
  qed
qed

lemma runs_inv_scan:
  assumes "foldE dir_step (enum rows) ([], None) = Inr (runs, prev)"
  shows "runs_inv rows runs prev"
  using assms
proof (induction rows arbitrary: runs prev rule: rev_induct)
  case Nil
  then show ?case by (simp add: runs_inv_Nil enum_def)
next
  case (snoc r rows)
  then obtain s where s: "foldE dir_step (enum rows) ([], None) = Inr s"
    "dir_step (length rows, r) s = Inr (runs, prev)"
    by (auto simp: enum_append1 foldE_append)
  obtain runs0 prev0 where "s = (runs0, prev0)" by (cases s)
  with s snoc.IH show ?case using dir_step_inv[of rows runs0 prev0 r runs prev] by simp
qed

text \<open>Every type of the directory forms one run, and the scan accepts exactly such directories.\<close>

definition dense :: "dir_row list \<Rightarrow> bool" where
  "dense rows = (\<forall>t. \<exists>first cnt. in_run rows t first cnt)"

lemma runs_inv_dense: "runs_inv rows runs prev \<Longrightarrow> dense rows"
proof -
  assume inv: "runs_inv rows runs prev"
  have "\<exists>first cnt. in_run rows t first cnt" for t
  proof (cases "map_of runs t")
    case None
    from runs_inv_None[OF inv this] have "\<forall>r \<in> set rows. fst r \<noteq> t" .
    then have "in_run rows t 0 0" by (simp add: in_run_def)
    then show ?thesis by blast
  next
    case (Some fc)
    with runs_inv_Some[OF inv, of t "fst fc" "snd fc"] have "in_run rows t (fst fc) (snd fc)" by simp
    then show ?thesis by blast
  qed
  then show ?thesis by (simp add: dense_def)
qed

lemma in_run_prefix:
  assumes "in_run (rows @ [r]) t first cnt"
  shows "\<exists>f c. in_run rows t f c"
proof (cases "\<exists>x \<in> set rows. fst x = t")
  case False
  then have "in_run rows t 0 0" by (auto simp: in_run_def)
  then show ?thesis by blast
next
  case True
  let ?c = "if fst r = t then cnt - 1 else cnt"
  have k: "\<And>k. k < length rows \<Longrightarrow> fst (rows ! k) = t \<longleftrightarrow> first \<le> k \<and> k < first + cnt"
    subgoal for k using in_run_mem[OF assms, of k] by (simp add: nth_append) done
  have last: "fst r = t \<longleftrightarrow> first \<le> length rows \<and> length rows < first + cnt"
    using in_run_mem[OF assms, of "length rows"] by simp
  have le: "first + cnt \<le> Suc (length rows)" using assms by (simp add: in_run_def)
  from True obtain k0 where k0: "k0 < length rows" "first \<le> k0" "k0 < first + cnt"
    using k by (metis in_set_conv_nth)
  have c: "first + ?c \<le> length rows" using last le k0 by auto
  have "fst (snd (rows ! (first + j))) = j" if "j < ?c" for j
  proof -
    have "j < cnt" "first + j < length rows" using that c by (auto split: if_splits)
    then show ?thesis using in_run_index[OF assms, of j] by (simp add: nth_append)
  qed
  moreover have "fst (rows ! k) = t \<longleftrightarrow> first \<le> k \<and> k < first + ?c" if "k < length rows" for k
    using k[OF that] last le that by auto
  ultimately have "in_run rows t first ?c" using c by (simp add: in_run_def)
  then show ?thesis by blast
qed

lemma dense_prefix: "dense (rows @ [r]) \<Longrightarrow> dense rows"
  unfolding dense_def by (meson in_run_prefix)

lemma dir_step_total:
  assumes inv: "runs_inv rows runs prev" and d: "dense (rows @ [r])"
  shows "\<exists>s. dir_step (length rows, r) (runs, prev) = Inr s"
proof -
  obtain t i b l where r: "r = (t, i, b, l)" by (cases r)
  from d obtain f c where run: "in_run (rows @ [r]) t f c" unfolding dense_def by blast
  have k: "\<And>k. k < length rows \<Longrightarrow> fst (rows ! k) = t \<longleftrightarrow> f \<le> k \<and> k < f + c"
    subgoal for k using in_run_mem[OF run, of k] by (simp add: nth_append) done
  have last: "f \<le> length rows" "length rows < f + c"
    using in_run_mem[OF run, of "length rows"] r by auto
  have idx: "i = length rows - f"
    using in_run_index[OF run, of "length rows - f"] r last by simp
  show ?thesis
  proof (cases "map_of runs t")
    case None
    then have no: "\<forall>x \<in> set rows. fst x \<noteq> t" by (rule runs_inv_None[OF inv])
    have "f = length rows"
    proof (rule ccontr)
      assume "f \<noteq> length rows"
      with last k[of f] have "f < length rows" "fst (rows ! f) = t" by auto
      with no show False by (metis nth_mem)
    qed
    with idx None show ?thesis by (simp add: dir_step_def r)
  next
    case (Some fc)
    obtain first cnt where fc: "fc = (first, cnt)" by (cases fc)
    with inv Some have run': "in_run rows t first cnt" "0 < cnt"
      using runs_inv_Some[OF inv] by auto
    have mem: "\<And>k. k < length rows \<Longrightarrow> (first \<le> k \<and> k < first + cnt) \<longleftrightarrow> (f \<le> k \<and> k < f + c)"
      using k run'(1) by (auto simp: in_run_def)
    have bound: "first + cnt \<le> length rows" using run' by (simp add: in_run_def)
    have "f \<le> first" using mem[of first] bound run'(2) by auto
    moreover have "first \<le> f" using mem[of f] bound run'(2) \<open>f \<le> first\<close> last by auto
    moreover have "first \<le> length rows - 1" "length rows - 1 < length rows" using bound run'(2) by arith+
    moreover from this have "length rows - 1 < first + cnt"
      using mem[of "length rows - 1"] last \<open>f \<le> first\<close> by auto
    ultimately have e: "f = first" "first + cnt = length rows" "fst (rows ! (length rows - 1)) = t"
      using bound run'(2) last k[of "length rows - 1"] by auto
    then have "rows \<noteq> []" using run'(2) by auto
    then have "fst (last rows) = t" using e(3) by (simp add: last_conv_nth)
    with inv \<open>rows \<noteq> []\<close> have "prev = Some t" by (simp add: runs_inv_def)
    moreover have "i = cnt" using idx e by auto
    ultimately show ?thesis using Some fc by (simp add: dir_step_def r)
  qed
qed

lemma scan_total: "dense rows \<Longrightarrow> \<exists>s. foldE dir_step (enum rows) ([], None) = Inr s"
proof (induction rows rule: rev_induct)
  case Nil
  then show ?case by (simp add: enum_def)
next
  case (snoc r rows)
  then obtain runs prev where s: "foldE dir_step (enum rows) ([], None) = Inr (runs, prev)"
    using dense_prefix by fastforce
  from dir_step_total[OF runs_inv_scan[OF s] snoc.prems] s show ?case
    by (simp add: enum_append1 foldE_append)
qed

lemma less_two_power_bit_length: "n < 2 ^ bit_length n"
proof (induction n rule: bit_length.induct)
  case (1 n)
  then show ?case by (cases "n = 0") (subst bit_length.simps, simp)+
qed

lemma runs_domain:
  assumes "runs_inv rows runs prev"
  shows "set (map fst runs) = fst ` set rows"
proof -
  have "t \<in> set (map fst runs) \<longleftrightarrow> t \<in> fst ` set rows" for t
  proof (cases "map_of runs t")
    case None
    from runs_inv_None[OF assms this] None show ?thesis by (auto simp: map_of_eq_None_iff)
  next
    case (Some fc)
    obtain first cnt where fc: "fc = (first, cnt)" by (cases fc)
    with assms Some have "0 < cnt" "in_run rows t first cnt" using runs_inv_Some by blast+
    then have "first < length rows" "fst (rows ! first) = t" by (auto simp: in_run_def)
    with Some show ?thesis by (metis domI dom_map_of_conv_image_fst image_eqI list.set_map nth_mem)
  qed
  then show ?thesis by blast
qed

lemma two_level_directory_Inr:
  assumes "two_level_directory dir = Inr l1"
  obtains runs prev where "runs_inv dir runs prev" "\<forall>r \<in> set dir. fst r < l1_N l1" "dir \<noteq> []"
    "\<forall>r \<in> set dir. fst r < 256" "l1_N l1 = 2 ^ l1_AW l1"
    "l1_CNT l1 = map (\<lambda>t. snd (run_of runs t)) [0..<l1_N l1]"
    "l1_ROW l1 = map (\<lambda>t. fst (run_of runs t)) [0..<l1_N l1]"
proof -
  from assms obtain runs prev where s: "foldE dir_step (enum dir) ([], None) = Inr (runs, prev)"
    by (auto simp: two_level_directory_def)
  note inv = runs_inv_scan[OF s]
  let ?m = "Max (set (map fst runs))"
  from assms s have "(if runs = [] then Inl ValueError
      else if ?m \<ge> 256 then Inl (Refused (TypeTooHigh ?m))
      else Inr \<lparr>l1_AW = max 1 (bit_length ?m), l1_N = 2 ^ max 1 (bit_length ?m),
       l1_CNT = map (\<lambda>t. snd (run_of runs t)) [0..<2 ^ max 1 (bit_length ?m)],
       l1_ROW = map (\<lambda>t. fst (run_of runs t)) [0..<2 ^ max 1 (bit_length ?m)]\<rparr>) = Inr l1"
    by (simp only: two_level_directory_def rbind.simps Let_def prod.case)
  then have l: "runs \<noteq> []" "?m < 256"
    "l1 = \<lparr>l1_AW = max 1 (bit_length ?m), l1_N = 2 ^ max 1 (bit_length ?m),
       l1_CNT = map (\<lambda>t. snd (run_of runs t)) [0..<2 ^ max 1 (bit_length ?m)],
       l1_ROW = map (\<lambda>t. fst (run_of runs t)) [0..<2 ^ max 1 (bit_length ?m)]\<rparr>"
    by (simp_all only: not_le split: if_splits) (simp_all only: sum.distinct sum.inject not_False_eq_True)
  have le: "fst r \<le> ?m" if "r \<in> set dir" for r
    using runs_domain[OF inv] that by (intro Max_ge) auto
  have "?m < 2 ^ bit_length ?m" by (rule less_two_power_bit_length)
  also have "(2 :: nat) ^ bit_length ?m \<le> 2 ^ max 1 (bit_length ?m)" by (intro power_increasing) auto
  finally have n: "?m < l1_N l1" using l(3) by simp
  show thesis
  proof (rule that[OF inv])
    show "\<forall>r \<in> set dir. fst r < l1_N l1" using le n by (meson le_less_trans)
    show "\<forall>r \<in> set dir. fst r < 256" using le l(2) by (meson le_less_trans)
    show "dir \<noteq> []" using runs_domain[OF inv] l(1) by auto
  qed (simp_all add: l(3))
qed

lemma two_level_directory_accepts:
  assumes "dense dir" "dir \<noteq> []" "\<forall>r \<in> set dir. fst r < 256"
  shows "\<exists>l1. two_level_directory dir = Inr l1"
proof -
  from scan_total[OF assms(1)] obtain runs prev where s: "foldE dir_step (enum dir) ([], None) = Inr (runs, prev)"
    by auto
  note dom = runs_domain[OF runs_inv_scan[OF s]]
  have "runs \<noteq> []" using dom assms(2) by auto
  moreover have "Max (set (map fst runs)) < 256"
    unfolding dom using assms(2,3) by (subst Max_less_iff) auto
  ultimately show ?thesis using s by (simp add: two_level_directory_def Let_def not_le del: list.set_map)
qed

lemma linear_append1:
  "linear (dir @ [(t', i', b, l)]) t i = (if t' = t \<and> i' = i then (1, b, l) else linear dir t i)"
  by (simp add: linear_def)

lemma linear_miss: "(\<And>b l. (t, i, b, l) \<notin> set dir) \<Longrightarrow> linear dir t i = (0, 0, 0)"
proof (induction dir rule: rev_induct)
  case Nil
  then show ?case by (simp add: linear_def)
next
  case (snoc r dir)
  obtain t' i' b l where r: "r = (t', i', b, l)" by (cases r)
  with snoc show ?case by (auto simp: linear_append1)
qed

lemma linear_hit:
  "(t, i, b, l) \<in> set dir \<Longrightarrow> (\<And>b' l'. (t, i, b', l') \<in> set dir \<Longrightarrow> b' = b \<and> l' = l)
    \<Longrightarrow> linear dir t i = (1, b, l)"
proof (induction dir rule: rev_induct)
  case Nil
  then show ?case by simp
next
  case (snoc r dir)
  obtain t' i' b' l' where r: "r = (t', i', b', l')" by (cases r)
  show ?case
  proof (cases "t' = t \<and> i' = i")
    case True
    with snoc.prems(2)[of b' l'] r have "b' = b \<and> l' = l" by simp
    with True r show ?thesis by (simp add: linear_append1)
  next
    case False
    with snoc.prems(1) r have "(t, i, b, l) \<in> set dir" by auto
    moreover have "\<And>b' l'. (t, i, b', l') \<in> set dir \<Longrightarrow> b' = b \<and> l' = l"
      by (rule snoc.prems(2)) simp
    ultimately have "linear dir t i = (1, b, l)" by (rule snoc.IH)
    with False r show ?thesis by (auto simp: linear_append1)
  qed
qed

section \<open>The interface of a lookup\<close>

text \<open>
  What a client of the directory relies on: a row that is there is found with its base and
  length, and nothing else is. Two lookups with this contract are the same function.
\<close>

locale directory_accessor =
  fixes directory :: "dir_row list" and resolve :: "nat \<Rightarrow> nat \<Rightarrow> nat \<times> nat \<times> nat"
  assumes hit: "(t, i, b, l) \<in> set directory \<Longrightarrow> resolve t i = (1, b, l)"
    and miss: "(\<And>b l. (t, i, b, l) \<notin> set directory) \<Longrightarrow> resolve t i = (0, 0, 0)"
begin

lemma key_unique: "(t, i, b, l) \<in> set directory \<Longrightarrow> (t, i, b', l') \<in> set directory \<Longrightarrow> b = b' \<and> l = l'"
  using hit[of t i b l] hit[of t i b' l'] by simp

lemma found_iff: "fst (resolve t i) = 1 \<longleftrightarrow> (\<exists>b l. (t, i, b, l) \<in> set directory)"
proof
  assume "fst (resolve t i) = 1"
  then show "\<exists>b l. (t, i, b, l) \<in> set directory" using miss[of t i] by (cases "\<exists>b l. (t, i, b, l) \<in> set directory") auto
next
  assume "\<exists>b l. (t, i, b, l) \<in> set directory"
  then show "fst (resolve t i) = 1" using hit by auto
qed

lemma accessor_unique: "directory_accessor directory f \<Longrightarrow> f t i = resolve t i"
proof -
  assume f: "directory_accessor directory f"
  show "f t i = resolve t i"
  proof (cases "\<exists>b l. (t, i, b, l) \<in> set directory")
    case True
    then obtain b l where "(t, i, b, l) \<in> set directory" by blast
    then show ?thesis using hit directory_accessor.hit[OF f] by metis
  next
    case False
    then show ?thesis using miss[of t i] directory_accessor.miss[OF f, of t i] by simp
  qed
qed

end

text \<open>A directory the generator accepted, with its level-1 table.\<close>

locale dense_directory =
  fixes directory :: "dir_row list" and l1 :: level1
  assumes accepted: "two_level_directory directory = Inr l1"
begin

lemma row_at_run:
  assumes "(t, i, b, l) \<in> set directory"
  shows "t < l1_N l1" "i < l1_CNT l1 ! t" "l1_ROW l1 ! t + i < length directory"
    "directory ! (l1_ROW l1 ! t + i) = (t, i, b, l)"
proof -
  from accepted obtain runs prev where inv: "runs_inv directory runs prev"
    and lt: "\<forall>r \<in> set directory. fst r < l1_N l1"
    and c: "l1_CNT l1 = map (\<lambda>t. snd (run_of runs t)) [0..<l1_N l1]"
    and r: "l1_ROW l1 = map (\<lambda>t. fst (run_of runs t)) [0..<l1_N l1]"
    by (rule two_level_directory_Inr) blast
  show t: "t < l1_N l1" using lt assms by force
  obtain k where k: "k < length directory" "directory ! k = (t, i, b, l)"
    using assms by (metis in_set_conv_nth)
  have "map_of runs t \<noteq> None" using runs_inv_None[OF inv] assms by force
  then obtain f cnt where m: "map_of runs t = Some (f, cnt)" by auto
  with runs_inv_Some[OF inv] have run: "in_run directory t f cnt" by blast
  from in_run_mem[OF run k(1)] k(2) have fk: "f \<le> k" "k < f + cnt" by auto
  from in_run_index[OF run, of "k - f"] fk k(2) have i: "i = k - f" by simp
  have e: "l1_CNT l1 ! t = cnt" "l1_ROW l1 ! t = f" using t m by (simp_all add: c r run_of_def)
  show "i < l1_CNT l1 ! t" "l1_ROW l1 ! t + i < length directory"
    "directory ! (l1_ROW l1 ! t + i) = (t, i, b, l)"
    using e i fk k by simp_all
qed

lemma run_rows:
  assumes "t < l1_N l1" "i < l1_CNT l1 ! t"
  shows "l1_ROW l1 ! t + i < length directory" "\<exists>b l. directory ! (l1_ROW l1 ! t + i) = (t, i, b, l)"
proof -
  from accepted obtain runs prev where inv: "runs_inv directory runs prev"
    and c: "l1_CNT l1 = map (\<lambda>t. snd (run_of runs t)) [0..<l1_N l1]"
    and r: "l1_ROW l1 = map (\<lambda>t. fst (run_of runs t)) [0..<l1_N l1]"
    by (rule two_level_directory_Inr) blast
  from assms have "map_of runs t \<noteq> None" by (auto simp: c run_of_def split: option.splits)
  then obtain f cnt where m: "map_of runs t = Some (f, cnt)" by auto
  have e: "l1_CNT l1 ! t = cnt" "l1_ROW l1 ! t = f" using assms(1) m by (simp_all add: c r run_of_def)
  from runs_inv_Some[OF inv m] have run: "in_run directory t f cnt" by blast
  then have le: "f + i < length directory" using assms(2) e by (simp add: in_run_def)
  from in_run_mem[OF run le] in_run_index[OF run, of i] assms(2) e
  have "fst (directory ! (f + i)) = t" "fst (snd (directory ! (f + i))) = i" by auto
  then show "l1_ROW l1 ! t + i < length directory" "\<exists>b l. directory ! (l1_ROW l1 ! t + i) = (t, i, b, l)"
    using le e by (metis prod.collapse)+
qed

lemma table_lengths: "length (l1_CNT l1) = l1_N l1" "length (l1_ROW l1) = l1_N l1"
  using accepted by (auto elim!: two_level_directory_Inr)

lemma resolve_hit: "(t, i, b, l) \<in> set directory \<Longrightarrow> two_level_resolve l1 directory t i = Inr (1, b, l)"
  using row_at_run[of t i b l] table_lengths by (simp add: two_level_resolve_def del: of_nat_add)

lemma resolve_miss: "(\<And>b l. (t, i, b, l) \<notin> set directory) \<Longrightarrow> two_level_resolve l1 directory t i = Inr (0, 0, 0)"
proof -
  assume no: "\<And>b l. (t, i, b, l) \<notin> set directory"
  have "\<not> (t < l1_N l1 \<and> i < l1_CNT l1 ! t)"
  proof
    assume "t < l1_N l1 \<and> i < l1_CNT l1 ! t"
    then obtain b l where "directory ! (l1_ROW l1 ! t + i) = (t, i, b, l)" "l1_ROW l1 ! t + i < length directory"
      using run_rows[of t i] by blast
    with no[of b l] show False using nth_mem by metis
  qed
  then show ?thesis using table_lengths by (auto simp: two_level_resolve_def)
qed

lemma key_determines_row: "(t, i, b, l) \<in> set directory \<Longrightarrow> (t, i, b', l') \<in> set directory \<Longrightarrow> b' = b \<and> l' = l"
  using resolve_hit[of t i b l] resolve_hit[of t i b' l'] by simp

end

sublocale dense_directory \<subseteq> scan: directory_accessor directory "linear directory"
proof unfold_locales
  fix t i b l
  assume "(t, i, b, l) \<in> set directory"
  then show "linear directory t i = (1, b, l)" using key_determines_row by (intro linear_hit)
next
  fix t i
  assume "\<And>b l. (t, i, b, l) \<notin> set directory"
  then show "linear directory t i = (0, 0, 0)" by (rule linear_miss)
qed

sublocale dense_directory \<subseteq> two: directory_accessor directory "\<lambda>t i. projr (two_level_resolve l1 directory t i)"
  by unfold_locales (simp_all add: resolve_hit resolve_miss)

context dense_directory
begin

lemma two_level_total: "two_level_resolve l1 directory t i = Inr (linear directory t i)"
proof (cases "\<exists>b l. (t, i, b, l) \<in> set directory")
  case True
  then show ?thesis using resolve_hit scan.hit by fastforce
next
  case False
  then show ?thesis using resolve_miss[of t i] scan.miss[of t i] by simp
qed

lemma check_passes: "check_two_level l1 directory = Inr ()"
proof -
  have "foldE (\<lambda>(t, i) _. rbind (two_level_resolve l1 directory t i) (\<lambda>got.
      if got \<noteq> linear directory t i then Inl (Refused (TwoLevelDiverges t i)) else Inr ())) ps () = Inr ()" for ps
    by (induction ps) (auto simp: two_level_total split: prod.splits)
  then show ?thesis by (simp add: check_two_level_def)
qed

end

section \<open>The name table\<close>

unbundle bit_operations_syntax

text \<open>A row of the SET/GET_NAME table is \<^verbatim>\<open>(type, index, name_index, address)\<close>.\<close>

type_synonym named_row = "nat \<times> nat \<times> nat \<times> nat"

definition base_dict :: "dir_row list \<Rightarrow> nat \<times> nat \<Rightarrow> nat option" where
  "base_dict directory = map_of (rev (map (\<lambda>(t, i, b, _). ((t, i), b)) directory))"

definition entries_of :: "named_row list \<Rightarrow> nat \<Rightarrow> (nat \<times> nat \<times> nat) list" where
  "entries_of named t = map snd (filter (\<lambda>r. fst r = t) named)"

text \<open>\<^verbatim>\<open>all(nidx == 0 and addr == base[(t, i)] + 4 ...)\<close>: stops at the first False, a missing key raises.\<close>

fun all_at_base :: "(nat \<times> nat \<Rightarrow> nat option) \<Rightarrow> nat \<Rightarrow> (nat \<times> nat \<times> nat) list \<Rightarrow> bool aem" where
  "all_at_base base t [] = Inr True"
| "all_at_base base t ((i, nidx, addr) # es) =
     (if nidx \<noteq> 0 then Inr False
      else case base (t, i) of
        None \<Rightarrow> Inl KeyError
      | Some b \<Rightarrow> if addr = b + 4 then all_at_base base t es else Inr False)"

definition structural :: "level1 \<Rightarrow> dir_row list \<Rightarrow> named_row list \<Rightarrow> nat \<Rightarrow> bool aem" where
  "structural l1 directory named t =
     (if t \<ge> l1_N l1 then Inr False
      else rbind (all_at_base (base_dict directory) t (entries_of named t)) (\<lambda>ok.
        if \<not> ok then Inr False
        else rbind (py_nth (l1_CNT l1) (int t)) (\<lambda>cnt.
          Inr (sort (map fst (entries_of named t)) = [0..<cnt]))))"

definition split_step :: "level1 \<Rightarrow> dir_row list \<Rightarrow> named_row list \<Rightarrow> nat
    \<Rightarrow> nat \<times> named_row list \<Rightarrow> (nat \<times> named_row list) aem" where
  "split_step l1 directory named t st = (case st of (msk, exc) \<Rightarrow>
     rbind (structural l1 directory named t) (\<lambda>s.
       if s then Inr (msk OR push_bit t 1, exc)
       else Inr (msk, exc @ map (Pair t) (entries_of named t))))"

definition name_resolve :: "level1 \<Rightarrow> dir_row list \<Rightarrow> nat \<Rightarrow> named_row list \<Rightarrow> nat \<times> nat \<times> nat \<Rightarrow> (nat \<times> nat) aem" where
  "name_resolve l1 directory msk exc key = (case key of (t, i, nidx) \<Rightarrow>
     case find (\<lambda>(et, ei, en, ea). (t, i, nidx) = (et, ei, en)) exc of
       Some (_, _, _, ea) \<Rightarrow> Inr (1, ea)
     | None \<Rightarrow>
         if t < l1_N l1 \<and> nidx = 0 \<and> bit msk t
         then rbind (py_nth (l1_CNT l1) (int t)) (\<lambda>cnt.
           if i < cnt
           then rbind (py_nth (l1_ROW l1) (int t)) (\<lambda>row.
             rbind (py_nth directory (int (row + i))) (\<lambda>(_, _, b, _). Inr (1, b + 4)))
           else Inr (0, 0))
         else Inr (0, 0))"

definition named_key :: "named_row \<Rightarrow> (nat \<times> nat \<times> nat) \<times> nat" where
  "named_key r = (case r of (t, i, n, a) \<Rightarrow> ((t, i, n), a))"

definition want_name :: "named_row list \<Rightarrow> nat \<times> nat \<times> nat \<Rightarrow> nat option" where
  "want_name named = map_of (rev (map named_key named))"

definition expected_name :: "named_row list \<Rightarrow> nat \<times> nat \<times> nat \<Rightarrow> nat \<times> nat" where
  "expected_name named key = (case want_name named key of Some a \<Rightarrow> (1, a) | None \<Rightarrow> (0, 0))"

definition name_probes :: "level1 \<Rightarrow> named_row list \<Rightarrow> (nat \<times> nat \<times> nat) list" where
  "name_probes l1 named =
     concat (map (\<lambda>r. case fst (named_key r) of (t, i, n) \<Rightarrow>
       [(t, i, n), (t, i + 1, n), (t, i, n + 1), (t, 0xFFFF, n)]) named)
     @ map (\<lambda>t. (t, 0, 0)) [0..<l1_N l1 + 4]"

definition check_named :: "level1 \<Rightarrow> dir_row list \<Rightarrow> named_row list \<Rightarrow> nat \<Rightarrow> named_row list \<Rightarrow> unit aem" where
  "check_named l1 directory named msk exc =
     foldE (\<lambda>key _. rbind (name_resolve l1 directory msk exc key) (\<lambda>got.
         if got \<noteq> expected_name named key
         then Inl (Refused (NameLookupDiverges (fst key) (fst (snd key)) (snd (snd key)))) else Inr ()))
       (sort (remdups (name_probes l1 named))) ()"

definition named_structure :: "level1 \<Rightarrow> dir_row list \<Rightarrow> named_row list \<Rightarrow> (nat \<times> named_row list) aem" where
  "named_structure l1 directory named =
     rbind (foldE (split_step l1 directory named) (sort (remdups (map fst named))) (0, [])) (\<lambda>(msk, exc).
       rbind (check_named l1 directory named msk exc) (\<lambda>_. Inr (msk, exc)))"

lemma foldE_check_iff:
  "foldE (\<lambda>x _. rbind (f x) (\<lambda>got. if got \<noteq> g x then Inl (e x) else Inr ())) xs () = Inr ()
    \<longleftrightarrow> (\<forall>x \<in> set xs. f x = Inr (g x))"
  by (induction xs) auto

lemma check_named_iff:
  "check_named l1 dir named msk exc = Inr () \<longleftrightarrow>
     (\<forall>key \<in> set (name_probes l1 named). name_resolve l1 dir msk exc key = Inr (expected_name named key))"
  unfolding check_named_def foldE_check_iff by simp

lemma split_inv:
  assumes "foldE (split_step l1 dir named) ts (0, []) = Inr (msk, exc)"
  shows "(\<forall>t \<in> set ts. \<exists>s. structural l1 dir named t = Inr s)
    \<and> (\<forall>t. bit msk t \<longleftrightarrow> t \<in> set ts \<and> structural l1 dir named t = Inr True)
    \<and> (\<forall>t e. (t, e) \<in> set exc \<longleftrightarrow> (t, e) \<in> set named \<and> t \<in> set ts \<and> structural l1 dir named t = Inr False)"
  using assms
proof (induction ts arbitrary: msk exc rule: rev_induct)
  case Nil
  then show ?case by simp
next
  case (snoc t ts)
  then obtain m x where ih: "foldE (split_step l1 dir named) ts (0, []) = Inr (m, x)"
    and step: "split_step l1 dir named t (m, x) = Inr (msk, exc)"
    by (auto simp: foldE_append split_paired_Ex)
  note IH = snoc.IH[OF ih]
  from step obtain s where s: "structural l1 dir named t = Inr s"
    and st: "if s then msk = (m OR push_bit t 1) \<and> exc = x
             else msk = m \<and> exc = x @ map (Pair t) (entries_of named t)"
    by (auto simp: split_step_def split: if_splits)
  have e: "(u, e) \<in> set (map (Pair t) (entries_of named t)) \<longleftrightarrow> u = t \<and> (u, e) \<in> set named" for u e
    by (force simp: entries_of_def)
  have bits: "bit msk u \<longleftrightarrow> bit m u \<or> (s \<and> u = t)" for u
    using st by (cases s) (auto simp: bit_or_iff bit_exp_iff)
  have mem: "(u, e) \<in> set exc \<longleftrightarrow> (u, e) \<in> set x \<or> (\<not> s \<and> u = t \<and> (u, e) \<in> set named)" for u e
  proof (cases s)
    case False
    then have "set exc = set x \<union> set (map (Pair t) (entries_of named t))" using st by auto
    then show ?thesis using e[of u e] False by blast
  qed (use st in simp)
  show ?case unfolding bits mem using IH s by (cases s) auto
qed

lemmas split_inv_total = split_inv[THEN conjunct1, rule_format]
lemmas split_inv_bit = split_inv[THEN conjunct2, THEN conjunct1, rule_format]
lemmas split_inv_exc = split_inv[THEN conjunct2, THEN conjunct2, rule_format]

lemma structural_TrueD:
  assumes "structural l1 dir named t = Inr True" "length (l1_CNT l1) = l1_N l1"
  shows "t < l1_N l1" "all_at_base (base_dict dir) t (entries_of named t) = Inr True"
    "sort (map fst (entries_of named t)) = [0..<l1_CNT l1 ! t]"
proof -
  show lt: "t < l1_N l1"
  proof (rule ccontr)
    assume "\<not> t < l1_N l1"
    then have "structural l1 dir named t = Inr False" by (simp add: structural_def)
    with assms(1) show False by simp
  qed
  show "all_at_base (base_dict dir) t (entries_of named t) = Inr True"
    "sort (map fst (entries_of named t)) = [0..<l1_CNT l1 ! t]"
    using assms lt by (auto simp: structural_def split: if_splits)
qed

lemma structural_covers:
  assumes "structural l1 dir named t = Inr True" "length (l1_CNT l1) = l1_N l1" "i < l1_CNT l1 ! t"
  shows "\<exists>a. (t, i, 0, a) \<in> set named"
proof -
  have ok: "all_at_base (base_dict dir) t (entries_of named t) = Inr True"
    and srt: "sort (map fst (entries_of named t)) = [0..<l1_CNT l1 ! t]"
    using structural_TrueD(2,3)[OF assms(1,2)] .
  have n0: "all_at_base base t es = Inr True \<Longrightarrow> (i, n, a) \<in> set es \<Longrightarrow> n = 0" for base es i n a
    by (induction es) (auto split: if_splits option.splits)
  have "i \<in> set (sort (map fst (entries_of named t)))" using srt assms(3) by simp
  then obtain n a where "(i, n, a) \<in> set (entries_of named t)" by auto
  moreover from this have "n = 0" by (rule n0[OF ok])
  ultimately show ?thesis by (auto simp: entries_of_def)
qed

lemma want_name_None_iff: "want_name named (t, i, n) = None \<longleftrightarrow> (\<forall>a. (t, i, n, a) \<notin> set named)"
  by (force simp: want_name_def map_of_eq_None_iff named_key_def image_iff)

lemma all_at_base_entry:
  "all_at_base base t es = Inr True \<Longrightarrow> (i, n, a) \<in> set es \<Longrightarrow> n = 0 \<and> (\<exists>b. base (t, i) = Some b \<and> a = b + 4)"
  by (induction es) (auto split: if_splits option.splits)

lemma all_at_base_total:
  "\<forall>i a. (i, 0, a) \<in> set es \<longrightarrow> base (t, i) \<noteq> None \<Longrightarrow> \<exists>ok. all_at_base base t es = Inr ok"
proof (induction es)
  case Nil
  then show ?case by (metis all_at_base.simps(1))
next
  case (Cons e es)
  obtain i n a where e: "e = (i, n, a)" by (cases e)
  have "\<forall>i a. (i, 0, a) \<in> set es \<longrightarrow> base (t, i) \<noteq> None" using Cons.prems by auto
  then have "\<exists>ok. all_at_base base t es = Inr ok" by (rule Cons.IH)
  moreover have "n = 0 \<Longrightarrow> \<exists>b. base (t, i) = Some b" using Cons.prems e by auto
  moreover have "\<exists>ok. \<not> ok" by blast
  ultimately show ?case unfolding e by (cases "base (t, i)") auto
qed

context dense_directory
begin

lemma structural_total:
  assumes "\<forall>i a. (t, i, 0, a) \<in> set named \<longrightarrow> (\<exists>b l. (t, i, b, l) \<in> set directory)"
  shows "\<exists>s. structural l1 directory named t = Inr s"
proof -
  have "base_dict directory (t, i) \<noteq> None" if "(i, 0, a) \<in> set (entries_of named t)" for i a
  proof -
    from that have "(t, i, 0, a) \<in> set named" by (auto simp: entries_of_def)
    with assms obtain b l where "(t, i, b, l) \<in> set directory" by blast
    then have "((t, i), b) \<in> set (rev (map (\<lambda>(t, i, b, _). ((t, i), b)) directory))" by force
    from weak_map_of_SomeI[OF this] show ?thesis by (auto simp: base_dict_def)
  qed
  then obtain ok where "all_at_base (base_dict directory) t (entries_of named t) = Inr ok"
    using all_at_base_total[of "entries_of named t" "base_dict directory" t] by blast
  then show ?thesis using table_lengths by (cases ok) (auto simp: structural_def)
qed

lemma split_total:
  assumes "\<forall>t i a. (t, i, 0, a) \<in> set named \<longrightarrow> (\<exists>b l. (t, i, b, l) \<in> set directory)"
  shows "\<exists>mx. foldE (split_step l1 directory named) ts st = Inr mx"
proof (induction ts arbitrary: st)
  case Nil
  then show ?case by simp
next
  case (Cons t ts)
  from structural_total[of t named] assms obtain s where "structural l1 directory named t = Inr s" by blast
  then obtain st' where "split_step l1 directory named t st = Inr st'"
    by (cases st; cases s) (auto simp: split_step_def)
  then show ?case using Cons.IH[of st'] by simp
qed

lemma split_answers:
  assumes split: "foldE (split_step l1 directory named) (sort (remdups (map fst named))) (0, []) = Inr (msk, exc)"
    and dist: "distinct (map (\<lambda>r. fst (named_key r)) named)" and mem: "(t, i, n, a) \<in> set named"
  shows "name_resolve l1 directory msk exc (t, i, n) = Inr (1, a)"
proof -
  have inj: "inj_on (\<lambda>r. fst (named_key r)) (set named)" using dist by (simp add: distinct_map)
  have uniq: "a' = a" if "(t, i, n, a') \<in> set named" for a'
    using inj_onD[OF inj _ that mem] by (simp add: named_key_def)
  have "t \<in> set (map fst named)" using mem by (metis fst_conv image_eqI list.set_map)
  then have ts: "t \<in> set (sort (remdups (map fst named)))" by simp
  then obtain s where s: "structural l1 directory named t = Inr s" using split_inv_total[OF split] by blast
  show ?thesis
  proof (cases s)
    case True
    from s True have st: "structural l1 directory named t = Inr True" by simp
    have bit: "bit msk t" using split_inv_bit[OF split, of t] ts st by simp
    note lt = structural_TrueD(1)[OF st table_lengths(1)]
    have "all_at_base (base_dict directory) t (entries_of named t) = Inr True"
      and srt: "sort (map fst (entries_of named t)) = [0..<l1_CNT l1 ! t]"
      using structural_TrueD(2,3)[OF st table_lengths(1)] .
    moreover have ent: "(i, n, a) \<in> set (entries_of named t)" using mem by (force simp: entries_of_def)
    ultimately obtain b where b: "n = 0" "base_dict directory (t, i) = Some b" "a = b + 4"
      using all_at_base_entry by blast
    from ent have "i \<in> set (sort (map fst (entries_of named t)))" by force
    then have i: "i < l1_CNT l1 ! t" unfolding srt by simp
    from b(2) obtain l where "(t, i, b, l) \<in> set directory" by (auto simp: base_dict_def dest!: map_of_SomeD)
    from row_at_run[OF this] have row: "l1_ROW l1 ! t + i < length directory"
      "directory ! (l1_ROW l1 ! t + i) = (t, i, b, l)" by simp_all
    have "find (\<lambda>(et, ei, en, ea). (t, i, n) = (et, ei, en)) exc = None"
      using split_inv_exc[OF split] st by (auto simp: find_None_iff)
    then show ?thesis
      using bit lt b i row table_lengths by (simp add: name_resolve_def del: of_nat_add)
  next
    case False
    with split_inv_exc[OF split, of t "(i, n, a)"] mem ts s have "(t, i, n, a) \<in> set exc" by simp
    then obtain r where r: "find (\<lambda>(et, ei, en, ea). (t, i, n) = (et, ei, en)) exc = Some r"
      by (cases "find (\<lambda>(et, ei, en, ea). (t, i, n) = (et, ei, en)) exc") (auto simp: find_None_iff)
    then have "r \<in> set exc" "(\<lambda>(et, ei, en, ea). (t, i, n) = (et, ei, en)) r"
      using nth_mem by (fastforce simp: find_Some_iff)+
    moreover obtain et ei en a' where "r = (et, ei, en, a')" by (metis surj_pair)
    ultimately have a': "r = (t, i, n, a')" "r \<in> set exc" by simp_all
    with split_inv_exc[OF split, of t "(i, n, a')"] have "(t, i, n, a') \<in> set named" by simp
    with uniq r a'(1) show ?thesis by (simp add: name_resolve_def)
  qed
qed

lemma split_misses:
  assumes split: "foldE (split_step l1 directory named) ts (0, []) = Inr (msk, exc)"
    and no: "\<And>a. (t, i, n, a) \<notin> set named"
  shows "name_resolve l1 directory msk exc (t, i, n) = Inr (0, 0)"
proof -
  have "(t, i, n, a) \<notin> set exc" for a using split_inv_exc[OF split, of t "(i, n, a)"] no by simp
  then have "find (\<lambda>(et, ei, en, ea). (t, i, n) = (et, ei, en)) exc = None"
    by (auto simp: find_None_iff)
  moreover have "\<not> (t < l1_N l1 \<and> n = 0 \<and> bit msk t \<and> i < l1_CNT l1 ! t)"
    using structural_covers[of l1 directory named t i] split_inv_bit[OF split, of t] no table_lengths by auto
  ultimately show ?thesis using table_lengths by (auto simp: name_resolve_def)
qed

lemma name_lookup_total:
  assumes "named_structure l1 directory named = Inr (msk, exc)"
  shows "name_resolve l1 directory msk exc (t, i, n) = Inr (expected_name named (t, i, n))"
proof -
  from assms have split: "foldE (split_step l1 directory named) (sort (remdups (map fst named))) (0, []) = Inr (msk, exc)"
    and chk: "check_named l1 directory named msk exc = Inr ()"
    by (auto simp: named_structure_def)
  show ?thesis
  proof (cases "want_name named (t, i, n)")
    case (Some a)
    then obtain a where "(t, i, n, a) \<in> set named" using want_name_None_iff[of named t i n] by auto
    then have "(t, i, n) \<in> set (name_probes l1 named)"
      by (auto simp: name_probes_def named_key_def intro!: bexI[of _ "(t, i, n, a)"])
    with chk show ?thesis unfolding check_named_iff by blast
  next
    case None
    then have "\<And>a. (t, i, n, a) \<notin> set named" by (simp add: want_name_None_iff)
    from split_misses[OF split this] None show ?thesis by (simp add: expected_name_def)
  qed
qed

text \<open>With distinct keys over rows of the directory the split always exists and its gate never refuses.\<close>

lemma named_structure_total:
  assumes "\<forall>t i a. (t, i, 0, a) \<in> set named \<longrightarrow> (\<exists>b l. (t, i, b, l) \<in> set directory)"
    and dist: "distinct (map (\<lambda>r. fst (named_key r)) named)"
  shows "\<exists>mx. named_structure l1 directory named = Inr mx"
proof -
  from split_total[OF assms(1)] obtain mx where
    "foldE (split_step l1 directory named) (sort (remdups (map fst named))) (0, []) = Inr mx" by blast
  moreover obtain msk exc where "mx = (msk, exc)" by (cases mx)
  ultimately have
    split: "foldE (split_step l1 directory named) (sort (remdups (map fst named))) (0, []) = Inr (msk, exc)" by simp
  have "name_resolve l1 directory msk exc key = Inr (expected_name named key)" for key
  proof -
    obtain t i n where key: "key = (t, i, n)" by (cases key)
    show ?thesis
    proof (cases "want_name named (t, i, n)")
      case None
      then have "\<And>a. (t, i, n, a) \<notin> set named" by (simp add: want_name_None_iff)
      from split_misses[OF split this] None show ?thesis by (simp add: key expected_name_def)
    next
      case (Some a)
      then have "(t, i, n, a) \<in> set named"
        by (auto simp: want_name_def named_key_def dest!: map_of_SomeD split: prod.splits)
      from split_answers[OF split dist this] Some show ?thesis by (simp add: key expected_name_def)
    qed
  qed
  then have "check_named l1 directory named msk exc = Inr ()" by (simp add: check_named_iff)
  with split show ?thesis by (simp add: named_structure_def)
qed

end

section \<open>Properties\<close>

text \<open>
  Property C13. The generator accepts exactly the directories whose rows form one contiguous,
  zero-based ascending run per descriptor type, with at least one row and every type below 256.
\<close>

theorem two_level_accepts_iff:
  "(\<exists>l1. two_level_directory dir = Inr l1) \<longleftrightarrow> dir \<noteq> [] \<and> (\<forall>r \<in> set dir. fst r < 256) \<and> dense dir"
proof
  assume "\<exists>l1. two_level_directory dir = Inr l1"
  then obtain l1 where "two_level_directory dir = Inr l1" by blast
  then show "dir \<noteq> [] \<and> (\<forall>r \<in> set dir. fst r < 256) \<and> dense dir"
    by (rule two_level_directory_Inr) (blast intro: runs_inv_dense)
next
  assume "dir \<noteq> [] \<and> (\<forall>r \<in> set dir. fst r < 256) \<and> dense dir"
  then show "\<exists>l1. two_level_directory dir = Inr l1" using two_level_directory_accepts by blast
qed

text \<open>
  Property C5. The direct-indexed lookup is the linear scan it replaces, on every type and index
  and not only on the probes: for an accepted directory it never raises, answers exactly
  like the scan, and the generator's own equivalence gate never refuses.
\<close>

theorem two_level_equals_scan:
  assumes "two_level_directory dir = Inr l1"
  shows "two_level_resolve l1 dir t i = Inr (linear dir t i) \<and> check_two_level l1 dir = Inr ()"
  using dense_directory.two_level_total[OF dense_directory.intro[OF assms]]
    dense_directory.check_passes[OF dense_directory.intro[OF assms]] by simp

text \<open>Three rows: the ENTITY and two STREAM_INPUTs.\<close>

definition sample_directory :: "dir_row list" where
  "sample_directory = [(0, 0, 0, 312), (5, 0, 312, 146), (5, 1, 458, 154)]"

definition sample_level1 :: level1 where
  "sample_level1 = \<lparr>l1_AW = 3, l1_N = 8, l1_CNT = [1, 0, 0, 0, 0, 2, 0, 0], l1_ROW = [0, 0, 0, 0, 0, 1, 0, 0]\<rparr>"

lemma sample_accepted: "two_level_directory sample_directory = Inr sample_level1"
  by code_simp

theorem two_level_accepts_iff_witness:
  "(\<exists>l1. two_level_directory sample_directory = Inr l1) \<and> dense sample_directory
    \<and> \<not> dense (sample_directory @ [(0, 1, 612, 312)])"
proof -
  have "two_level_directory (sample_directory @ [(0, 1, 612, 312)]) \<noteq> Inr l1" for l1 by code_simp
  then show ?thesis
    using two_level_accepts_iff[of sample_directory] two_level_accepts_iff[of "sample_directory @ [(0, 1, 612, 312)]"]
      sample_accepted
    by (auto simp: sample_directory_def)
qed

theorem two_level_equals_scan_witness:
  "two_level_directory sample_directory = Inr sample_level1
    \<and> two_level_resolve sample_level1 sample_directory 5 1 = Inr (1, 458, 154)
    \<and> two_level_resolve sample_level1 sample_directory 5 2 = Inr (0, 0, 0)"
  using two_level_equals_scan[OF sample_accepted, of 5 1] two_level_equals_scan[OF sample_accepted, of 5 2]
    sample_accepted
  by (simp add: linear_def sample_directory_def)

text \<open>
  Property C16. The structural name rule with its exceptions answers like the flat name table on
  every (type, index, name_index), hits and misses alike, whenever \<^verbatim>\<open>named_structure\<close> accepts the
  split; the probes of \<^verbatim>\<open>check_named\<close> are enough.
\<close>

theorem name_split_equals_table:
  assumes "two_level_directory dir = Inr l1" and "named_structure l1 dir named = Inr (msk, exc)"
  shows "name_resolve l1 dir msk exc (t, i, n) = Inr (expected_name named (t, i, n))"
  using dense_directory.name_lookup_total[OF dense_directory.intro[OF assms(1)] assms(2)] .

definition sample_named :: "named_row list" where
  "sample_named = [(0, 0, 0, 48), (0, 0, 1, 180), (5, 0, 0, 316), (5, 1, 0, 462)]"

definition sample_exc :: "named_row list" where
  "sample_exc = [(0, 0, 0, 48), (0, 0, 1, 180)]"

lemma sample_split:
  "foldE (split_step sample_level1 sample_directory sample_named) (sort (remdups (map fst sample_named))) (0, [])
    = Inr (32, sample_exc)"
  by code_simp

lemma bit_32: "bit (32 :: nat) t \<longleftrightarrow> t = 5"
  using bit_exp_iff[where ?'a = nat, of 5 t] by auto

lemma sample_check: "check_named sample_level1 sample_directory sample_named 32 sample_exc = Inr ()"
  unfolding check_named_iff
  by (simp add: name_probes_def sample_named_def sample_level1_def sample_directory_def sample_exc_def named_key_def
      name_resolve_def expected_name_def want_name_def bit_32 bit_0 upt_rec py_nth_def)

theorem name_split_equals_table_witness:
  "named_structure sample_level1 sample_directory sample_named = Inr (32, sample_exc)
    \<and> name_resolve sample_level1 sample_directory 32 sample_exc (5, 1, 0) = Inr (1, 462)"
proof -
  have s: "named_structure sample_level1 sample_directory sample_named = Inr (32, sample_exc)"
    by (simp add: named_structure_def sample_split sample_check)
  from name_split_equals_table[OF sample_accepted this, of 5 1 0] s show ?thesis
    by (simp add: expected_name_def want_name_def named_key_def sample_named_def)
qed

end
