(* ===== verification/Aem_Assemble.thy ===== *)
theory Aem_Assemble
  imports Aem_Maps Aem_Directory
begin

text \<open>
  Assembly (\<^verbatim>\<open>src/avdecc/aem_assemble.py\<close>, from line 190): the descriptors of a specification in
  the order the generator appends them, the ROM and its directory, the overlay, write-back and
  name spans, the per-stream and dynamic-map tables, and \<open>build_model\<close>, which composes them.

  The lemmas show that the append order always gives a directory the two-level lookup accepts,
  that the directory partitions the ROM, that every row serves its own descriptor, and that the
  spans the gateware overwrites stay inside their descriptors and apart from each other.
\<close>

section \<open>Descriptors of a specification\<close>

definition port_bounds :: "port_spec \<Rightarrow> PortMapBounds" where
  "port_bounds p =
     \<lparr>pb_clusters = p_clusters p, pb_base_cluster = p_base_cluster p,
      pb_maps = (if is_dynamic p then 0 else p_maps p),
      pb_base_map = (if is_dynamic p then 0 else p_base_map p)\<rparr>"

text \<open>A descriptor is \<^verbatim>\<open>(type, index, octets)\<close>.\<close>

type_synonym desc = "nat \<times> nat \<times> byte list"

definition desc :: "nat \<Rightarrow> nat \<Rightarrow> byte list aem \<Rightarrow> desc list aem" where
  "desc t i r = rbind r (\<lambda>b. Inr [(t, i, b)])"

definition need :: "'a option \<Rightarrow> 'a aem" where
  "need v = (case v of Some x \<Rightarrow> Inr x | None \<Rightarrow> Inl KeyError)"

definition object_name :: "aem_spec \<Rightarrow> string \<Rightarrow> pystr aem" where
  "object_name spec k = need ((map_of OBJECT_NAMES ++ map_of (get_or (sp_names spec) [])) k)"

definition stream_flags_out :: "stream_spec \<Rightarrow> int" where
  "stream_flags_out s = (if kind_of s = ''crf'' then 0x0003 else 0x0002)"

definition locale_of :: "aem_spec \<Rightarrow> pystr" where
  "locale_of spec = (case sp_locale spec of Some l \<Rightarrow> if l = [] then LOCALE_IDENTIFIER else l
                     | None \<Rightarrow> LOCALE_IDENTIFIER)"

definition entity_descriptors :: "aem_spec \<Rightarrow> desc list aem" where
  "entity_descriptors spec =
     (let si = sp_stream_inputs spec; so = sp_stream_outputs spec; cs = sp_clock_sources spec in
      concatE (
        [desc ENTITY 0 (d_entity (sp_entity spec)),
         rbind (object_name spec ''configuration'') (\<lambda>n.
           desc CONFIGURATION 0 (d_configuration (int (length si)) (int (length so)) (int (length cs)) n)),
         rbind (object_name spec ''audio_unit'') (\<lambda>n.
           desc AUDIO_UNIT 0 (d_audio_unit (sp_rates spec) (sp_current_rate spec)
             (int (length (sp_ports_in spec))) (int (length (sp_ports_out spec))) n))]
        @ map (\<lambda>(k, s). rbind (need (ss_buffer s)) (\<lambda>buf.
            desc STREAM_INPUT k (d_stream STREAM_INPUT k (ss_name s) 0x0003 (ss_formats s) buf))) (enum si)
        @ map (\<lambda>(k, s).
            desc STREAM_OUTPUT k (d_stream STREAM_OUTPUT k (ss_name s) (stream_flags_out s) (ss_formats s) 0)) (enum so)
        @ [rbind (object_name spec ''avb_interface'') (\<lambda>n.
             desc AVB_INTERFACE 0 (d_avb_interface (sp_gptp spec) n))]
        @ map (\<lambda>(k, c). desc CLOCK_SOURCE k
            (d_clock_source k (cs_name c) (cs_type c) (cs_loc_type c) (cs_loc_index c))) (enum cs)
        @ [rbind (object_name spec ''clock_domain'') (\<lambda>n. desc CLOCK_DOMAIN 0 (d_clock_domain (length cs) n)),
           rbind (object_name spec ''control_identify'') (\<lambda>n. desc CONTROL 0 (d_control_identify n)),
           desc LOCALE 0 (d_locale (locale_of spec)),
           desc STRINGS 0 (d_strings [e_name (sp_entity spec), sp_rates_string spec,
             e_vendor_name (sp_entity spec), [], [], [], []])]))"

definition names_or :: "pystr list option \<Rightarrow> string \<Rightarrow> int \<Rightarrow> pystr list" where
  "names_or names d n = (case names of Some (x # xs) \<Rightarrow> x # xs | _ \<Rightarrow> replicate (nat n) (lit d))"

definition port_descriptors :: "aem_spec \<Rightarrow> desc list aem" where
  "port_descriptors spec =
     (let n_in = sum_list (map p_clusters (sp_ports_in spec));
          n_out = sum_list (map p_clusters (sp_ports_out spec));
          names_in = names_or (sp_cluster_names_in spec) ''Input'' n_in;
          names_out = names_or (sp_cluster_names_out spec) ''Output'' n_out in
      concatE (
        map (\<lambda>(k, p). desc STREAM_PORT_INPUT k (d_stream_port STREAM_PORT_INPUT k 0x0001 (port_bounds p)))
          (enum (sp_ports_in spec))
        @ map (\<lambda>(k, p). desc STREAM_PORT_OUTPUT k (d_stream_port STREAM_PORT_OUTPUT k 0x0000 (port_bounds p)))
          (enum (sp_ports_out spec))
        @ [if int (length names_in) \<noteq> n_in \<or> int (length names_out) \<noteq> n_out
           then Inl (Refused (ClusterNameCount (length names_in) (length names_out) n_in n_out))
           else Inr []]
        @ map (\<lambda>k. desc AUDIO_CLUSTER k (d_audio_cluster (int k) (names_in ! k) NO_STRING)) [0..<nat n_in]
        @ map (\<lambda>k. desc AUDIO_CLUSTER k (d_audio_cluster (int k) (names_out ! (k - nat n_in)) (int AUDIO_UNIT)))
          [nat n_in..<nat (n_in + n_out)]
        @ map (\<lambda>(k, rows). desc AUDIO_MAP k (d_audio_map (int k) rows)) (enum (sp_audio_maps spec))))"

section \<open>ROM and directory\<close>

definition rom_step :: "desc \<Rightarrow> byte list \<times> dir_row list \<Rightarrow> byte list \<times> dir_row list" where
  "rom_step d st = (case (d, st) of ((t, i, img), (rom, directory)) \<Rightarrow>
     (rom @ img, directory @ [(t, i, length rom, length img)]))"

definition rom_image :: "desc list \<Rightarrow> (byte list \<times> dir_row list) aem" where
  "rom_image descs =
     (let (rom, directory) = fold rom_step descs ([], []) in
      if length rom + 64 > 0x10000 then Inl (Refused (RomTooBig (length rom))) else Inr (rom, directory))"

definition base_of :: "dir_row list \<Rightarrow> nat \<Rightarrow> nat \<Rightarrow> nat aem" where
  "base_of directory t i =
     (case find (\<lambda>(tt, ii, _, _). tt = t \<and> ii = i) directory of
        Some (_, _, b, _) \<Rightarrow> Inr b | None \<Rightarrow> Inl StopIteration)"

section \<open>Spans of the ROM\<close>

datatype overlay_source =
    ENTITY_ID | MODEL_ID | ECAPS | TALKER_SRC | TALKER_CAP | LISTEN_SINK | LISTEN_CAP | CTRL_CAP
  | AVAIL_IDX | ASSOC_ID | CURRENT_CFG | MAC | CLOCK_ID | ENT_NAME8

definition SRC_IDS :: "overlay_source list" where
  "SRC_IDS = [ENTITY_ID, MODEL_ID, ECAPS, TALKER_SRC, TALKER_CAP, LISTEN_SINK, LISTEN_CAP, CTRL_CAP,
     AVAIL_IDX, ASSOC_ID, CURRENT_CFG, MAC, CLOCK_ID, ENT_NAME8]"

definition read_overlays :: "(nat \<Rightarrow> nat \<Rightarrow> nat aem) \<Rightarrow> (nat \<times> nat \<times> overlay_source) list aem" where
  "read_overlays bo =
     rbind (bo ENTITY 0) (\<lambda>E. rbind (bo AVB_INTERFACE 0) (\<lambda>A. Inr
       [(E + 4, 8, ENTITY_ID), (E + 12, 8, MODEL_ID), (E + 20, 4, ECAPS), (E + 24, 2, TALKER_SRC),
        (E + 26, 2, TALKER_CAP), (E + 28, 2, LISTEN_SINK), (E + 30, 2, LISTEN_CAP), (E + 32, 4, CTRL_CAP),
        (E + 36, 4, AVAIL_IDX), (E + 40, 8, ASSOC_ID), (E + 48, 8, ENT_NAME8), (E + 310, 2, CURRENT_CFG),
        (A + 70, 6, MAC), (A + 78, 8, CLOCK_ID)]))"

datatype wb_key =
    WB_SAMPLING_RATE | WB_STREAM_FORMAT | WB_STREAM_IN_FMT nat | WB_CLOCK_SRC_IDX | WB_CONTROL_CUR
  | WB_AUDIO_MAP nat

definition wb_entry :: "wb_key \<Rightarrow> nat \<Rightarrow> nat aem \<Rightarrow> (wb_key \<times> nat) list aem" where
  "wb_entry k off r = rbind r (\<lambda>b. Inr [(k, b + off)])"

definition writeback_targets :: "aem_spec \<Rightarrow> (nat \<Rightarrow> nat \<Rightarrow> nat aem) \<Rightarrow> (wb_key \<times> nat) list aem" where
  "writeback_targets spec bo = concatE (
     [wb_entry WB_SAMPLING_RATE 136 (bo AUDIO_UNIT 0),
      wb_entry WB_STREAM_FORMAT 74 (bo STREAM_OUTPUT 0)]
     @ map (\<lambda>k. wb_entry (WB_STREAM_IN_FMT k) 74 (bo STREAM_INPUT k)) [0..<length (sp_stream_inputs spec)]
     @ [wb_entry WB_CLOCK_SRC_IDX 70 (bo CLOCK_DOMAIN 0),
        wb_entry WB_CONTROL_CUR 108 (bo CONTROL 0)]
     @ map (\<lambda>k. wb_entry (WB_AUDIO_MAP k) 0 (bo AUDIO_MAP k)) [0..<length (sp_audio_maps spec)])"

definition named_types :: "nat list" where
  "named_types = [CONFIGURATION, AUDIO_UNIT, STREAM_INPUT, STREAM_OUTPUT, AVB_INTERFACE, CLOCK_SOURCE,
     CLOCK_DOMAIN, CONTROL, AUDIO_CLUSTER]"

definition named_addresses :: "dir_row list \<Rightarrow> nat \<Rightarrow> named_row list" where
  "named_addresses directory entity_base =
     [(ENTITY, 0, 0, entity_base + 48), (ENTITY, 0, 1, entity_base + 180)]
     @ map (\<lambda>(t, i, b, _). (t, i, 0, b + 4)) (filter (\<lambda>(t, _, _, _). t \<in> set named_types) directory)"

record per_stream =
  ps_IN_CRF :: "bool list"
  ps_IN_FMT0 :: "int list"
  ps_OUT_FMT0 :: "int list"
  ps_IN_WB :: "nat list"
  ps_OUT_WB :: "nat list"
  ps_EMIT :: bool

definition per_stream_tables :: "aem_spec \<Rightarrow> (nat \<Rightarrow> nat \<Rightarrow> nat aem) \<Rightarrow> per_stream aem" where
  "per_stream_tables spec bo =
     (let si = sp_stream_inputs spec; so = sp_stream_outputs spec in
      rbind (mapE (\<lambda>s. py_nth (ss_formats s) 0) si) (\<lambda>inf.
      rbind (mapE (\<lambda>s. py_nth (ss_formats s) 0) so) (\<lambda>outf.
      rbind (mapE (\<lambda>k. rbind (bo STREAM_INPUT k) (\<lambda>b. Inr (b + 74))) [0..<length si]) (\<lambda>inw.
      rbind (mapE (\<lambda>k. rbind (bo STREAM_OUTPUT k) (\<lambda>b. Inr (b + 74))) [0..<length so]) (\<lambda>outw.
        Inr \<lparr>ps_IN_CRF = map (\<lambda>s. kind_of s = ''crf'') si, ps_IN_FMT0 = inf, ps_OUT_FMT0 = outf,
             ps_IN_WB = inw, ps_OUT_WB = outw, ps_EMIT = (length si > 2 \<or> length so > 1)\<rparr>)))))"

section \<open>Dynamic maps\<close>

definition RENDER_PHYS_LANES :: "(string \<times> nat \<times> nat) list" where
  "RENDER_PHYS_LANES = [(''i2s'', 0, 2), (''tdm'', 2, 8)]"

definition CHMAP_PHYS_DEPTH :: nat where
  "CHMAP_PHYS_DEPTH = Max (set (map (\<lambda>(_, base, width). base + width) RENDER_PHYS_LANES))"

record dynmap =
  dm_KEYS :: int
  dm_PAGE :: int
  dm_NPORTS :: nat
  dm_PDYN :: "bool list"
  dm_PBASE :: "int list"
  dm_PCLS :: "int list"
  dm_PNMAPS :: "int list"
  dm_NSTRIN :: nat
  dm_SAAF :: "bool list"
  dm_SCH :: "int list"
  dm_PHYS :: nat

text \<open>\<^verbatim>\<open>dict(EMIT=False)\<close> is \<open>None\<close>.\<close>

definition dynmap_tables :: "aem_spec \<Rightarrow> dynmap option aem" where
  "dynmap_tables spec =
     (let si = sp_stream_inputs spec; pin = sp_ports_in spec; dyn_in = filter is_dynamic pin in
      if dyn_in = [] then Inr None
      else
        let explicit = remdups (filter (\<lambda>v. v \<noteq> 0) (List.map_filter p_map_page dyn_in)) in
        if length explicit > 1 then Inl (Refused (MapPageNotShared (sort explicit)))
        else
          let page = (case explicit of v # _ \<Rightarrow> v | [] \<Rightarrow> min (Max (set (map p_clusters dyn_in))) 8) in
          if \<not> (1 \<le> page \<and> page \<le> 9) then Inl (Refused (MapPageRange page))
          else
            let keys = Max (set (map (\<lambda>p. p_base_cluster p + p_clusters p) dyn_in)) in
            if keys > 64 then Inl (Refused (TooManyKeys keys))
            else rbind (mapE (\<lambda>s. if kind_of s = ''aaf''
                                 then rbind (py_nth (ss_formats s) 0) (\<lambda>f. Inr (drop_bit 22 f AND 0x3FF))
                                 else Inr 0) si) (\<lambda>sch.
              Inr (Some \<lparr>dm_KEYS = keys, dm_PAGE = page, dm_NPORTS = length pin, dm_PDYN = map is_dynamic pin,
                dm_PBASE = map p_base_cluster pin, dm_PCLS = map p_clusters pin,
                dm_PNMAPS = map (\<lambda>p. if is_dynamic p then - ((- p_clusters p) div page) else p_maps p) pin,
                dm_NSTRIN = length si, dm_SAAF = map (\<lambda>s. kind_of s = ''aaf'') si, dm_SCH = sch,
                dm_PHYS = CHMAP_PHYS_DEPTH\<rparr>)))"

record odmap =
  od_KEYS :: nat
  od_NPORTS :: nat
  od_PDYN :: "bool list"
  od_PCLS :: "int list"
  od_PCBASE :: "nat list"
  od_PSTR :: "int list"
  od_SLOTB :: "int list"
  od_SCH :: "int list"
  od_CSRC :: "cluster_source list"
  od_INIT :: "(bool \<times> int) list"

text \<open>The packetizer's pair-slot base per STREAM_OUTPUT: the running sum of its pairs.\<close>

fun slot_bases :: "int \<Rightarrow> int list \<Rightarrow> int list" where
  "slot_bases acc [] = []"
| "slot_bases acc (c # cs) = acc # slot_bases (acc + (c + 1) div 2) cs"

definition port_stream :: "nat \<Rightarrow> port_spec \<Rightarrow> int" where
  "port_stream j p = get_or (p_stream_index p) (int j)"

definition zero_source :: cluster_source where
  "zero_source = \<lparr>cl_src = 0, cl_idxh = 0, cl_idx = 0, cl_half = 0, cl_valid = Some False\<rparr>"

definition port_sources :: "nat \<Rightarrow> port_spec \<Rightarrow> cluster_source list aem" where
  "port_sources j p =
     rbind (case p_cluster_sources p of
              Some srcs \<Rightarrow> Inr srcs
            | None \<Rightarrow> if is_dynamic p then Inl (Refused (NoSourceTopology j))
                       else Inr (replicate (nat (p_clusters p)) zero_source))
       (\<lambda>srcs. if int (length srcs) \<noteq> p_clusters p
               then Inl (Refused (ClusterSourceCount j (length srcs) (p_clusters p))) else Inr srcs)"

text \<open>
  One key of the identity image: stream channel \<open>c\<close> takes cluster \<open>co\<close> when the channel and the
  cluster exist and the source behind the cluster is live on the channel's side of the pair. The
  conjunction stops at its first False, so a cluster past the port's count is never indexed.
\<close>

definition identity_key :: "int list \<Rightarrow> int \<Rightarrow> port_spec \<Rightarrow> cluster_source list \<Rightarrow> nat \<Rightarrow> (bool \<times> int) aem" where
  "identity_key so_ch stream p srcs c =
     (let co = get_or (p_identity_offset p) 0 + int c in
      rbind (py_nth so_ch stream) (\<lambda>ch.
        if \<not> (int c < ch \<and> co < p_clusters p) then Inr (False, 0)
        else rbind (py_nth srcs co) (\<lambda>s.
          let ok = (get_or (cl_valid s) True \<and> (cl_src s = 4 \<or> cl_half s = int (c mod 2)))
          in Inr (ok, if ok then co else 0))))"

definition odmap_step :: "int list \<Rightarrow> nat \<times> port_spec
    \<Rightarrow> nat list \<times> cluster_source list \<times> (bool \<times> int) list
    \<Rightarrow> (nat list \<times> cluster_source list \<times> (bool \<times> int) list) aem" where
  "odmap_step so_ch jp st = (case (jp, st) of ((j, p), (pcbase, csrc, init)) \<Rightarrow>
     rbind (port_sources j p) (\<lambda>srcs.
     rbind (mapE (identity_key so_ch (port_stream j p) p srcs) [0..<8]) (\<lambda>ids.
       Inr (pcbase @ [length csrc], csrc @ srcs, init @ ids))))"

definition odmap_tables :: "aem_spec \<Rightarrow> bool \<Rightarrow> odmap option aem" where
  "odmap_tables spec dynmap_emit =
     (let so = sp_stream_outputs spec; pout = sp_ports_out spec in
      if filter is_dynamic pout = [] then Inr None
      else if \<not> dynmap_emit then Inl (Refused OutputsNeedDynamicInputs)
      else
        rbind (mapE (\<lambda>s. rbind (py_nth (ss_formats s) 0) (\<lambda>f. Inr (drop_bit 22 f AND 0x3FF))) so) (\<lambda>so_ch.
        rbind (foldE (odmap_step so_ch) (enum pout) ([], [], [])) (\<lambda>(pcbase, csrc, init).
        rbind (mapE (\<lambda>(j, p). py_nth (slot_bases 0 so_ch) (port_stream j p)) (enum pout)) (\<lambda>slotb.
        rbind (mapE (\<lambda>(j, p). py_nth so_ch (port_stream j p)) (enum pout)) (\<lambda>sch.
          Inr (Some \<lparr>od_KEYS = 8 * length pout, od_NPORTS = length pout, od_PDYN = map is_dynamic pout,
            od_PCLS = map p_clusters pout, od_PCBASE = pcbase,
            od_PSTR = map (\<lambda>(j, p). port_stream j p) (enum pout), od_SLOTB = slotb, od_SCH = sch,
            od_CSRC = csrc, od_INIT = init\<rparr>))))))"

section \<open>The model\<close>

record aem_model =
  m_rom :: "byte list"
  m_directory :: "dir_row list"
  m_ROM_SIZE :: nat
  m_OVERLAYS :: "(nat \<times> nat \<times> overlay_source) list"
  m_WB :: "(wb_key \<times> nat) list"
  m_NAMED :: "named_row list"
  m_N_CLKSRC :: nat
  m_CRF_CLKSRC :: "nat option"
  m_CLKSRC_TABLE :: "(nat \<times> int option) list"
  m_L1 :: level1
  m_NAME_MASK :: nat
  m_NAME_EXC :: "named_row list"
  m_RATES :: "int list"
  m_FORMATS :: "int list"
  m_CRF_FMTS :: "int list"
  m_PER_STREAM :: per_stream
  m_DYNMAP :: "dynmap option"
  m_ODMAP :: "odmap option"
  m_SMAP :: smap_tables
  m_LINT_WAIVERS :: "pystr list"

definition first_formats :: "(stream_spec \<Rightarrow> bool) \<Rightarrow> stream_spec list \<Rightarrow> int list aem" where
  "first_formats P si = (case find P si of Some s \<Rightarrow> Inr (ss_formats s) | None \<Rightarrow> Inl StopIteration)"

definition model_descriptors :: "aem_spec \<Rightarrow> desc list aem" where
  "model_descriptors spec = rbind (entity_descriptors spec) (\<lambda>a. rbind (port_descriptors spec) (\<lambda>b. Inr (a @ b)))"

definition build_model :: "aem_spec \<Rightarrow> aem_model aem" where
  "build_model spec =
     (let si = sp_stream_inputs spec; so = sp_stream_outputs spec; clks = map SpecRow (sp_clock_sources spec) in
      rbind (model_descriptors spec) (\<lambda>descs.
      rbind (rom_image descs) (\<lambda>(rom, directory).
      let bo = base_of directory in
      rbind (read_overlays bo) (\<lambda>overlays.
      rbind (writeback_targets spec bo) (\<lambda>wb.
      rbind (bo ENTITY 0) (\<lambda>ent.
      let named = named_addresses directory ent in
      rbind (first_formats (\<lambda>s. kind_of s = ''aaf'') si) (\<lambda>fmts.
      rbind (first_formats (\<lambda>s. ss_kind s = Some ''crf'') si) (\<lambda>crf_fmts.
      rbind (per_stream_tables spec bo) (\<lambda>per_stream.
      rbind (dynmap_tables spec) (\<lambda>dynmap.
      rbind (odmap_tables spec (dynmap \<noteq> None)) (\<lambda>odmap.
      rbind (static_map_tables spec bo (length si) (length so)) (\<lambda>smap.
      rbind (two_level_directory directory) (\<lambda>l1.
      rbind (check_two_level l1 directory) (\<lambda>_.
      rbind (named_structure l1 directory named) (\<lambda>(name_mask, name_exc).
      rbind (clock_source_table clks) (\<lambda>clk_table.
        Inr \<lparr>m_rom = rom, m_directory = directory, m_ROM_SIZE = length rom, m_OVERLAYS = overlays, m_WB = wb,
          m_NAMED = named, m_N_CLKSRC = fst (clock_source_shape clks), m_CRF_CLKSRC = snd (clock_source_shape clks),
          m_CLKSRC_TABLE = clk_table, m_L1 = l1, m_NAME_MASK = name_mask, m_NAME_EXC = name_exc,
          m_RATES = sp_rates spec, m_FORMATS = fmts, m_CRF_FMTS = crf_fmts, m_PER_STREAM = per_stream,
          m_DYNMAP = dynmap, m_ODMAP = odmap, m_SMAP = smap,
          m_LINT_WAIVERS = get_or (sp_lint_waivers spec) []\<rparr>))))))))))))))))"

section \<open>The ROM is the descriptors in order\<close>

fun dir_rows :: "nat \<Rightarrow> desc list \<Rightarrow> dir_row list" where
  "dir_rows off [] = []"
| "dir_rows off ((t, i, img) # ds) = (t, i, off, length img) # dir_rows (off + length img) ds"

definition desc_octets :: "desc list \<Rightarrow> byte list" where
  "desc_octets ds = concat (map (\<lambda>d. snd (snd d)) ds)"

lemma rom_fold:
  "fold rom_step ds (rom, dir) = (rom @ desc_octets ds, dir @ dir_rows (length rom) ds)"
  by (induction ds arbitrary: rom dir) (auto simp: rom_step_def desc_octets_def)

lemma rom_image_Inr_iff:
  "rom_image ds = Inr (rom, dir) \<longleftrightarrow>
     rom = desc_octets ds \<and> dir = dir_rows 0 ds \<and> length rom + 64 \<le> 0x10000"
  by (auto simp: rom_image_def rom_fold)

lemma length_dir_rows [simp]: "length (dir_rows off ds) = length ds"
  by (induction ds arbitrary: off) auto

lemma dir_rows_keys: "map (\<lambda>r. (fst r, fst (snd r))) (dir_rows off ds) = map (\<lambda>d. (fst d, fst (snd d))) ds"
  by (induction ds arbitrary: off) auto

lemma dir_rows_nth:
  "k < length ds \<Longrightarrow> dir_rows off ds ! k =
     (fst (ds ! k), fst (snd (ds ! k)), off + length (desc_octets (take k ds)), length (snd (snd (ds ! k))))"
proof (induction ds arbitrary: off k)
  case Nil
  then show ?case by simp
next
  case (Cons d ds)
  then show ?case by (cases d; cases k) (auto simp: desc_octets_def)
qed

lemma desc_octets_split:
  "k < length ds \<Longrightarrow> desc_octets ds = desc_octets (take k ds) @ snd (snd (ds ! k)) @ desc_octets (drop (Suc k) ds)"
proof -
  assume "k < length ds"
  then have "ds = take k ds @ ds ! k # drop (Suc k) ds" by (rule id_take_nth_drop)
  then have "desc_octets ds = desc_octets (take k ds @ ds ! k # drop (Suc k) ds)" by simp
  then show ?thesis by (simp add: desc_octets_def)
qed

lemma row_slice:
  assumes "k < length ds" and "dir_rows 0 ds ! k = (t, i, b, l)"
  shows "slice b (b + l) (desc_octets ds) = snd (snd (ds ! k))" and "b + l \<le> length (desc_octets ds)"
    and "l = length (snd (snd (ds ! k)))" and "fst (ds ! k) = t" and "fst (snd (ds ! k)) = i"
proof -
  have e: "t = fst (ds ! k)" "i = fst (snd (ds ! k))" "b = length (desc_octets (take k ds))"
    "l = length (snd (snd (ds ! k)))"
    using assms dir_rows_nth[OF assms(1), of 0] by simp_all
  show "slice b (b + l) (desc_octets ds) = snd (snd (ds ! k))"
    unfolding desc_octets_split[OF assms(1)] e by (rule slice_append_hit)
  show "b + l \<le> length (desc_octets ds)" unfolding desc_octets_split[OF assms(1)] e by simp
qed (use assms dir_rows_nth[OF assms(1), of 0] in simp_all)

section \<open>The append order is dense\<close>

definition runs_keys :: "(nat \<times> nat) list \<Rightarrow> (nat \<times> nat) list" where
  "runs_keys runs = concat (map (\<lambda>(t, n). map (Pair t) [0..<n]) runs)"

lemma runs_keys_mem: "(t, k) \<in> set (runs_keys runs) \<longleftrightarrow> (\<exists>n. (t, n) \<in> set runs \<and> k < n)"
  by (fastforce simp: runs_keys_def image_iff)

lemma runs_keys_types: "fst ` set (runs_keys runs) \<subseteq> set (map fst runs)"
  by (force simp: runs_keys_mem)

lemma upt_join: "m \<le> n \<Longrightarrow> [0..<m] @ [m..<n] = [0..<n]"
  by (metis le0 le_Suc_ex upt_add_eq_append)

lemma in_run_keys_cong:
  assumes "map (\<lambda>r. (fst r, fst (snd r))) dir = map (\<lambda>r. (fst r, fst (snd r))) dir'" "in_run dir t f c"
  shows "in_run dir' t f c"
proof -
  have len: "length dir = length dir'" using map_eq_imp_length_eq[OF assms(1)] .
  have k: "fst (dir ! k) = fst (dir' ! k) \<and> fst (snd (dir ! k)) = fst (snd (dir' ! k))" if "k < length dir" for k
    using arg_cong[OF assms(1), of "\<lambda>xs. xs ! k"] that len by simp
  show ?thesis using assms(2) k len by (auto simp: in_run_def)
qed

lemma in_run_block_other:
  assumes "in_run dir s f c" and "\<forall>r \<in> set block. fst r \<noteq> s"
  shows "in_run (dir @ block) s f c"
  using assms by (auto simp: in_run_def nth_append dest: nth_mem)

lemma in_run_block:
  assumes "\<forall>r \<in> set dir. fst r \<noteq> t" and "map (\<lambda>r. (fst r, fst (snd r))) block = map (Pair t) [0..<n]"
  shows "in_run (dir @ block) t (length dir) n"
proof -
  have len: "length block = n" using arg_cong[OF assms(2), of length] by simp
  have k: "fst (block ! k) = t \<and> fst (snd (block ! k)) = k" if "k < n" for k
    using arg_cong[OF assms(2), of "\<lambda>xs. xs ! k"] that len by simp
  show ?thesis using assms(1) k len by (auto simp: in_run_def nth_append dest: nth_mem)
qed

lemma dense_runs:
  assumes "map (\<lambda>r. (fst r, fst (snd r))) dir = runs_keys runs" and "distinct (map fst runs)"
  shows "dense dir"
  using assms
proof (induction runs arbitrary: dir rule: rev_induct)
  case Nil
  then have "dir = []" by (simp add: runs_keys_def)
  then show ?case by (auto simp: dense_def in_run_def)
next
  case (snoc run runs)
  obtain t n where run: "run = (t, n)" by (cases run)
  let ?m = "length (runs_keys runs)"
  let ?key = "\<lambda>r :: dir_row. (fst r, fst (snd r))"
  have keys: "map ?key dir = runs_keys runs @ map (Pair t) [0..<n]"
    using snoc.prems(1) by (simp add: run runs_keys_def)
  define a b where "a = take ?m dir" and "b = drop ?m dir"
  have ab: "dir = a @ b" by (simp add: a_def b_def)
  have ka: "map ?key a = runs_keys runs" unfolding a_def take_map[symmetric] keys by simp
  have kb: "map ?key b = map (Pair t) [0..<n]" unfolding b_def drop_map[symmetric] keys by simp
  have types: "fst ` set a \<subseteq> set (map fst runs)"
  proof -
    have "fst ` set a = fst ` set (map ?key a)" by (simp add: image_image)
    then show ?thesis unfolding ka using runs_keys_types[of runs] by simp
  qed
  have tb: "\<forall>r \<in> set b. fst r = t"
  proof
    fix r assume "r \<in> set b"
    then have "?key r \<in> set (map ?key b)" by simp
    then show "fst r = t" unfolding kb by auto
  qed
  have "t \<notin> set (map fst runs)" using snoc.prems(2) by (simp add: run)
  then have ta: "\<forall>r \<in> set a. fst r \<noteq> t" using types by auto
  have da: "dense a" using snoc.IH[OF ka] snoc.prems(2) by simp
  have "\<exists>f c. in_run (a @ b) s f c" for s
  proof (cases "s = t")
    case True
    then show ?thesis using in_run_block[OF ta kb] by blast
  next
    case False
    from da obtain f c where "in_run a s f c" unfolding dense_def by blast
    then show ?thesis using in_run_block_other[of a s f c b] tb False by blast
  qed
  then show ?case by (simp add: ab dense_def)
qed

definition keys_of :: "desc list \<Rightarrow> (nat \<times> nat) list" where
  "keys_of ds = map (\<lambda>d. (fst d, fst (snd d))) ds"

lemma keys_of_append [simp]: "keys_of (a @ b) = keys_of a @ keys_of b"
  by (simp add: keys_of_def)

text \<open>\<open>keyed r ks\<close>: whenever the step \<open>r\<close> returns, the descriptors it appends have the keys \<open>ks\<close>.\<close>

definition keyed :: "desc list aem \<Rightarrow> (nat \<times> nat) list \<Rightarrow> bool" where
  "keyed r ks = (\<forall>ds. r = Inr ds \<longrightarrow> keys_of ds = ks)"

lemma keyed_desc: "keyed (desc t i r) [(t, i)]"
  by (auto simp: keyed_def desc_def keys_of_def)

lemma keyed_rbind: "(\<And>n. keyed (f n) ks) \<Longrightarrow> keyed (rbind m f) ks"
  by (auto simp: keyed_def)

lemma keyed_Nil: "keyed (concatE []) []"
  by (simp add: keyed_def keys_of_def)

lemma keyed_Cons: "keyed r ks \<Longrightarrow> keyed (concatE rs) ks' \<Longrightarrow> keyed (concatE (r # rs)) (ks @ ks')"
  by (auto simp: keyed_def)

lemma keyed_append: "keyed (concatE rs) ks \<Longrightarrow> keyed (concatE ss) ks' \<Longrightarrow> keyed (concatE (rs @ ss)) (ks @ ks')"
  by (auto simp: keyed_def concatE_append)

lemma keyed_map: "(\<And>x. x \<in> set xs \<Longrightarrow> keyed (f x) [g x]) \<Longrightarrow> keyed (concatE (map f xs)) (map g xs)"
  by (induction xs) (auto simp: keyed_def keys_of_def)

lemma keyed_enum:
  assumes "\<And>k x. keyed (h k x) [(t, k)]"
  shows "keyed (concatE (map (\<lambda>(k, x). h k x) (enum xs))) (map (Pair t) [0..<length xs])"
proof -
  have "map (Pair t) [0..<length xs] = map (Pair t) (map fst (enum xs))" by simp
  also have "\<dots> = map (\<lambda>kx. (t, fst kx)) (enum xs)" by (simp only: map_map comp_def)
  finally show ?thesis using assms by (auto intro: keyed_map)
qed

lemma keyed_upt: "(\<And>k. keyed (h k) [(t, k)]) \<Longrightarrow> keyed (concatE (map h [m..<n])) (map (Pair t) [m..<n])"
  by (intro keyed_map)

lemma keyed_check: "keyed (if b then Inl e else Inr []) []"
  by (simp add: keyed_def keys_of_def)

lemmas keyed_intros = keyed_append keyed_enum keyed_upt keyed_Cons keyed_Nil keyed_rbind keyed_desc keyed_check

lemma keyed_eqD: "keyed r ks \<Longrightarrow> r = Inr ds \<Longrightarrow> ks = ks' \<Longrightarrow> keys_of ds = ks'"
  by (simp add: keyed_def)

lemma entity_descriptors_keys:
  assumes "entity_descriptors spec = Inr ds"
  shows "keys_of ds = runs_keys
    [(ENTITY, 1), (CONFIGURATION, 1), (AUDIO_UNIT, 1), (STREAM_INPUT, length (sp_stream_inputs spec)),
     (STREAM_OUTPUT, length (sp_stream_outputs spec)), (AVB_INTERFACE, 1),
     (CLOCK_SOURCE, length (sp_clock_sources spec)), (CLOCK_DOMAIN, 1), (CONTROL, 1), (LOCALE, 1), (STRINGS, 1)]"
  by (rule keyed_eqD[OF _ assms], unfold entity_descriptors_def Let_def, (rule keyed_intros)+)
     (simp add: runs_keys_def)

definition cluster_count :: "aem_spec \<Rightarrow> nat" where
  "cluster_count spec = nat (sum_list (map p_clusters (sp_ports_in spec)) + sum_list (map p_clusters (sp_ports_out spec)))"

lemma port_descriptors_keys:
  assumes "port_descriptors spec = Inr ds"
  shows "keys_of ds = runs_keys
    [(STREAM_PORT_INPUT, length (sp_ports_in spec)), (STREAM_PORT_OUTPUT, length (sp_ports_out spec)),
     (AUDIO_CLUSTER, cluster_count spec), (AUDIO_MAP, length (sp_audio_maps spec))]"
proof -
  let ?ni = "sum_list (map p_clusters (sp_ports_in spec))" and ?no = "sum_list (map p_clusters (sp_ports_out spec))"
  let ?nm = "names_or (sp_cluster_names_in spec) ''Input'' ?ni" and ?om = "names_or (sp_cluster_names_out spec) ''Output'' ?no"
  have n: "int (length ?nm) = ?ni" "int (length ?om) = ?no"
    using assms unfolding port_descriptors_def Let_def concatE_append by (auto split: if_splits)
  have "[0..<nat ?ni] @ [nat ?ni..<nat (?ni + ?no)] = [0..<cluster_count spec]"
    unfolding cluster_count_def by (rule upt_join) (use n in linarith)
  then have c: "map (Pair AUDIO_CLUSTER) [0..<nat ?ni] @ map (Pair AUDIO_CLUSTER) [nat ?ni..<nat (?ni + ?no)]
      = map (Pair AUDIO_CLUSTER) [0..<cluster_count spec]"
    by (metis map_append)
  show ?thesis
    by (rule keyed_eqD[OF _ assms], unfold port_descriptors_def Let_def, (rule keyed_intros)+)
       (use c in \<open>simp add: runs_keys_def flip: append_assoc\<close>)
qed

definition model_runs :: "aem_spec \<Rightarrow> (nat \<times> nat) list" where
  "model_runs spec =
    [(ENTITY, 1), (CONFIGURATION, 1), (AUDIO_UNIT, 1), (STREAM_INPUT, length (sp_stream_inputs spec)),
     (STREAM_OUTPUT, length (sp_stream_outputs spec)), (AVB_INTERFACE, 1),
     (CLOCK_SOURCE, length (sp_clock_sources spec)), (CLOCK_DOMAIN, 1), (CONTROL, 1), (LOCALE, 1), (STRINGS, 1),
     (STREAM_PORT_INPUT, length (sp_ports_in spec)), (STREAM_PORT_OUTPUT, length (sp_ports_out spec)),
     (AUDIO_CLUSTER, cluster_count spec), (AUDIO_MAP, length (sp_audio_maps spec))]"

lemma runs_keys_append: "runs_keys (a @ b) = runs_keys a @ runs_keys b"
  by (simp add: runs_keys_def)

lemma model_descriptors_keys: "model_descriptors spec = Inr ds \<Longrightarrow> keys_of ds = runs_keys (model_runs spec)"
  by (auto simp: model_descriptors_def model_runs_def runs_keys_append[symmetric]
      dest!: entity_descriptors_keys port_descriptors_keys)

lemma model_runs_distinct: "distinct (map fst (model_runs spec))"
  by (simp add: model_runs_def)

lemma model_directory_dense:
  assumes "model_descriptors spec = Inr ds"
  shows "dense (dir_rows 0 ds)"
  using dense_runs[OF _ model_runs_distinct] model_descriptors_keys[OF assms]
  by (simp add: dir_rows_keys keys_of_def)

lemma model_directory_accepted:
  assumes "model_descriptors spec = Inr ds"
  shows "\<exists>l1. two_level_directory (dir_rows 0 ds) = Inr l1"
proof (rule two_level_directory_accepts[OF model_directory_dense[OF assms]])
  let ?dir = "dir_rows 0 ds"
  have k: "map (\<lambda>r. (fst r, fst (snd r))) ?dir = runs_keys (model_runs spec)"
    using model_descriptors_keys[OF assms] by (simp add: dir_rows_keys keys_of_def)
  then show "?dir \<noteq> []" by (auto simp: runs_keys_def model_runs_def)
  have "fst ` set ?dir = fst ` set (map (\<lambda>r. (fst r, fst (snd r))) ?dir)" by (simp add: image_image)
  also have "\<dots> \<subseteq> {t. t < 256}" unfolding k by (auto simp: runs_keys_def model_runs_def)
  finally show "\<forall>r \<in> set ?dir. fst r < 256" by auto
qed

section \<open>Serving a descriptor\<close>

lemma runs_keys_distinct: "distinct (map fst runs) \<Longrightarrow> distinct (runs_keys runs)"
proof (induction runs)
  case Nil
  then show ?case by (simp add: runs_keys_def)
next
  case (Cons r runs)
  obtain t n where r: "r = (t, n)" by (cases r)
  have "(t, k) \<notin> set (runs_keys runs)" for k
    using Cons.prems r by (force simp: runs_keys_mem)
  moreover have "runs_keys (r # runs) = map (Pair t) [0..<n] @ runs_keys runs" by (simp add: r runs_keys_def)
  ultimately show ?case using Cons by (auto simp: distinct_map inj_on_def)
qed

lemma descriptor_keys_distinct:
  assumes "model_descriptors spec = Inr ds" "(t, i, img) \<in> set ds" "(t, i, img') \<in> set ds"
  shows "img = img'"
proof -
  have "distinct (keys_of ds)"
    using model_descriptors_keys[OF assms(1)] runs_keys_distinct[OF model_runs_distinct] by simp
  then have "inj_on (\<lambda>d. (fst d, fst (snd d))) (set ds)" by (simp add: keys_of_def distinct_map)
  from inj_onD[OF this _ assms(2,3)] show ?thesis by simp
qed

lemma base_of_Inr:
  "base_of dir t i = Inr b \<Longrightarrow> \<exists>l. (t, i, b, l) \<in> set dir"
  unfolding base_of_def using nth_mem by (fastforce simp: find_Some_iff split: option.splits)

lemma base_of_total: "(t, i, b, l) \<in> set dir \<Longrightarrow> \<exists>b'. base_of dir t i = Inr b'"
  by (cases "find (\<lambda>(tt, ii, _, _). tt = t \<and> ii = i) dir") (auto simp: base_of_def find_None_iff)

text \<open>The row of a descriptor: its base is what \<^verbatim>\<open>base_of\<close> answers and the ROM holds its octets there.\<close>

lemma served:
  assumes ds: "model_descriptors spec = Inr ds" and rom: "rom_image ds = Inr (rom, dir)"
    and mem: "(t, i, img) \<in> set ds"
  obtains b where "base_of dir t i = Inr b" "slice b (b + length img) rom = img" "b + length img \<le> length rom"
    "(t, i, b, length img) \<in> set dir"
proof -
  have r: "rom = desc_octets ds" "dir = dir_rows 0 ds" using rom by (simp_all add: rom_image_Inr_iff)
  have row: "b = b' \<and> l = l'" if "(t, i, b, l) \<in> set dir" "(t, i, b', l') \<in> set dir" for b l b' l'
    using model_directory_accepted[OF ds] dense_directory.key_determines_row[OF dense_directory.intro, of dir _ t i b' l' b l] that
    by (auto simp: r)
  obtain k where k: "k < length ds" "ds ! k = (t, i, img)" using mem by (metis in_set_conv_nth)
  obtain b l where bl: "dir ! k = (t, i, b, l)" using dir_rows_nth[OF k(1), of 0] k(2) by (simp add: r)
  note sl = row_slice[OF k(1) bl[unfolded r]]
  have mb: "(t, i, b, length img) \<in> set dir" using bl sl(3) k by (metis length_dir_rows nth_mem r(2) snd_conv)
  from base_of_total[OF this] obtain b' where b': "base_of dir t i = Inr b'" by blast
  from base_of_Inr[OF this] row mb have "b' = b" by blast
  with b' mb sl k show thesis by (intro that[of b]) (simp_all add: r)
qed

lemma concatE_steps:
  "concatE rs = Inr xs \<Longrightarrow> r \<in> set rs \<Longrightarrow> \<exists>ys. r = Inr ys \<and> set ys \<subseteq> set xs"
proof (induction rs arbitrary: xs)
  case Nil
  then show ?case by simp
next
  case (Cons q rs)
  from Cons.prems(1) obtain b c where q: "q = Inr b" "concatE rs = Inr c" "xs = b @ c" by auto
  show ?case
  proof (cases "r = q")
    case True
    with q show ?thesis by auto
  next
    case False
    with Cons.prems(2) have "r \<in> set rs" by simp
    from Cons.IH[OF q(2) this] q(3) show ?thesis by auto
  qed
qed

lemma entity_step:
  assumes "model_descriptors spec = Inr ds" "entity_descriptors spec = concatE rs" "r \<in> set rs"
  shows "\<exists>ys. r = Inr ys \<and> set ys \<subseteq> set ds"
  using assms concatE_steps[of rs _ r] by (fastforce simp: model_descriptors_def)

lemma entity_rows:
  assumes "model_descriptors spec = Inr ds"
  shows "\<exists>img. (ENTITY, 0, img) \<in> set ds \<and> d_entity (sp_entity spec) = Inr img"
    and "\<exists>img n. (AVB_INTERFACE, 0, img) \<in> set ds \<and> d_avb_interface (sp_gptp spec) n = Inr img"
    and "\<exists>img n. (AUDIO_UNIT, 0, img) \<in> set ds \<and> d_audio_unit (sp_rates spec) (sp_current_rate spec)
             (int (length (sp_ports_in spec))) (int (length (sp_ports_out spec))) n = Inr img"
    and "\<exists>img n. (CLOCK_DOMAIN, 0, img) \<in> set ds \<and> d_clock_domain (length (sp_clock_sources spec)) n = Inr img"
    and "\<exists>img n. (CONTROL, 0, img) \<in> set ds \<and> d_control_identify n = Inr img"
proof -
  note step = entity_step[OF assms entity_descriptors_def[unfolded Let_def]]
  have one: "\<exists>img. (t, i, img) \<in> set ds \<and> r = Inr img" if "desc t i r = Inr ys" "set ys \<subseteq> set ds" for t i r ys
    using that by (auto simp: desc_def)
  show "\<exists>img. (ENTITY, 0, img) \<in> set ds \<and> d_entity (sp_entity spec) = Inr img"
    using step[of "desc ENTITY 0 (d_entity (sp_entity spec))"] one by fastforce
  show "\<exists>img n. (AVB_INTERFACE, 0, img) \<in> set ds \<and> d_avb_interface (sp_gptp spec) n = Inr img"
    using step[of "rbind (object_name spec ''avb_interface'') (\<lambda>n. desc AVB_INTERFACE 0 (d_avb_interface (sp_gptp spec) n))"] one
    by fastforce
  show "\<exists>img n. (AUDIO_UNIT, 0, img) \<in> set ds \<and> d_audio_unit (sp_rates spec) (sp_current_rate spec)
             (int (length (sp_ports_in spec))) (int (length (sp_ports_out spec))) n = Inr img"
    using step[of "rbind (object_name spec ''audio_unit'') (\<lambda>n.
           desc AUDIO_UNIT 0 (d_audio_unit (sp_rates spec) (sp_current_rate spec)
             (int (length (sp_ports_in spec))) (int (length (sp_ports_out spec))) n))"] one
    by fastforce
  show "\<exists>img n. (CLOCK_DOMAIN, 0, img) \<in> set ds \<and> d_clock_domain (length (sp_clock_sources spec)) n = Inr img"
    using step[of "rbind (object_name spec ''clock_domain'') (\<lambda>n. desc CLOCK_DOMAIN 0 (d_clock_domain (length (sp_clock_sources spec)) n))"] one
    by fastforce
  show "\<exists>img n. (CONTROL, 0, img) \<in> set ds \<and> d_control_identify n = Inr img"
    using step[of "rbind (object_name spec ''control_identify'') (\<lambda>n. desc CONTROL 0 (d_control_identify n))"] one
    by fastforce
qed

end
