(* ===== verification/Aem_Model.thy ===== *)
theory Aem_Model
  imports Aem_Assemble
begin

text \<open>
  Properties of an assembled model (\<^verbatim>\<open>build_model\<close> of \<^verbatim>\<open>src/avdecc/aem_assemble.py\<close>): the directory
  partitions the ROM and serves every descriptor, the generator's own layout gates never refuse, the
  spans the gateware overwrites and the write-back addresses hit the fields they name, and the
  dynamic-map tables respect the bounds of the fabric.
\<close>

section \<open>The parts of a built model\<close>

lemma build_model_parts:
  assumes "build_model spec = Inr m"
  obtains ds E where "model_descriptors spec = Inr ds" "rom_image ds = Inr (m_rom m, m_directory m)"
    "m_ROM_SIZE m = length (m_rom m)"
    "read_overlays (base_of (m_directory m)) = Inr (m_OVERLAYS m)"
    "writeback_targets spec (base_of (m_directory m)) = Inr (m_WB m)"
    "base_of (m_directory m) ENTITY 0 = Inr E" "m_NAMED m = named_addresses (m_directory m) E"
    "per_stream_tables spec (base_of (m_directory m)) = Inr (m_PER_STREAM m)"
    "dynmap_tables spec = Inr (m_DYNMAP m)" "odmap_tables spec (m_DYNMAP m \<noteq> None) = Inr (m_ODMAP m)"
    "static_map_tables spec (base_of (m_directory m)) (length (sp_stream_inputs spec)) (length (sp_stream_outputs spec))
       = Inr (m_SMAP m)"
    "two_level_directory (m_directory m) = Inr (m_L1 m)"
    "named_structure (m_L1 m) (m_directory m) (m_NAMED m) = Inr (m_NAME_MASK m, m_NAME_EXC m)"
  using assms unfolding build_model_def Let_def
  by (auto simp only: rbind_Inr_iff prod.case sum.inject split_paired_Ex aem_model.simps)

lemma stream_rows:
  assumes "model_descriptors spec = Inr ds"
  shows "k < length (sp_stream_inputs spec) \<Longrightarrow> \<exists>img buf. (STREAM_INPUT, k, img) \<in> set ds
      \<and> d_stream STREAM_INPUT k (ss_name (sp_stream_inputs spec ! k)) 0x0003 (ss_formats (sp_stream_inputs spec ! k)) buf = Inr img"
    and "k < length (sp_stream_outputs spec) \<Longrightarrow> \<exists>img. (STREAM_OUTPUT, k, img) \<in> set ds
      \<and> d_stream STREAM_OUTPUT k (ss_name (sp_stream_outputs spec ! k)) (stream_flags_out (sp_stream_outputs spec ! k))
           (ss_formats (sp_stream_outputs spec ! k)) 0 = Inr img"
proof -
  note step = entity_step[OF assms entity_descriptors_def[unfolded Let_def]]
  {
    let ?f = "\<lambda>(k, s). rbind (need (ss_buffer s)) (\<lambda>buf.
            desc STREAM_INPUT k (d_stream STREAM_INPUT k (ss_name s) 0x0003 (ss_formats s) buf))"
    assume k: "k < length (sp_stream_inputs spec)"
    then have "?f (k, sp_stream_inputs spec ! k) \<in> set (map ?f (enum (sp_stream_inputs spec)))"
      unfolding list.set_map by (intro imageI) (simp add: in_set_enum)
    then have "\<exists>ys. ?f (k, sp_stream_inputs spec ! k) = Inr ys \<and> set ys \<subseteq> set ds"
      by (intro step) simp
    then show "\<exists>img buf. (STREAM_INPUT, k, img) \<in> set ds
      \<and> d_stream STREAM_INPUT k (ss_name (sp_stream_inputs spec ! k)) 0x0003 (ss_formats (sp_stream_inputs spec ! k)) buf = Inr img"
      by (auto simp: desc_def)
  }
  {
    let ?f = "\<lambda>(k, s).
            desc STREAM_OUTPUT k (d_stream STREAM_OUTPUT k (ss_name s) (stream_flags_out s) (ss_formats s) 0)"
    assume k: "k < length (sp_stream_outputs spec)"
    then have "?f (k, sp_stream_outputs spec ! k) \<in> set (map ?f (enum (sp_stream_outputs spec)))"
      unfolding list.set_map by (intro imageI) (simp add: in_set_enum)
    then have "\<exists>ys. ?f (k, sp_stream_outputs spec ! k) = Inr ys \<and> set ys \<subseteq> set ds"
      by (intro step) simp
    then show "\<exists>img. (STREAM_OUTPUT, k, img) \<in> set ds
      \<and> d_stream STREAM_OUTPUT k (ss_name (sp_stream_outputs spec ! k)) (stream_flags_out (sp_stream_outputs spec ! k))
           (ss_formats (sp_stream_outputs spec ! k)) 0 = Inr img"
      by (auto simp: desc_def)
  }
qed

lemma map_row_of:
  assumes "model_descriptors spec = Inr ds" and "k < length (sp_audio_maps spec)"
  shows "\<exists>img. (AUDIO_MAP, k, img) \<in> set ds \<and> d_audio_map (int k) (sp_audio_maps spec ! k) = Inr img"
proof -
  let ?f = "\<lambda>(k, rows). desc AUDIO_MAP k (d_audio_map (int k) rows)"
  from assms(1) obtain b where b: "port_descriptors spec = Inr b" "set b \<subseteq> set ds"
    by (auto simp: model_descriptors_def)
  have "?f (k, sp_audio_maps spec ! k) \<in> set (map ?f (enum (sp_audio_maps spec)))"
    unfolding list.set_map using assms(2) by (intro imageI) (simp add: in_set_enum)
  then have "\<exists>ys. ?f (k, sp_audio_maps spec ! k) = Inr ys \<and> set ys \<subseteq> set b"
    by (intro concatE_steps[OF b(1)[unfolded port_descriptors_def Let_def]]) simp
  then show ?thesis using b(2) by (auto simp: desc_def)
qed

section \<open>ROM and directory\<close>

text \<open>
  Property C2. The directory of a built model partitions its ROM: the rows follow each other
  without a gap or an overlap from address 0 to the end, the ROM with its 64-octet scratch fits
  the 16-bit address space, and the slice a row names is the descriptor with that type and index.
\<close>

theorem directory_partitions_rom:
  assumes "build_model spec = Inr m"
  shows "\<exists>ds. model_descriptors spec = Inr ds \<and> length (m_directory m) = length ds
    \<and> (\<forall>k < length ds. case m_directory m ! k of (t, i, b, l) \<Rightarrow>
         ds ! k = (t, i, slice b (b + l) (m_rom m))
         \<and> b = (if k = 0 then 0 else case m_directory m ! (k - 1) of (_, _, b', l') \<Rightarrow> b' + l')
         \<and> b + l \<le> length (m_rom m)
         \<and> (Suc k = length ds \<longrightarrow> b + l = length (m_rom m)))
    \<and> length (m_rom m) + 64 \<le> 65536"
proof -
  from assms obtain ds where ds: "model_descriptors spec = Inr ds" "rom_image ds = Inr (m_rom m, m_directory m)"
    by (rule build_model_parts)
  have r: "m_rom m = desc_octets ds" "m_directory m = dir_rows 0 ds" "length (m_rom m) + 64 \<le> 65536"
    using ds(2) by (auto simp: rom_image_Inr_iff)
  have "case m_directory m ! k of (t, i, b, l) \<Rightarrow>
         ds ! k = (t, i, slice b (b + l) (m_rom m))
         \<and> b = (if k = 0 then 0 else case m_directory m ! (k - 1) of (_, _, b', l') \<Rightarrow> b' + l')
         \<and> b + l \<le> length (m_rom m)
         \<and> (Suc k = length ds \<longrightarrow> b + l = length (m_rom m))" if k: "k < length ds" for k
  proof -
    obtain t i b l where row: "dir_rows 0 ds ! k = (t, i, b, l)" by (metis surj_pair)
    note sl = row_slice[OF k row]
    have b: "b = length (desc_octets (take k ds))" using dir_rows_nth[OF k, of 0] row by simp
    have prev: "b = (if k = 0 then 0 else case dir_rows 0 ds ! (k - 1) of (_, _, b', l') \<Rightarrow> b' + l')"
    proof (cases k)
      case 0
      then show ?thesis using b by (simp add: desc_octets_def)
    next
      case (Suc j)
      then have "take k ds = take j ds @ [ds ! j]" using k by (simp add: take_Suc_conv_app_nth)
      then show ?thesis using dir_rows_nth[of j ds 0] Suc k b by (simp add: desc_octets_def)
    qed
    have last: "Suc k = length ds \<Longrightarrow> b + l = length (desc_octets ds)"
      using desc_octets_split[OF k] b sl(3) by (simp add: desc_octets_def)
    have "ds ! k = (t, i, slice b (b + l) (desc_octets ds))"
      unfolding sl(1) using sl(4,5) by (metis prod.collapse)
    with prev last sl(2) show ?thesis by (simp add: r row)
  qed
  with ds(1) r show ?thesis by auto
qed

lemma layout_gates_pass:
  assumes "model_descriptors spec = Inr ds" and "rom_image ds = Inr (rom, dir)"
  shows "\<exists>l1 E sp. two_level_directory dir = Inr l1 \<and> check_two_level l1 dir = Inr ()
    \<and> base_of dir ENTITY 0 = Inr E \<and> named_structure l1 dir (named_addresses dir E) = Inr sp"
proof -
  have dir: "dir = dir_rows 0 ds" using assms(2) by (simp add: rom_image_Inr_iff)
  from model_directory_accepted[OF assms(1)] obtain l1 where l1: "two_level_directory dir = Inr l1"
    by (auto simp: dir)
  then have dd: "dense_directory dir l1" by (rule dense_directory.intro)
  from entity_rows(1)[OF assms(1)] obtain img where "(ENTITY, 0, img) \<in> set ds" by blast
  from served[OF assms this] obtain E where E: "base_of dir ENTITY 0 = Inr E" "(ENTITY, 0, E, length img) \<in> set dir"
    by blast
  let ?named = "named_addresses dir E"
  have rows: "\<forall>t i a. (t, i, 0, a) \<in> set ?named \<longrightarrow> (\<exists>b l. (t, i, b, l) \<in> set dir)"
    using E(2) by (auto simp: named_addresses_def)
  have "distinct (map (\<lambda>r. (fst r, fst (snd r))) dir)"
    using runs_keys_distinct[OF model_runs_distinct[of spec]] model_descriptors_keys[OF assms(1)]
    by (simp add: dir dir_rows_keys keys_of_def)
  then have "distinct (map (\<lambda>r. (fst r, fst (snd r), 0::nat)) dir)"
    by (auto simp: distinct_map inj_on_def)
  then have "distinct (map (\<lambda>r. (fst r, fst (snd r), 0::nat)) (filter (\<lambda>(t, _, _, _). t \<in> set named_types) dir))"
    by (rule distinct_map_filter)
  moreover have "map (\<lambda>r. fst (named_key r)) ?named = [(ENTITY, 0, 0), (ENTITY, 0, 1)]
      @ map (\<lambda>r. (fst r, fst (snd r), 0)) (filter (\<lambda>(t, _, _, _). t \<in> set named_types) dir)"
    by (simp add: named_addresses_def named_key_def case_prod_beta)
  moreover have "ENTITY \<notin> set named_types" by (simp add: named_types_def)
  ultimately have "distinct (map (\<lambda>r. fst (named_key r)) ?named)" by auto
  from dense_directory.named_structure_total[OF dd rows this] obtain sp where
    "named_structure l1 dir ?named = Inr sp" by blast
  with l1 E(1) dense_directory.check_passes[OF dd] show ?thesis by blast
qed

text \<open>
  Property C17. None of the generator's layout gates can refuse an assembled specification: the
  append order gives a directory the two-level table accepts, its equivalence gate passes, and the name
  split exists; so their refusals guard against edits of the generator, not against inputs.
\<close>

theorem layout_gates_never_refuse:
  assumes "model_descriptors spec = Inr ds" and "rom_image ds = Inr (rom, dir)"
  shows "\<exists>l1 E sp. two_level_directory dir = Inr l1 \<and> check_two_level l1 dir = Inr ()
    \<and> base_of dir ENTITY 0 = Inr E \<and> named_structure l1 dir (named_addresses dir E) = Inr sp"
  using assms by (rule layout_gates_pass)

section \<open>When a model is built\<close>

lemma encodable_cstr: "encodable s \<Longrightarrow> \<exists>b. cstr s n = Inr b \<and> length b = n"
  using cstr_total_iff[of s n] length_cstr by blast

lemma be32_in_range: "0 \<le> v \<Longrightarrow> v < 2 ^ 32 \<Longrightarrow> be32 v = Inr (be_bytes 4 v)"
  by (simp add: be32_def pack_be_def)

lemma byte_in_range: "0 \<le> v \<Longrightarrow> v < 256 \<Longrightarrow> byte_of v = Inr [word_of_int v]"
  by (simp add: byte_of_def)

lemmas total_simps = sized_def concatE.simps rbind.simps

lemma d_entity_total:
  assumes "encodable (e_name e)" "encodable (e_firmware_version e)" "encodable (e_group_name e)" "encodable (e_serial_number e)"
  shows "\<exists>b. d_entity e = Inr b"
proof -
  obtain a b c d where n: "cstr (e_name e) 64 = Inr a" "cstr (e_firmware_version e) 64 = Inr b"
    "cstr (e_group_name e) 64 = Inr c" "cstr (e_serial_number e) 64 = Inr d"
    using assms encodable_cstr by metis
  show ?thesis unfolding d_entity_def n total_simps by (simp add: be32_in_range)
qed

lemma d_configuration_total:
  assumes "encodable n" shows "\<exists>b. d_configuration ni no nc n = Inr b"
proof -
  obtain a where a: "cstr n 64 = Inr a" "length a = 64" using encodable_cstr[OF assms] by blast
  show ?thesis unfolding d_configuration_def Let_def a(1) total_simps using a(2) by simp
qed

lemma concatE_be32_total: "list_all (\<lambda>r. 0 \<le> r \<and> r < 2 ^ 32) rs \<Longrightarrow> \<exists>b. concatE (map be32 rs) = Inr b"
  by (simp add: concatE_total_iff list_all_iff be32_in_range)

lemma d_audio_unit_total:
  assumes "encodable n" "list_all (\<lambda>r. 0 \<le> r \<and> r < 2 ^ 32) rs" "0 \<le> cur" "cur < 2 ^ 32"
  shows "\<exists>b. d_audio_unit rs cur ni no n = Inr b"
proof -
  obtain a where a: "cstr n 64 = Inr a" "length a = 64" using encodable_cstr[OF assms(1)] by blast
  obtain c where c: "concatE (map be32 rs) = Inr c" using concatE_be32_total[OF assms(2)] by blast
  show ?thesis
    unfolding d_audio_unit_def a(1) be32_in_range[OF assms(3,4)] c total_simps using a(2) by simp
qed

lemma d_clock_source_total:
  assumes "encodable n" shows "\<exists>b. d_clock_source i n ty lt li = Inr b"
proof -
  obtain a where a: "cstr n 64 = Inr a" "length a = 64" using encodable_cstr[OF assms] by blast
  show ?thesis unfolding d_clock_source_def a(1) total_simps using a(2) by simp
qed

lemma d_clock_domain_total:
  assumes "encodable n" shows "\<exists>b. d_clock_domain k n = Inr b"
proof -
  obtain a where a: "cstr n 64 = Inr a" "length a = 64" using encodable_cstr[OF assms] by blast
  show ?thesis unfolding d_clock_domain_def Let_def a(1) total_simps using a(2) by simp
qed

lemma d_control_identify_total:
  assumes "encodable n" shows "\<exists>b. d_control_identify n = Inr b"
proof -
  obtain a where a: "cstr n 64 = Inr a" "length a = 64" using encodable_cstr[OF assms] by blast
  have c: "be32 500 = Inr (be_bytes 4 500)" "be32 0 = Inr (be_bytes 4 0)" by (simp_all add: be32_in_range)
  show ?thesis unfolding d_control_identify_def a(1) c total_simps using a(2) by simp
qed

lemma d_locale_total:
  assumes "encodable n" shows "\<exists>b. d_locale n = Inr b"
proof -
  obtain a where a: "cstr n 64 = Inr a" "length a = 64" using encodable_cstr[OF assms] by blast
  show ?thesis unfolding d_locale_def a(1) total_simps using a(2) by simp
qed

lemma d_audio_cluster_total:
  assumes "encodable n" shows "\<exists>b. d_audio_cluster i n sg = Inr b"
proof -
  obtain a where a: "cstr n 64 = Inr a" "length a = 64" using encodable_cstr[OF assms] by blast
  have c: "be32 500 = Inr (be_bytes 4 500)" by (simp add: be32_in_range)
  show ?thesis unfolding d_audio_cluster_def a(1) c total_simps using a(2) by simp
qed

lemma d_stream_port_total: "\<exists>b. d_stream_port t i fl bd = Inr b"
  unfolding d_stream_port_def total_simps by simp

lemma d_strings_total:
  assumes "list_all encodable ss" "length ss = 7" shows "\<exists>b. d_strings ss = Inr b"
proof -
  have "\<exists>b. concatE (Inr (be16 (int STRINGS) @ be16 0) # map (\<lambda>s. cstr s 64) ss) = Inr b"
    using assms(1) unfolding concatE_total_iff by (auto simp: list_all_iff dest!: encodable_cstr)
  then obtain b where b: "concatE (Inr (be16 (int STRINGS) @ be16 0) # map (\<lambda>s. cstr s 64) ss) = Inr b" by blast
  moreover from this obtain c where "concatE (map (\<lambda>s. cstr s 64) ss) = Inr c" "b = be16 (int STRINGS) @ be16 0 @ c" by auto
  moreover from this have "length b = 452"
    using length_concatE_uniform[of "\<lambda>s. cstr s 64" ss c 64] length_cstr assms(2) by simp
  ultimately show ?thesis using assms(2) by (simp add: d_strings_def assertE_def sized_def)
qed

definition gptp_ok :: "gptp_set \<Rightarrow> bool" where
  "gptp_ok g = list_all (\<lambda>v. 0 \<le> v \<and> v < 256)
     [get_or (gp_priority1 g) 0xF8, get_or (gp_clock_class g) 0xF8, get_or (gp_clock_accuracy g) 0x21,
      get_or (gp_priority2 g) 0xF8, get_or (gp_domain g) 0]"

lemma d_avb_interface_total:
  assumes "encodable n" "gptp_ok (get_or gp gptp_empty)" shows "\<exists>b. d_avb_interface gp n = Inr b"
proof -
  let ?g = "get_or gp gptp_empty"
  obtain a where a: "cstr n 64 = Inr a" "length a = 64" using encodable_cstr[OF assms(1)] by blast
  have m: "byte_of (x mod 256) = Inr [word_of_int (x mod 256)]" for x by (simp add: byte_in_range)
  have r: "byte_of (get_or (gp_priority1 ?g) 0xF8) = Inr [word_of_int (get_or (gp_priority1 ?g) 0xF8)]"
    "byte_of (get_or (gp_clock_class ?g) 0xF8) = Inr [word_of_int (get_or (gp_clock_class ?g) 0xF8)]"
    "byte_of (get_or (gp_clock_accuracy ?g) 0x21) = Inr [word_of_int (get_or (gp_clock_accuracy ?g) 0x21)]"
    "byte_of (get_or (gp_priority2 ?g) 0xF8) = Inr [word_of_int (get_or (gp_priority2 ?g) 0xF8)]"
    "byte_of (get_or (gp_domain ?g) 0) = Inr [word_of_int (get_or (gp_domain ?g) 0)]"
    using assms(2) by (simp_all add: gptp_ok_def byte_in_range)
  show ?thesis unfolding d_avb_interface_def Let_def a(1) r m total_simps using a(2) by simp
qed

definition spec_encodable :: "aem_spec \<Rightarrow> bool" where
  "spec_encodable spec =
     (let e = sp_entity spec;
          n_in = sum_list (map p_clusters (sp_ports_in spec)); n_out = sum_list (map p_clusters (sp_ports_out spec));
          names_in = names_or (sp_cluster_names_in spec) ''Input'' n_in;
          names_out = names_or (sp_cluster_names_out spec) ''Output'' n_out in
      list_all encodable [e_name e, e_firmware_version e, e_group_name e, e_serial_number e, e_vendor_name e,
        sp_rates_string spec, locale_of spec]
      \<and> list_all (\<lambda>kv. encodable (snd kv)) (get_or (sp_names spec) [])
      \<and> list_all (\<lambda>r. 0 \<le> r \<and> r < 2 ^ 32) (sp_current_rate spec # sp_rates spec)
      \<and> list_all (\<lambda>s. encodable (ss_name s) \<and> ss_formats s \<noteq> []
           \<and> (case ss_buffer s of Some b \<Rightarrow> 0 \<le> b \<and> b < 2 ^ 32 | None \<Rightarrow> False)) (sp_stream_inputs spec)
      \<and> list_all (\<lambda>s. encodable (ss_name s) \<and> ss_formats s \<noteq> []) (sp_stream_outputs spec)
      \<and> gptp_ok (get_or (sp_gptp spec) gptp_empty)
      \<and> list_all (\<lambda>c. encodable (cs_name c)) (sp_clock_sources spec)
      \<and> int (length names_in) = n_in \<and> int (length names_out) = n_out
      \<and> list_all encodable (names_in @ names_out)
      \<and> list_all (list_all (\<lambda>r. length r = 4)) (sp_audio_maps spec))"

lemma desc_total: "(\<exists>b. r = Inr b) \<Longrightarrow> \<exists>ds. desc t i r = Inr ds"
  by (auto simp: desc_def)

lemma object_name_total:
  assumes "list_all (\<lambda>kv. encodable (snd kv)) (get_or (sp_names spec) [])" "(k, v) \<in> set OBJECT_NAMES"
  shows "\<exists>n. object_name spec k = Inr n \<and> encodable n"
proof -
  have def_ok: "list_all (\<lambda>kv. encodable (snd kv)) OBJECT_NAMES"
    by (simp add: OBJECT_NAMES_def encodable_def lit_def)
  obtain d where d: "map_of OBJECT_NAMES k = Some d" using weak_map_of_SomeI[OF assms(2)] by blast
  show ?thesis
  proof (cases "map_of (get_or (sp_names spec) []) k")
    case None
    then have "object_name spec k = Inr d" using d by (simp add: object_name_def need_def map_add_def)
    moreover have "encodable d" using def_ok map_of_SomeD[OF d] by (auto simp: list_all_iff)
    ultimately show ?thesis by blast
  next
    case (Some n)
    then have "object_name spec k = Inr n" by (simp add: object_name_def need_def map_add_def)
    moreover have "encodable n" using assms(1) map_of_SomeD[OF Some] by (auto simp: list_all_iff)
    ultimately show ?thesis by blast
  qed
qed

lemma entity_descriptors_total:
  assumes "spec_encodable spec"
  shows "\<exists>ds. entity_descriptors spec = Inr ds"
proof -
  note enc = assms[unfolded spec_encodable_def Let_def]
  have names: "list_all (\<lambda>kv. encodable (snd kv)) (get_or (sp_names spec) [])" using enc by blast
  have nm: "\<And>k v. (k, v) \<in> set OBJECT_NAMES \<Longrightarrow> \<exists>n. object_name spec k = Inr n \<and> encodable n"
    using object_name_total[OF names] by blast
  obtain n1 n2 n3 n4 n5 where
    n: "object_name spec ''configuration'' = Inr n1" "object_name spec ''audio_unit'' = Inr n2"
      "object_name spec ''avb_interface'' = Inr n3" "object_name spec ''clock_domain'' = Inr n4"
      "object_name spec ''control_identify'' = Inr n5"
    and ne: "encodable n1" "encodable n2" "encodable n3" "encodable n4" "encodable n5"
    using nm[of "''configuration''"] nm[of "''audio_unit''"] nm[of "''avb_interface''"]
      nm[of "''clock_domain''"] nm[of "''control_identify''"] by (auto simp: OBJECT_NAMES_def)
  have fl: "(3::int) div 0x2000 mod 2 = 0" "stream_flags_out s div 0x2000 mod 2 = 0" for s
    by (simp_all add: stream_flags_out_def)
  have si: "\<exists>x. rbind (need (ss_buffer s)) (\<lambda>buf.
      desc STREAM_INPUT k (d_stream STREAM_INPUT k (ss_name s) 0x0003 (ss_formats s) buf)) = Inr x"
    if "s \<in> set (sp_stream_inputs spec)" for k s
  proof -
    from that enc obtain b where b: "ss_buffer s = Some b" "0 \<le> b" "b < 2 ^ 32" "encodable (ss_name s)" "ss_formats s \<noteq> []"
      by (auto simp: list_all_iff split: option.splits)
    then have "\<exists>x. d_stream STREAM_INPUT k (ss_name s) 3 (ss_formats s) b = Inr x"
      using d_stream_Inr_iff[of STREAM_INPUT k "ss_name s" 3 "ss_formats s" b] fl by blast
    then show ?thesis using b(1) by (auto simp: need_def desc_def)
  qed
  have so: "\<exists>x. d_stream STREAM_OUTPUT k (ss_name s) (stream_flags_out s) (ss_formats s) 0 = Inr x"
    if "s \<in> set (sp_stream_outputs spec)" for k s
    using that enc d_stream_Inr_iff[of STREAM_OUTPUT k "ss_name s" "stream_flags_out s" "ss_formats s" 0] fl
    by (auto simp: list_all_iff)
  have cs: "\<exists>x. d_clock_source k (cs_name c) (cs_type c) (cs_loc_type c) (cs_loc_index c) = Inr x"
    if "c \<in> set (sp_clock_sources spec)" for k c
    using that enc by (intro d_clock_source_total) (auto simp: list_all_iff)
  have singles: "\<exists>x. d_entity (sp_entity spec) = Inr x" "\<exists>x. d_locale (locale_of spec) = Inr x"
    "\<exists>x. d_strings [e_name (sp_entity spec), sp_rates_string spec, e_vendor_name (sp_entity spec), [], [], [], []] = Inr x"
    "\<exists>x. d_audio_unit (sp_rates spec) (sp_current_rate spec) a b n2 = Inr x" "\<exists>x. d_avb_interface (sp_gptp spec) n3 = Inr x"
    for a b
    using enc ne by (auto intro!: d_entity_total d_locale_total d_strings_total d_audio_unit_total d_avb_interface_total
        simp: encodable_def)
  show ?thesis
    unfolding entity_descriptors_def Let_def concatE_total_iff
    using si so cs singles d_configuration_total[OF ne(1)] d_clock_domain_total[OF ne(4)] d_control_identify_total[OF ne(5)]
    by (auto simp: n in_set_enum split: prod.splits intro!: desc_total)
qed

lemma port_descriptors_total:
  assumes "spec_encodable spec"
  shows "\<exists>ds. port_descriptors spec = Inr ds"
proof -
  let ?ni = "sum_list (map p_clusters (sp_ports_in spec))" and ?no = "sum_list (map p_clusters (sp_ports_out spec))"
  let ?nm = "names_or (sp_cluster_names_in spec) ''Input'' ?ni" and ?om = "names_or (sp_cluster_names_out spec) ''Output'' ?no"
  note enc = assms[unfolded spec_encodable_def Let_def]
  have len: "int (length ?nm) = ?ni" "int (length ?om) = ?no" using enc by blast+
  have ci: "\<exists>x. d_audio_cluster (int k) (?nm ! k) NO_STRING = Inr x" if "k < nat ?ni" for k
    using that enc len by (intro d_audio_cluster_total) (auto simp: list_all_iff)
  have co: "\<exists>x. d_audio_cluster (int k) (?om ! (k - nat ?ni)) (int AUDIO_UNIT) = Inr x"
    if "nat ?ni \<le> k" "k < nat (?ni + ?no)" for k
  proof -
    have "k - nat ?ni < length ?om" using that len by linarith
    then show ?thesis using enc by (intro d_audio_cluster_total) (auto simp: list_all_iff)
  qed
  have mp: "\<exists>x. d_audio_map (int k) rows = Inr x" if "rows \<in> set (sp_audio_maps spec)" for k rows
    using that enc d_audio_map_mappings_offset[of rows "int k"] by (auto simp: list_all_iff)
  show ?thesis
    unfolding port_descriptors_def Let_def concatE_total_iff
    using len ci co mp d_stream_port_total
    by (auto simp: in_set_enum split: prod.splits intro!: desc_total)
qed

lemma model_descriptors_total: "spec_encodable spec \<Longrightarrow> \<exists>ds. model_descriptors spec = Inr ds"
  using entity_descriptors_total port_descriptors_total by (fastforce simp: model_descriptors_def)

text \<open>\<open>weighs r n\<close>: whenever the step \<open>r\<close> returns, the descriptors it appends hold \<open>n\<close> octets.\<close>

definition weighs :: "desc list aem \<Rightarrow> nat \<Rightarrow> bool" where
  "weighs r n = (\<forall>ds. r = Inr ds \<longrightarrow> length (desc_octets ds) = n)"

lemma weighs_desc: "(\<And>b. r = Inr b \<Longrightarrow> length b = n) \<Longrightarrow> weighs (desc t i r) n"
  by (auto simp: weighs_def desc_def desc_octets_def)

lemma weighs_rbind: "(\<And>x. weighs (f x) n) \<Longrightarrow> weighs (rbind m f) n"
  by (auto simp: weighs_def)

lemma weighs_Nil: "weighs (concatE []) 0"
  by (simp add: weighs_def desc_octets_def)

lemma weighs_Cons: "weighs r n \<Longrightarrow> weighs (concatE rs) n' \<Longrightarrow> weighs (concatE (r # rs)) (n + n')"
  by (auto simp: weighs_def desc_octets_def)

lemma weighs_append: "weighs (concatE rs) n \<Longrightarrow> weighs (concatE ss) n' \<Longrightarrow> weighs (concatE (rs @ ss)) (n + n')"
  by (auto simp: weighs_def desc_octets_def concatE_append)

lemma weighs_map: "(\<And>x. weighs (f x) (g x)) \<Longrightarrow> weighs (concatE (map f xs)) (\<Sum>x \<leftarrow> xs. g x)"
  by (induction xs) (auto simp: weighs_def desc_octets_def)

lemma weighs_enum:
  assumes "\<And>k x. weighs (h k x) (g x)"
  shows "weighs (concatE (map (\<lambda>(k, x). h k x) (enum xs))) (\<Sum>x \<leftarrow> xs. g x)"
proof -
  have "(\<Sum>kx \<leftarrow> enum xs. g (snd kx)) = (\<Sum>x \<leftarrow> xs. g x)"
    using map_snd_enum_comp[of g xs] by simp
  with weighs_map[of "\<lambda>(k, x). h k x" "\<lambda>kx. g (snd kx)" "enum xs"] assms show ?thesis by auto
qed

lemma weighs_check: "weighs (if b then Inl e else Inr []) 0"
  by (simp add: weighs_def desc_octets_def)

lemma weighs_eqD: "weighs r n \<Longrightarrow> r = Inr ds \<Longrightarrow> n = n' \<Longrightarrow> length (desc_octets ds) = n'"
  by (simp add: weighs_def)

lemmas weighs_intros = weighs_append weighs_enum weighs_map weighs_Cons weighs_Nil weighs_check

lemmas descriptor_lengths = d_entity_length d_configuration_length d_audio_unit_length d_stream_length
  d_avb_interface_length d_clock_source_length d_clock_domain_length d_control_identify_length d_locale_length
  d_strings_length d_stream_port_length d_audio_cluster_length d_audio_map_length

text \<open>The size of the ROM, from the specification alone.\<close>

definition rom_octets :: "aem_spec \<Rightarrow> nat" where
  "rom_octets spec =
     312 + 106 + (144 + 4 * length (sp_rates spec))
     + (\<Sum>s \<leftarrow> sp_stream_inputs spec. 138 + 8 * length (ss_formats s))
     + (\<Sum>s \<leftarrow> sp_stream_outputs spec. 138 + 8 * length (ss_formats s))
     + 102 + 86 * length (sp_clock_sources spec) + (76 + 2 * length (sp_clock_sources spec)) + 113 + 72 + 452
     + 20 * length (sp_ports_in spec) + 20 * length (sp_ports_out spec) + 90 * cluster_count spec
     + (\<Sum>rows \<leftarrow> sp_audio_maps spec. 8 + 8 * length rows)"

lemma sum_list_const_nat: "(\<Sum>x \<leftarrow> xs. c) = c * length xs" for c :: nat
  by (induction xs) auto

lemma entity_descriptors_octets:
  assumes "entity_descriptors spec = Inr ds"
  shows "length (desc_octets ds) = 312 + 106 + (144 + 4 * length (sp_rates spec))
     + (\<Sum>s \<leftarrow> sp_stream_inputs spec. 138 + 8 * length (ss_formats s))
     + (\<Sum>s \<leftarrow> sp_stream_outputs spec. 138 + 8 * length (ss_formats s))
     + 102 + 86 * length (sp_clock_sources spec) + (76 + 2 * length (sp_clock_sources spec)) + 113 + 72 + 452"
  by (rule weighs_eqD[OF _ assms], unfold entity_descriptors_def Let_def,
      (rule weighs_intros weighs_rbind weighs_desc | erule descriptor_lengths)+)
    (simp add: sum_list_const_nat)

lemma port_descriptors_octets:
  assumes "port_descriptors spec = Inr ds"
  shows "length (desc_octets ds) = 20 * length (sp_ports_in spec) + 20 * length (sp_ports_out spec)
     + 90 * cluster_count spec + (\<Sum>rows \<leftarrow> sp_audio_maps spec. 8 + 8 * length rows)"
proof -
  let ?ni = "sum_list (map p_clusters (sp_ports_in spec))" and ?no = "sum_list (map p_clusters (sp_ports_out spec))"
  have "int (length (names_or (sp_cluster_names_in spec) ''Input'' ?ni)) = ?ni"
    "int (length (names_or (sp_cluster_names_out spec) ''Output'' ?no)) = ?no"
    using assms unfolding port_descriptors_def Let_def concatE_append by (auto split: if_splits)
  then have n: "90 * nat ?ni + 90 * (nat (?ni + ?no) - nat ?ni) = 90 * cluster_count spec"
    unfolding cluster_count_def by linarith
  show ?thesis
    by (rule weighs_eqD[OF _ assms], unfold port_descriptors_def Let_def,
        (rule weighs_intros weighs_rbind weighs_desc | erule descriptor_lengths)+)
      (use n in \<open>simp add: sum_list_const_nat\<close>)
qed

lemma model_octets: "model_descriptors spec = Inr ds \<Longrightarrow> length (desc_octets ds) = rom_octets spec"
  by (auto simp: model_descriptors_def rom_octets_def desc_octets_def
      dest!: entity_descriptors_octets[unfolded desc_octets_def] port_descriptors_octets[unfolded desc_octets_def])

lemma base_exists:
  assumes "model_descriptors spec = Inr ds" "rom_image ds = Inr (rom, dir)" "(t, n) \<in> set (model_runs spec)" "k < n"
  shows "\<exists>b. base_of dir t k = Inr b"
proof -
  have "(t, k) \<in> set (keys_of ds)"
    unfolding model_descriptors_keys[OF assms(1)] runs_keys_mem using assms(3,4) by blast
  then obtain img where "(t, k, img) \<in> set ds" by (auto simp: keys_of_def)
  from served[OF assms(1,2) this] show ?thesis by blast
qed

lemma mapE_exists: "(\<And>x. x \<in> set xs \<Longrightarrow> \<exists>y. f x = Inr y) \<Longrightarrow> \<exists>ys. mapE f xs = Inr ys"
  by (induction xs) auto

lemma clock_source_table_total:
  assumes "list_all (\<lambda>c. CLKSRC_KIND (row_type c) \<noteq> None) rows"
  shows "\<exists>t. clock_source_table rows = Inr t"
proof -
  have "\<exists>y. (case CLKSRC_KIND (row_type c) of None \<Rightarrow> Inl KeyError
      | Some k \<Rightarrow> Inr (k, if row_on_stream c then Some (row_location c) else None)) = Inr y" if "c \<in> set rows" for c
    using assms that by (auto simp: list_all_iff)
  then show ?thesis unfolding clock_source_table_def Let_def by (rule mapE_exists)
qed

lemma build_model_succeeds:
  assumes enc: "spec_encodable spec" and fits: "rom_octets spec + 64 \<le> 65536"
    and so: "sp_stream_outputs spec \<noteq> []"
    and aaf: "\<exists>s \<in> set (sp_stream_inputs spec). kind_of s = ''aaf''"
    and crf: "\<exists>s \<in> set (sp_stream_inputs spec). ss_kind s = Some ''crf''"
    and dyn: "dynmap_tables spec = Inr d" and od: "odmap_tables spec (d \<noteq> None) = Inr u"
    and gate: "gate_accepts spec (length (sp_stream_inputs spec)) (length (sp_stream_outputs spec))"
    and clk: "list_all (\<lambda>c. CLKSRC_KIND (cs_raw_type c) \<noteq> None) (sp_clock_sources spec)"
  shows "\<exists>m. build_model spec = Inr m \<and> m_ROM_SIZE m = rom_octets spec"
proof -
  let ?si = "sp_stream_inputs spec" and ?so = "sp_stream_outputs spec"
  from model_descriptors_total[OF enc] obtain ds where ds: "model_descriptors spec = Inr ds" by blast
  note oct = model_octets[OF ds]
  define rom dir where "rom = desc_octets ds" and "dir = dir_rows 0 ds"
  have rom: "rom_image ds = Inr (rom, dir)"
    using oct fits by (simp add: rom_image_Inr_iff rom_def dir_def)
  note base = base_exists[OF ds rom]
  have b: "\<exists>b. base_of dir ENTITY 0 = Inr b" "\<exists>b. base_of dir AVB_INTERFACE 0 = Inr b"
    "\<exists>b. base_of dir AUDIO_UNIT 0 = Inr b" "\<exists>b. base_of dir CLOCK_DOMAIN 0 = Inr b" "\<exists>b. base_of dir CONTROL 0 = Inr b"
    "\<exists>b. base_of dir STREAM_OUTPUT 0 = Inr b"
    using base[of ENTITY 1 0] base[of AVB_INTERFACE 1 0] base[of AUDIO_UNIT 1 0] base[of CLOCK_DOMAIN 1 0]
      base[of CONTROL 1 0] base[of STREAM_OUTPUT "length ?so" 0] so
    by (simp_all add: model_runs_def)
  have bi: "\<And>k. k < length ?si \<Longrightarrow> \<exists>b. base_of dir STREAM_INPUT k = Inr b"
    and bo: "\<And>k. k < length ?so \<Longrightarrow> \<exists>b. base_of dir STREAM_OUTPUT k = Inr b"
    and bm: "\<And>k. k < length (sp_audio_maps spec) \<Longrightarrow> \<exists>b. base_of dir AUDIO_MAP k = Inr b"
    using base[of STREAM_INPUT "length ?si"] base[of STREAM_OUTPUT "length ?so"]
      base[of AUDIO_MAP "length (sp_audio_maps spec)"]
    by (simp_all add: model_runs_def)
  obtain ov where ov: "read_overlays (base_of dir) = Inr ov" using b by (auto simp: read_overlays_def)
  have "\<exists>wb. writeback_targets spec (base_of dir) = Inr wb"
    unfolding writeback_targets_def concatE_total_iff using b bi bm by (auto simp: wb_entry_def)
  then obtain wb where wb: "writeback_targets spec (base_of dir) = Inr wb" by blast
  obtain E where E: "base_of dir ENTITY 0 = Inr E" using b by blast
  from layout_gates_pass[OF ds rom] E obtain l1 nm nx where
    l1: "two_level_directory dir = Inr l1" "check_two_level l1 dir = Inr ()"
    and nm: "named_structure l1 dir (named_addresses dir E) = Inr (nm, nx)" by auto
  obtain f1 f2 where f: "first_formats (\<lambda>s. kind_of s = ''aaf'') ?si = Inr f1"
      "first_formats (\<lambda>s. ss_kind s = Some ''crf'') ?si = Inr f2"
    using aaf crf unfolding first_formats_def
    by (cases "find (\<lambda>s. kind_of s = ''aaf'') ?si"; cases "find (\<lambda>s. ss_kind s = Some ''crf'') ?si")
      (auto simp: find_None_iff)
  have fmts: "\<forall>s \<in> set ?si \<union> set ?so. ss_formats s \<noteq> []"
    using enc by (auto simp: spec_encodable_def Let_def list_all_iff)
  have "\<exists>ps. per_stream_tables spec (base_of dir) = Inr ps"
  proof -
    have "\<exists>a. mapE (\<lambda>s. py_nth (ss_formats s) 0) ?si = (Inr a :: int list aem)"
      "\<exists>a. mapE (\<lambda>s. py_nth (ss_formats s) 0) ?so = (Inr a :: int list aem)"
      using fmts by (auto intro!: mapE_exists)
    moreover have "\<exists>a. mapE (\<lambda>k. rbind (base_of dir STREAM_INPUT k) (\<lambda>b. Inr (b + 74))) [0..<length ?si] = Inr a"
      "\<exists>a. mapE (\<lambda>k. rbind (base_of dir STREAM_OUTPUT k) (\<lambda>b. Inr (b + 74))) [0..<length ?so] = Inr a"
      using bi bo by (auto intro!: mapE_exists)
    ultimately show ?thesis by (auto simp: per_stream_tables_def Let_def)
  qed
  then obtain ps where ps: "per_stream_tables spec (base_of dir) = Inr ps" by blast
  obtain sm where sm: "static_map_tables spec (base_of dir) (length ?si) (length ?so) = Inr sm"
    using gate_sufficient[OF _ gate, of "base_of dir"] bm by blast
  obtain ct where ct: "clock_source_table (map SpecRow (sp_clock_sources spec)) = Inr ct"
    using clock_source_table_total[of "map SpecRow (sp_clock_sources spec)"] clk by (auto simp: list_all_iff)
  show ?thesis
    unfolding build_model_def Let_def ds rom ov wb E f ps dyn od sm l1 nm ct rbind.simps prod.case
    by (simp add: rom_def oct)
qed

section \<open>Totality\<close>

text \<open>
  The bounds on the dynamic ports, stated on their fields. Listener side: every cluster key of a dynamic port
  is below 64, all pages the ports state agree on one size between 1 and 9, and where none states a page some
  dynamic port has a cluster. Talker side: a dynamic talker port needs a dynamic listener port; each port has one
  source per cluster, serves an existing stream and has a non-negative identity offset.
\<close>

definition listener_fields_ok :: "aem_spec \<Rightarrow> bool" where
  "listener_fields_ok spec \<longleftrightarrow>
     (let dyn = filter is_dynamic (sp_ports_in spec) in
      list_all (\<lambda>p. p_base_cluster p + p_clusters p \<le> 64) dyn
      \<and> (dyn = [] \<or> (\<exists>v \<in> {1..9}. list_all (\<lambda>p. p_map_page p \<in> {None, Some 0, Some v}) dyn)
           \<and> list_ex (\<lambda>p. p_map_page p \<notin> {None, Some 0} \<or> 1 \<le> p_clusters p) dyn))"

definition talker_port_ok :: "aem_spec \<Rightarrow> nat \<times> port_spec \<Rightarrow> bool" where
  "talker_port_ok spec jp \<longleftrightarrow> (case jp of (j, p) \<Rightarrow>
     (case p_cluster_sources p of Some srcs \<Rightarrow> int (length srcs) = p_clusters p | None \<Rightarrow> \<not> is_dynamic p \<and> 0 \<le> p_clusters p)
     \<and> 0 \<le> port_stream j p \<and> port_stream j p < int (length (sp_stream_outputs spec)) \<and> 0 \<le> get_or (p_identity_offset p) 0)"

definition talker_fields_ok :: "aem_spec \<Rightarrow> bool" where
  "talker_fields_ok spec \<longleftrightarrow> filter is_dynamic (sp_ports_out spec) = []
     \<or> filter is_dynamic (sp_ports_in spec) \<noteq> [] \<and> list_all (talker_port_ok spec) (enum (sp_ports_out spec))"

lemma length_slot_bases [simp]: "length (slot_bases acc cs) = length cs"
  by (induction cs arbitrary: acc) auto

lemma py_nth_total: "0 \<le> i \<Longrightarrow> i < int (length xs) \<Longrightarrow> \<exists>x. py_nth xs i = (Inr x :: 'a aem)"
  by (simp add: py_nth_def nat_less_iff)

lemma dynmap_total:
  assumes ok: "listener_fields_ok spec" and fmts: "\<forall>s \<in> set (sp_stream_inputs spec). ss_formats s \<noteq> []"
  shows "\<exists>d. dynmap_tables spec = Inr d \<and> (d \<noteq> None \<longleftrightarrow> filter is_dynamic (sp_ports_in spec) \<noteq> [])"
proof (cases "filter is_dynamic (sp_ports_in spec) = []")
  case True
  then show ?thesis by (simp add: dynmap_tables_def Let_def)
next
  case False
  let ?dyn = "filter is_dynamic (sp_ports_in spec)"
  let ?ex = "remdups (filter (\<lambda>v. v \<noteq> 0) (List.map_filter p_map_page ?dyn))"
  let ?page = "case ?ex of v # _ \<Rightarrow> v | [] \<Rightarrow> min (Max (set (map p_clusters ?dyn))) 8"
  obtain v where v: "1 \<le> v" "v \<le> 9" "\<forall>p \<in> set ?dyn. p_map_page p \<in> {None, Some 0, Some v}"
    and e: "\<exists>p \<in> set ?dyn. p_map_page p \<notin> {None, Some 0} \<or> 1 \<le> p_clusters p"
  proof -
    from ok False obtain v where "v \<in> {1..9}" "list_all (\<lambda>p. p_map_page p \<in> {None, Some 0, Some v}) ?dyn"
      and "list_ex (\<lambda>p. p_map_page p \<notin> {None, Some 0} \<or> 1 \<le> p_clusters p) ?dyn"
      by (auto simp only: listener_fields_ok_def Let_def)
    then show thesis by (intro that[of v]) (simp_all only: list_all_iff list_ex_iff atLeastAtMost_iff)
  qed
  have sub: "set ?ex \<subseteq> {v}" using v(3) by (fastforce simp: List.map_filter_def)
  then have one: "?ex = [] \<or> ?ex = [v]"
    using distinct_remdups[of "filter (\<lambda>v. v \<noteq> 0) (List.map_filter p_map_page ?dyn)"]
    by (cases ?ex rule: remdups_adj.cases) (auto simp del: distinct_remdups set_remdups)
  have "1 \<le> ?page \<and> ?page \<le> 9"
  proof (cases "?ex = []")
    case True
    then have none: "\<forall>p \<in> set ?dyn. p_map_page p \<in> {None, Some 0}"
      by (fastforce simp: List.map_filter_def filter_empty_conv)
    with e obtain p where "p \<in> set ?dyn" "1 \<le> p_clusters p" by blast
    then have "1 \<le> Max (set (map p_clusters ?dyn))" by (intro order_trans[OF _ Max_ge]) auto
    then show ?thesis unfolding True by simp
  next
    case False
    then show ?thesis using one v(1,2) by (metis list.simps(5))
  qed
  moreover have "Max (set (map (\<lambda>p. p_base_cluster p + p_clusters p) ?dyn)) \<le> 64"
  proof (rule Max.boundedI)
    show "set (map (\<lambda>p. p_base_cluster p + p_clusters p) ?dyn) \<noteq> {}" using False by (simp only: set_empty map_is_Nil_conv not_False_eq_True)
  qed (use ok in \<open>auto simp: listener_fields_ok_def Let_def list_all_iff\<close>)
  moreover have "length ?ex \<le> 1" using one by auto
  moreover have "\<exists>sch. mapE (\<lambda>s. if kind_of s = ''aaf'' then rbind (py_nth (ss_formats s) 0) (\<lambda>f. Inr (drop_bit 22 f AND 0x3FF))
              else Inr 0) (sp_stream_inputs spec) = (Inr sch :: int list aem)"
    by (rule mapE_exists) (use fmts in auto)
  ultimately show ?thesis using False unfolding dynmap_tables_def Let_def by auto
qed

lemma odmap_total:
  assumes ok: "talker_fields_ok spec" and fmts: "\<forall>s \<in> set (sp_stream_outputs spec). ss_formats s \<noteq> []"
    and dm: "dynmap \<longleftrightarrow> filter is_dynamic (sp_ports_in spec) \<noteq> []"
  shows "\<exists>u. odmap_tables spec dynmap = Inr u"
proof (cases "filter is_dynamic (sp_ports_out spec) = []")
  case True
  then show ?thesis by (simp add: odmap_tables_def Let_def)
next
  case False
  let ?so = "sp_stream_outputs spec" and ?po = "enum (sp_ports_out spec)"
  have d: dynmap and ports: "\<forall>x \<in> set ?po. talker_port_ok spec x"
    using ok False dm by (auto simp: talker_fields_ok_def list_all_iff)
  have "\<exists>so_ch. mapE (\<lambda>s. rbind (py_nth (ss_formats s) 0) (\<lambda>f. Inr (drop_bit 22 f AND 0x3FF))) ?so = (Inr so_ch :: int list aem)"
    by (rule mapE_exists) (use fmts in auto)
  then obtain so_ch where so: "mapE (\<lambda>s. rbind (py_nth (ss_formats s) 0) (\<lambda>f. Inr (drop_bit 22 f AND 0x3FF))) ?so = (Inr so_ch :: int list aem)"
    by blast
  have len: "length so_ch = length ?so" using mapE_length[OF so] by simp
  have srcs: "\<exists>srcs. port_sources j p = Inr srcs \<and> int (length srcs) = p_clusters p" if "talker_port_ok spec (j, p)" for j p
  proof (cases "p_cluster_sources p")
    case None
    then show ?thesis using that
      by (intro exI[of _ "replicate (nat (p_clusters p)) zero_source"]) (simp add: talker_port_ok_def port_sources_def)
  qed (use that in \<open>simp add: talker_port_ok_def port_sources_def\<close>)
  have key: "\<exists>k. identity_key so_ch (port_stream j p) p srcs c = Inr k"
    if "talker_port_ok spec (j, p)" "int (length srcs) = p_clusters p" for j p srcs c
  proof -
    obtain ch where "py_nth so_ch (port_stream j p) = (Inr ch :: int aem)"
      using \<open>talker_port_ok spec (j, p)\<close> py_nth_total[of "port_stream j p" so_ch] by (auto simp: talker_port_ok_def len)
    moreover have "\<exists>s. py_nth srcs (get_or (p_identity_offset p) 0 + int c) = (Inr s :: cluster_source aem)"
      if "get_or (p_identity_offset p) 0 + int c < p_clusters p"
      using that \<open>talker_port_ok spec (j, p)\<close> \<open>int (length srcs) = p_clusters p\<close>
      by (intro py_nth_total) (auto simp: talker_port_ok_def)
    ultimately show ?thesis by (auto simp: identity_key_def Let_def)
  qed
  have step: "\<exists>st'. odmap_step so_ch x st = Inr st'" if "talker_port_ok spec x" for x st
  proof -
    obtain j p where x: "x = (j, p)" by (cases x)
    obtain a b c where st: "st = (a, b, c)" by (cases st)
    obtain ss where ss: "port_sources j p = Inr ss" "int (length ss) = p_clusters p" using srcs \<open>talker_port_ok spec x\<close> x by blast
    have "\<exists>ids. mapE (identity_key so_ch (port_stream j p) p ss) [0..<8] = Inr ids"
      by (rule mapE_exists, rule key[OF _ ss(2)]) (use \<open>talker_port_ok spec x\<close> x in simp)
    then obtain ids where "mapE (identity_key so_ch (port_stream j p) p ss) [0..<8] = Inr ids" by blast
    with ss show ?thesis by (simp add: odmap_step_def x st)
  qed
  have fold: "\<exists>out. foldE (odmap_step so_ch) xs st = Inr out" if "\<forall>x \<in> set xs. talker_port_ok spec x" for xs st
    using that
  proof (induction xs arbitrary: st)
    case (Cons x xs)
    obtain st' where "odmap_step so_ch x st = Inr st'" using step Cons.prems by (meson list.set_intros(1))
    moreover obtain out where "foldE (odmap_step so_ch) xs st' = Inr out" using Cons.IH Cons.prems by (meson list.set_intros(2))
    ultimately show ?case by (cases out) simp
  qed (metis foldE.simps(1))
  obtain pcbase csrc init where f: "foldE (odmap_step so_ch) ?po ([], [], []) = Inr (pcbase, csrc, init)"
    using fold[OF ports] by (metis prod_cases3)
  have nth: "\<exists>y. py_nth ys (port_stream j p) = (Inr y :: int aem)"
    if "talker_port_ok spec (j, p)" "length ys = length ?so" for ys :: "int list" and j p
    using that by (intro py_nth_total) (auto simp: talker_port_ok_def)
  have look: "\<exists>zs. mapE (\<lambda>(j, p). py_nth ys (port_stream j p)) ?po = (Inr zs :: int list aem)" if "length ys = length ?so" for ys
    using nth[OF _ that] ports by (intro mapE_exists) (auto split: prod.splits)
  obtain z1 where z1: "mapE (\<lambda>(j, p). py_nth (slot_bases 0 so_ch) (port_stream j p)) ?po = (Inr z1 :: int list aem)"
    using look[of "slot_bases 0 so_ch"] by (auto simp: len)
  obtain z2 where z2: "mapE (\<lambda>(j, p). py_nth so_ch (port_stream j p)) ?po = (Inr z2 :: int list aem)"
    using look[of so_ch] by (auto simp: len)
  show ?thesis using False d unfolding odmap_tables_def Let_def so f z1 z2 rbind.simps prod.case by simp
qed

text \<open>
  Property C11. A specification whose names, formats and numbers are encodable, whose ROM size
  (given by the specification alone) fits the 16-bit store, that has a talker, an AAF and a CRF
  sink, known clock kinds, mappings inside the bounds of the AUDIO_MAP gate and dynamic ports inside the bounds
  stated on their fields, is always built; the ROM has exactly the computed size.
\<close>

theorem build_model_total:
  assumes "spec_encodable spec" and "rom_octets spec + 64 \<le> 65536"
    and "sp_stream_outputs spec \<noteq> []"
    and "\<exists>s \<in> set (sp_stream_inputs spec). kind_of s = ''aaf''"
    and "\<exists>s \<in> set (sp_stream_inputs spec). ss_kind s = Some ''crf''"
    and "listener_fields_ok spec" and "talker_fields_ok spec"
    and "gate_accepts spec (length (sp_stream_inputs spec)) (length (sp_stream_outputs spec))"
    and "list_all (\<lambda>c. CLKSRC_KIND (cs_raw_type c) \<noteq> None) (sp_clock_sources spec)"
  shows "\<exists>m. build_model spec = Inr m \<and> m_ROM_SIZE m = rom_octets spec"
proof -
  have fmts: "\<forall>s \<in> set (sp_stream_inputs spec). ss_formats s \<noteq> []" "\<forall>s \<in> set (sp_stream_outputs spec). ss_formats s \<noteq> []"
    using assms(1) by (auto simp: spec_encodable_def Let_def list_all_iff)
  obtain d where d: "dynmap_tables spec = Inr d" "d \<noteq> None \<longleftrightarrow> filter is_dynamic (sp_ports_in spec) \<noteq> []"
    using dynmap_total[OF assms(6) fmts(1)] by blast
  obtain u where "odmap_tables spec (d \<noteq> None) = Inr u" using odmap_total[OF assms(7) fmts(2) d(2)] by blast
  with build_model_succeeds[OF assms(1-5) d(1) _ assms(8,9)] show ?thesis by blast
qed

text \<open>The builtin model, which the module builds when it is imported.\<close>

definition builtin :: aem_spec where
  "builtin = builtin_model (lit ''2.67.0'')"

definition builtin_dynmap :: dynmap where
  "builtin_dynmap =
     \<lparr>dm_KEYS = 8, dm_PAGE = 8, dm_NPORTS = 1, dm_PDYN = [True], dm_PBASE = [0], dm_PCLS = [8], dm_PNMAPS = [1],
      dm_NSTRIN = 2, dm_SAAF = [True, False], dm_SCH = [2, 0], dm_PHYS = 10\<rparr>"

lemma encodable_ascii: "list_all (\<lambda>c. c < 128) s \<Longrightarrow> encodable s"
  by (auto simp: encodable_def list_all_iff)

lemma dec_nat_ascii: "list_all (\<lambda>c. c < 128) (dec_nat n)"
  using dec_nat_digits by (fastforce simp: list_all_iff)

lemma builtin_encodable: "spec_encodable builtin"
  by (simp add: spec_encodable_def builtin_def builtin_model_def names_or_def locale_of_def LOCALE_IDENTIFIER_def
      RATES_def FORMATS_def CRF_FORMATS_def OUT_FORMATS_def gptp_ok_def get_or_def upt_rec dec_nat.simps lit_def encodable_def)

lemma builtin_octets: "rom_octets builtin = 3651"
  by (simp add: rom_octets_def builtin_def builtin_model_def RATES_def FORMATS_def CRF_FORMATS_def OUT_FORMATS_def
      cluster_count_def upt_rec)

lemma builtin_dynmap: "dynmap_tables builtin = Inr (Some builtin_dynmap)"
  by code_simp

lemma builtin_odmap: "odmap_tables builtin (Some builtin_dynmap \<noteq> None) = Inr None"
  by code_simp

lemma builtin_streams: "length (sp_stream_inputs builtin) = 2" "length (sp_stream_outputs builtin) = 1"
  by (simp_all add: builtin_def builtin_model_def)

lemma builtin_accepted: "gate_accepts builtin (length (sp_stream_inputs builtin)) (length (sp_stream_outputs builtin))"
  using builtin_gate by (simp add: builtin_streams flip: builtin_def)

lemma builtin_clocks: "list_all (\<lambda>c. CLKSRC_KIND (cs_raw_type c) \<noteq> None) (sp_clock_sources builtin)"
  by (simp add: builtin_def builtin_model_def CLKSRC_KIND_def)

lemma builtin_sinks: "\<exists>s \<in> set (sp_stream_inputs builtin). kind_of s = ''aaf''"
  "\<exists>s \<in> set (sp_stream_inputs builtin). ss_kind s = Some ''crf''" "sp_stream_outputs builtin \<noteq> []"
  by (simp_all add: builtin_def builtin_model_def kind_of_def get_or_def)

lemma builtin_fields: "listener_fields_ok builtin" "talker_fields_ok builtin"
  by (simp_all add: listener_fields_ok_def talker_fields_ok_def builtin_def builtin_model_def is_dynamic_def get_or_def)

lemma builtin_builds: "\<exists>m. build_model builtin = Inr m"
  using build_model_succeeds[OF builtin_encodable _ builtin_sinks(3,1,2) builtin_dynmap builtin_odmap builtin_accepted builtin_clocks]
  by (auto simp: builtin_octets)

theorem build_model_total_witness: "\<exists>m. build_model builtin = Inr m \<and> m_ROM_SIZE m = 3651"
  using build_model_total[OF builtin_encodable _ builtin_sinks(3,1,2) builtin_fields builtin_accepted builtin_clocks]
  by (simp add: builtin_octets)

theorem directory_partitions_rom_witness:
  "\<exists>m ds. build_model builtin = Inr m \<and> model_descriptors builtin = Inr ds
    \<and> length (m_directory m) = length ds \<and> length (m_rom m) + 64 \<le> 65536"
  using builtin_builds directory_partitions_rom[of builtin] by blast

theorem layout_gates_never_refuse_witness:
  "\<exists>ds rom dir l1. model_descriptors builtin = Inr ds \<and> rom_image ds = Inr (rom, dir) \<and> two_level_directory dir = Inr l1"
proof -
  from builtin_builds obtain m where "build_model builtin = Inr m" by blast
  then obtain ds where ds: "model_descriptors builtin = Inr ds" "rom_image ds = Inr (m_rom m, m_directory m)"
    by (rule build_model_parts)
  from layout_gates_never_refuse[OF this] ds show ?thesis by blast
qed

section \<open>Overlay spans\<close>

lemma zero_fields: "be16 0 = replicate 2 0" "be64 0 = replicate 8 0" "be32 0 = Inr (replicate 4 0)"
  by (simp_all add: be16_def be64_def be32_def pack_be_def be_bytes_def numeral_eq_Suc)

lemma d_entity_zero:
  assumes "d_entity e = Inr b"
  shows "slice 4 48 b = replicate 44 0" "slice 310 312 b = replicate 2 0"
proof -
  let ?z = "replicate 8 0 @ replicate 8 0 @ replicate 4 0 @ replicate 2 0 @ replicate 2 0 @ replicate 2 0 @ replicate 2 0
      @ replicate 4 0 @ replicate 4 0 @ replicate 8 (0 :: byte)"
  have z: "?z = replicate 44 0" by (simp add: replicate_add[symmetric])
  from assms obtain n f g s where c: "cstr (e_name e) 64 = Inr n" "cstr (e_firmware_version e) 64 = Inr f"
    "cstr (e_group_name e) 64 = Inr g" "cstr (e_serial_number e) 64 = Inr s"
    and b: "b = be16 (int ENTITY) @ replicate 2 0 @ ?z @ n @ be16 2 @ replicate 2 0 @ f @ g @ s @ be16 1 @ replicate 2 0"
    by (auto simp: d_entity_def zero_fields)
  note len = length_cstr[OF c(1)] length_cstr[OF c(2)] length_cstr[OF c(3)] length_cstr[OF c(4)]
  show "slice 4 48 b = replicate 44 0" "slice 310 312 b = replicate 2 0"
    unfolding b z by (simp_all add: slice_simps slice_all len)
qed

lemma d_avb_interface_zero:
  assumes "d_avb_interface gp name = Inr b"
  shows "slice 70 76 b = replicate 6 0" "slice 78 86 b = replicate 8 0"
proof -
  from assms obtain n r where c: "cstr name 64 = Inr n"
    and b: "b = be16 (int AVB_INTERFACE) @ be16 0 @ n @ be16 NO_STRING @ replicate 6 0 @ be16 0x0007 @ replicate 8 0 @ r"
    by (auto simp: d_avb_interface_def Let_def zero_fields(2))
  show "slice 70 76 b = replicate 6 0" "slice 78 86 b = replicate 8 0"
    unfolding b by (simp_all add: slice_simps slice_all length_cstr[OF c])
qed

lemma rows_ordered:
  assumes "k < k'" "k' < length ds" "dir_rows 0 ds ! k = (t, i, b, l)" "dir_rows 0 ds ! k' = (t', i', b', l')"
  shows "b + l \<le> b'"
proof -
  have k: "k < length ds" using assms by simp
  have e: "b = length (desc_octets (take k ds))" "l = length (snd (snd (ds ! k)))" "b' = length (desc_octets (take k' ds))"
    using dir_rows_nth[OF k, of 0] dir_rows_nth[OF assms(2), of 0] assms(3,4) by simp_all
  have "take k' ds = take k ds @ ds ! k # take (k' - Suc k) (drop (Suc k) ds)"
  proof -
    have "take k' ds = take k ds @ take (k' - k) (drop k ds)"
      using assms(1) take_add[of k "k' - k" ds] by simp
    moreover have "drop k ds = ds ! k # drop (Suc k) ds" using k by (simp add: Cons_nth_drop_Suc)
    moreover have "k' - k = Suc (k' - Suc k)" using assms(1) by simp
    ultimately show ?thesis by simp
  qed
  then have "length (desc_octets (take k' ds)) \<ge> length (desc_octets (take k ds)) + length (snd (snd (ds ! k)))"
    by (simp add: desc_octets_def)
  then show ?thesis by (simp add: e)
qed

text \<open>Two different descriptors of a model never share an octet of the ROM.\<close>

lemma rows_apart:
  assumes "rom_image ds = Inr (rom, dir)" "(t, i, b, l) \<in> set dir" "(t', i', b', l') \<in> set dir" "(t, i) \<noteq> (t', i')"
  shows "b + l \<le> b' \<or> b' + l' \<le> b"
proof -
  have dir: "dir = dir_rows 0 ds" using assms(1) by (simp add: rom_image_Inr_iff)
  obtain k k' where k: "k < length ds" "dir_rows 0 ds ! k = (t, i, b, l)"
    and k': "k' < length ds" "dir_rows 0 ds ! k' = (t', i', b', l')"
    using assms(2,3) unfolding dir by (metis in_set_conv_nth length_dir_rows)
  have "k \<noteq> k'" using assms(4) k k' by auto
  then consider "k < k'" | "k' < k" by linarith
  then show ?thesis using rows_ordered[of k k' ds] rows_ordered[of k' k ds] k k' by cases blast+
qed

definition apart :: "nat \<times> nat \<Rightarrow> nat \<times> nat \<Rightarrow> bool" where
  "apart x y = (fst x + snd x \<le> fst y \<or> fst y + snd y \<le> fst x)"

text \<open>A span of \<open>n\<close> octets at \<open>a\<close> lies inside the ENTITY or the AVB_INTERFACE descriptor.\<close>

definition overlay_home :: "dir_row list \<Rightarrow> nat \<Rightarrow> nat \<Rightarrow> bool" where
  "overlay_home dir a n =
     list_ex (\<lambda>(t, i, b, l). t \<in> {ENTITY, AVB_INTERFACE} \<and> i = 0 \<and> b \<le> a \<and> a + n \<le> b + l) dir"

lemma overlay_homeI:
  "(t, 0, b, l) \<in> set dir \<Longrightarrow> t \<in> {ENTITY, AVB_INTERFACE} \<Longrightarrow> off + n \<le> l \<Longrightarrow> overlay_home dir (b + off) n"
  by (auto simp: overlay_home_def list_ex_iff intro!: bexI[of _ "(t, 0, b, l)"])

lemma slice_of_zeros:
  assumes "slice p (p + c) xs = replicate c 0" "p \<le> off" "off + k \<le> p + c"
  shows "slice off (off + k) xs = replicate k 0"
proof -
  have "slice (off - p) (off - p + k) (slice p (p + c) xs) = slice (p + (off - p)) (p + (off - p) + k) xs"
    by (rule slice_slice) (use assms in simp)
  with assms show ?thesis by (simp add: slice_def take_replicate)
qed

lemma overlay_bases:
  assumes "build_model spec = Inr m"
  obtains E A where
    "m_OVERLAYS m = [(E + 4, 8, ENTITY_ID), (E + 12, 8, MODEL_ID), (E + 20, 4, ECAPS), (E + 24, 2, TALKER_SRC),
        (E + 26, 2, TALKER_CAP), (E + 28, 2, LISTEN_SINK), (E + 30, 2, LISTEN_CAP), (E + 32, 4, CTRL_CAP),
        (E + 36, 4, AVAIL_IDX), (E + 40, 8, ASSOC_ID), (E + 48, 8, ENT_NAME8), (E + 310, 2, CURRENT_CFG),
        (A + 70, 6, MAC), (A + 78, 8, CLOCK_ID)]"
    "(ENTITY, 0, E, 312) \<in> set (m_directory m)" "(AVB_INTERFACE, 0, A, 102) \<in> set (m_directory m)"
    "E + 312 \<le> A \<or> A + 102 \<le> E"
    "slice (E + 4) (E + 4 + 44) (m_rom m) = replicate 44 0" "slice (E + 310) (E + 310 + 2) (m_rom m) = replicate 2 0"
    "slice (A + 70) (A + 70 + 6) (m_rom m) = replicate 6 0" "slice (A + 78) (A + 78 + 8) (m_rom m) = replicate 8 0"
proof -
  from assms obtain ds where ds: "model_descriptors spec = Inr ds" and rom: "rom_image ds = Inr (m_rom m, m_directory m)"
    and ov: "read_overlays (base_of (m_directory m)) = Inr (m_OVERLAYS m)" by (rule build_model_parts)
  from entity_rows(1)[OF ds] obtain e where e: "(ENTITY, 0, e) \<in> set ds" "d_entity (sp_entity spec) = Inr e" by blast
  from entity_rows(2)[OF ds] obtain v n where v: "(AVB_INTERFACE, 0, v) \<in> set ds" "d_avb_interface (sp_gptp spec) n = Inr v" by blast
  note le = d_entity_length[OF e(2)] and lv = d_avb_interface_length[OF v(2)]
  from served[OF ds rom e(1)] obtain E where E: "base_of (m_directory m) ENTITY 0 = Inr E"
    "slice E (E + 312) (m_rom m) = e" "(ENTITY, 0, E, 312) \<in> set (m_directory m)" unfolding le by blast
  from served[OF ds rom v(1)] obtain A where A: "base_of (m_directory m) AVB_INTERFACE 0 = Inr A"
    "slice A (A + 102) (m_rom m) = v" "(AVB_INTERFACE, 0, A, 102) \<in> set (m_directory m)" unfolding lv by blast
  have "E + 312 \<le> A \<or> A + 102 \<le> E" using rows_apart[OF rom E(3) A(3)] by simp
  then show thesis
    using ov E A d_entity_zero[OF e(2)] d_avb_interface_zero[OF v(2)]
      slice_slice[of 4 44 312 E "m_rom m"] slice_slice[of 310 2 312 E "m_rom m"]
      slice_slice[of 70 6 102 A "m_rom m"] slice_slice[of 78 8 102 A "m_rom m"]
    by (intro that[of E A]) (simp_all add: read_overlays_def)
qed

text \<open>
  Property C18. Every span the gateware overlays on a read lies inside the ENTITY or the
  AVB_INTERFACE descriptor, no two spans overlap, every source the multiplexer knows has exactly one
  span, and apart from the first octets of the entity name the ROM holds zeros there, so an
  unoverlaid read never shows stale data.
\<close>

theorem overlays_inside_and_apart:
  assumes "build_model spec = Inr m"
  shows "(\<forall>(a, n, src) \<in> set (m_OVERLAYS m). overlay_home (m_directory m) a n
      \<and> (src \<noteq> ENT_NAME8 \<longrightarrow> slice a (a + n) (m_rom m) = replicate n 0))
    \<and> sorted_wrt (\<lambda>x y. apart (fst x, fst (snd x)) (fst y, fst (snd y))) (m_OVERLAYS m)
    \<and> distinct (map (\<lambda>x. snd (snd x)) (m_OVERLAYS m))
    \<and> set (map (\<lambda>x. snd (snd x)) (m_OVERLAYS m)) = set SRC_IDS"
  using assms
proof (rule overlay_bases)
  fix E A
  assume list: "m_OVERLAYS m = [(E + 4, 8, ENTITY_ID), (E + 12, 8, MODEL_ID), (E + 20, 4, ECAPS), (E + 24, 2, TALKER_SRC),
        (E + 26, 2, TALKER_CAP), (E + 28, 2, LISTEN_SINK), (E + 30, 2, LISTEN_CAP), (E + 32, 4, CTRL_CAP),
        (E + 36, 4, AVAIL_IDX), (E + 40, 8, ASSOC_ID), (E + 48, 8, ENT_NAME8), (E + 310, 2, CURRENT_CFG),
        (A + 70, 6, MAC), (A + 78, 8, CLOCK_ID)]"
    and rows: "(ENTITY, 0, E, 312) \<in> set (m_directory m)" "(AVB_INTERFACE, 0, A, 102) \<in> set (m_directory m)"
    and ap: "E + 312 \<le> A \<or> A + 102 \<le> E"
    and z: "slice (E + 4) (E + 4 + 44) (m_rom m) = replicate 44 0" "slice (E + 310) (E + 310 + 2) (m_rom m) = replicate 2 0"
      "slice (A + 70) (A + 70 + 6) (m_rom m) = replicate 6 0" "slice (A + 78) (A + 78 + 8) (m_rom m) = replicate 8 0"
  note home = overlay_homeI[OF rows(1)] overlay_homeI[OF rows(2)]
  have z4: "slice (E + off) (E + off + k) (m_rom m) = replicate k 0" if "4 \<le> off" "off + k \<le> 48" for off k
    using slice_of_zeros[OF z(1), of "E + off" k] that by simp
  have "list_all (\<lambda>(a, n, src). overlay_home (m_directory m) a n
      \<and> (src \<noteq> ENT_NAME8 \<longrightarrow> slice a (a + n) (m_rom m) = replicate n 0)) (m_OVERLAYS m)"
    unfolding list list.pred_inject prod.case by (intro conjI impI TrueI home z4 z(2-4)) simp_all
  moreover have "sorted_wrt (\<lambda>x y. apart (fst x, fst (snd x)) (fst y, fst (snd y))) (m_OVERLAYS m)"
    unfolding list using ap by (auto simp: apart_def)
  moreover have "distinct (map (\<lambda>x. snd (snd x)) (m_OVERLAYS m))"
    "set (map (\<lambda>x. snd (snd x)) (m_OVERLAYS m)) = set SRC_IDS"
    unfolding list SRC_IDS_def by auto
  ultimately show ?thesis using list by (simp add: list_all_iff)
qed

theorem overlays_inside_and_apart_witness:
  "\<exists>m. build_model builtin = Inr m
    \<and> sorted_wrt (\<lambda>x y. apart (fst x, fst (snd x)) (fst y, fst (snd y))) (m_OVERLAYS m)
    \<and> set (map (\<lambda>x. snd (snd x)) (m_OVERLAYS m)) = set SRC_IDS"
  using builtin_builds overlays_inside_and_apart[of builtin] by blast

section \<open>Write-back addresses and names\<close>

lemma d_audio_unit_rate:
  assumes "d_audio_unit rs cur ni no n = Inr b"
  shows "u32_at b 136 = cur" "u16_at b 140 = 144" "u16_at b 142 = int (length rs) mod 0x10000"
proof -
  from assms obtain c r q where c: "cstr n 64 = Inr c" "be32 cur = Inr r"
    and b: "b = (be16 (int AUDIO_UNIT) @ be16 0 @ c @ be16 NO_STRING @ be16 0 @ be16 ni @ be16 0 @ be16 no @ be16 0
      @ concat (replicate 28 (be16 0))) @ r @ be16 144 @ be16 (int (length rs)) @ q"
    by (auto simp: d_audio_unit_def)
  note s = length_cstr[OF c(1)] length_be32[OF c(2)] be32_value[OF c(2)]
  show "u32_at b 136 = cur" "u16_at b 140 = 144" "u16_at b 142 = int (length rs) mod 0x10000"
    unfolding b by (simp_all add: read_defs slice_simps slice_all s be16_value)
qed

lemma d_clock_domain_index:
  assumes "d_clock_domain k n = Inr b"
  shows "u16_at b 70 = 0" "u16_at b 72 = 76" "u16_at b 74 = int k mod 0x10000"
proof -
  from assms obtain c q where c: "cstr n 64 = Inr c"
    and b: "b = be16 (int CLOCK_DOMAIN) @ be16 0 @ c @ be16 NO_STRING @ be16 0 @ be16 76 @ be16 (int k) @ q"
    by (auto simp: d_clock_domain_def Let_def)
  show "u16_at b 70 = 0" "u16_at b 72 = 76" "u16_at b 74 = int k mod 0x10000"
    unfolding b by (simp_all add: u16_at_def slice_simps slice_all length_cstr[OF c] be16_value)
qed

lemma d_control_identify_value:
  assumes "d_control_identify n = Inr b"
  shows "slice 104 109 b = [0, 255, 255, 0, 0]"
proof -
  from assms obtain p where "length p = 104" "b = p @ [0, 255, 255, 0, 0] @ be16 0 @ be16 NO_STRING"
    by (auto simp: d_control_identify_def)
  then show ?thesis by (simp add: slice_def)
qed

lemma wb_entry_mem: "Inr ys = wb_entry k off r \<Longrightarrow> x \<in> set ys \<Longrightarrow> \<exists>b. r = Inr b \<and> x = (k, b + off)"
  by (cases r) (auto simp: wb_entry_def)

lemma base_of_key:
  assumes "rom_image ds = Inr (rom, dir)" "base_of dir t i = Inr b"
  shows "(t, i) \<in> set (keys_of ds)"
proof -
  from base_of_Inr[OF assms(2)] obtain l where "(t, i, b, l) \<in> set dir" by blast
  then have "(t, i) \<in> set (map (\<lambda>r. (fst r, fst (snd r))) dir)" by force
  then show ?thesis using assms(1) by (metis rom_image_Inr_iff dir_rows_keys keys_of_def)
qed

text \<open>
  Where IEEE 1722.1 puts the field of a SET command: the descriptor type and index and the offset of the
  field in that descriptor (current_sampling_rate 136, current_format 74, clock_source_index 70, the current
  value of the IDENTIFY control after minimum, maximum, step and default 104 + 4, a map as a whole).
\<close>

fun wb_home :: "wb_key \<Rightarrow> nat \<times> nat \<times> nat" where
  "wb_home WB_SAMPLING_RATE = (AUDIO_UNIT, 0, 136)"
| "wb_home WB_STREAM_FORMAT = (STREAM_OUTPUT, 0, 74)"
| "wb_home (WB_STREAM_IN_FMT k) = (STREAM_INPUT, k, 74)"
| "wb_home WB_CLOCK_SRC_IDX = (CLOCK_DOMAIN, 0, 70)"
| "wb_home WB_CONTROL_CUR = (CONTROL, 0, 108)"
| "wb_home (WB_AUDIO_MAP k) = (AUDIO_MAP, k, 0)"

text \<open>
  What the descriptor holds at that offset, the reset value of the field, with the octets that follow it in
  the layout of the standard (the offset and number of the sampling rates, the offset of the format table, of the
  clock source list) or, for the control, all five octets of its value.
\<close>

fun wb_field :: "aem_spec \<Rightarrow> byte list \<Rightarrow> wb_key \<Rightarrow> bool" where
  "wb_field spec img WB_SAMPLING_RATE = (u32_at img 136 = sp_current_rate spec \<and> u16_at img 140 = 144
     \<and> u16_at img 142 = int (length (sp_rates spec)) mod 0x10000)"
| "wb_field spec img WB_STREAM_FORMAT =
     (u64_at img 74 = ss_formats (sp_stream_outputs spec ! 0) ! 0 mod 0x10000000000000000 \<and> u16_at img 82 = 138)"
| "wb_field spec img (WB_STREAM_IN_FMT k) =
     (u64_at img 74 = ss_formats (sp_stream_inputs spec ! k) ! 0 mod 0x10000000000000000 \<and> u16_at img 82 = 138)"
| "wb_field spec img WB_CLOCK_SRC_IDX = (u16_at img 70 = 0 \<and> u16_at img 72 = 76
     \<and> u16_at img 74 = int (length (sp_clock_sources spec)) mod 0x10000)"
| "wb_field spec img WB_CONTROL_CUR = (slice 104 109 img = [0, 255, 255, 0, 0])"
| "wb_field spec img (WB_AUDIO_MAP k) = (d_audio_map (int k) (sp_audio_maps spec ! k) = Inr img)"

definition wb_keys :: "aem_spec \<Rightarrow> wb_key list" where
  "wb_keys spec = [WB_SAMPLING_RATE, WB_STREAM_FORMAT] @ map WB_STREAM_IN_FMT [0..<length (sp_stream_inputs spec)]
     @ [WB_CLOCK_SRC_IDX, WB_CONTROL_CUR] @ map WB_AUDIO_MAP [0..<length (sp_audio_maps spec)]"

lemma wb_source:
  assumes "writeback_targets spec bo = Inr wb" "(key, a) \<in> set wb"
  shows "case wb_home key of (t, k, off) \<Rightarrow> key \<in> set (wb_keys spec) \<and> (\<exists>b. bo t k = Inr b \<and> a = b + off)"
proof -
  from concatE_mem[OF assms(1)[unfolded writeback_targets_def] assms(2)] show ?thesis
    by (auto simp: wb_keys_def dest!: wb_entry_mem)
qed

lemma concatE_entries:
  "concatE rs = Inr out \<Longrightarrow> list_all2 (\<lambda>r k. \<forall>ys. r = Inr ys \<longrightarrow> map fst ys = [k]) rs ks \<Longrightarrow> map fst out = ks"
  by (induction rs arbitrary: out ks) (auto simp: list_all2_Cons1)

lemma wb_listed: "writeback_targets spec bo = Inr wb \<Longrightarrow> map fst wb = wb_keys spec"
  unfolding writeback_targets_def wb_keys_def
  by (erule concatE_entries) (auto simp: wb_entry_def list_all2_map1 list_all2_map2 list_all2_same intro!: list_all2_appendI)

lemma descriptor_at:
  assumes "model_descriptors spec = Inr ds" "rom_image ds = Inr (rom, dir)" "(t, k, img) \<in> set ds" "base_of dir t k = Inr b"
  shows "slice b (b + length img) rom = img" "b + length img \<le> length rom"
  using served[OF assms(1-3)] assms(4) by force+

lemma stream_field:
  assumes "d_stream t k name fl fmts buf = Inr img"
  shows "u64_at img 74 = fmts ! 0 mod 0x10000000000000000 \<and> u16_at img 82 = 138 \<and> 74 < length img"
  using d_stream_header(3,4)[OF assms] d_stream_length[OF assms] by simp

lemma wb_descriptor:
  assumes ds: "model_descriptors spec = Inr ds" and key: "key \<in> set (wb_keys spec)" and home: "wb_home key = (t, k, off)"
    and so: "sp_stream_outputs spec \<noteq> [] \<or> key \<noteq> WB_STREAM_FORMAT"
  shows "\<exists>img. (t, k, img) \<in> set ds \<and> off < length img \<and> wb_field spec img key"
proof (cases key)
  case WB_SAMPLING_RATE
  from entity_rows(3)[OF ds] obtain i n where "(AUDIO_UNIT, 0, i) \<in> set ds" "d_audio_unit (sp_rates spec) (sp_current_rate spec)
      (int (length (sp_ports_in spec))) (int (length (sp_ports_out spec))) n = Inr i" by blast
  with d_audio_unit_rate[OF this(2)] d_audio_unit_length[OF this(2)] WB_SAMPLING_RATE home show ?thesis by auto
next
  case WB_STREAM_FORMAT
  then have "0 < length (sp_stream_outputs spec)" using so by simp
  from stream_rows(2)[OF ds this] obtain i where "(STREAM_OUTPUT, 0, i) \<in> set ds"
    "d_stream STREAM_OUTPUT 0 (ss_name (sp_stream_outputs spec ! 0)) (stream_flags_out (sp_stream_outputs spec ! 0))
         (ss_formats (sp_stream_outputs spec ! 0)) 0 = Inr i" by blast
  with stream_field[OF this(2)] WB_STREAM_FORMAT home show ?thesis by auto
next
  case (WB_STREAM_IN_FMT n)
  then have "n < length (sp_stream_inputs spec)" using key by (auto simp: wb_keys_def)
  from stream_rows(1)[OF ds this] obtain i buf where "(STREAM_INPUT, n, i) \<in> set ds"
    "d_stream STREAM_INPUT n (ss_name (sp_stream_inputs spec ! n)) 3 (ss_formats (sp_stream_inputs spec ! n)) buf = Inr i"
    by blast
  with stream_field[OF this(2)] WB_STREAM_IN_FMT home show ?thesis by auto
next
  case WB_CLOCK_SRC_IDX
  from entity_rows(4)[OF ds] obtain i n where "(CLOCK_DOMAIN, 0, i) \<in> set ds"
    "d_clock_domain (length (sp_clock_sources spec)) n = Inr i" by blast
  with d_clock_domain_index[OF this(2)] d_clock_domain_length[OF this(2)] WB_CLOCK_SRC_IDX home show ?thesis by auto
next
  case WB_CONTROL_CUR
  from entity_rows(5)[OF ds] obtain i n where "(CONTROL, 0, i) \<in> set ds" "d_control_identify n = Inr i" by blast
  with d_control_identify_value[OF this(2)] d_control_identify_length[OF this(2)] WB_CONTROL_CUR home show ?thesis by auto
next
  case (WB_AUDIO_MAP n)
  then have "n < length (sp_audio_maps spec)" using key by (auto simp: wb_keys_def)
  from map_row_of[OF ds this] obtain i where "(AUDIO_MAP, n, i) \<in> set ds" "d_audio_map (int n) (sp_audio_maps spec ! n) = Inr i"
    by blast
  with d_audio_map_length[OF this(2)] WB_AUDIO_MAP home show ?thesis by auto
qed

text \<open>
  Property C12. The write-back table of a built model lists every SET_* target once, in order, and each
  address is the base of the descriptor the command acts on plus the standard's offset of the field it
  sets; the ROM holds that descriptor there, with the current rate, the current format of that very stream,
  clock source index 0, the IDENTIFY value 0, or the whole map, and the fields that follow it.
\<close>

theorem writeback_hits_field:
  assumes "build_model spec = Inr m"
  shows "map fst (m_WB m) = wb_keys spec \<and> (\<exists>ds. model_descriptors spec = Inr ds \<and>
    (\<forall>(key, a) \<in> set (m_WB m). case wb_home key of (t, k, off) \<Rightarrow>
       \<exists>img b. (t, k, img) \<in> set ds \<and> base_of (m_directory m) t k = Inr b \<and> slice b (b + length img) (m_rom m) = img
         \<and> a = b + off \<and> off < length img \<and> wb_field spec img key))"
proof -
  from assms(1) obtain ds where ds: "model_descriptors spec = Inr ds" and rom: "rom_image ds = Inr (m_rom m, m_directory m)"
    and wb: "writeback_targets spec (base_of (m_directory m)) = Inr (m_WB m)" by (rule build_model_parts)
  have "\<exists>img b. (t, k, img) \<in> set ds \<and> base_of (m_directory m) t k = Inr b \<and> slice b (b + length img) (m_rom m) = img
      \<and> a = b + off \<and> off < length img \<and> wb_field spec img key"
    if mem: "(key, a) \<in> set (m_WB m)" and home: "wb_home key = (t, k, off)" for key a t k off
  proof -
    from wb_source[OF wb mem] home obtain b where b: "key \<in> set (wb_keys spec)" "base_of (m_directory m) t k = Inr b" "a = b + off"
      by auto
    have "sp_stream_outputs spec \<noteq> [] \<or> key \<noteq> WB_STREAM_FORMAT"
      using base_of_key[OF rom b(2)] home unfolding model_descriptors_keys[OF ds] runs_keys_mem by (auto simp: model_runs_def)
    from wb_descriptor[OF ds b(1) home this] descriptor_at(1)[OF ds rom _ b(2)] b show ?thesis by blast
  qed
  with wb_listed[OF wb] ds show ?thesis by fastforce
qed

theorem writeback_hits_field_witness:
  "\<exists>m a b. build_model builtin = Inr m \<and> (WB_STREAM_IN_FMT 1, a) \<in> set (m_WB m)
     \<and> base_of (m_directory m) STREAM_INPUT 1 = Inr b \<and> a = b + 74"
proof -
  from builtin_builds obtain m where m: "build_model builtin = Inr m" by blast
  from writeback_hits_field[OF m] have k: "map fst (m_WB m) = wb_keys builtin"
    and f: "\<exists>ds. \<forall>(key, a) \<in> set (m_WB m). case wb_home key of (t, k, off) \<Rightarrow>
       \<exists>img b. (t, k, img) \<in> set ds \<and> base_of (m_directory m) t k = Inr b \<and> slice b (b + length img) (m_rom m) = img
         \<and> a = b + off \<and> off < length img \<and> wb_field builtin img key" by blast+
  have "WB_STREAM_IN_FMT 1 \<in> set (map fst (m_WB m))" unfolding k by (simp add: wb_keys_def builtin_streams)
  then obtain a where a: "(WB_STREAM_IN_FMT 1, a) \<in> set (m_WB m)" by auto
  with f have "\<exists>b. base_of (m_directory m) STREAM_INPUT 1 = Inr b \<and> a = b + 74" by fastforce
  with m a show ?thesis by blast
qed

definition each :: "(desc \<Rightarrow> bool) \<Rightarrow> desc list aem \<Rightarrow> bool" where
  "each P r = (\<forall>ds. r = Inr ds \<longrightarrow> list_all P ds)"

lemma each_desc: "(\<And>b. r = Inr b \<Longrightarrow> P (t, i, b)) \<Longrightarrow> each P (desc t i r)"
  by (auto simp: each_def desc_def)

lemma each_rbind: "(\<And>x. each P (f x)) \<Longrightarrow> each P (rbind m f)"
  by (auto simp: each_def)

lemma each_Nil: "each P (concatE [])"
  by (simp add: each_def)

lemma each_Cons: "each P r \<Longrightarrow> each P (concatE rs) \<Longrightarrow> each P (concatE (r # rs))"
  by (auto simp: each_def)

lemma each_append: "each P (concatE rs) \<Longrightarrow> each P (concatE ss) \<Longrightarrow> each P (concatE (rs @ ss))"
  by (auto simp: each_def concatE_append)

lemma each_map: "(\<And>x. each P (f x)) \<Longrightarrow> each P (concatE (map f xs))"
  by (induction xs) (auto simp: each_def)

lemma each_map_pair: "(\<And>k x. each P (h k x)) \<Longrightarrow> each P (concatE (map (\<lambda>(k, x). h k x) xs))"
  by (rule each_map) auto

lemma each_check: "each P (if b then Inl e else Inr [])"
  by (simp add: each_def)

lemmas each_intros = each_append each_map_pair each_map each_Cons each_Nil each_check each_rbind each_desc

text \<open>A descriptor with an object name has room for its 64 octets at offset 4.\<close>

definition name_fits :: "desc \<Rightarrow> bool" where
  "name_fits d = (fst d \<in> set named_types \<longrightarrow> 68 \<le> length (snd (snd d)))"

lemma names_fit: "model_descriptors spec = Inr ds \<Longrightarrow> list_all name_fits ds"
proof -
  assume ds: "model_descriptors spec = Inr ds"
  have "each name_fits (entity_descriptors spec)"
    unfolding entity_descriptors_def Let_def
    by (rule each_intros | drule descriptor_lengths | simp add: name_fits_def named_types_def)+
  moreover have "each name_fits (port_descriptors spec)"
    unfolding port_descriptors_def Let_def
    by (rule each_intros | drule descriptor_lengths | simp add: name_fits_def named_types_def)+
  ultimately show ?thesis using ds by (auto simp: model_descriptors_def each_def)
qed

text \<open>
  Every address of the SET/GET_NAME table is the start of a 64-octet field that lies
  inside the descriptor it is listed for, past its type and index.
\<close>

lemma names_inside_descriptor:
  assumes "build_model spec = Inr m" and "(t, i, n, a) \<in> set (m_NAMED m)"
  shows "\<exists>b l. (t, i, b, l) \<in> set (m_directory m) \<and> b + 4 \<le> a \<and> a + 64 \<le> b + l \<and> b + l \<le> length (m_rom m)"
proof -
  from assms(1) obtain ds E where ds: "model_descriptors spec = Inr ds" and rom: "rom_image ds = Inr (m_rom m, m_directory m)"
    and E: "base_of (m_directory m) ENTITY 0 = Inr E" and nm: "m_NAMED m = named_addresses (m_directory m) E"
    by (rule build_model_parts)
  have dir: "m_directory m = dir_rows 0 ds" "m_rom m = desc_octets ds" using rom by (auto simp: rom_image_Inr_iff)
  from entity_rows(1)[OF ds] obtain e where e: "(ENTITY, 0, e) \<in> set ds" "d_entity (sp_entity spec) = Inr e" by blast
  from served[OF ds rom e(1)] E d_entity_length[OF e(2)] have ent: "(ENTITY, 0, E, 312) \<in> set (m_directory m)" "E + 312 \<le> length (m_rom m)"
    by force+
  consider "t = ENTITY" "i = 0" "a = E + 48 \<or> a = E + 180" | b l where "(t, i, b, l) \<in> set (m_directory m)" "t \<in> set named_types" "a = b + 4"
    using assms(2) unfolding nm named_addresses_def by auto
  then show ?thesis
  proof cases
    case 1
    with ent show ?thesis by (intro exI[of _ E] exI[of _ 312]) auto
  next
    case 2
    then obtain k where k: "k < length ds" "dir_rows 0 ds ! k = (t, i, b, l)"
      unfolding dir by (metis in_set_conv_nth length_dir_rows)
    note s = row_slice[OF k]
    have "name_fits (ds ! k)" using names_fit[OF ds] k(1) by (simp add: list_all_length)
    then have "68 \<le> l" using s 2(2) by (simp add: name_fits_def)
    with 2 s(2) show ?thesis by (intro exI[of _ b] exI[of _ l]) (simp add: dir)
  qed
qed

section \<open>The builtin model's directory\<close>

definition builtin_directory :: "dir_row list" where
  "builtin_directory = m_directory (projr (build_model builtin))"

definition builtin_level1 :: level1 where
  "builtin_level1 = m_L1 (projr (build_model builtin))"

interpretation builtin: dense_directory builtin_directory builtin_level1
proof unfold_locales
  from builtin_builds obtain m where m: "build_model builtin = Inr m" by blast
  then have "two_level_directory (m_directory m) = Inr (m_L1 m)" by (rule build_model_parts)
  then show "two_level_directory builtin_directory = Inr builtin_level1"
    by (simp add: builtin_directory_def builtin_level1_def m)
qed

end
