(* ===== verification/Aem_Dynmap.thy ===== *)
theory Aem_Dynmap
  imports Aem_Model
begin

text \<open>
  The dynamic-map tables (\<^verbatim>\<open>_dynmap_tables\<close> and \<^verbatim>\<open>_odmap_tables\<close> of \<^verbatim>\<open>src/avdecc/aem_assemble.py\<close>):
  the bounds of the gateware constants they have to respect, the paging of the listener side, and
  the identity image and slot layout of the talker side.
\<close>

section \<open>Listener side\<close>

lemma ceil_div_bounds:
  fixes c p :: int
  assumes "0 < p"
  shows "c \<le> - ((- c) div p) * p" "(- ((- c) div p) - 1) * p < c"
proof -
  have "(- c) div p * p \<le> - c" "- c < (- c) div p * p + p"
    using assms by (simp_all add: minus_mod_eq_div_mult[symmetric] pos_mod_bound pos_mod_sign)
  then show "c \<le> - ((- c) div p) * p" "(- ((- c) div p) - 1) * p < c"
    by (simp_all add: left_diff_distrib)
qed

lemma and_1023: "(x AND 0x3FF :: int) = x mod 1024"
proof -
  have "(x AND 0x3FF :: int) = take_bit 10 x" by (simp add: take_bit_eq_mask mask_eq_exp_minus_1)
  then show ?thesis by (simp add: take_bit_eq_mod)
qed

definition explicit_pages :: "aem_spec \<Rightarrow> int list" where
  "explicit_pages spec =
     remdups (filter (\<lambda>v. v \<noteq> 0) (List.map_filter p_map_page (filter is_dynamic (sp_ports_in spec))))"

lemma dynmap_tables_Some:
  assumes "dynmap_tables spec = Inr (Some d)"
  obtains sch where "filter is_dynamic (sp_ports_in spec) \<noteq> []" "length (explicit_pages spec) \<le> 1"
    "dm_PAGE d = (case explicit_pages spec of v # _ \<Rightarrow> v
       | [] \<Rightarrow> min (Max (set (map p_clusters (filter is_dynamic (sp_ports_in spec))))) 8)"
    "1 \<le> dm_PAGE d" "dm_PAGE d \<le> 9"
    "dm_KEYS d = Max (set (map (\<lambda>p. p_base_cluster p + p_clusters p) (filter is_dynamic (sp_ports_in spec))))"
    "dm_KEYS d \<le> 64"
    "mapE (\<lambda>s. if kind_of s = ''aaf'' then rbind (py_nth (ss_formats s) 0) (\<lambda>f. Inr (drop_bit 22 f AND 0x3FF))
              else Inr 0) (sp_stream_inputs spec) = (Inr sch :: int list aem)"
    "d = \<lparr>dm_KEYS = dm_KEYS d, dm_PAGE = dm_PAGE d, dm_NPORTS = length (sp_ports_in spec),
          dm_PDYN = map is_dynamic (sp_ports_in spec),
          dm_PBASE = map p_base_cluster (sp_ports_in spec), dm_PCLS = map p_clusters (sp_ports_in spec),
          dm_PNMAPS = map (\<lambda>p. if is_dynamic p then - ((- p_clusters p) div dm_PAGE d) else p_maps p) (sp_ports_in spec),
          dm_NSTRIN = length (sp_stream_inputs spec), dm_SAAF = map (\<lambda>s. kind_of s = ''aaf'') (sp_stream_inputs spec),
          dm_SCH = sch, dm_PHYS = CHMAP_PHYS_DEPTH\<rparr>"
proof -
  let ?dyn = "filter is_dynamic (sp_ports_in spec)"
  let ?page = "case explicit_pages spec of v # _ \<Rightarrow> v | [] \<Rightarrow> min (Max (set (map p_clusters ?dyn))) 8"
  let ?keys = "Max (set (map (\<lambda>p. p_base_cluster p + p_clusters p) ?dyn))"
  have 1: "?dyn \<noteq> []" using assms by (auto simp: dynmap_tables_def Let_def)
  have 2: "\<not> length (explicit_pages spec) > 1"
    using assms 1 unfolding dynmap_tables_def Let_def explicit_pages_def[symmetric] by (simp split: if_splits)
  have 3: "1 \<le> ?page \<and> ?page \<le> 9"
    using assms 1 2 unfolding dynmap_tables_def Let_def explicit_pages_def[symmetric]
    by (simp only: if_False simp_thms split: if_splits) simp_all
  have 4: "\<not> ?keys > 64"
    using assms 1 2 3 unfolding dynmap_tables_def Let_def explicit_pages_def[symmetric]
    by (simp only: if_False simp_thms split: if_splits) simp_all
  show thesis
    using assms 1 2 3 4 that unfolding dynmap_tables_def Let_def explicit_pages_def[symmetric]
    by (simp only: if_False simp_thms not_True_eq_False rbind_Inr_iff sum.inject option.inject) force
qed

text \<open>
  The listener-side engine constants respect the fabric: a page of mappings fits the
  80-octet response scratch, every key of a dynamic port is inside the 64-key render map, the
  partitions of a dynamic port are exactly enough to cover its clusters, a page size a port states
  is the one in force, and every stream's channel count is a 10-bit field.
\<close>

lemma dynmap_bounds:
  assumes "dynmap_tables spec = Inr (Some d)"
  shows "1 \<le> dm_PAGE d \<and> 8 * dm_PAGE d + 5 < 80 \<and> dm_KEYS d \<le> 64 \<and> dm_NPORTS d = length (sp_ports_in spec)
    \<and> (\<forall>c \<in> set (dm_SCH d). 0 \<le> c \<and> c < 1024)
    \<and> (\<forall>k < dm_NPORTS d. let p = sp_ports_in spec ! k in
         dm_PDYN d ! k = is_dynamic p
         \<and> (if is_dynamic p
            then p_base_cluster p + p_clusters p \<le> dm_KEYS d
              \<and> p_clusters p \<le> dm_PNMAPS d ! k * dm_PAGE d \<and> (dm_PNMAPS d ! k - 1) * dm_PAGE d < p_clusters p
              \<and> (\<forall>v. p_map_page p = Some v \<and> v \<noteq> 0 \<longrightarrow> v = dm_PAGE d)
            else dm_PNMAPS d ! k = p_maps p))"
  using assms
proof (rule dynmap_tables_Some)
  fix sch
  let ?dyn = "filter is_dynamic (sp_ports_in spec)"
  assume ex: "length (explicit_pages spec) \<le> 1"
    and pg: "dm_PAGE d = (case explicit_pages spec of v # _ \<Rightarrow> v | [] \<Rightarrow> min (Max (set (map p_clusters ?dyn))) 8)"
    and p: "1 \<le> dm_PAGE d" "dm_PAGE d \<le> 9"
    and ke: "dm_KEYS d = Max (set (map (\<lambda>p. p_base_cluster p + p_clusters p) ?dyn))" and k64: "dm_KEYS d \<le> 64"
    and sch: "mapE (\<lambda>s. if kind_of s = ''aaf'' then rbind (py_nth (ss_formats s) 0) (\<lambda>f. Inr (drop_bit 22 f AND 0x3FF))
              else Inr 0) (sp_stream_inputs spec) = (Inr sch :: int list aem)"
    and d: "d = \<lparr>dm_KEYS = dm_KEYS d, dm_PAGE = dm_PAGE d, dm_NPORTS = length (sp_ports_in spec),
          dm_PDYN = map is_dynamic (sp_ports_in spec),
          dm_PBASE = map p_base_cluster (sp_ports_in spec), dm_PCLS = map p_clusters (sp_ports_in spec),
          dm_PNMAPS = map (\<lambda>p. if is_dynamic p then - ((- p_clusters p) div dm_PAGE d) else p_maps p) (sp_ports_in spec),
          dm_NSTRIN = length (sp_stream_inputs spec), dm_SAAF = map (\<lambda>s. kind_of s = ''aaf'') (sp_stream_inputs spec),
          dm_SCH = sch, dm_PHYS = CHMAP_PHYS_DEPTH\<rparr>"
  have f: "dm_NPORTS d = length (sp_ports_in spec)" "dm_PDYN d = map is_dynamic (sp_ports_in spec)" "dm_SCH d = sch"
    "dm_PNMAPS d = map (\<lambda>p. if is_dynamic p then - ((- p_clusters p) div dm_PAGE d) else p_maps p) (sp_ports_in spec)"
    by (subst d, simp)+
  have chan: "0 \<le> c \<and> c < 1024" if "c \<in> set sch" for c
  proof -
    from that obtain j where "j < length sch" "c = sch ! j" by (metis in_set_conv_nth)
    with mapE_nth[OF sch, of j] mapE_length[OF sch] show ?thesis by (auto simp: and_1023 split: if_splits)
  qed
  have keys: "p_base_cluster q + p_clusters q \<le> dm_KEYS d" if "q \<in> set ?dyn" for q
    unfolding ke using that by (intro Max_ge) auto
  have page: "v = dm_PAGE d" if "q \<in> set ?dyn" "p_map_page q = Some v" "v \<noteq> 0" for q v
  proof -
    have "v \<in> set (explicit_pages spec)"
      using that by (auto simp: explicit_pages_def List.map_filter_def intro!: image_eqI[of _ _ q])
    with ex pg show ?thesis by (cases "explicit_pages spec") (auto split: list.splits)
  qed
  have "let q = sp_ports_in spec ! k in dm_PDYN d ! k = is_dynamic q
      \<and> (if is_dynamic q
         then p_base_cluster q + p_clusters q \<le> dm_KEYS d
           \<and> p_clusters q \<le> dm_PNMAPS d ! k * dm_PAGE d \<and> (dm_PNMAPS d ! k - 1) * dm_PAGE d < p_clusters q
           \<and> (\<forall>v. p_map_page q = Some v \<and> v \<noteq> 0 \<longrightarrow> v = dm_PAGE d)
         else dm_PNMAPS d ! k = p_maps q)" if "k < dm_NPORTS d" for k
    using that keys[of "sp_ports_in spec ! k"] page[of "sp_ports_in spec ! k"]
      ceil_div_bounds[of "dm_PAGE d" "p_clusters (sp_ports_in spec ! k)"] p(1)
    by (simp add: f Let_def)
  with p k64 f(1) chan f(3) show ?thesis by (simp add: Let_def)
qed

section \<open>Talker side\<close>

text \<open>The slot base of a stream is the number of pairs of the streams before it.\<close>

lemma slot_bases_nth: "k < length cs \<Longrightarrow> slot_bases acc cs ! k = acc + (\<Sum>c \<leftarrow> take k cs. (c + 1) div 2)"
proof (induction cs arbitrary: acc k)
  case Nil
  then show ?case by simp
next
  case (Cons c cs)
  then show ?case by (cases k) simp_all
qed

lemma slot_bases_step:
  "Suc k < length cs \<Longrightarrow> slot_bases 0 cs ! Suc k = slot_bases 0 cs ! k + (cs ! k + 1) div 2"
  by (simp add: slot_bases_nth take_Suc_conv_app_nth)

lemma slot_ranges_apart:
  assumes "k < k'" "k' < length cs" "\<forall>c \<in> set cs. 0 \<le> c"
  shows "slot_bases 0 cs ! k + (cs ! k + 1) div 2 \<le> slot_bases 0 cs ! k'"
  using assms(1,2)
proof (induction k' rule: less_induct)
  case (less j)
  show ?case
  proof (cases "j = Suc k")
    case True
    then show ?thesis using slot_bases_step[of k cs] less.prems by simp
  next
    case False
    then obtain i where i: "j = Suc i" "k < i" using less.prems by (cases j) auto
    with less have "slot_bases 0 cs ! k + (cs ! k + 1) div 2 \<le> slot_bases 0 cs ! i" by simp
    moreover have "0 \<le> cs ! i" using assms(3) less.prems(2) i(1) by simp
    then have "0 \<le> (cs ! i + 1) div 2" by simp
    ultimately show ?thesis using slot_bases_step[of i cs] i less.prems by simp
  qed
qed

lemma port_sources_length: "port_sources j p = Inr srcs \<Longrightarrow> int (length srcs) = p_clusters p"
  by (auto simp: port_sources_def split: if_splits)

lemma identity_key_valid:
  assumes "identity_key so_ch stream p srcs c = Inr (True, co)" "0 \<le> get_or (p_identity_offset p) 0"
    "int (length srcs) = p_clusters p"
  shows "0 \<le> co \<and> co < p_clusters p \<and> (\<exists>ch. py_nth so_ch stream = (Inr ch :: int aem) \<and> int c < ch)
    \<and> get_or (cl_valid (srcs ! nat co)) True
    \<and> (cl_src (srcs ! nat co) = 4 \<or> cl_half (srcs ! nat co) = int (c mod 2))"
  using assms by (auto simp: identity_key_def Let_def py_nth_def split: if_splits)

text \<open>What the scan over the output ports leaves behind for each port.\<close>

definition od_port :: "int list \<Rightarrow> nat list \<Rightarrow> cluster_source list \<Rightarrow> (bool \<times> int) list \<Rightarrow> nat \<Rightarrow> port_spec \<Rightarrow> bool" where
  "od_port so_ch pcbase csrc init j p =
     (\<exists>srcs ids. port_sources j p = Inr srcs \<and> mapE (identity_key so_ch (port_stream j p) p srcs) [0..<8] = Inr ids
       \<and> slice (pcbase ! j) (pcbase ! j + length srcs) csrc = srcs \<and> slice (8 * j) (8 * j + 8) init = ids)"

lemma odmap_scan:
  assumes "foldE (odmap_step so_ch) (enum ps) ([], [], []) = Inr (pcbase, csrc, init)"
  shows "length pcbase = length ps \<and> length init = 8 * length ps
    \<and> (\<forall>j < length ps. od_port so_ch pcbase csrc init j (ps ! j))"
  using assms
proof (induction ps arbitrary: pcbase csrc init rule: rev_induct)
  case Nil
  then show ?case by (simp add: enum_def)
next
  case (snoc p ps)
  then obtain pb cs it where
    ih: "foldE (odmap_step so_ch) (enum ps) ([], [], []) = Inr (pb, cs, it)"
    and step: "odmap_step so_ch (length ps, p) (pb, cs, it) = Inr (pcbase, csrc, init)"
    by (auto simp: enum_append1 foldE_append split_paired_Ex)
  from step obtain srcs ids where srcs: "port_sources (length ps) p = Inr srcs"
    and ids: "mapE (identity_key so_ch (port_stream (length ps) p) p srcs) [0..<8] = Inr ids"
    and st: "pcbase = pb @ [length cs]" "csrc = cs @ srcs" "init = it @ ids"
    by (auto simp: odmap_step_def)
  note IH = snoc.IH[OF ih]
  have len: "length ids = 8" using mapE_length[OF ids] by simp
  have slice_left: "slice a (a + n) (xs @ ys) = zs" if "slice a (a + n) xs = zs" "length zs = n" for a n and xs ys zs :: "'z list"
  proof (cases "n = 0")
    case False
    then have "a + n \<le> length xs" using that by (auto simp: min_def split: if_splits)
    then show ?thesis using that by (simp add: slice_head)
  qed (use that in \<open>simp add: slice_def\<close>)
  have "od_port so_ch pcbase csrc init j ((ps @ [p]) ! j)" if "j < length (ps @ [p])" for j
  proof (cases "j = length ps")
    case True
    have "slice (length cs) (length cs + length srcs) (cs @ srcs) = srcs"
      "slice (8 * length ps) (8 * length ps + 8) (it @ ids) = ids"
      using IH len by (simp_all add: slice_skip slice_all)
    with True srcs ids IH st show ?thesis by (simp add: od_port_def nth_append)
  next
    case False
    with that have j: "j < length ps" by simp
    with IH obtain s i where s: "port_sources j (ps ! j) = Inr s"
      "mapE (identity_key so_ch (port_stream j (ps ! j)) (ps ! j) s) [0..<8] = Inr i"
      "slice (pb ! j) (pb ! j + length s) cs = s" "slice (8 * j) (8 * j + 8) it = i"
      unfolding od_port_def by blast
    have "slice (pb ! j) (pb ! j + length s) (cs @ srcs) = s" using slice_left[OF s(3)] by simp
    moreover have "slice (8 * j) (8 * j + 8) (it @ ids) = i" using slice_left[OF s(4)] mapE_length[OF s(2)] by simp
    ultimately show ?thesis using s j IH st by (auto simp: od_port_def nth_append)
  qed
  then show ?case using IH st len by simp
qed

lemma odmap_tables_Some:
  assumes "odmap_tables spec e = Inr (Some u)"
  obtains so_ch where "e"
    "mapE (\<lambda>s. rbind (py_nth (ss_formats s) 0) (\<lambda>f. Inr (drop_bit 22 f AND 0x3FF))) (sp_stream_outputs spec) = (Inr so_ch :: int list aem)"
    "foldE (odmap_step so_ch) (enum (sp_ports_out spec)) ([], [], []) = Inr (od_PCBASE u, od_CSRC u, od_INIT u)"
    "mapE (\<lambda>(j, p). py_nth (slot_bases 0 so_ch) (port_stream j p)) (enum (sp_ports_out spec)) = (Inr (od_SLOTB u) :: int list aem)"
    "mapE (\<lambda>(j, p). py_nth so_ch (port_stream j p)) (enum (sp_ports_out spec)) = (Inr (od_SCH u) :: int list aem)"
    "od_KEYS u = 8 * length (sp_ports_out spec)" "od_NPORTS u = length (sp_ports_out spec)"
  using assms unfolding odmap_tables_def Let_def
  by (auto split: if_splits simp: split_paired_Ex)

text \<open>
  Property C19. The talker-side identity image holds eight keys per port, and a key marked valid
  is one the fabric can carry: its stream channel exists in the port's stream, its cluster is one of
  the port's own, and the source template behind that cluster is valid and sits on the channel's
  half of the pair (a pilot tone feeds either half).
\<close>

theorem odmap_identity_valid:
  assumes "odmap_tables spec e = Inr (Some u)" and "j < length (sp_ports_out spec)" and "c < 8"
    and "od_INIT u ! (8 * j + c) = (True, co)" and "0 \<le> get_or (p_identity_offset (sp_ports_out spec ! j)) 0"
  shows "length (od_INIT u) = od_KEYS u \<and> 0 \<le> co \<and> co < p_clusters (sp_ports_out spec ! j) \<and> int c < od_SCH u ! j
    \<and> (let s = od_CSRC u ! (od_PCBASE u ! j + nat co) in
         get_or (cl_valid s) True \<and> (cl_src s = 4 \<or> cl_half s = int (c mod 2)))"
  using assms(1)
proof (rule odmap_tables_Some)
  fix so_ch
  let ?p = "sp_ports_out spec ! j"
  assume scan: "foldE (odmap_step so_ch) (enum (sp_ports_out spec)) ([], [], []) = Inr (od_PCBASE u, od_CSRC u, od_INIT u)"
    and sch: "mapE (\<lambda>(j, p). py_nth so_ch (port_stream j p)) (enum (sp_ports_out spec)) = (Inr (od_SCH u) :: int list aem)"
    and k: "od_KEYS u = 8 * length (sp_ports_out spec)"
  note inv = odmap_scan[OF scan]
  from inv assms(2) obtain srcs ids where s: "port_sources j ?p = Inr srcs"
    "mapE (identity_key so_ch (port_stream j ?p) ?p srcs) [0..<8] = Inr ids"
    "slice (od_PCBASE u ! j) (od_PCBASE u ! j + length srcs) (od_CSRC u) = srcs"
    "slice (8 * j) (8 * j + 8) (od_INIT u) = ids"
    unfolding od_port_def by blast
  have "8 * Suc j \<le> 8 * length (sp_ports_out spec)" using assms(2) by (intro mult_le_mono2) simp
  then have "ids ! c = (True, co)" using s(4) assms(3,4) inv slice_nth[of c "8 * j + 8" "8 * j" "od_INIT u"] by simp
  with mapE_nth[OF s(2), of c] assms(3) have "identity_key so_ch (port_stream j ?p) ?p srcs c = Inr (True, co)" by simp
  note v = identity_key_valid[OF this assms(5) port_sources_length[OF s(1)]]
  have co: "nat co < length srcs" using v port_sources_length[OF s(1)] by linarith
  have src: "srcs ! nat co = od_CSRC u ! (od_PCBASE u ! j + nat co)"
  proof -
    have "od_PCBASE u ! j + nat co < length (od_CSRC u)"
      using arg_cong[OF s(3), of length] co by (simp add: min_def split: if_splits)
    then show ?thesis using slice_nth[of "nat co" "od_PCBASE u ! j + length srcs" "od_PCBASE u ! j" "od_CSRC u"] s(3) co by simp
  qed
  have "py_nth so_ch (port_stream j ?p) = (Inr (od_SCH u ! j) :: int aem)"
    using mapE_nth[OF sch, of j] assms(2) by (simp add: enum_nth)
  with v src inv k show ?thesis by (auto simp: Let_def)
qed

text \<open>A port whose first cluster is the pilot tone and whose identity group is the stereo loopback.\<close>

definition pooled :: aem_spec where
  "pooled = builtin\<lparr>sp_ports_out :=
     [\<lparr>p_clusters = 3, p_base_cluster = 8, p_maps = 0, p_base_map = 0, p_map_mode = Some ''dynamic'',
       p_map_page = None, p_stream_index = None, p_cluster_sources = Some sample_sources, p_identity_offset = Some 1\<rparr>]\<rparr>"

definition pooled_odmap :: odmap where
  "pooled_odmap = \<lparr>od_KEYS = 8, od_NPORTS = 1, od_PDYN = [True], od_PCLS = [3], od_PCBASE = [0], od_PSTR = [0],
     od_SLOTB = [0], od_SCH = [2], od_CSRC = sample_sources,
     od_INIT = [(True, 1), (True, 2)] @ replicate 6 (False, 0)\<rparr>"

lemma pooled_odmap: "odmap_tables pooled True = Inr (Some pooled_odmap)"
  by code_simp

theorem odmap_identity_valid_witness:
  "odmap_tables pooled True = Inr (Some pooled_odmap) \<and> od_INIT pooled_odmap ! (8 * 0 + 1) = (True, 2)
    \<and> int 1 < od_SCH pooled_odmap ! 0
    \<and> (let s = od_CSRC pooled_odmap ! (od_PCBASE pooled_odmap ! 0 + nat 2) in
         get_or (cl_valid s) True \<and> (cl_src s = 4 \<or> cl_half s = int (1 mod 2)))"
proof -
  have "od_INIT pooled_odmap ! (8 * 0 + 1) = (True, 2)" by (simp add: pooled_odmap_def)
  moreover have "0 < length (sp_ports_out pooled)" "0 \<le> get_or (p_identity_offset (sp_ports_out pooled ! 0)) 0"
    by (simp_all add: pooled_def get_or_def)
  ultimately show ?thesis using odmap_identity_valid[OF pooled_odmap, of 0 1 2] pooled_odmap by simp
qed

end
