(* ===== verification/Mailbox_Contract.thy ===== *)
theory Mailbox_Contract
  imports Prelude "HOL-Library.Product_Lexorder" "HOL-Library.List_Lexorder"
begin

unbundle bit_operations_syntax

text \<open>
  The packet-mailbox contract reader (\<^verbatim>\<open>sw/mailbox/mailbox_model.py\<close>): bit fields, registers,
  record words, filter terms, match tuples and channels are read one by one, then the rules no
  single item can check (rings, EtherType claims, register blocks, publication block).

  The YAML document is the argument: a record per mapping node, with \<open>None\<close> for an absent key. A
  key read with \<^verbatim>\<open>int(...)\<close> or \<^verbatim>\<open>str(...)\<close> holds the converted value. \<open>needE\<close> is the code's
  \<^verbatim>\<open>_need\<close>, \<open>keyE\<close> a plain subscript. The \<^verbatim>\<open>where\<close> texts only label messages and are left out.
\<close>

section \<open>Refusals and data\<close>

datatype contract_error =
    MissingKey | FieldLeavesWord | FieldOverlaps
  | BadAccess | BadOffset | OffsetTaken | WordTwice
  | BadTest | TermPastFrame | WideMessageType
  | TypesWithoutSubtype | BadMessageTypes | BadTupleCount | BadDestination | BadEtherType | TupleTwice
  | BadTermCount | BadFrameBytes | BadRate
  | FrameTooLongForRing | BadRingWords | RingOutside | RingsOverlap
  | BadChannelIds | TupleNamesTpid | ClaimedTwice
  | BadBoundTalkers | BoundEntriesSpill | RegistersSpill | RegisterCollides
  | BadPublicationCount | PubRegistersSpill | PubSourceSpill | PubSourcesSpill | PubSinkSpill | PubSinksSpill
  | PubOutside | PubOverlapsRing
  | BadCounts | BadTick | BadRecordWords | BadTests | BadDsts | BadByteOrder | BadMsgTypeByte
  | ConstantTwice

type_synonym 'a mbx = "(contract_error, 'a) result"

definition needE :: "'a option \<Rightarrow> 'a mbx" where
  "needE v = (case v of None \<Rightarrow> Inl (Refused MissingKey) | Some x \<Rightarrow> Inr x)"

definition keyE :: "'a option \<Rightarrow> 'a mbx" where
  "keyE v = (case v of None \<Rightarrow> Inl KeyError | Some x \<Rightarrow> Inr x)"

definition refuse_if :: "bool \<Rightarrow> contract_error \<Rightarrow> unit mbx" where
  "refuse_if P e = ensure (\<not> P) (Refused e)"

definition doc_of :: "pystr option \<Rightarrow> pystr" where
  "doc_of d = (case d of None \<Rightarrow> [] | Some t \<Rightarrow> t)"

definition REGISTER_SPACE_BYTES :: int where "REGISTER_SPACE_BYTES = 0x400"
definition TERM_FIELD_BYTES :: int where "TERM_FIELD_BYTES = 8"

definition ACCESS_KINDS :: "pystr list" where
  "ACCESS_KINDS = [lit ''ro'', lit ''rw'', lit ''wo'', lit ''rw1c'']"

record Field =
  f_name :: pystr
  f_lsb :: int
  f_width :: int
  f_doc :: pystr

record Register =
  r_name :: pystr
  r_offset :: int
  r_access :: pystr
  r_doc :: pystr
  r_fields :: "Field list"

record Word_ =
  w_index :: int
  w_fields :: "Field list"

record Term =
  t_test :: pystr
  t_offset :: int
  t_msg_mask :: int
  t_field :: pystr
  t_doc :: pystr

record Match =
  m_dst :: pystr
  m_mac :: int
  m_ethertype :: int
  m_subtype :: "int option"
  m_msg_mask :: int
  m_doc :: pystr

record Channel =
  ch_name :: pystr
  ch_ident :: int
  ch_rx_base :: int
  ch_rx_words :: int
  ch_tx_base :: int
  ch_tx_words :: int
  ch_max_frame_bytes :: int
  ch_tuples :: "Match list"
  ch_burst :: int
  ch_refill_ms :: int
  ch_cite :: pystr
  ch_terms :: "Term list"

record EventType =
  et_name :: pystr
  et_value :: int
  et_doc :: pystr
  et_words :: "Word_ list"

record Contract =
  major :: int
  minor :: int
  magic :: int
  window_bytes :: int
  interfaces :: int
  timers :: int
  tick_ms :: int
  index_bits :: int
  registers :: "Register list"
  if_base :: int
  if_stride :: int
  if_registers :: "Register list"
  iff_base :: int
  iff_stride :: int
  iff_registers :: "Register list"
  bound_talkers :: int
  bnd_base :: int
  bnd_stride :: int
  bnd_entry_stride :: int
  bnd_registers :: "Register list"
  pub_sources :: int
  pub_sinks :: int
  pub_base :: int
  pub_stride :: int
  pub_source_base :: int
  pub_source_stride :: int
  pub_sink_base :: int
  pub_sink_stride :: int
  pub_registers :: "Register list"
  pub_source_registers :: "Register list"
  pub_sink_registers :: "Register list"
  ch_base :: int
  ch_stride :: int
  ch_registers :: "Register list"
  evt_base :: int
  evt_words :: int
  rx_kind :: int
  rx_header :: "Word_ list"
  rx_doc :: pystr
  tx_kind :: int
  tx_header :: "Word_ list"
  tx_doc :: pystr
  ev_words :: int
  ev_header :: "Word_ list"
  ev_doc :: pystr
  event_types :: "EventType list"
  ethertype_byte :: int
  subtype_byte :: int
  msg_type_byte :: int
  dst_byte :: int
  max_terms :: int
  max_tuples :: int
  tpids :: "int list"
  dsts :: "(pystr \<times> int \<times> pystr) list"
  tests :: "(pystr \<times> int \<times> pystr) list"
  tmr_ops :: "(pystr \<times> int) list"
  channels :: "Channel list"

section \<open>Fields, registers, words\<close>

record raw_field =
  rf_name :: "pystr option"
  rf_lsb :: "int option"
  rf_width :: "int option"
  rf_doc :: "pystr option"

text \<open>\<^verbatim>\<open>((1 << width) - 1) << lsb\<close>.\<close>

definition field_mask :: "int \<Rightarrow> int \<Rightarrow> int" where
  "field_mask lsb width = push_bit (nat lsb) (push_bit (nat width) 1 - 1)"

definition field_step :: "raw_field \<Rightarrow> Field list \<times> int \<Rightarrow> (Field list \<times> int) mbx" where
  "field_step item st = (case st of (out, used) \<Rightarrow>
     rbind (needE (rf_name item)) (\<lambda>name.
     rbind (needE (rf_lsb item)) (\<lambda>lsb.
     rbind (needE (rf_width item)) (\<lambda>width.
     rbind (refuse_if (width < 1 \<or> lsb < 0 \<or> lsb + width > 32) FieldLeavesWord) (\<lambda>_.
     rbind (refuse_if (used AND field_mask lsb width \<noteq> 0) FieldOverlaps) (\<lambda>_.
       Inr (out @ [\<lparr>f_name = name, f_lsb = lsb, f_width = width, f_doc = doc_of (rf_doc item)\<rparr>],
            used OR field_mask lsb width)))))))"

definition fields_of :: "raw_field list \<Rightarrow> Field list mbx" where
  "fields_of raw = rbind (foldE field_step raw ([], 0)) (\<lambda>(out, used). Inr out)"

record raw_register =
  rr_name :: "pystr option"
  rr_offset :: "int option"
  rr_access :: "pystr option"
  rr_doc :: "pystr option"
  rr_fields :: "raw_field list option"

definition register_step :: "int \<Rightarrow> raw_register \<Rightarrow> Register list \<times> int list \<Rightarrow> (Register list \<times> int list) mbx" where
  "register_step limit item st = (case st of (out, seen) \<Rightarrow>
     rbind (needE (rr_name item)) (\<lambda>name.
     rbind (needE (rr_offset item)) (\<lambda>offset.
     rbind (needE (rr_access item)) (\<lambda>access.
     rbind (refuse_if (access \<notin> set ACCESS_KINDS) BadAccess) (\<lambda>_.
     rbind (refuse_if (offset mod 4 \<noteq> 0 \<or> offset < 0 \<or> offset \<ge> limit) BadOffset) (\<lambda>_.
     rbind (refuse_if (offset \<in> set seen) OffsetTaken) (\<lambda>_.
     rbind (rbind (needE (rr_fields item)) fields_of) (\<lambda>fields.
       Inr (out @ [\<lparr>r_name = name, r_offset = offset, r_access = access, r_doc = doc_of (rr_doc item), r_fields = fields\<rparr>],
            seen @ [offset])))))))))"

definition registers_of :: "raw_register list \<Rightarrow> int \<Rightarrow> Register list mbx" where
  "registers_of raw limit = rbind (foldE (register_step limit) raw ([], [])) (\<lambda>(out, seen). Inr out)"

record raw_word =
  rw_index :: "int option"
  rw_fields :: "raw_field list option"

definition word_step :: "raw_word \<Rightarrow> Word_ list \<Rightarrow> Word_ list mbx" where
  "word_step item out =
     rbind (needE (rw_index item)) (\<lambda>index.
     rbind (refuse_if (list_ex (\<lambda>w. w_index w = index) out) WordTwice) (\<lambda>_.
     rbind (rbind (needE (rw_fields item)) fields_of) (\<lambda>fields.
       Inr (out @ [\<lparr>w_index = index, w_fields = fields\<rparr>]))))"

definition words_of :: "raw_word list \<Rightarrow> Word_ list mbx" where
  "words_of raw = rbind (foldE word_step raw []) (\<lambda>out. Inr (sort_key w_index out))"

definition power_of_two :: "int \<Rightarrow> bool" where
  "power_of_two value \<longleftrightarrow> value > 0 \<and> value AND (value - 1) = 0"

section \<open>Filter rules\<close>

record raw_term =
  rt_test :: "pystr option"
  rt_offset :: "int option"
  rt_msg_types :: "int list option"
  rt_field :: "pystr option"
  rt_doc :: "pystr option"

text \<open>\<^verbatim>\<open>1 << n\<close>, which raises on a negative count, and \<^verbatim>\<open>sum(1 << m for m in ms)\<close>.\<close>

definition py_shift1 :: "int \<Rightarrow> int mbx" where
  "py_shift1 n = (if n < 0 then Inl ValueError else Inr (push_bit (nat n) 1))"

definition sum_shifts :: "int list \<Rightarrow> int mbx" where
  "sum_shifts ms = rbind (mapE py_shift1 ms) (\<lambda>bits. Inr (sum_list bits))"

definition term_of :: "pystr list \<Rightarrow> int \<Rightarrow> raw_term \<Rightarrow> Term mbx" where
  "term_of known max_bytes item =
     rbind (needE (rt_test item)) (\<lambda>test.
     rbind (refuse_if (test \<notin> set known \<or> test = lit ''none'') BadTest) (\<lambda>_.
     let offset = (case rt_offset item of None \<Rightarrow> 0 | Some k \<Rightarrow> k) in
     rbind (refuse_if (test \<noteq> lit ''any'' \<and> offset + TERM_FIELD_BYTES > max_bytes) TermPastFrame) (\<lambda>_.
     rbind (case rt_msg_types item of None \<Rightarrow> Inr 0xFFFF | Some ms \<Rightarrow> sum_shifts ms) (\<lambda>mask.
     rbind (refuse_if (mask > 0xFFFF) WideMessageType) (\<lambda>_.
       Inr \<lparr>t_test = test, t_offset = offset, t_msg_mask = mask,
            t_field = doc_of (rt_field item), t_doc = doc_of (rt_doc item)\<rparr>)))))"

definition terms_of :: "pystr list \<Rightarrow> int \<Rightarrow> raw_term list \<Rightarrow> Term list mbx" where
  "terms_of known max_bytes raw = mapE (term_of known max_bytes) raw"

text \<open>
  A match node's \<^verbatim>\<open>msg_types\<close>: a list whose elements are integers or something else (\<open>None\<close>), or
  a node that is no list. Its \<^verbatim>\<open>dst\<close>: a text, an integer, or another scalar.
\<close>

datatype raw_msg_types = MsgList "int option list" | MsgOther

datatype raw_dst = DstText pystr | DstInt int | DstOther

record raw_match =
  rm_dst :: "raw_dst option"
  rm_ethertype :: "int option"
  rm_subtype :: "int option"
  rm_msg_types :: "raw_msg_types option"
  rm_doc :: "pystr option"

fun msg_mask_of :: "raw_msg_types option \<Rightarrow> int option \<Rightarrow> int mbx" where
  "msg_mask_of None subtype = Inr 0xFFFF"
| "msg_mask_of (Some _) None = Inl (Refused TypesWithoutSubtype)"
| "msg_mask_of (Some MsgOther) (Some _) = Inl (Refused BadMessageTypes)"
| "msg_mask_of (Some (MsgList ms)) (Some _) =
     (if ms = [] \<or> \<not> distinct ms \<or> \<not> list_all (\<lambda>m. case m of None \<Rightarrow> False | Some t \<Rightarrow> 0 \<le> t \<and> t \<le> 15) ms
      then Inl (Refused BadMessageTypes)
      else sum_shifts (List.map_filter id ms))"

definition same_tuple :: "Match \<Rightarrow> Match \<Rightarrow> bool" where
  "same_tuple m m' \<longleftrightarrow> m_dst m = m_dst m' \<and> m_mac m = m_mac m' \<and> m_ethertype m = m_ethertype m'
     \<and> m_subtype m = m_subtype m' \<and> m_msg_mask m = m_msg_mask m'"

definition tuple_step :: "raw_match \<Rightarrow> Match list \<Rightarrow> Match list mbx" where
  "tuple_step item out =
     rbind (needE (rm_dst item)) (\<lambda>dst.
     rbind (needE (rm_ethertype item)) (\<lambda>ethertype.
     let subtype = rm_subtype item in
     rbind (msg_mask_of (rm_msg_types item) subtype) (\<lambda>msk.
     rbind (if dst = DstText (lit ''own'') then Inr (lit ''own'', 0)
            else case dst of
              DstInt mac \<Rightarrow> if 0 < mac \<and> mac < push_bit 48 1 then Inr (lit ''mac'', mac) else Inl (Refused BadDestination)
            | _ \<Rightarrow> Inl (Refused BadDestination)) (\<lambda>(kind, mac).
     let match = \<lparr>m_dst = kind, m_mac = mac, m_ethertype = ethertype, m_subtype = subtype, m_msg_mask = msk,
                  m_doc = doc_of (rm_doc item)\<rparr> in
     rbind (refuse_if (\<not> (0 < ethertype \<and> ethertype \<le> 0xFFFF)
         \<or> (case subtype of None \<Rightarrow> False | Some s \<Rightarrow> \<not> (0 \<le> s \<and> s \<le> 0xFF))) BadEtherType) (\<lambda>_.
     rbind (refuse_if (list_ex (\<lambda>m. same_tuple m match) out) TupleTwice) (\<lambda>_.
       Inr (out @ [match])))))))"

definition tuples_of :: "raw_match list \<Rightarrow> int \<Rightarrow> Match list mbx" where
  "tuples_of raw max_tup =
     rbind (refuse_if (\<not> (1 \<le> int (length raw) \<and> int (length raw) \<le> max_tup)) BadTupleCount) (\<lambda>_.
       foldE tuple_step raw [])"

record raw_ring =
  rg_base :: "int option"
  rg_words :: "int option"

record raw_rate =
  rb_burst :: "int option"
  rb_refill_ms :: "int option"

record raw_channel =
  rc_name :: "pystr option"
  rc_rx :: "raw_ring option"
  rc_tx :: "raw_ring option"
  rc_rate :: "raw_rate option"
  rc_max_frame_bytes :: "int option"
  rc_accept :: "raw_term list option"
  rc_id :: "int option"
  rc_match :: "raw_match list option"
  rc_cite :: "pystr option"

definition channel_of :: "raw_channel \<Rightarrow> pystr list \<Rightarrow> int \<Rightarrow> int \<Rightarrow> Channel mbx" where
  "channel_of item known max_trm max_tup =
     rbind (needE (rc_name item)) (\<lambda>name.
     rbind (needE (rc_rx item)) (\<lambda>rx.
     rbind (needE (rc_tx item)) (\<lambda>tx.
     rbind (needE (rc_rate item)) (\<lambda>rate.
     rbind (needE (rc_max_frame_bytes item)) (\<lambda>max_bytes.
     rbind (rbind (needE (rc_accept item)) (terms_of known max_bytes)) (\<lambda>terms.
     rbind (refuse_if (\<not> (1 \<le> int (length terms) \<and> int (length terms) \<le> max_trm)) BadTermCount) (\<lambda>_.
     rbind (needE (rc_id item)) (\<lambda>ident.
     rbind (needE (rg_base rx)) (\<lambda>rx_base.
     rbind (needE (rg_words rx)) (\<lambda>rx_words.
     rbind (needE (rg_base tx)) (\<lambda>tx_base.
     rbind (needE (rg_words tx)) (\<lambda>tx_words.
     rbind (rbind (needE (rc_match item)) (\<lambda>raw. tuples_of raw max_tup)) (\<lambda>tuples.
     rbind (needE (rb_burst rate)) (\<lambda>burst.
     rbind (needE (rb_refill_ms rate)) (\<lambda>refill_ms.
     rbind (needE (rc_cite item)) (\<lambda>cite.
     rbind (refuse_if (\<not> (14 < max_bytes \<and> max_bytes \<le> 1514) \<or> max_bytes mod 2 \<noteq> 0) BadFrameBytes) (\<lambda>_.
     rbind (refuse_if (\<not> (1 \<le> burst \<and> burst \<le> 255) \<or> \<not> (1 \<le> refill_ms \<and> refill_ms \<le> 65535)) BadRate) (\<lambda>_.
       Inr \<lparr>ch_name = name, ch_ident = ident, ch_rx_base = rx_base, ch_rx_words = rx_words,
            ch_tx_base = tx_base, ch_tx_words = tx_words, ch_max_frame_bytes = max_bytes, ch_tuples = tuples,
            ch_burst = burst, ch_refill_ms = refill_ms, ch_cite = cite, ch_terms = terms\<rparr>))))))))))))))))))"

section \<open>Cross-item rules\<close>

type_synonym span = "int \<times> int \<times> pystr"

definition channel_spans :: "Channel \<Rightarrow> span list" where
  "channel_spans ch = [(ch_rx_base ch, ch_rx_words ch, ch_name ch @ lit '' rx''),
                       (ch_tx_base ch, ch_tx_words ch, ch_name ch @ lit '' tx'')]"

definition ring_spans :: "Contract \<Rightarrow> span list" where
  "ring_spans c = (evt_base c, evt_words c, lit ''event ring'') # concat (map channel_spans (channels c))"

definition check_ring :: "Contract \<Rightarrow> span \<Rightarrow> unit mbx" where
  "check_ring c sp = (case sp of (base, words, label) \<Rightarrow>
     let size = words * 4 in
     rbind (refuse_if (\<not> power_of_two words) BadRingWords) (\<lambda>_.
     rbind (py_shift1 (index_bits c - 1)) (\<lambda>cap.
     rbind (refuse_if (words > cap) BadRingWords) (\<lambda>_.
       refuse_if (base mod size \<noteq> 0 \<or> base < REGISTER_SPACE_BYTES \<or> base + size > window_bytes c) RingOutside))))"

fun check_ordered :: "span list \<Rightarrow> unit mbx" where
  "check_ordered ((b0, w0, l0) # (b1, w1, l1) # rest) =
     rbind (refuse_if (b0 + 4 * w0 > b1) RingsOverlap) (\<lambda>_. check_ordered ((b1, w1, l1) # rest))"
| "check_ordered _ = Inr ()"

fun eachE :: "('a \<Rightarrow> unit mbx) \<Rightarrow> 'a list \<Rightarrow> unit mbx" where
  "eachE f [] = Inr ()"
| "eachE f (x # xs) = rbind (f x) (\<lambda>_. eachE f xs)"

definition check_rings :: "Contract \<Rightarrow> unit mbx" where
  "check_rings c =
     rbind (eachE (\<lambda>ch. refuse_if (2 + (ch_max_frame_bytes ch + 3) div 4 > ch_rx_words ch) FrameTooLongForRing) (channels c)) (\<lambda>_.
     rbind (eachE (check_ring c) (ring_spans c)) (\<lambda>_.
       check_ordered (sort (ring_spans c))))"

type_synonym claim = "int \<times> int option"

definition clashes :: "Match \<Rightarrow> claim \<Rightarrow> bool" where
  "clashes m key \<longleftrightarrow> fst key = m_ethertype m
     \<and> (snd key = None \<or> m_subtype m = None \<or> snd key = m_subtype m)"

definition claim_tuple :: "Contract \<Rightarrow> claim list \<Rightarrow> Match \<Rightarrow> unit mbx" where
  "claim_tuple c claims m =
     rbind (refuse_if (m_ethertype m \<in> set (tpids c)) TupleNamesTpid) (\<lambda>_.
       refuse_if (list_ex (clashes m) claims) ClaimedTwice)"

definition claim_step :: "Contract \<Rightarrow> Channel \<Rightarrow> claim list \<Rightarrow> claim list mbx" where
  "claim_step c ch claims =
     rbind (eachE (claim_tuple c claims) (ch_tuples ch)) (\<lambda>_.
       Inr (claims @ map (\<lambda>m. (m_ethertype m, m_subtype m)) (ch_tuples ch)))"

definition check_channels :: "Contract \<Rightarrow> unit mbx" where
  "check_channels c =
     (let idents = sort (map ch_ident (channels c)) in
      rbind (refuse_if (idents \<noteq> map int [0..<length idents] \<or> length idents > 8) BadChannelIds) (\<lambda>_.
      rbind (foldE (claim_step c) (channels c) []) (\<lambda>_. Inr ())))"

datatype block_kind = Interface | InterfaceFilter | BoundTalkerEntry | ChannelBlock

type_synonym block = "block_kind \<times> int \<times> int \<times> Register list \<times> int"

definition register_blocks :: "Contract \<Rightarrow> block list" where
  "register_blocks c =
     [(Interface, if_base c, if_stride c, if_registers c, interfaces c),
      (InterfaceFilter, iff_base c, iff_stride c, iff_registers c, interfaces c),
      (BoundTalkerEntry, bnd_base c, bnd_entry_stride c, bnd_registers c, interfaces c * bound_talkers c),
      (ChannelBlock, ch_base c, ch_stride c, ch_registers c, int (length (channels c)))]"

definition register_at :: "Contract \<Rightarrow> block_kind \<Rightarrow> int \<Rightarrow> int \<Rightarrow> int \<Rightarrow> Register \<Rightarrow> int" where
  "register_at c kind base stride k reg =
     (if kind = BoundTalkerEntry
      then base + k div bound_talkers c * bnd_stride c + k mod bound_talkers c * stride + r_offset reg
      else base + k * stride + r_offset reg)"

definition place_register :: "int \<Rightarrow> int list \<Rightarrow> int list mbx" where
  "place_register at placed =
     rbind (refuse_if (at \<ge> REGISTER_SPACE_BYTES \<or> at \<in> set placed) RegisterCollides) (\<lambda>_. Inr (at # placed))"

definition place_block :: "Contract \<Rightarrow> block \<Rightarrow> int list \<Rightarrow> int list mbx" where
  "place_block c blk placed = (case blk of (kind, base, stride, regs, count) \<Rightarrow>
     rbind (refuse_if (list_ex (\<lambda>r. r_offset r \<ge> stride) regs) RegistersSpill) (\<lambda>_.
       foldE (\<lambda>k. foldE (\<lambda>reg. place_register (register_at c kind base stride k reg)) regs)
         (map int [0..<nat count]) placed))"

definition check_blocks :: "Contract \<Rightarrow> unit mbx" where
  "check_blocks c =
     rbind (refuse_if (\<not> (1 \<le> bound_talkers c \<and> bound_talkers c \<le> 32)) BadBoundTalkers) (\<lambda>_.
     rbind (refuse_if (bound_talkers c * bnd_entry_stride c > bnd_stride c) BoundEntriesSpill) (\<lambda>_.
     rbind (foldE (place_block c) (register_blocks c) (map r_offset (registers c))) (\<lambda>_. Inr ())))"

definition pub_end :: "Contract \<Rightarrow> int" where
  "pub_end c = pub_base c + interfaces c * pub_stride c"

definition check_publication :: "Contract \<Rightarrow> unit mbx" where
  "check_publication c =
     rbind (refuse_if (\<not> (1 \<le> pub_sources c \<and> pub_sources c \<le> 32) \<or> \<not> (1 \<le> pub_sinks c \<and> pub_sinks c \<le> 32))
       BadPublicationCount) (\<lambda>_.
     rbind (refuse_if (list_ex (\<lambda>r. r_offset r \<ge> pub_source_base c) (pub_registers c)) PubRegistersSpill) (\<lambda>_.
     rbind (refuse_if (list_ex (\<lambda>r. r_offset r \<ge> pub_source_stride c) (pub_source_registers c)) PubSourceSpill) (\<lambda>_.
     rbind (refuse_if (pub_source_base c + pub_sources c * pub_source_stride c > pub_sink_base c) PubSourcesSpill) (\<lambda>_.
     rbind (refuse_if (list_ex (\<lambda>r. r_offset r \<ge> pub_sink_stride c) (pub_sink_registers c)) PubSinkSpill) (\<lambda>_.
     rbind (refuse_if (pub_sink_base c + pub_sinks c * pub_sink_stride c > pub_stride c) PubSinksSpill) (\<lambda>_.
     rbind (refuse_if (pub_base c mod 4 \<noteq> 0 \<or> pub_base c < REGISTER_SPACE_BYTES \<or> pub_end c > window_bytes c) PubOutside) (\<lambda>_.
       eachE (\<lambda>(base, words, label). refuse_if (base < pub_end c \<and> pub_base c < base + 4 * words) PubOverlapsRing)
         (ring_spans c))))))))"

definition check_contract :: "Contract \<Rightarrow> unit mbx" where
  "check_contract c =
     rbind (refuse_if (\<not> (1 \<le> interfaces c \<and> interfaces c \<le> 4) \<or> \<not> (1 \<le> timers c \<and> timers c \<le> 64)) BadCounts) (\<lambda>_.
     rbind (refuse_if (\<not> (1 \<le> tick_ms c \<and> tick_ms c \<le> 255)) BadTick) (\<lambda>_.
     rbind (refuse_if (ev_words c \<noteq> 4 \<or> map w_index (rx_header c) \<noteq> [0, 1] \<or> map w_index (tx_header c) \<noteq> [0, 1])
       BadRecordWords) (\<lambda>_.
     rbind (py_nth (tests c) 0) (\<lambda>test0.
     rbind (refuse_if (\<not> (fst test0 = lit ''none'' \<and> fst (snd test0) = 0)) BadTests) (\<lambda>_.
     rbind (refuse_if (map (\<lambda>(name, value, doc). (name, value)) (dsts c) \<noteq> [(lit ''none'', 0), (lit ''mac'', 1), (lit ''own'', 2)])
       BadDsts) (\<lambda>_.
     rbind (refuse_if (dst_byte c + 6 > ethertype_byte c \<or> ethertype_byte c + 2 > subtype_byte c) BadByteOrder) (\<lambda>_.
     rbind (refuse_if (msg_type_byte c \<noteq> subtype_byte c + 1) BadMsgTypeByte) (\<lambda>_.
     rbind (check_rings c) (\<lambda>_.
     rbind (check_channels c) (\<lambda>_.
     rbind (check_blocks c) (\<lambda>_.
       check_publication c)))))))))))"

definition with_interfaces :: "Contract \<Rightarrow> int \<Rightarrow> Contract mbx" where
  "with_interfaces c n =
     (let variant = c\<lparr>interfaces := n\<rparr> in rbind (check_contract variant) (\<lambda>_. Inr variant))"

section \<open>Reading the document\<close>

record raw_test =
  ra_name :: "pystr option"
  ra_value :: "int option"
  ra_doc :: "pystr option"

record raw_filter =
  fl_tests :: "raw_test list option"
  fl_max_terms :: "int option"
  fl_max_tuples :: "int option"
  fl_ethertype_byte :: "int option"
  fl_subtype_byte :: "int option"
  fl_msg_type_byte :: "int option"
  fl_dst_byte :: "int option"
  fl_tpids :: "int list option"
  fl_dsts :: "raw_test list option"
  fl_tmr_ops :: "raw_test list option"

record raw_block =
  bk_base :: "int option"
  bk_stride :: "int option"
  bk_entry_stride :: "int option"
  bk_registers :: "raw_register list option"

record raw_pub_block =
  pk_base :: "int option"
  pk_stride :: "int option"
  pk_source_base :: "int option"
  pk_source_stride :: "int option"
  pk_sink_base :: "int option"
  pk_sink_stride :: "int option"
  pk_registers :: "raw_register list option"
  pk_source_registers :: "raw_register list option"
  pk_sink_registers :: "raw_register list option"

record raw_record =
  rd_kind :: "int option"
  rd_words :: "int option"
  rd_header :: "raw_word list option"
  rd_doc :: "pystr option"

record raw_event =
  rv_name :: "pystr option"
  rv_value :: "int option"
  rv_doc :: "pystr option"
  rv_words :: "raw_word list option"

record raw_contract =
  rk_version :: "(int option \<times> int option) option"
  rk_magic :: "int option"
  rk_window_bytes :: "int option"
  rk_interfaces :: "int option"
  rk_timers :: "int option"
  rk_tick_ms :: "int option"
  rk_index_bits :: "int option"
  rk_registers :: "raw_register list option"
  rk_interface_registers :: "raw_block option"
  rk_interface_filter_registers :: "raw_block option"
  rk_interface_bound_registers :: "raw_block option"
  rk_bound_talkers :: "int option"
  rk_publication :: "(int option \<times> int option) option"
  rk_interface_publication_registers :: "raw_pub_block option"
  rk_channel_registers :: "raw_block option"
  rk_event_ring :: "raw_ring option"
  rk_rx_frame :: "raw_record option"
  rk_tx_frame :: "raw_record option"
  rk_event :: "raw_record option"
  rk_records :: bool
  rk_event_types :: "raw_event list option"
  rk_filter :: "raw_filter option"
  rk_channels :: "raw_channel list option"

definition test_of :: "raw_test \<Rightarrow> (pystr \<times> int \<times> pystr) mbx" where
  "test_of t = rbind (keyE (ra_name t)) (\<lambda>name. rbind (keyE (ra_value t)) (\<lambda>value. Inr (name, value, doc_of (ra_doc t))))"

definition event_type_of :: "raw_event \<Rightarrow> EventType mbx" where
  "event_type_of e =
     rbind (keyE (rv_name e)) (\<lambda>name. rbind (keyE (rv_value e)) (\<lambda>value.
     rbind (rbind (keyE (rv_words e)) words_of) (\<lambda>ws.
       Inr \<lparr>et_name = name, et_value = value, et_doc = doc_of (rv_doc e), et_words = ws\<rparr>)))"

record records =
  rs_rx_kind :: int
  rs_rx_header :: "Word_ list"
  rs_rx_doc :: pystr
  rs_tx_kind :: int
  rs_tx_header :: "Word_ list"
  rs_tx_doc :: pystr
  rs_ev_words :: int
  rs_ev_header :: "Word_ list"
  rs_ev_doc :: pystr

text \<open>\<^verbatim>\<open>_records\<close>; \<open>rk_records\<close> says whether the \<^verbatim>\<open>records\<close> node is there at all.\<close>

definition records_of :: "raw_contract \<Rightarrow> records mbx" where
  "records_of raw =
     rbind (refuse_if (\<not> rk_records raw) MissingKey) (\<lambda>_.
     rbind (needE (rk_rx_frame raw)) (\<lambda>rx.
     rbind (needE (rk_tx_frame raw)) (\<lambda>tx.
     rbind (needE (rk_event raw)) (\<lambda>ev.
     rbind (needE (rd_kind rx)) (\<lambda>rxk.
     rbind (rbind (needE (rd_header rx)) words_of) (\<lambda>rxh.
     rbind (needE (rd_kind tx)) (\<lambda>txk.
     rbind (rbind (needE (rd_header tx)) words_of) (\<lambda>txh.
     rbind (needE (rd_words ev)) (\<lambda>evw.
     rbind (rbind (needE (rd_header ev)) words_of) (\<lambda>evh.
       Inr \<lparr>rs_rx_kind = rxk, rs_rx_header = rxh, rs_rx_doc = doc_of (rd_doc rx),
            rs_tx_kind = txk, rs_tx_header = txh, rs_tx_doc = doc_of (rd_doc tx),
            rs_ev_words = evw, rs_ev_header = evh, rs_ev_doc = doc_of (rd_doc ev)\<rparr>))))))))))"

definition register_space :: "raw_register list \<Rightarrow> Register list mbx" where
  "register_space raw = registers_of raw REGISTER_SPACE_BYTES"

definition tmr_op_of :: "raw_test \<Rightarrow> (pystr \<times> int) mbx" where
  "tmr_op_of t = rbind (keyE (ra_name t)) (\<lambda>name. rbind (keyE (ra_value t)) (\<lambda>value. Inr (name, value)))"

text \<open>\<^verbatim>\<open>load\<close> up to its last check: the document read into a \<open>Contract\<close>, in the order of the code.\<close>

definition read_contract :: "raw_contract \<Rightarrow> Contract mbx" where
  "read_contract raw =
     rbind (needE (rk_filter raw)) (\<lambda>flt.
     rbind (rbind (needE (fl_tests flt)) (mapE test_of)) (\<lambda>test0.
     rbind (needE (fl_max_terms flt)) (\<lambda>mtrm.
     rbind (needE (fl_max_tuples flt)) (\<lambda>mtup.
     rbind (needE (rk_interface_registers raw)) (\<lambda>ifr.
     rbind (needE (rk_interface_filter_registers raw)) (\<lambda>iffr.
     rbind (needE (rk_interface_bound_registers raw)) (\<lambda>bndr.
     rbind (needE (rk_publication raw)) (\<lambda>pub.
     rbind (needE (rk_interface_publication_registers raw)) (\<lambda>pubr.
     rbind (needE (pk_source_base pubr)) (\<lambda>psrcb.
     rbind (needE (pk_source_stride pubr)) (\<lambda>psrcs.
     rbind (needE (pk_sink_base pubr)) (\<lambda>psnkb.
     rbind (needE (pk_sink_stride pubr)) (\<lambda>psnks.
     rbind (needE (rk_channel_registers raw)) (\<lambda>chr.
     rbind (keyE (rk_version raw)) (\<lambda>version.
     rbind (keyE (fst version)) (\<lambda>maj.
     rbind (keyE (snd version)) (\<lambda>mino.
     rbind (needE (rk_magic raw)) (\<lambda>mag.
     rbind (needE (rk_window_bytes raw)) (\<lambda>win.
     rbind (needE (rk_interfaces raw)) (\<lambda>nif.
     rbind (needE (rk_timers raw)) (\<lambda>ntm.
     rbind (needE (rk_tick_ms raw)) (\<lambda>tick.
     rbind (needE (rk_index_bits raw)) (\<lambda>ibits.
     rbind (rbind (needE (rk_registers raw)) register_space) (\<lambda>regs.
     rbind (keyE (bk_base ifr)) (\<lambda>ifb.
     rbind (keyE (bk_stride ifr)) (\<lambda>ifs.
     rbind (rbind (keyE (bk_registers ifr)) register_space) (\<lambda>ifregs.
     rbind (keyE (bk_base iffr)) (\<lambda>iffb.
     rbind (keyE (bk_stride iffr)) (\<lambda>iffs.
     rbind (rbind (keyE (bk_registers iffr)) register_space) (\<lambda>iffregs.
     rbind (needE (rk_bound_talkers raw)) (\<lambda>nbnd.
     rbind (needE (bk_base bndr)) (\<lambda>bndb.
     rbind (needE (bk_stride bndr)) (\<lambda>bnds.
     rbind (needE (bk_entry_stride bndr)) (\<lambda>bnde.
     rbind (rbind (needE (bk_registers bndr)) register_space) (\<lambda>bndregs.
     rbind (needE (fst pub)) (\<lambda>nsrc.
     rbind (needE (snd pub)) (\<lambda>nsnk.
     rbind (needE (pk_base pubr)) (\<lambda>pubb.
     rbind (needE (pk_stride pubr)) (\<lambda>pubs.
     rbind (rbind (needE (pk_registers pubr)) register_space) (\<lambda>pubregs.
     rbind (rbind (needE (pk_source_registers pubr)) register_space) (\<lambda>psrcregs.
     rbind (rbind (needE (pk_sink_registers pubr)) register_space) (\<lambda>psnkregs.
     rbind (keyE (bk_base chr)) (\<lambda>chb.
     rbind (keyE (bk_stride chr)) (\<lambda>chs.
     rbind (rbind (keyE (bk_registers chr)) register_space) (\<lambda>chregs.
     rbind (keyE (rk_event_ring raw)) (\<lambda>ring.
     rbind (keyE (rg_base ring)) (\<lambda>evb.
     rbind (keyE (rg_words ring)) (\<lambda>evw.
     rbind (records_of raw) (\<lambda>recs.
     rbind (rbind (needE (rk_event_types raw)) (mapE event_type_of)) (\<lambda>evts.
     rbind (keyE (fl_ethertype_byte flt)) (\<lambda>etb.
     rbind (keyE (fl_subtype_byte flt)) (\<lambda>stb.
     rbind (keyE (fl_msg_type_byte flt)) (\<lambda>mtb.
     rbind (needE (fl_dst_byte flt)) (\<lambda>dstb.
     rbind (needE (fl_tpids flt)) (\<lambda>tps.
     rbind (rbind (needE (fl_dsts flt)) (mapE test_of)) (\<lambda>dst0.
     rbind (rbind (keyE (fl_tmr_ops flt)) (mapE tmr_op_of)) (\<lambda>ops.
     rbind (rbind (needE (rk_channels raw)) (mapE (\<lambda>c. channel_of c (map fst test0) mtrm mtup))) (\<lambda>chans.
       Inr \<lparr>major = maj, minor = mino, magic = mag, window_bytes = win, interfaces = nif, timers = ntm, tick_ms = tick,
         index_bits = ibits, registers = regs, if_base = ifb, if_stride = ifs, if_registers = ifregs,
         iff_base = iffb, iff_stride = iffs, iff_registers = iffregs,
         bound_talkers = nbnd, bnd_base = bndb, bnd_stride = bnds, bnd_entry_stride = bnde, bnd_registers = bndregs,
         pub_sources = nsrc, pub_sinks = nsnk, pub_base = pubb, pub_stride = pubs,
         pub_source_base = psrcb, pub_source_stride = psrcs, pub_sink_base = psnkb, pub_sink_stride = psnks,
         pub_registers = pubregs, pub_source_registers = psrcregs, pub_sink_registers = psnkregs,
         ch_base = chb, ch_stride = chs, ch_registers = chregs, evt_base = evb, evt_words = evw,
         rx_kind = rs_rx_kind recs, rx_header = rs_rx_header recs, rx_doc = rs_rx_doc recs,
         tx_kind = rs_tx_kind recs, tx_header = rs_tx_header recs, tx_doc = rs_tx_doc recs,
         ev_words = rs_ev_words recs, ev_header = rs_ev_header recs, ev_doc = rs_ev_doc recs,
         event_types = evts, ethertype_byte = etb, subtype_byte = stb, msg_type_byte = mtb, dst_byte = dstb,
         max_terms = mtrm, max_tuples = mtup, tpids = tps, dsts = dst0, tests = test0, tmr_ops = ops,
         channels = sort_key ch_ident chans\<rparr>))))))))))))))))))))))))))))))))))))))))))))))))))))))))))"

definition load :: "raw_contract \<Rightarrow> Contract mbx" where
  "load raw = rbind (read_contract raw) (\<lambda>c. rbind (check_contract c) (\<lambda>_. Inr c))"

end
