(* ===== verification/Mailbox_Constants.thy ===== *)
theory Mailbox_Constants
  imports Mailbox_Contract
begin

unbundle bit_operations_syntax

text \<open>
  The flat list of named values every mailbox output carries (\<^verbatim>\<open>constants\<close> of
  \<^verbatim>\<open>sw/mailbox/mailbox_model.py\<close>): registers and their fields, records, channels with their
  padded match tuples and accept terms. \<open>upper\<close> is \<^verbatim>\<open>str.upper\<close> on ASCII names.
\<close>

record Constant =
  k_name :: pystr
  k_value :: int
  k_doc :: pystr
  k_hexa :: bool

definition const :: "pystr \<Rightarrow> int \<Rightarrow> pystr \<Rightarrow> bool \<Rightarrow> Constant" where
  "const name value doc hexa = \<lparr>k_name = name, k_value = value, k_doc = doc, k_hexa = hexa\<rparr>"

definition upper :: "pystr \<Rightarrow> pystr" where
  "upper s = map (\<lambda>c. if 97 \<le> c \<and> c \<le> 122 then c - 32 else c) s"

definition field_constants :: "pystr \<Rightarrow> Field list \<Rightarrow> pystr \<Rightarrow> Constant list" where
  "field_constants prefix fs doc = concat (map (\<lambda>f.
     [const (prefix @ lit ''_'' @ f_name f @ lit ''_LSB'') (f_lsb f) (doc @ lit '': '' @ f_doc f) False,
      const (prefix @ lit ''_'' @ f_name f @ lit ''_WIDTH'') (f_width f) (doc @ lit '': '' @ f_doc f) False]) fs)"

definition reg_constants :: "string \<Rightarrow> Register list \<Rightarrow> Constant list" where
  "reg_constants prefix regs = concat (map (\<lambda>reg.
     const (lit prefix @ r_name reg) (r_offset reg) (r_doc reg) True
       # field_constants (r_name reg) (r_fields reg) (r_name reg)) regs)"

definition register_constants :: "Contract \<Rightarrow> Constant list" where
  "register_constants c =
     reg_constants ''REG_'' (registers c)
     @ [const (lit ''IF_BASE'') (if_base c) (lit ''first interface register block'') True,
       const (lit ''IF_STRIDE'') (if_stride c) (lit ''bytes per interface block'') True] @ reg_constants ''IF_REG_'' (if_registers c)
     @ [const (lit ''IFF_BASE'') (iff_base c) (lit ''first interface filter register block'') True,
       const (lit ''IFF_STRIDE'') (iff_stride c) (lit ''bytes per interface filter block'') True] @ reg_constants ''IFF_REG_'' (iff_registers c)
     @ [const (lit ''BND_BASE'') (bnd_base c) (lit ''first interface'' @ [39] @ lit ''s bound-talker table'') True,
       const (lit ''BND_STRIDE'') (bnd_stride c) (lit ''bytes per interface'' @ [39] @ lit ''s bound-talker table'') True,
       const (lit ''BND_ENTRY_STRIDE'') (bnd_entry_stride c) (lit ''bytes per bound-talker entry'') True] @ reg_constants ''BND_REG_'' (bnd_registers c)
     @ [const (lit ''PUB_BASE'') (pub_base c) (lit ''first interface'' @ [39] @ lit ''s publication block'') True,
       const (lit ''PUB_STRIDE'') (pub_stride c) (lit ''bytes per interface'' @ [39] @ lit ''s publication block'') True] @ reg_constants ''PUB_REG_'' (pub_registers c)
     @ [const (lit ''PUB_SRC_BASE'') (pub_source_base c) (lit ''first source entry inside a publication block'') True,
       const (lit ''PUB_SRC_STRIDE'') (pub_source_stride c) (lit ''bytes per publication source entry'') True] @ reg_constants ''PUB_SRC_REG_'' (pub_source_registers c)
     @ [const (lit ''PUB_SINK_BASE'') (pub_sink_base c) (lit ''first sink entry inside a publication block'') True,
       const (lit ''PUB_SINK_STRIDE'') (pub_sink_stride c) (lit ''bytes per publication sink entry'') True] @ reg_constants ''PUB_SINK_REG_'' (pub_sink_registers c)
     @ [const (lit ''CH_BASE'') (ch_base c) (lit ''first channel register block'') True,
       const (lit ''CH_STRIDE'') (ch_stride c) (lit ''bytes per channel block'') True] @ reg_constants ''CH_REG_'' (ch_registers c)"

definition word_constants :: "pystr \<Rightarrow> pystr \<Rightarrow> Word_ list \<Rightarrow> Constant list" where
  "word_constants prefix doc ws = concat (map (\<lambda>w.
     field_constants (prefix @ dec (w_index w)) (w_fields w) (doc @ dec (w_index w))) ws)"

definition event_constants :: "EventType \<Rightarrow> Constant list" where
  "event_constants et =
     const (lit ''EV_TYPE_'' @ et_name et) (et_value et) (et_doc et) False
     # word_constants (lit ''EV_'' @ et_name et @ lit ''_W'') (et_name et @ lit '' event word '') (et_words et)"

definition record_constants :: "Contract \<Rightarrow> Constant list" where
  "record_constants c =
     [const (lit ''RX_KIND'') (rx_kind c) (lit ''KIND of an RX frame record'') False,
      const (lit ''RX_HDR_WORDS'') (int (length (rx_header c))) (lit ''header words of an RX record'') False,
      const (lit ''TX_KIND'') (tx_kind c) (lit ''KIND of a TX frame record'') False,
      const (lit ''TX_HDR_WORDS'') (int (length (tx_header c))) (lit ''header words of a TX record'') False,
      const (lit ''EV_WORDS'') (ev_words c) (lit ''words per event record'') False,
      const (lit ''EVT_BASE'') (evt_base c) (lit ''event ring byte offset'') True,
      const (lit ''EVT_WORDS'') (evt_words c) (lit ''event ring words'') False]
     @ word_constants (lit ''RXREC_W'') (lit ''RX record word '') (rx_header c)
     @ word_constants (lit ''TXREC_W'') (lit ''TX record word '') (tx_header c)
     @ word_constants (lit ''EVREC_W'') (lit ''event word '') (ev_header c)
     @ concat (map event_constants (event_types c))"

text \<open>\<^verbatim>\<open>{name: value for name, value, _doc in rows}[key]\<close>: the last row of a name counts.\<close>

definition table_value :: "(pystr \<times> int \<times> pystr) list \<Rightarrow> pystr \<Rightarrow> int mbx" where
  "table_value rows key = keyE (map_of (rev (map (\<lambda>(name, value, doc). (name, value)) rows)) key)"

definition unused_tuple :: Match where
  "unused_tuple = \<lparr>m_dst = lit ''none'', m_mac = 0, m_ethertype = 0, m_subtype = None, m_msg_mask = 0, m_doc = lit ''unused''\<rparr>"

definition unused_term :: Term where
  "unused_term = \<lparr>t_test = lit ''none'', t_offset = 0, t_msg_mask = 0, t_field = [], t_doc = lit ''unused''\<rparr>"

definition or_zero_opt :: "int option \<Rightarrow> int" where
  "or_zero_opt v = (case v of None \<Rightarrow> 0 | Some n \<Rightarrow> n)"

definition tuple_constants :: "Contract \<Rightarrow> Channel \<Rightarrow> nat \<Rightarrow> Constant list mbx" where
  "tuple_constants c ch k =
     (let m = (if k < length (ch_tuples ch) then ch_tuples ch ! k else unused_tuple);
          pre = lit ''CH_'' @ upper (ch_name ch) @ lit ''_M'' @ dec_nat k;
          txt = ch_name ch @ lit '' tuple '' @ dec_nat k in
      rbind (table_value (dsts c) (m_dst m)) (\<lambda>d. Inr
        [const (pre @ lit ''_DST'') d (txt @ lit '': '' @ m_doc m) False,
         const (pre @ lit ''_DST_HI'') (drop_bit 32 (m_mac m)) (txt @ lit '' destination [47:32]'') True,
         const (pre @ lit ''_DST_LO'') (m_mac m AND 0xFFFFFFFF) (txt @ lit '' destination [31:0]'') True,
         const (pre @ lit ''_ETHERTYPE'') (m_ethertype m) (txt @ lit '' EtherType'') True,
         const (pre @ lit ''_HAS_SUBTYPE'') (of_bool (m_subtype m \<noteq> None)) (txt @ lit '' matches a subtype'') False,
         const (pre @ lit ''_SUBTYPE'') (or_zero_opt (m_subtype m)) (txt @ lit '' AVTP subtype'') True,
         const (pre @ lit ''_MSG_MASK'') (m_msg_mask m) (txt @ lit '' message types'') True]))"

definition term_constants :: "Contract \<Rightarrow> Channel \<Rightarrow> nat \<Rightarrow> Constant list mbx" where
  "term_constants c ch k =
     (let trm = (if k < length (ch_terms ch) then ch_terms ch ! k else unused_term);
          pre = lit ''CH_'' @ upper (ch_name ch) @ lit ''_T'' @ dec_nat k;
          txt = ch_name ch @ lit '' term '' @ dec_nat k in
      rbind (table_value (tests c) (t_test trm)) (\<lambda>v. Inr
        [const (pre @ lit ''_TEST'') v (txt @ lit '': '' @ t_doc trm) False,
         const (pre @ lit ''_OFFSET'') (t_offset trm) (txt @ lit '' field byte'') False,
         const (pre @ lit ''_MSG_MASK'') (t_msg_mask trm) (txt @ lit '' message types'') True]))"

definition ring_constants :: "Channel \<Rightarrow> Constant list" where
  "ring_constants ch =
     (let pre = lit ''CH_'' @ upper (ch_name ch); nm = ch_name ch in
      [const pre (ch_ident ch) (lit ''channel '' @ nm) False,
       const (pre @ lit ''_RX_BASE'') (ch_rx_base ch) (nm @ lit '' receive ring byte offset'') True,
       const (pre @ lit ''_RX_WORDS'') (ch_rx_words ch) (nm @ lit '' receive ring words'') False,
       const (pre @ lit ''_TX_BASE'') (ch_tx_base ch) (nm @ lit '' transmit ring byte offset'') True,
       const (pre @ lit ''_TX_WORDS'') (ch_tx_words ch) (nm @ lit '' transmit ring words'') False,
       const (pre @ lit ''_MAX_FRAME_BYTES'') (ch_max_frame_bytes ch) (nm @ lit '' largest frame'') False,
       const (pre @ lit ''_RATE_BURST'') (ch_burst ch) (nm @ lit '' token bucket depth'') False,
       const (pre @ lit ''_RATE_REFILL_MS'') (ch_refill_ms ch) (nm @ lit '' ms per refilled token'') False])"

definition one_channel_constants :: "Contract \<Rightarrow> Channel \<Rightarrow> Constant list mbx" where
  "one_channel_constants c ch =
     concatE (Inr (ring_constants ch)
       # map (tuple_constants c ch) [0..<nat (max_tuples c)]
       @ map (term_constants c ch) [0..<nat (max_terms c)])"

definition channel_constants :: "Contract \<Rightarrow> Constant list mbx" where
  "channel_constants c = concatE (map (one_channel_constants c) (channels c))"

definition head_constants :: "Contract \<Rightarrow> Constant list" where
  "head_constants c =
     [const (lit ''VERSION_MAJOR'') (major c) (lit ''contract major version'') False,
      const (lit ''VERSION_MINOR'') (minor c) (lit ''contract minor version'') False,
      const (lit ''MAGIC'') (magic c) (lit ''ID.MAGIC'') True,
      const (lit ''WINDOW_BYTES'') (window_bytes c) (lit ''host window size'') True,
      const (lit ''REGISTER_SPACE_BYTES'') REGISTER_SPACE_BYTES (lit ''registers live below this offset'') True,
      const (lit ''N_IF'') (interfaces c) (lit ''interfaces'') False,
      const (lit ''N_TIMERS'') (timers c) (lit ''timer slots'') False,
      const (lit ''N_BOUND'') (bound_talkers c) (lit ''bound-talker entries per interface (listener streams)'') False,
      const (lit ''N_PUB_SOURCES'') (pub_sources c) (lit ''publication sources per interface (talker streams)'') False,
      const (lit ''N_PUB_SINKS'') (pub_sinks c) (lit ''publication sink entries per interface (listener streams)'') False,
      const (lit ''TICK_MS'') (tick_ms c) (lit ''NOW_MS milliseconds per TICK (one centisecond)'') False,
      const (lit ''N_CH'') (int (length (channels c))) (lit ''channels'') False,
      const (lit ''INDEX_BITS'') (index_bits c) (lit ''ring counter width'') False,
      const (lit ''MAX_TERMS'') (max_terms c) (lit ''accept terms per channel'') False,
      const (lit ''MAX_TUPLES'') (max_tuples c) (lit ''match tuples per channel'') False,
      const (lit ''TERM_FIELD_BYTES'') TERM_FIELD_BYTES (lit ''bytes a filter term reads'') False,
      const (lit ''DST_BYTE'') (dst_byte c) (lit ''wire byte of the destination MAC'' @ [39] @ lit ''s first octet'') False,
      const (lit ''ETHERTYPE_BYTE'') (ethertype_byte c) (lit ''wire byte of the EtherType'') False,
      const (lit ''SUBTYPE_BYTE'') (subtype_byte c) (lit ''wire byte of the AVTP subtype'') False,
      const (lit ''MSG_TYPE_BYTE'') (msg_type_byte c) (lit ''wire byte whose low nibble is message_type'') False]
     @ map (\<lambda>(name, value, doc). const (lit ''DST_'' @ upper name) value doc False) (dsts c)
     @ map (\<lambda>(name, value, doc). const (lit ''TEST_'' @ upper name) value doc False) (tests c)
     @ map (\<lambda>(name, value). const (lit ''TMR_OP_'' @ upper name) value (lit ''TMR_CMD.OP '' @ name) False) (tmr_ops c)"

definition name_once :: "Constant \<Rightarrow> pystr list \<Rightarrow> pystr list mbx" where
  "name_once k used = rbind (refuse_if (k_name k \<in> set used) ConstantTwice) (\<lambda>_. Inr (k_name k # used))"

definition constants :: "Contract \<Rightarrow> Constant list mbx" where
  "constants c =
     rbind (channel_constants c) (\<lambda>chans.
     let out = head_constants c @ register_constants c @ record_constants c @ chans in
     rbind (foldE name_once out []) (\<lambda>_. Inr out))"

end
