(* ===== verification/Mailbox_Rules.thy ===== *)
theory Mailbox_Rules
  imports Mailbox_Constants "HOL-Library.Multiset"
begin

unbundle bit_operations_syntax

text \<open>
  What an accepted mailbox contract guarantees: bit fields that never overlap, memory regions that
  never overlap, ring counters that stay unambiguous, register addresses that are distinct, and a
  frame classification that names at most one channel.
\<close>

lemma refuse_if_Inr_iff [simp]: "refuse_if P e = Inr u \<longleftrightarrow> \<not> P"
  by (simp add: refuse_if_def)

lemma refuse_if_Inl_iff [simp]: "refuse_if P e = Inl x \<longleftrightarrow> P \<and> x = Refused e"
  by (simp add: refuse_if_def)

lemma needE_Inr_iff [simp]: "needE v = Inr x \<longleftrightarrow> v = Some x"
  by (auto simp: needE_def split: option.splits)

lemma keyE_Inr_iff [simp]: "keyE v = Inr x \<longleftrightarrow> v = Some x"
  by (auto simp: keyE_def split: option.splits)

lemma eachE_Inr_iff [simp]: "eachE f xs = Inr u \<longleftrightarrow> (\<forall>x \<in> set xs. f x = Inr ())"
  by (induction xs) auto

lemma mapE_snoc: "mapE f (xs @ [x]) = rbind (mapE f xs) (\<lambda>ys. rbind (f x) (\<lambda>y. Inr (ys @ [y])))"
proof (induction xs)
  case Nil
  show ?case by (cases "f x") auto
next
  case (Cons a xs)
  then show ?case by (cases "f a"; cases "mapE f xs"; cases "f x") auto
qed

lemma foldE_snoc: "foldE f (xs @ [x]) s = rbind (foldE f xs s) (f x)"
proof -
  have "foldE f [x] = f x"
  proof
    fix t
    show "foldE f [x] t = f x t" by (cases "f x t") auto
  qed
  then show ?thesis by (simp add: foldE_append)
qed

section \<open>Bit fields\<close>

definition field_node :: "raw_field \<Rightarrow> Field mbx" where
  "field_node item =
     rbind (needE (rf_name item)) (\<lambda>name. rbind (needE (rf_lsb item)) (\<lambda>lsb. rbind (needE (rf_width item)) (\<lambda>width.
       Inr \<lparr>f_name = name, f_lsb = lsb, f_width = width, f_doc = doc_of (rf_doc item)\<rparr>)))"

definition in_word :: "Field \<Rightarrow> bool" where
  "in_word f \<longleftrightarrow> 1 \<le> f_width f \<and> 0 \<le> f_lsb f \<and> f_lsb f + f_width f \<le> 32"

definition field_apart :: "Field \<Rightarrow> Field \<Rightarrow> bool" where
  "field_apart f g \<longleftrightarrow> f_lsb f + f_width f \<le> f_lsb g \<or> f_lsb g + f_width g \<le> f_lsb f"

definition used_bits :: "Field list \<Rightarrow> int" where
  "used_bits fs = foldl (\<lambda>used f. used OR field_mask (f_lsb f) (f_width f)) 0 fs"

lemma bit_field_mask: "0 \<le> l \<Longrightarrow> 0 \<le> w \<Longrightarrow> bit (field_mask l w) n \<longleftrightarrow> l \<le> int n \<and> int n < l + w"
proof -
  assume "0 \<le> l" "0 \<le> w"
  moreover have "push_bit (nat w) (1::int) - 1 = mask (nat w)" by (simp add: mask_eq_exp_minus_1)
  ultimately show ?thesis unfolding field_mask_def
    by (auto simp: bit_push_bit_iff bit_mask_iff nat_le_iff nat_less_iff)
qed

lemma bit_used_bits:
  "list_all in_word fs \<Longrightarrow> bit (used_bits fs) n \<longleftrightarrow> (\<exists>f \<in> set fs. f_lsb f \<le> int n \<and> int n < f_lsb f + f_width f)"
proof (induction fs rule: rev_induct)
  case Nil
  then show ?case by (simp add: used_bits_def)
next
  case (snoc f fs)
  then show ?case by (auto simp: used_bits_def bit_or_iff bit_field_mask in_word_def)
qed

lemma used_clear_iff:
  assumes "list_all in_word fs" "in_word f"
  shows "used_bits fs AND field_mask (f_lsb f) (f_width f) = 0 \<longleftrightarrow> list_all (\<lambda>g. field_apart g f) fs"
proof
  assume z: "used_bits fs AND field_mask (f_lsb f) (f_width f) = 0"
  have "field_apart g f" if g: "g \<in> set fs" for g
  proof (rule ccontr)
    assume "\<not> field_apart g f"
    moreover have "in_word g" using g assms(1) by (simp add: list_all_iff)
    ultimately obtain n where n: "f_lsb g \<le> int n" "int n < f_lsb g + f_width g" "f_lsb f \<le> int n" "int n < f_lsb f + f_width f"
      using assms(2) that[of "nat (max (f_lsb g) (f_lsb f))"]
      by (auto simp: field_apart_def in_word_def max_def split: if_splits)
    then have "bit (used_bits fs AND field_mask (f_lsb f) (f_width f)) n"
      using g assms by (auto simp: bit_and_iff bit_used_bits bit_field_mask in_word_def)
    with z show False by simp
  qed
  then show "list_all (\<lambda>g. field_apart g f) fs" by (simp add: list_all_iff)
next
  assume a: "list_all (\<lambda>g. field_apart g f) fs"
  show "used_bits fs AND field_mask (f_lsb f) (f_width f) = 0"
  proof (rule bit_eqI)
    fix n
    show "bit (used_bits fs AND field_mask (f_lsb f) (f_width f)) n = bit 0 n"
      using a assms by (auto simp: bit_and_iff bit_used_bits bit_field_mask in_word_def field_apart_def list_all_iff)
  qed
qed

lemma fields_scan:
  "foldE field_step raw ([], 0) = Inr (fs, used) \<longleftrightarrow>
     mapE field_node raw = Inr fs \<and> list_all in_word fs \<and> sorted_wrt field_apart fs \<and> used = used_bits fs"
proof (induction raw arbitrary: fs used rule: rev_induct)
  case Nil
  then show ?case by (auto simp: used_bits_def)
next
  case (snoc item raw)
  show ?case
  proof
    assume "foldE field_step (raw @ [item]) ([], 0) = Inr (fs, used)"
    then obtain gs u where "foldE field_step raw ([], 0) = Inr (gs, u)" and st: "field_step item (gs, u) = Inr (fs, used)"
      by (auto simp: foldE_snoc)
    then have ih: "mapE field_node raw = Inr gs" "list_all in_word gs" "sorted_wrt field_apart gs" "u = used_bits gs"
      using snoc.IH by auto
    from st obtain f where f: "field_node item = Inr f" "in_word f" "fs = gs @ [f]"
      "used_bits gs AND field_mask (f_lsb f) (f_width f) = 0" "used = used_bits gs OR field_mask (f_lsb f) (f_width f)"
      by (auto simp: field_step_def field_node_def in_word_def ih(4))
    moreover have "list_all (\<lambda>g. field_apart g f) gs" using used_clear_iff[OF ih(2) f(2)] f(4) by simp
    moreover have "used_bits (gs @ [f]) = used_bits gs OR field_mask (f_lsb f) (f_width f)" by (simp add: used_bits_def)
    ultimately show "mapE field_node (raw @ [item]) = Inr fs \<and> list_all in_word fs \<and> sorted_wrt field_apart fs \<and> used = used_bits fs"
      using ih by (auto simp: mapE_snoc sorted_wrt_append list_all_iff)
  next
    assume r: "mapE field_node (raw @ [item]) = Inr fs \<and> list_all in_word fs \<and> sorted_wrt field_apart fs \<and> used = used_bits fs"
    then obtain gs f where g: "mapE field_node raw = Inr gs" "field_node item = Inr f" "fs = gs @ [f]"
      by (auto simp: mapE_snoc)
    with r have w: "list_all in_word gs" "in_word f" "sorted_wrt field_apart gs" "list_all (\<lambda>h. field_apart h f) gs"
      by (auto simp: sorted_wrt_append list_all_iff)
    then have "foldE field_step raw ([], 0) = Inr (gs, used_bits gs)" using snoc.IH g by blast
    moreover have "field_step item (gs, used_bits gs) = Inr (fs, used)"
      using g(2,3) r w used_clear_iff[OF w(1,2)]
      by (auto simp: field_step_def field_node_def in_word_def used_bits_def)
    ultimately show "foldE field_step (raw @ [item]) ([], 0) = Inr (fs, used)" by (auto simp: foldE_snoc)
  qed
qed

lemma fields_of_Inr_iff:
  "fields_of raw = Inr fs \<longleftrightarrow> mapE field_node raw = Inr fs \<and> list_all in_word fs \<and> sorted_wrt field_apart fs"
  by (auto simp: fields_of_def fields_scan split_paired_Ex)


text \<open>
  A word's field list is accepted exactly when every field names its bits, stays inside
  the 32-bit word and shares no bit with another field; the fields are then returned in document order.
\<close>

lemma fields_accepted_iff_disjoint:
  "(\<exists>fs. fields_of raw = Inr fs) \<longleftrightarrow>
     (\<exists>fs. mapE field_node raw = Inr fs \<and> list_all in_word fs \<and> sorted_wrt field_apart fs)"
  by (simp add: fields_of_Inr_iff)

section \<open>Message masks\<close>

lemma sum_shifts_Inr_iff: "sum_shifts ms = Inr m \<longleftrightarrow> list_all (\<lambda>t. 0 \<le> t) ms \<and> m = sum_list (map (\<lambda>t. 2 ^ nat t) ms)"
proof -
  have "mapE py_shift1 ms = Inr bs \<longleftrightarrow> list_all (\<lambda>t. 0 \<le> t) ms \<and> bs = map (\<lambda>t. 2 ^ nat t) ms" for bs
    by (induction ms arbitrary: bs) (auto simp: py_shift1_def)
  then show ?thesis by (auto simp: sum_shifts_def)
qed

lemma bit_sum_powers: "finite T \<Longrightarrow> bit (\<Sum>t \<in> T. 2 ^ t :: int) n \<longleftrightarrow> n \<in> T"
proof (induction T arbitrary: n rule: finite_induct)
  case (insert t T)
  have "2 ^ t AND (\<Sum>t \<in> T. 2 ^ t :: int) = 0"
    using insert by (intro bit_eqI) (auto simp: bit_and_iff bit_exp_iff)
  then show ?case using insert by (auto simp: disjunctive_add_eq_or bit_or_iff bit_exp_iff)
qed simp

lemma sum_set_le_sum_list:
  fixes f :: "'a \<Rightarrow> int"
  assumes "\<And>x. 0 < f x"
  shows "(\<Sum>x \<in> set xs. f x) \<le> sum_list (map f xs) \<and> ((\<Sum>x \<in> set xs. f x) = sum_list (map f xs) \<longleftrightarrow> distinct xs)"
proof (induction xs)
  case Nil
  then show ?case by simp
next
  case (Cons x xs)
  then show ?case using assms[of x] by (cases "x \<in> set xs") (auto simp: insert_absorb)
qed

lemma bit_sum_shifts:
  assumes "sum_shifts ms = Inr m"
  shows "(\<forall>n. bit m n \<longleftrightarrow> int n \<in> set ms) \<longleftrightarrow> distinct ms"
proof -
  let ?f = "\<lambda>t :: int. 2 ^ nat t :: int"
  have nn: "list_all (\<lambda>t. 0 \<le> t) ms" and m: "m = sum_list (map ?f ms)" using assms by (auto simp: sum_shifts_Inr_iff)
  have inj: "inj_on nat (set ms)" using nn by (auto simp: inj_on_def list_all_iff eq_nat_nat_iff)
  have S: "(\<Sum>t \<in> set ms. ?f t) = (\<Sum>k \<in> nat ` set ms. 2 ^ k)" by (simp add: sum.reindex[OF inj])
  have mem: "n \<in> nat ` set ms \<longleftrightarrow> int n \<in> set ms" for n using nn by (force simp: list_all_iff)
  have bits: "bit (\<Sum>t \<in> set ms. ?f t) n \<longleftrightarrow> int n \<in> set ms" for n
    unfolding S by (simp add: bit_sum_powers mem)
  have "(\<forall>n. bit m n \<longleftrightarrow> int n \<in> set ms) \<longleftrightarrow> m = (\<Sum>t \<in> set ms. ?f t)"
    using bits by (auto simp: bit_eq_iff)
  also have "\<dots> \<longleftrightarrow> distinct ms" using sum_set_le_sum_list[of ?f ms] m by auto
  finally show ?thesis .
qed

text \<open>
  The message-type mask of an accept term selects exactly the listed types if and only if
  the list has no repetition: \<^verbatim>\<open>_terms\<close> adds the bits up without the distinctness check that
  \<^verbatim>\<open>_msg_mask\<close> makes for a match tuple, so a repeated type selects another one.
\<close>

lemma term_mask_exact_iff_distinct:
  assumes "term_of known max_bytes item = Inr t" and "rt_msg_types item = Some ms"
  shows "(\<forall>n. bit (t_msg_mask t) n \<longleftrightarrow> int n \<in> set ms) \<longleftrightarrow> distinct ms"
proof -
  from assms have "sum_shifts ms = Inr (t_msg_mask t)" by (auto simp: term_of_def Let_def)
  then show ?thesis by (rule bit_sum_shifts)
qed

definition discover_term :: raw_term where
  "discover_term = \<lparr>rt_test = Some (lit ''eq_own''), rt_offset = Some 18, rt_msg_types = Some [1, 1],
     rt_field = Some (lit ''entity_id''), rt_doc = None\<rparr>"

text \<open>
  The message-type mask of a match tuple selects exactly the types the tuple lists, and
  nothing above the four-bit range.
\<close>

lemma tuple_mask_exact:
  assumes "msg_mask_of (Some (MsgList ms)) subtype = Inr m"
  shows "(\<forall>n. bit m n \<longleftrightarrow> Some (int n) \<in> set ms) \<and> 0 < m \<and> m \<le> 0xFFFF"
proof -
  obtain s where st: "subtype = Some s" using assms by (cases subtype) auto
  let ?ok = "\<lambda>x. case x of None \<Rightarrow> False | Some t \<Rightarrow> (0 :: int) \<le> t \<and> t \<le> 15"
  have ms: "ms \<noteq> []" "distinct ms" "list_all ?ok ms" and m: "sum_shifts (List.map_filter id ms) = Inr m"
    using assms unfolding st by (auto split: if_splits)
  define ts where "ts = map the ms"
  have some: "ms = map Some ts"
    using ms(3) unfolding ts_def by (induction ms) (auto split: option.splits)
  have f: "List.map_filter id (map Some ts) = ts" by (induction ts) (auto simp: List.map_filter_def)
  have ts: "distinct ts" "ts \<noteq> []" "\<forall>t \<in> set ts. 0 \<le> t \<and> t \<le> 15"
    using ms some by (auto simp: distinct_map list_all_iff)
  have bits: "bit m n \<longleftrightarrow> int n \<in> set ts" for n
    using bit_sum_shifts[of ts m] m ts(1) by (simp add: some f)
  have "m = take_bit 16 m"
    by (rule bit_eqI) (use bits ts(3) in \<open>auto simp: bit_take_bit_iff\<close>)
  then have "m < 2 ^ 16" "0 \<le> m" using take_bit_int_less_exp[of 16 m] take_bit_nonnegative[of 16 m] by simp_all
  moreover have "m \<noteq> 0" using bits[of "nat (hd ts)"] ts by (auto simp: hd_in_set)
  ultimately show ?thesis using bits by (auto simp: some)
qed

section \<open>Rings and memory regions\<close>

lemma power_of_two_exp: "power_of_two v \<Longrightarrow> \<exists>k. v = 2 ^ k"
proof (induction "nat v" arbitrary: v rule: less_induct)
  case less
  from less.prems have v: "0 < v" "v AND (v - 1) = 0" by (auto simp: power_of_two_def)
  show ?case
  proof (cases "even v")
    case True
    then obtain u where u: "v = 2 * u" by blast
    have "v AND (v - 1) = 2 * (u AND (u - 1))"
    proof -
      have "(v - 1) div 2 = u - 1" using u by presburger
      then show ?thesis by (subst and_rec) (use u in simp)
    qed
    then have "power_of_two u" "nat u < nat v" using v u by (auto simp: power_of_two_def)
    then obtain k where "u = 2 ^ k" using less.hyps by blast
    then show ?thesis using u by (intro exI[of _ "Suc k"]) simp
  next
    case False
    then obtain u where u: "v = 2 * u + 1" by (auto elim: oddE)
    have "v AND (v - 1) = 2 * (u AND u)" by (subst and_rec) (use u in simp)
    then have "v = 1" using v u by simp
    then show ?thesis by (intro exI[of _ 0]) simp
  qed
qed

lemma sorted_wrt_mset:
  assumes "\<And>x y. R x y \<Longrightarrow> R y x" and "mset xs = mset ys" and "sorted_wrt R xs"
  shows "sorted_wrt R ys"
  using assms(2,3)
proof (induction xs arbitrary: ys)
  case Nil
  then show ?case by simp
next
  case (Cons x xs)
  from Cons.prems(1) have "x \<in> set ys" by (metis list.set_intros(1) set_mset_mset)
  then obtain as bs where ys: "ys = as @ x # bs" by (meson split_list)
  then have m: "mset xs = mset (as @ bs)" using Cons.prems(1) by simp
  then have st: "set xs = set (as @ bs)" by (rule mset_eq_setD)
  have srt: "sorted_wrt R (as @ bs)" using Cons.IH[OF m] Cons.prems(2) by simp
  have "R x z \<and> R z x" if "z \<in> set (as @ bs)" for z using that Cons.prems(2) assms(1) st by auto
  with srt show ?case unfolding ys by (simp add: sorted_wrt_append)
qed

definition region_apart :: "int \<times> int \<Rightarrow> int \<times> int \<Rightarrow> bool" where
  "region_apart r q \<longleftrightarrow> snd r \<le> fst q \<or> snd q \<le> fst r"

definition span_region :: "span \<Rightarrow> int \<times> int" where
  "span_region sp = (fst sp, fst sp + 4 * fst (snd sp))"

definition regions :: "Contract \<Rightarrow> (int \<times> int) list" where
  "regions c = (0, REGISTER_SPACE_BYTES) # (pub_base c, pub_end c) # map span_region (ring_spans c)"

lemma check_ordered_sorted:
  "check_ordered sps = Inr () \<Longrightarrow> \<forall>sp \<in> set sps. 0 < fst (snd sp)
    \<Longrightarrow> sorted_wrt (\<lambda>s t. fst s + 4 * fst (snd s) \<le> fst t) sps"
proof (induction sps rule: check_ordered.induct)
  case (1 b0 w0 l0 b1 w1 l1 rest)
  then show ?case by (auto split: prod.splits)
qed auto

lemma ring_checked:
  assumes "check_rings c = Inr ()" and "sp \<in> set (ring_spans c)"
  shows "power_of_two (fst (snd sp))" "1 \<le> index_bits c" "fst (snd sp) \<le> 2 ^ nat (index_bits c - 1)"
    "fst sp mod (4 * fst (snd sp)) = 0" "REGISTER_SPACE_BYTES \<le> fst sp" "fst sp + 4 * fst (snd sp) \<le> window_bytes c"
proof -
  from assms have "check_ring c sp = Inr ()" by (simp add: check_rings_def)
  then have "power_of_two (fst (snd sp)) \<and> 1 \<le> index_bits c \<and> fst (snd sp) \<le> 2 ^ nat (index_bits c - 1)
    \<and> fst sp mod (4 * fst (snd sp)) = 0 \<and> REGISTER_SPACE_BYTES \<le> fst sp \<and> fst sp + 4 * fst (snd sp) \<le> window_bytes c"
    by (auto simp: check_ring_def Let_def py_shift1_def mult.commute split: prod.splits if_splits)
  then show "power_of_two (fst (snd sp))" "1 \<le> index_bits c" "fst (snd sp) \<le> 2 ^ nat (index_bits c - 1)"
    "fst sp mod (4 * fst (snd sp)) = 0" "REGISTER_SPACE_BYTES \<le> fst sp" "fst sp + 4 * fst (snd sp) \<le> window_bytes c"
    by blast+
qed

lemma rings_apart:
  assumes "check_rings c = Inr ()"
  shows "sorted_wrt region_apart (map span_region (ring_spans c))"
proof -
  have "0 < fst (snd sp)" if "sp \<in> set (ring_spans c)" for sp
    using ring_checked(1)[OF assms that] by (simp add: power_of_two_def)
  then have "sorted_wrt (\<lambda>s t. fst s + 4 * fst (snd s) \<le> fst t) (sort (ring_spans c))"
    using assms by (intro check_ordered_sorted) (auto simp: check_rings_def)
  then have "sorted_wrt (\<lambda>s t. region_apart (span_region s) (span_region t)) (sort (ring_spans c))"
    by (rule sorted_wrt_mono_rel[rotated]) (simp add: region_apart_def span_region_def)
  then have "sorted_wrt (\<lambda>s t. region_apart (span_region s) (span_region t)) (ring_spans c)"
    by (rule sorted_wrt_mset[rotated 2]) (auto simp: region_apart_def)
  then show ?thesis by (simp add: sorted_wrt_map)
qed

lemma check_contract_parts:
  assumes "check_contract c = Inr ()"
  shows "check_rings c = Inr ()" "check_channels c = Inr ()" "check_blocks c = Inr ()" "check_publication c = Inr ()"
    "1 \<le> interfaces c" "interfaces c \<le> 4"
  using assms by (auto simp: check_contract_def)

text \<open>
  Property C4. In an accepted contract the register space, the publication block and every ring
  occupy pairwise disjoint parts of the host window; the overlap test on neighbours of the sorted
  ring list is enough for all pairs.
\<close>

theorem memory_regions_disjoint:
  assumes "check_contract c = Inr ()"
  shows "sorted_wrt region_apart (regions c) \<and> (\<forall>r \<in> set (regions c). 0 \<le> fst r \<and> snd r \<le> window_bytes c)"
proof -
  note parts = check_contract_parts[OF assms]
  note ring = ring_checked[OF parts(1)]
  have pub: "REGISTER_SPACE_BYTES \<le> pub_base c" "pub_end c \<le> window_bytes c"
    and each: "\<forall>sp \<in> set (ring_spans c). \<not> (fst sp < pub_end c \<and> pub_base c < fst sp + 4 * fst (snd sp))"
    using parts(4) by (auto simp: check_publication_def case_prod_beta)
  have clear: "region_apart (pub_base c, pub_end c) (span_region sp)" if "sp \<in> set (ring_spans c)" for sp
    using each that by (auto simp: region_apart_def span_region_def)
  have evt: "(evt_base c, evt_words c, lit ''event ring'') \<in> set (ring_spans c)" by (simp add: ring_spans_def)
  have "0 < evt_words c" using ring(1)[OF evt] by (simp add: power_of_two_def)
  then have win: "REGISTER_SPACE_BYTES \<le> window_bytes c" using ring(5,6)[OF evt] by simp
  have rs: "region_apart (0, REGISTER_SPACE_BYTES) (span_region sp)"
    "0 \<le> fst (span_region sp)" "snd (span_region sp) \<le> window_bytes c" if "sp \<in> set (ring_spans c)" for sp
    using ring(5,6)[OF that] by (auto simp: region_apart_def span_region_def REGISTER_SPACE_BYTES_def)
  show ?thesis using rings_apart[OF parts(1)] pub clear win rs
    by (auto simp: regions_def region_apart_def[of "(0, _)"] REGISTER_SPACE_BYTES_def)
qed

lemma or_aligned:
  fixes b y :: int
  assumes "2 ^ n dvd b" "0 \<le> y" "y < 2 ^ n"
  shows "b OR y = b + y"
proof -
  have "take_bit n b = 0" "take_bit n y = y" using assms by (simp_all add: take_bit_eq_0_iff take_bit_int_eq_self)
  then have "\<not> (bit b k \<and> bit y k)" for k
    by (metis bit_0_eq bot_apply bot_bool_def bit_take_bit_iff)
  then have "b AND y = 0" by (intro bit_eqI) (simp add: bit_and_iff)
  then show ?thesis by (simp add: disjunctive_add_eq_or)
qed

text \<open>
  The ring sizes an accepted contract allows make the wrapping head and tail counters
  unambiguous: the difference of the truncated counters is the number of words in the ring, a
  truncated counter names the same slot as the full one, and a slot address is formed by masking and
  OR-ing because the ring is a power of two aligned to its size.
\<close>

lemma ring_counters_unambiguous:
  assumes "check_contract c = Inr ()" and "(b, w, l) \<in> set (ring_spans c)"
    and "tail \<le> head" and "head \<le> tail + w"
  shows "(head mod 2 ^ nat (index_bits c) - tail mod 2 ^ nat (index_bits c)) mod 2 ^ nat (index_bits c) = head - tail
    \<and> head mod 2 ^ nat (index_bits c) mod w = head mod w
    \<and> b OR push_bit 2 (head AND (w - 1)) = b + 4 * (head mod w)"
proof -
  note ring = ring_checked[OF check_contract_parts(1)[OF assms(1)] assms(2), simplified]
  obtain k where w: "w = 2 ^ k" using power_of_two_exp ring(1) by blast
  let ?n = "nat (index_bits c)"
  have "k \<le> nat (index_bits c - 1)" using ring(3) by (simp add: w)
  then have k: "k < ?n" using ring(2) by linarith
  then have dv: "w dvd 2 ^ ?n" by (simp add: w le_imp_power_dvd)
  have "w < 2 ^ ?n" using k by (simp add: w)
  then have "(head - tail) mod 2 ^ ?n = head - tail" using assms(3,4) by (intro mod_pos_pos_trivial) auto
  then have one: "(head mod 2 ^ ?n - tail mod 2 ^ ?n) mod 2 ^ ?n = head - tail" by (simp add: mod_diff_eq)
  have mask: "head AND (w - 1) = head mod w" by (simp add: w flip: take_bit_eq_mod take_bit_eq_mask mask_eq_exp_minus_1)
  have "2 ^ (k + 2) dvd b" using ring(4) by (simp add: w power_add dvd_eq_mod_eq_0 mult.commute)
  moreover have "0 \<le> head mod w" "head mod w < w" by (simp_all add: w)
  ultimately have "b OR (4 * (head mod w)) = b + 4 * (head mod w)"
    by (intro or_aligned[of "k + 2"]) (simp_all add: w power_add)
  then have "b OR push_bit 2 (head AND (w - 1)) = b + 4 * (head mod w)"
    unfolding mask by (simp add: push_bit_eq_mult mult.commute)
  with one show ?thesis by (simp add: mod_mod_cancel[OF dv])
qed

section \<open>Classification\<close>

record frame =
  fr_dst :: int
  fr_ethertype :: int
  fr_subtype :: int
  fr_msg :: nat

text \<open>The filter rule of the contract: a tuple matches destination, EtherType, subtype and message type.\<close>

definition tuple_matches :: "int \<Rightarrow> frame \<Rightarrow> Match \<Rightarrow> bool" where
  "tuple_matches own fr m \<longleftrightarrow> m_ethertype m = fr_ethertype fr
     \<and> (case m_subtype m of None \<Rightarrow> True | Some s \<Rightarrow> s = fr_subtype fr) \<and> bit (m_msg_mask m) (fr_msg fr)
     \<and> fr_dst fr = (if m_dst m = lit ''own'' then own else m_mac m)"

definition channel_takes :: "int \<Rightarrow> frame \<Rightarrow> Channel \<Rightarrow> bool" where
  "channel_takes own fr ch = list_ex (tuple_matches own fr) (ch_tuples ch)"

definition tuple_keys :: "Channel \<Rightarrow> claim list" where
  "tuple_keys ch = map (\<lambda>m. (m_ethertype m, m_subtype m)) (ch_tuples ch)"

definition claims_apart :: "Channel \<Rightarrow> Channel \<Rightarrow> bool" where
  "claims_apart a b \<longleftrightarrow> (\<forall>m \<in> set (ch_tuples b). \<forall>key \<in> set (tuple_keys a). \<not> clashes m key)"

lemma claims_scan:
  "foldE (claim_step c) chs [] = Inr claims \<longleftrightarrow> claims = concat (map tuple_keys chs) \<and> sorted_wrt claims_apart chs
    \<and> (\<forall>ch \<in> set chs. \<forall>m \<in> set (ch_tuples ch). m_ethertype m \<notin> set (tpids c))"
proof (induction chs arbitrary: claims rule: rev_induct)
  case Nil
  then show ?case by auto
next
  case (snoc ch chs)
  have "foldE (claim_step c) (chs @ [ch]) [] = Inr claims \<longleftrightarrow>
      (\<exists>old. foldE (claim_step c) chs [] = Inr old \<and> claim_step c ch old = Inr claims)"
    by (simp add: foldE_snoc)
  also have "\<dots> \<longleftrightarrow> sorted_wrt claims_apart chs \<and> (\<forall>ch \<in> set chs. \<forall>m \<in> set (ch_tuples ch). m_ethertype m \<notin> set (tpids c))
      \<and> claim_step c ch (concat (map tuple_keys chs)) = Inr claims"
    by (auto simp: snoc.IH)
  also have "claim_step c ch (concat (map tuple_keys chs)) = Inr claims \<longleftrightarrow>
      claims = concat (map tuple_keys (chs @ [ch])) \<and> (\<forall>a \<in> set chs. claims_apart a ch)
      \<and> (\<forall>m \<in> set (ch_tuples ch). m_ethertype m \<notin> set (tpids c))"
    by (auto simp: claim_step_def claim_tuple_def claims_apart_def tuple_keys_def list_ex_iff)
  finally show ?case by (auto simp: sorted_wrt_append)
qed

lemma same_frame_clashes:
  assumes "tuple_matches own fr m" "tuple_matches own' fr m'"
  shows "clashes m (m_ethertype m', m_subtype m')"
  using assms by (auto simp: tuple_matches_def clashes_def split: option.splits)

text \<open>
  Property C8. No frame classifies into two channels of an accepted contract, whatever the receiving
  interfaces' own addresses are, and a frame that starts with a VLAN tag reaches no channel at all.
\<close>

theorem classification_unambiguous:
  assumes "check_contract c = Inr ()"
  shows "(\<forall>j < length (channels c). \<forall>i < j. \<not> (channel_takes own fr (channels c ! i) \<and> channel_takes own' fr (channels c ! j)))
    \<and> (fr_ethertype fr \<in> set (tpids c) \<longrightarrow> (\<forall>ch \<in> set (channels c). \<not> channel_takes own fr ch))"
proof -
  from check_contract_parts(2)[OF assms(1)] obtain claims where "foldE (claim_step c) (channels c) [] = Inr claims"
    by (auto simp: check_channels_def Let_def)
  note scan = this[unfolded claims_scan]
  have "\<not> (channel_takes own fr (channels c ! i) \<and> channel_takes own' fr (channels c ! j))" if "i < j" "j < length (channels c)" for i j
  proof -
    have "claims_apart (channels c ! i) (channels c ! j)" using scan that by (auto simp: sorted_wrt_iff_nth_less)
    then show ?thesis using same_frame_clashes by (force simp: channel_takes_def claims_apart_def tuple_keys_def list_ex_iff)
  qed
  moreover have "\<forall>ch \<in> set (channels c). \<forall>m \<in> set (ch_tuples ch). m_ethertype m \<notin> set (tpids c)" using scan by blast
  then have "fr_ethertype fr \<in> set (tpids c) \<longrightarrow> (\<forall>ch \<in> set (channels c). \<not> channel_takes own fr ch)"
    by (fastforce simp: channel_takes_def list_ex_iff tuple_matches_def)
  ultimately show ?thesis by blast
qed

section \<open>Register addresses\<close>

definition block_addresses :: "Contract \<Rightarrow> block \<Rightarrow> int list" where
  "block_addresses c blk = (case blk of (kind, base, stride, regs, n) \<Rightarrow>
     concat (map (\<lambda>k. map (register_at c kind base stride k) regs) (map int [0..<nat n])))"

definition register_map :: "Contract \<Rightarrow> int list" where
  "register_map c = map r_offset (registers c) @ concat (map (block_addresses c) (register_blocks c))"

lemma foldE_map: "foldE f (map g xs) = foldE (\<lambda>x. f (g x)) xs"
proof
  show "foldE f (map g xs) s = foldE (\<lambda>x. f (g x)) xs s" for s
  proof (induction xs arbitrary: s)
    case (Cons x xs)
    then show ?case by (cases "f (g x) s") auto
  qed simp
qed

lemma foldE_concat: "foldE f (concat xss) s = foldE (foldE f) xss s"
proof (induction xss arbitrary: s)
  case (Cons xs xss)
  then show ?case by (cases "foldE f xs s") (auto simp: foldE_append)
qed simp

lemma place_all:
  "foldE place_register ats placed = Inr out \<longleftrightarrow>
     out = rev ats @ placed \<and> distinct ats \<and> set ats \<inter> set placed = {} \<and> (\<forall>a \<in> set ats. a < REGISTER_SPACE_BYTES)"
proof (induction ats arbitrary: placed)
  case Nil
  then show ?case by auto
next
  case (Cons a ats)
  have "foldE place_register (a # ats) placed = Inr out \<longleftrightarrow>
      a < REGISTER_SPACE_BYTES \<and> a \<notin> set placed \<and> foldE place_register ats (a # placed) = Inr out"
    by (auto simp: place_register_def)
  then show ?case unfolding Cons.IH by auto
qed

lemma place_block_Inr:
  assumes "place_block c blk placed = Inr out"
  shows "foldE place_register (block_addresses c blk) placed = Inr out"
  using assms unfolding place_block_def block_addresses_def
  by (auto simp: foldE_concat foldE_map split: prod.splits)

lemma place_blocks_Inr:
  "foldE (place_block c) blks placed = Inr out
    \<Longrightarrow> foldE place_register (concat (map (block_addresses c) blks)) placed = Inr out"
proof (induction blks arbitrary: placed)
  case (Cons b blks)
  then obtain t where "place_block c b placed = Inr t" "foldE (place_block c) blks t = Inr out" by auto
  with Cons.IH place_block_Inr show ?case by (fastforce simp: foldE_append)
qed simp

lemma registers_scan:
  assumes "foldE (register_step limit) raw ([], []) = Inr (regs, seen)"
  shows "seen = map r_offset regs \<and> distinct seen \<and> (\<forall>r \<in> set regs. r_offset r mod 4 = 0 \<and> 0 \<le> r_offset r \<and> r_offset r < limit
    \<and> r_access r \<in> set ACCESS_KINDS \<and> list_all in_word (r_fields r) \<and> sorted_wrt field_apart (r_fields r))"
  using assms
proof (induction raw arbitrary: regs seen rule: rev_induct)
  case Nil
  then show ?case by simp
next
  case (snoc item raw)
  then obtain rs sn where ih: "foldE (register_step limit) raw ([], []) = Inr (rs, sn)"
    and st: "register_step limit item (rs, sn) = Inr (regs, seen)" by (auto simp: foldE_snoc)
  from st obtain name off acc fs where
    "regs = rs @ [\<lparr>r_name = name, r_offset = off, r_access = acc, r_doc = doc_of (rr_doc item), r_fields = fs\<rparr>]"
    "seen = sn @ [off]" "off \<notin> set sn" "4 dvd off" "0 \<le> off" "off < limit" "acc \<in> set ACCESS_KINDS"
    "list_all in_word fs" "sorted_wrt field_apart fs"
    by (auto simp: register_step_def fields_of_Inr_iff not_less not_le)
  with snoc.IH[OF ih] show ?case by auto
qed

lemma registers_of_Inr:
  assumes "registers_of raw limit = Inr regs"
  shows "distinct (map r_offset regs)" "\<forall>r \<in> set regs. 0 \<le> r_offset r \<and> r_offset r < limit"
  using assms registers_scan by (fastforce simp: registers_of_def)+

lemma read_contract_registers:
  assumes "read_contract raw = Inr c"
  obtains rr where "register_space rr = Inr (registers c)"
  using assms unfolding read_contract_def by auto

text \<open>
  After \<^verbatim>\<open>load\<close> accepts a document, the global registers and every register of every
  interface, filter, bound-talker and channel block stand at pairwise distinct addresses below the
  end of the register space.
\<close>

lemma register_addresses_distinct:
  assumes "load raw = Inr c"
  shows "distinct (register_map c) \<and> (\<forall>a \<in> set (register_map c). a < REGISTER_SPACE_BYTES)"
proof -
  from assms have rd: "read_contract raw = Inr c" and ck: "check_contract c = Inr ()" by (auto simp: load_def)
  from rd obtain rr where "register_space rr = Inr (registers c)" by (rule read_contract_registers)
  note regs = registers_of_Inr[OF this[unfolded register_space_def]]
  from check_contract_parts(3)[OF ck] obtain out
    where "foldE (place_block c) (register_blocks c) (map r_offset (registers c)) = Inr out"
    by (auto simp: check_blocks_def)
  note place_blocks_Inr[OF this, unfolded place_all]
  with regs show ?thesis by (auto simp: register_map_def simp del: concat_map_singleton)
qed

section \<open>A small contract\<close>

definition sample_raw :: raw_contract where
  "sample_raw = \<lparr>
     rk_version = Some (Some 2, Some 3), rk_magic = Some 0x4D42, rk_window_bytes = Some 0x2000, rk_interfaces = Some 1,
     rk_timers = Some 16, rk_tick_ms = Some 10, rk_index_bits = Some 16,
     rk_registers = Some [\<lparr>rr_name = Some (lit ''ID''), rr_offset = Some 0, rr_access = Some (lit ''ro''), rr_doc = None, rr_fields = Some [\<lparr>rf_name = Some (lit ''MINOR''), rf_lsb = Some 0, rf_width = Some 8, rf_doc = None\<rparr>, \<lparr>rf_name = Some (lit ''MAJOR''), rf_lsb = Some 8, rf_width = Some 8, rf_doc = None\<rparr>]\<rparr>,
       \<lparr>rr_name = Some (lit ''IRQ''), rr_offset = Some 4, rr_access = Some (lit ''rw1c''), rr_doc = None, rr_fields = Some [\<lparr>rf_name = Some (lit ''RX''), rf_lsb = Some 0, rf_width = Some 8, rf_doc = None\<rparr>]\<rparr>],
     rk_interface_registers = Some \<lparr>bk_base = Some 256, bk_stride = Some 32, bk_entry_stride = None, bk_registers = Some [\<lparr>rr_name = Some (lit ''GM''), rr_offset = Some 0, rr_access = Some (lit ''ro''), rr_doc = None, rr_fields = Some [\<lparr>rf_name = Some (lit ''LO''), rf_lsb = Some 0, rf_width = Some 32, rf_doc = None\<rparr>]\<rparr>]\<rparr>,
     rk_interface_filter_registers = Some \<lparr>bk_base = Some 320, bk_stride = Some 32, bk_entry_stride = None, bk_registers = Some [\<lparr>rr_name = Some (lit ''OWN_MAC''), rr_offset = Some 0, rr_access = Some (lit ''rw''), rr_doc = None, rr_fields = Some [\<lparr>rf_name = Some (lit ''LO''), rf_lsb = Some 0, rf_width = Some 32, rf_doc = None\<rparr>]\<rparr>]\<rparr>,
     rk_interface_bound_registers = Some \<lparr>bk_base = Some 512, bk_stride = Some 64, bk_entry_stride = Some 8, bk_registers = Some [\<lparr>rr_name = Some (lit ''BOUND''), rr_offset = Some 0, rr_access = Some (lit ''rw''), rr_doc = None, rr_fields = Some [\<lparr>rf_name = Some (lit ''EID''), rf_lsb = Some 0, rf_width = Some 32, rf_doc = None\<rparr>]\<rparr>]\<rparr>,
     rk_bound_talkers = Some 4, rk_publication = Some (Some 2, Some 2),
     rk_interface_publication_registers = Some \<lparr>pk_base = Some 0x600, pk_stride = Some 0x100, pk_source_base = Some 0x20,
       pk_source_stride = Some 0x10, pk_sink_base = Some 0x40, pk_sink_stride = Some 0x10,
       pk_registers = Some [\<lparr>rr_name = Some (lit ''PUB''), rr_offset = Some 0, rr_access = Some (lit ''rw''), rr_doc = None, rr_fields = Some [\<lparr>rf_name = Some (lit ''V''), rf_lsb = Some 0, rf_width = Some 1, rf_doc = None\<rparr>]\<rparr>], pk_source_registers = Some [], pk_sink_registers = Some []\<rparr>,
     rk_channel_registers = Some \<lparr>bk_base = Some 768, bk_stride = Some 32, bk_entry_stride = None, bk_registers = Some [\<lparr>rr_name = Some (lit ''CH_CTL''), rr_offset = Some 0, rr_access = Some (lit ''rw''), rr_doc = None, rr_fields = Some [\<lparr>rf_name = Some (lit ''EN''), rf_lsb = Some 0, rf_width = Some 1, rf_doc = None\<rparr>]\<rparr>]\<rparr>,
     rk_event_ring = Some \<lparr>rg_base = Some 0x800, rg_words = Some 64\<rparr>,
     rk_rx_frame = Some \<lparr>rd_kind = Some 1, rd_words = None, rd_header = Some [\<lparr>rw_index = Some 0, rw_fields = Some [\<lparr>rf_name = Some (lit ''LEN''), rf_lsb = Some 0, rf_width = Some 16, rf_doc = None\<rparr>]\<rparr>, \<lparr>rw_index = Some 1, rw_fields = Some [\<lparr>rf_name = Some (lit ''MS''), rf_lsb = Some 0, rf_width = Some 32, rf_doc = None\<rparr>]\<rparr>], rd_doc = None\<rparr>,
     rk_tx_frame = Some \<lparr>rd_kind = Some 2, rd_words = None, rd_header = Some [\<lparr>rw_index = Some 1, rw_fields = Some [\<lparr>rf_name = Some (lit ''MS''), rf_lsb = Some 0, rf_width = Some 32, rf_doc = None\<rparr>]\<rparr>, \<lparr>rw_index = Some 0, rw_fields = Some [\<lparr>rf_name = Some (lit ''LEN''), rf_lsb = Some 0, rf_width = Some 16, rf_doc = None\<rparr>]\<rparr>], rd_doc = None\<rparr>,
     rk_event = Some \<lparr>rd_kind = None, rd_words = Some 4, rd_header = Some [\<lparr>rw_index = Some 0, rw_fields = Some [\<lparr>rf_name = Some (lit ''TYPE''), rf_lsb = Some 0, rf_width = Some 8, rf_doc = None\<rparr>]\<rparr>], rd_doc = None\<rparr>,
     rk_records = True,
     rk_event_types = Some [\<lparr>rv_name = Some (lit ''TIMER''), rv_value = Some 1, rv_doc = None, rv_words = Some [\<lparr>rw_index = Some 1, rw_fields = Some [\<lparr>rf_name = Some (lit ''TAG''), rf_lsb = Some 0, rf_width = Some 16, rf_doc = None\<rparr>]\<rparr>]\<rparr>],
     rk_filter = Some \<lparr>fl_tests = Some [\<lparr>ra_name = Some (lit ''none''), ra_value = Some 0, ra_doc = None\<rparr>, \<lparr>ra_name = Some (lit ''eq_own''), ra_value = Some 2, ra_doc = None\<rparr>], fl_max_terms = Some 3, fl_max_tuples = Some 2,
       fl_ethertype_byte = Some 12, fl_subtype_byte = Some 14, fl_msg_type_byte = Some 15, fl_dst_byte = Some 0,
       fl_tpids = Some [0x8100, 0x88A8], fl_dsts = Some [\<lparr>ra_name = Some (lit ''none''), ra_value = Some 0, ra_doc = None\<rparr>, \<lparr>ra_name = Some (lit ''mac''), ra_value = Some 1, ra_doc = None\<rparr>, \<lparr>ra_name = Some (lit ''own''), ra_value = Some 2, ra_doc = None\<rparr>],
       fl_tmr_ops = Some [\<lparr>ra_name = Some (lit ''arm''), ra_value = Some 1, ra_doc = None\<rparr>]\<rparr>,
     rk_channels = Some [
       \<lparr>rc_name = Some (lit ''acmp''), rc_rx = Some \<lparr>rg_base = Some 4608, rg_words = Some 64\<rparr>, rc_tx = Some \<lparr>rg_base = Some 4352, rg_words = Some 32\<rparr>,
         rc_rate = Some \<lparr>rb_burst = Some 8, rb_refill_ms = Some 10\<rparr>, rc_max_frame_bytes = Some 128,
         rc_accept = Some [\<lparr>rt_test = Some (lit ''eq_own''), rt_offset = Some 18, rt_msg_types = None, rt_field = None, rt_doc = None\<rparr>],
         rc_id = Some 1, rc_match = Some [\<lparr>rm_dst = Some (DstText (lit ''own'')), rm_ethertype = Some 8944, rm_subtype = Some 0xFC, rm_msg_types = None, rm_doc = None\<rparr>],
         rc_cite = Some (lit ''cite'')\<rparr>,
       \<lparr>rc_name = Some (lit ''adp''), rc_rx = Some \<lparr>rg_base = Some 4096, rg_words = Some 64\<rparr>, rc_tx = Some \<lparr>rg_base = Some 4480, rg_words = Some 32\<rparr>,
         rc_rate = Some \<lparr>rb_burst = Some 8, rb_refill_ms = Some 10\<rparr>, rc_max_frame_bytes = Some 128,
         rc_accept = Some [\<lparr>rt_test = Some (lit ''eq_own''), rt_offset = Some 18, rt_msg_types = None, rt_field = None, rt_doc = None\<rparr>],
         rc_id = Some 0, rc_match = Some [\<lparr>rm_dst = Some (DstInt 0x91E0F0010000), rm_ethertype = Some 8944, rm_subtype = Some 0xFA, rm_msg_types = Some (MsgList [Some 2]), rm_doc = None\<rparr>],
         rc_cite = Some (lit ''cite'')\<rparr>]\<rparr>"

definition sample_contract :: Contract where
  "sample_contract = projr (load sample_raw)"

lemma sample_loads: "load sample_raw = Inr sample_contract"
  by code_simp

lemma sample_checked: "check_contract sample_contract = Inr ()"
  using sample_loads by (auto simp: load_def)

lemma sample_facts:
  "window_bytes sample_contract = 0x2000" "index_bits sample_contract = 16" "length (channels sample_contract) = 2"
  "(0x1200, 64, lit ''acmp rx'') \<in> set (ring_spans sample_contract)"
  "register_map sample_contract = [0, 4, 0x100, 0x140, 0x200, 0x208, 0x210, 0x218, 0x300, 0x320]"
  by code_simp+

theorem memory_regions_disjoint_witness:
  "check_contract sample_contract = Inr () \<and> sorted_wrt region_apart (regions sample_contract)
    \<and> regions sample_contract ! 1 = (0x600, 0x700)"
proof -
  have "regions sample_contract ! 1 = (0x600, 0x700)" by code_simp
  with memory_regions_disjoint[OF sample_checked] sample_checked show ?thesis by blast
qed

theorem classification_unambiguous_witness:
  "channel_takes 7 \<lparr>fr_dst = 0x91E0F0010000, fr_ethertype = 0x22F0, fr_subtype = 0xFA, fr_msg = 2\<rparr> (channels sample_contract ! 0)
    \<and> \<not> channel_takes 7 \<lparr>fr_dst = 0x91E0F0010000, fr_ethertype = 0x22F0, fr_subtype = 0xFA, fr_msg = 2\<rparr> (channels sample_contract ! 1)"
proof -
  let ?fr = "\<lparr>fr_dst = 0x91E0F0010000, fr_ethertype = 0x22F0, fr_subtype = 0xFA, fr_msg = 2\<rparr>"
  have "channel_takes 7 ?fr (channels sample_contract ! 0)" by code_simp
  moreover have "\<forall>j < length (channels sample_contract). \<forall>i < j. \<not> (channel_takes 7 ?fr (channels sample_contract ! i)
      \<and> channel_takes 7 ?fr (channels sample_contract ! j))" using classification_unambiguous[OF sample_checked, of 7 ?fr 7] by blast
  ultimately show ?thesis by (fastforce simp: sample_facts)
qed

section \<open>Generated constants\<close>

lemma tuples_scan:
  assumes "foldE tuple_step raw [] = Inr ts"
  shows "length ts = length raw \<and> (\<forall>m \<in> set ts. m_dst m \<in> {lit ''mac'', lit ''own''} \<and> 0 \<le> m_mac m)"
  using assms
proof (induction raw arbitrary: ts rule: rev_induct)
  case Nil
  then show ?case by simp
next
  case (snoc item raw)
  then obtain us where ih: "foldE tuple_step raw [] = Inr us" and st: "tuple_step item us = Inr ts" by (auto simp: foldE_snoc)
  from st obtain m where "ts = us @ [m]" "m_dst m \<in> {lit ''mac'', lit ''own''}" "0 \<le> m_mac m"
    by (auto simp: tuple_step_def Let_def split: if_splits raw_dst.splits)
  with snoc.IH[OF ih] show ?case by auto
qed

definition channel_ready :: "Contract \<Rightarrow> Channel \<Rightarrow> bool" where
  "channel_ready c ch \<longleftrightarrow> (\<forall>t \<in> set (ch_terms ch). t_test t \<in> fst ` set (tests c))
     \<and> (\<forall>m \<in> set (ch_tuples ch). m_dst m \<in> {lit ''mac'', lit ''own''} \<and> 0 \<le> m_mac m)
     \<and> int (length (ch_terms ch)) \<le> max_terms c \<and> int (length (ch_tuples ch)) \<le> max_tuples c"

lemma channel_of_ready:
  assumes "channel_of item (map fst (tests c)) (max_terms c) (max_tuples c) = Inr ch"
  shows "channel_ready c ch"
proof -
  from assms obtain mb raw_terms raw_tuples where
    terms: "mapE (term_of (map fst (tests c)) mb) raw_terms = Inr (ch_terms ch)" and cnt: "int (length (ch_terms ch)) \<le> max_terms c"
    "int (length raw_tuples) \<le> max_tuples c" and tuples: "foldE tuple_step raw_tuples [] = Inr (ch_tuples ch)"
    by (auto simp: channel_of_def terms_of_def tuples_of_def not_less)
  have "t_test t \<in> fst ` set (tests c)" if "t \<in> set (ch_terms ch)" for t
  proof -
    from mapE_mem[OF terms that] obtain r where "term_of (map fst (tests c)) mb r = Inr t" by blast
    then show ?thesis by (force simp: term_of_def Let_def)
  qed
  with cnt tuples_scan[OF tuples] show ?thesis by (simp add: channel_ready_def)
qed

lemma read_contract_channels:
  assumes "read_contract raw = Inr c"
  obtains rcs cs where "mapE (\<lambda>item. channel_of item (map fst (tests c)) (max_terms c) (max_tuples c)) rcs = Inr cs"
    "channels c = sort_key ch_ident cs"
  using assms unfolding read_contract_def by auto

lemma loaded_channels_ready:
  assumes "load raw = Inr c" and "ch \<in> set (channels c)"
  shows "channel_ready c ch"
proof -
  from assms(1) have "read_contract raw = Inr c" by (auto simp: load_def)
  then obtain rcs cs where cs: "mapE (\<lambda>item. channel_of item (map fst (tests c)) (max_terms c) (max_tuples c)) rcs = Inr cs"
    "channels c = sort_key ch_ident cs" by (rule read_contract_channels)
  then obtain i where "i < length cs" "ch = cs ! i" using assms(2) by (auto simp: in_set_conv_nth)
  with mapE_nth[OF cs(1), of i] mapE_length[OF cs(1)] show ?thesis by (intro channel_of_ready) simp
qed

lemma table_value_total: "key \<in> fst ` set rows \<Longrightarrow> \<exists>v. table_value rows key = Inr v"
proof -
  let ?rows = "rev (map (\<lambda>(name, value, doc). (name, value)) rows)"
  assume "key \<in> fst ` set rows"
  moreover have "fst ` set ?rows = fst ` set rows" by (simp add: image_image case_prod_beta)
  ultimately have "map_of ?rows key \<noteq> None" by (simp only: map_of_eq_None_iff not_not)
  then show ?thesis by (auto simp: table_value_def)
qed

lemma tables_of_checked:
  assumes "check_contract c = Inr ()"
  shows "lit ''none'' \<in> fst ` set (tests c)" "{lit ''none'', lit ''mac'', lit ''own''} \<subseteq> fst ` set (dsts c)"
proof -
  have "tests c \<noteq> []" "fst (tests c ! 0) = lit ''none''" using assms by (auto simp: check_contract_def)
  then show "lit ''none'' \<in> fst ` set (tests c)" by (metis image_eqI length_greater_0_conv nth_mem)
  have d: "map (\<lambda>(name, value, doc). (name, value)) (dsts c) = [(lit ''none'', 0), (lit ''mac'', 1), (lit ''own'', 2)]"
    using assms by (auto simp: check_contract_def)
  have "map fst (dsts c) = map fst (map (\<lambda>(name, value, doc). (name, value)) (dsts c))" by (simp add: case_prod_beta)
  also have "\<dots> = [lit ''none'', lit ''mac'', lit ''own'']" unfolding d by simp
  finally have "set (map fst (dsts c)) = {lit ''none'', lit ''mac'', lit ''own''}" by simp
  then show "{lit ''none'', lit ''mac'', lit ''own''} \<subseteq> fst ` set (dsts c)" by simp
qed

lemma channel_constants_total:
  assumes "load raw = Inr c"
  shows "\<exists>ks. channel_constants c = Inr ks"
proof -
  note tab = tables_of_checked[of c]
  have ck: "check_contract c = Inr ()" using assms by (auto simp: load_def)
  have "\<exists>ks. one_channel_constants c ch = Inr ks" if "ch \<in> set (channels c)" for ch
  proof -
    note rdy = loaded_channels_ready[OF assms that, unfolded channel_ready_def]
    have "\<exists>x. tuple_constants c ch k = Inr x" for k
    proof -
      let ?m = "if k < length (ch_tuples ch) then ch_tuples ch ! k else unused_tuple"
      have "m_dst ?m \<in> {lit ''none'', lit ''mac'', lit ''own''}" using rdy nth_mem[of k "ch_tuples ch"]
        by (auto simp: unused_tuple_def)
      then obtain v where "table_value (dsts c) (m_dst ?m) = Inr v" using tab(2)[OF ck] table_value_total by blast
      then show ?thesis unfolding tuple_constants_def Let_def by simp
    qed
    moreover have "\<exists>x. term_constants c ch k = Inr x" for k
    proof -
      let ?t = "if k < length (ch_terms ch) then ch_terms ch ! k else unused_term"
      have "t_test ?t \<in> fst ` set (tests c)" using rdy nth_mem[of k "ch_terms ch"] tab(1)[OF ck]
        by (cases "k < length (ch_terms ch)") (simp_all add: unused_term_def)
      then obtain v where "table_value (tests c) (t_test ?t) = Inr v" using table_value_total by blast
      then show ?thesis unfolding term_constants_def Let_def by simp
    qed
    ultimately show ?thesis unfolding one_channel_constants_def concatE_total_iff by auto
  qed
  then show ?thesis unfolding channel_constants_def concatE_total_iff by auto
qed

lemma names_once:
  "foldE name_once ks used =
     (if distinct (map k_name ks) \<and> set (map k_name ks) \<inter> set used = {} then Inr (rev (map k_name ks) @ used)
      else Inl (Refused ConstantTwice))"
proof (induction ks arbitrary: used)
  case (Cons k ks)
  then show ?case by (auto simp: name_once_def refuse_if_def ensure_def)
qed simp

text \<open>
  For a loaded contract the only way \<^verbatim>\<open>constants\<close> can fail is its own refusal of a
  repeated name: the destination and test tables always hold the names the channels use, the padding
  included. It returns exactly when all generated names differ.
\<close>

lemma constants_outcome:
  assumes "load raw = Inr c"
  shows "\<exists>chans. channel_constants c = Inr chans \<and>
    constants c = (let out = head_constants c @ register_constants c @ record_constants c @ chans in
      if distinct (map k_name out) then Inr out else Inl (Refused ConstantTwice))"
proof -
  from channel_constants_total[OF assms] obtain chans where ch: "channel_constants c = Inr chans" by blast
  then show ?thesis by (intro exI[of _ chans]) (simp add: constants_def names_once Let_def)
qed

definition value_of :: "Constant list \<Rightarrow> pystr \<Rightarrow> int option" where
  "value_of ks name = map_of (map (\<lambda>k. (k_name k, k_value k)) ks) name"

lemma value_of_mem:
  "distinct (map k_name ks) \<Longrightarrow> const name v d h \<in> set ks \<Longrightarrow> value_of ks name = Some v"
  unfolding value_of_def by (intro map_of_is_SomeI) (force simp: comp_def const_def)+

lemma reg_constants_mem:
  assumes "r \<in> set regs"
  shows "const (lit p @ r_name r) (r_offset r) (r_doc r) True \<in> set (reg_constants p regs)"
    "f \<in> set (r_fields r) \<Longrightarrow> const (r_name r @ lit ''_'' @ f_name f @ lit ''_LSB'') (f_lsb f) (r_name r @ lit '': '' @ f_doc f) False
       \<in> set (reg_constants p regs)"
    "f \<in> set (r_fields r) \<Longrightarrow> const (r_name r @ lit ''_'' @ f_name f @ lit ''_WIDTH'') (f_width f) (r_name r @ lit '': '' @ f_doc f) False
       \<in> set (reg_constants p regs)"
  using assms by (auto simp: reg_constants_def field_constants_def)

lemma concatE_part:
  "concatE rs = Inr out \<Longrightarrow> Inr b \<in> set rs \<Longrightarrow> set b \<subseteq> set out"
  by (induction rs arbitrary: out) auto

text \<open>Every part of one channel's constants, the ring words and each tuple and term slot, is in the list.\<close>

lemma channel_part:
  assumes "channel_constants c = Inr chans" and "ch \<in> set (channels c)"
    and part: "part \<in> set (Inr (ring_constants ch) # map (tuple_constants c ch) [0..<nat (max_tuples c)]
      @ map (term_constants c ch) [0..<nat (max_terms c)])"
  obtains ks where "part = Inr ks" "set ks \<subseteq> set chans"
proof -
  let ?parts = "Inr (ring_constants ch) # map (tuple_constants c ch) [0..<nat (max_tuples c)]
      @ map (term_constants c ch) [0..<nat (max_terms c)]"
  have "\<exists>b. concatE (map (one_channel_constants c) (channels c)) = Inr b"
    using assms(1) by (simp add: channel_constants_def)
  then obtain b where b: "one_channel_constants c ch = Inr b"
    unfolding concatE_total_iff using assms(2) by auto
  then have "Inr b \<in> set (map (one_channel_constants c) (channels c))" using assms(2) by (metis image_eqI list.set_map)
  then have sub: "set b \<subseteq> set chans" using assms(1) unfolding channel_constants_def by (intro concatE_part)
  have parts: "\<exists>b. concatE ?parts = Inr b" using b by (simp only: one_channel_constants_def) blast
  then obtain ks where ks: "part = Inr ks" using part unfolding concatE_total_iff by blast
  then have "set ks \<subseteq> set b" using b part unfolding one_channel_constants_def
    by (intro concatE_part[of ?parts]) simp_all
  with sub show ?thesis by (intro that[OF ks]) auto
qed

section \<open>What the list carries\<close>

text \<open>A register block: the offset of every register under its prefix, and the position and width of every bit field.\<close>

definition regs_carried :: "Constant list \<Rightarrow> string \<times> Register list \<Rightarrow> bool" where
  "regs_carried ks blk \<longleftrightarrow> (\<forall>r \<in> set (snd blk). value_of ks (lit (fst blk) @ r_name r) = Some (r_offset r)
     \<and> (\<forall>f \<in> set (r_fields r). value_of ks (r_name r @ lit ''_'' @ f_name f @ lit ''_LSB'') = Some (f_lsb f)
         \<and> value_of ks (r_name r @ lit ''_'' @ f_name f @ lit ''_WIDTH'') = Some (f_width f)))"

definition register_groups :: "Contract \<Rightarrow> (string \<times> Register list) list" where
  "register_groups c = [(''REG_'', registers c), (''IF_REG_'', if_registers c), (''IFF_REG_'', iff_registers c),
     (''BND_REG_'', bnd_registers c), (''PUB_REG_'', pub_registers c), (''PUB_SRC_REG_'', pub_source_registers c),
     (''PUB_SINK_REG_'', pub_sink_registers c), (''CH_REG_'', ch_registers c)]"

definition block_placement :: "Contract \<Rightarrow> (string \<times> int) list" where
  "block_placement c = [(''IF_BASE'', if_base c), (''IF_STRIDE'', if_stride c), (''IFF_BASE'', iff_base c), (''IFF_STRIDE'', iff_stride c),
     (''BND_BASE'', bnd_base c), (''BND_STRIDE'', bnd_stride c), (''BND_ENTRY_STRIDE'', bnd_entry_stride c),
     (''PUB_BASE'', pub_base c), (''PUB_STRIDE'', pub_stride c), (''PUB_SRC_BASE'', pub_source_base c),
     (''PUB_SRC_STRIDE'', pub_source_stride c), (''PUB_SINK_BASE'', pub_sink_base c), (''PUB_SINK_STRIDE'', pub_sink_stride c),
     (''CH_BASE'', ch_base c), (''CH_STRIDE'', ch_stride c), (''EVT_BASE'', evt_base c), (''EVT_WORDS'', evt_words c)]"

text \<open>
  A match tuple of a channel: the numeric code of its destination kind, an address that recombines from its
  halves, EtherType, subtype and message types. A slot past the last tuple selects nothing.
\<close>

definition tuple_carried :: "Contract \<Rightarrow> Constant list \<Rightarrow> Channel \<Rightarrow> nat \<Rightarrow> bool" where
  "tuple_carried c ks ch k \<longleftrightarrow>
     (let at = (\<lambda>name. value_of ks (lit ''CH_'' @ upper (ch_name ch) @ lit ''_M'' @ dec_nat k @ lit name)) in
      if k < length (ch_tuples ch) then
        (let m = ch_tuples ch ! k in
         (\<exists>v doc. (m_dst m, v, doc) \<in> set (dsts c) \<and> at ''_DST'' = Some v)
         \<and> (\<exists>hi lo. at ''_DST_HI'' = Some hi \<and> at ''_DST_LO'' = Some lo \<and> 0 \<le> lo \<and> lo < 2 ^ 32 \<and> hi * 2 ^ 32 + lo = m_mac m)
         \<and> at ''_ETHERTYPE'' = Some (m_ethertype m)
         \<and> (case m_subtype m of None \<Rightarrow> at ''_HAS_SUBTYPE'' = Some 0
             | Some s \<Rightarrow> at ''_HAS_SUBTYPE'' = Some 1 \<and> at ''_SUBTYPE'' = Some s)
         \<and> at ''_MSG_MASK'' = Some (m_msg_mask m))
      else at ''_DST_HI'' = Some 0 \<and> at ''_DST_LO'' = Some 0 \<and> at ''_ETHERTYPE'' = Some 0 \<and> at ''_MSG_MASK'' = Some 0)"

definition term_carried :: "Contract \<Rightarrow> Constant list \<Rightarrow> Channel \<Rightarrow> nat \<Rightarrow> bool" where
  "term_carried c ks ch k \<longleftrightarrow>
     (let at = (\<lambda>name. value_of ks (lit ''CH_'' @ upper (ch_name ch) @ lit ''_T'' @ dec_nat k @ lit name)) in
      if k < length (ch_terms ch) then
        (let u = ch_terms ch ! k in
         (\<exists>v doc. (t_test u, v, doc) \<in> set (tests c) \<and> at ''_TEST'' = Some v)
         \<and> at ''_OFFSET'' = Some (t_offset u) \<and> at ''_MSG_MASK'' = Some (t_msg_mask u))
      else at ''_OFFSET'' = Some 0 \<and> at ''_MSG_MASK'' = Some 0)"

definition channel_carried :: "Contract \<Rightarrow> Constant list \<Rightarrow> Channel \<Rightarrow> bool" where
  "channel_carried c ks ch \<longleftrightarrow>
     (\<forall>(name, v) \<in> set [([], ch_ident ch), (''_RX_BASE'', ch_rx_base ch), (''_RX_WORDS'', ch_rx_words ch),
         (''_TX_BASE'', ch_tx_base ch), (''_TX_WORDS'', ch_tx_words ch), (''_MAX_FRAME_BYTES'', ch_max_frame_bytes ch),
         (''_RATE_BURST'', ch_burst ch), (''_RATE_REFILL_MS'', ch_refill_ms ch)].
        value_of ks (lit ''CH_'' @ upper (ch_name ch) @ lit name) = Some v)
     \<and> (\<forall>k < nat (max_tuples c). tuple_carried c ks ch k) \<and> (\<forall>k < nat (max_terms c). term_carried c ks ch k)
     \<and> length (ch_tuples ch) \<le> nat (max_tuples c) \<and> length (ch_terms ch) \<le> nat (max_terms c)"

declare lit_inject [simp]

lemma const_inject [simp]: "const n v d h = const n' v' d' h' \<longleftrightarrow> n = n' \<and> v = v' \<and> d = d' \<and> h = h'"
  by (simp add: const_def)

lemma table_value_row:
  assumes "table_value rows key = Inr v"
  shows "\<exists>doc. (key, v, doc) \<in> set rows"
proof -
  from assms have "map_of (rev (map (\<lambda>(name, value, doc). (name, value)) rows)) key = Some v" by (simp add: table_value_def)
  from map_of_SomeD[OF this] show ?thesis by auto
qed

lemma split_address: "drop_bit 32 m * 2 ^ 32 + (m AND 0xFFFFFFFF) = m \<and> 0 \<le> m AND 0xFFFFFFFF \<and> m AND 0xFFFFFFFF < 2 ^ 32"
  for m :: int
proof -
  have "m AND 0xFFFFFFFF = take_bit 32 m" by (simp add: take_bit_eq_mask mask_eq_exp_minus_1)
  moreover have "drop_bit 32 m * 2 ^ 32 + take_bit 32 m = m" by (simp add: drop_bit_eq_div take_bit_eq_mod)
  ultimately show ?thesis using take_bit_int_less_exp[of 32 m] by simp
qed

lemma tuple_slot_carried:
  assumes ts: "tuple_constants c ch k = Inr ts" "set ts \<subseteq> set ks" and d: "distinct (map k_name ks)"
  shows "tuple_carried c ks ch k"
proof -
  let ?m = "if k < length (ch_tuples ch) then ch_tuples ch ! k else unused_tuple"
  let ?pre = "lit ''CH_'' @ upper (ch_name ch) @ lit ''_M'' @ dec_nat k"
  obtain v where v: "table_value (dsts c) (m_dst ?m) = Inr v" using ts(1) by (auto simp: tuple_constants_def Let_def)
  have tse: "ts = projr (tuple_constants c ch k)" using ts(1) by simp
  have val: "value_of ks (?pre @ name) = Some x" if "\<exists>doc h. const (?pre @ name) x doc h \<in> set ts" for name x
    using that ts(2) value_of_mem[OF d] by blast
  have "value_of ks (?pre @ lit ''_DST'') = Some v" "value_of ks (?pre @ lit ''_DST_HI'') = Some (drop_bit 32 (m_mac ?m))"
    "value_of ks (?pre @ lit ''_DST_LO'') = Some (m_mac ?m AND 0xFFFFFFFF)" "value_of ks (?pre @ lit ''_ETHERTYPE'') = Some (m_ethertype ?m)"
    "value_of ks (?pre @ lit ''_HAS_SUBTYPE'') = Some (of_bool (m_subtype ?m \<noteq> None))"
    "value_of ks (?pre @ lit ''_SUBTYPE'') = Some (or_zero_opt (m_subtype ?m))"
    "value_of ks (?pre @ lit ''_MSG_MASK'') = Some (m_msg_mask ?m)"
    by (rule val, simp add: tse tuple_constants_def Let_def v ex_bool_eq)+
  moreover have "\<exists>doc. (m_dst ?m, v, doc) \<in> set (dsts c)" using table_value_row[OF v] .
  ultimately show ?thesis using split_address[of "m_mac ?m"]
    by (cases "m_subtype ?m") (auto simp: tuple_carried_def Let_def unused_tuple_def or_zero_opt_def)
qed

lemma term_slot_carried:
  assumes ts: "term_constants c ch k = Inr ts" "set ts \<subseteq> set ks" and d: "distinct (map k_name ks)"
  shows "term_carried c ks ch k"
proof -
  let ?m = "if k < length (ch_terms ch) then ch_terms ch ! k else unused_term"
  let ?pre = "lit ''CH_'' @ upper (ch_name ch) @ lit ''_T'' @ dec_nat k"
  obtain v where v: "table_value (tests c) (t_test ?m) = Inr v" using ts(1) by (auto simp: term_constants_def Let_def)
  have tse: "ts = projr (term_constants c ch k)" using ts(1) by simp
  have val: "value_of ks (?pre @ name) = Some x" if "\<exists>doc h. const (?pre @ name) x doc h \<in> set ts" for name x
    using that ts(2) value_of_mem[OF d] by blast
  have "value_of ks (?pre @ lit ''_TEST'') = Some v" "value_of ks (?pre @ lit ''_OFFSET'') = Some (t_offset ?m)"
    "value_of ks (?pre @ lit ''_MSG_MASK'') = Some (t_msg_mask ?m)"
    by (rule val, simp add: tse term_constants_def Let_def v ex_bool_eq)+
  moreover have "\<exists>doc. (t_test ?m, v, doc) \<in> set (tests c)" using table_value_row[OF v] .
  ultimately show ?thesis by (auto simp: term_carried_def Let_def unused_term_def)
qed

lemma channel_values_carried:
  assumes rdy: "channel_ready c ch" and mem: "channel_constants c = Inr chans" "ch \<in> set (channels c)"
    and sub: "set chans \<subseteq> set ks" and d: "distinct (map k_name ks)"
  shows "channel_carried c ks ch"
proof -
  have ring: "set (ring_constants ch) \<subseteq> set ks" by (rule channel_part[OF mem, of "Inr (ring_constants ch)"]) (use sub in auto)
  have "tuple_carried c ks ch k" if "k < nat (max_tuples c)" for k
    by (rule channel_part[OF mem, of "tuple_constants c ch k"]) (use that sub d in \<open>auto intro: tuple_slot_carried\<close>)
  moreover have "term_carried c ks ch k" if "k < nat (max_terms c)" for k
    by (rule channel_part[OF mem, of "term_constants c ch k"]) (use that sub d in \<open>auto intro: term_slot_carried\<close>)
  moreover have val: "value_of ks (lit ''CH_'' @ upper (ch_name ch) @ lit name) = Some v"
    if "\<exists>doc h. const (lit ''CH_'' @ upper (ch_name ch) @ lit name) v doc h \<in> set (ring_constants ch)" for name v
    using that ring value_of_mem[OF d] by blast
  have "\<forall>(name, v) \<in> set [([], ch_ident ch), (''_RX_BASE'', ch_rx_base ch), (''_RX_WORDS'', ch_rx_words ch),
         (''_TX_BASE'', ch_tx_base ch), (''_TX_WORDS'', ch_tx_words ch), (''_MAX_FRAME_BYTES'', ch_max_frame_bytes ch),
         (''_RATE_BURST'', ch_burst ch), (''_RATE_REFILL_MS'', ch_refill_ms ch)].
        \<exists>doc h. const (lit ''CH_'' @ upper (ch_name ch) @ lit name) v doc h \<in> set (ring_constants ch)"
    by (simp add: ring_constants_def Let_def ex_bool_eq ex_disj_distrib lit_def[of "[]"])
  then have "\<forall>(name, v) \<in> set [([], ch_ident ch), (''_RX_BASE'', ch_rx_base ch), (''_RX_WORDS'', ch_rx_words ch),
         (''_TX_BASE'', ch_tx_base ch), (''_TX_WORDS'', ch_tx_words ch), (''_MAX_FRAME_BYTES'', ch_max_frame_bytes ch),
         (''_RATE_BURST'', ch_burst ch), (''_RATE_REFILL_MS'', ch_refill_ms ch)].
        value_of ks (lit ''CH_'' @ upper (ch_name ch) @ lit name) = Some v" using val by blast
  moreover have "length (ch_tuples ch) \<le> nat (max_tuples c)" "length (ch_terms ch) \<le> nat (max_terms c)"
    using rdy unfolding channel_ready_def by linarith+
  ultimately show ?thesis unfolding channel_carried_def by blast
qed

lemma placement_listed:
  "\<forall>(name, v) \<in> set (block_placement c). \<exists>doc h. const (lit name) v doc h \<in> set (register_constants c) \<union> set (record_constants c)"
  by (simp add: block_placement_def register_constants_def record_constants_def ex_bool_eq ex_disj_distrib)

text \<open>
  Property C14. Whenever \<^verbatim>\<open>constants\<close> returns, each name has one value and the list carries the whole
  layout: the offset of every register and the position and width of every bit field of all eight register
  blocks, the base and stride of every block, and of every channel its number, rings, limits, every match
  tuple with an address that recombines from its halves, every accept term, and unused slots that select nothing.
\<close>

theorem constants_carry_layout:
  assumes "load raw = Inr c" and "constants c = Inr ks"
  shows "distinct (map k_name ks) \<and> list_all (regs_carried ks) (register_groups c)
    \<and> (\<forall>(name, v) \<in> set (block_placement c). value_of ks (lit name) = Some v)
    \<and> list_all (channel_carried c ks) (channels c)"
proof -
  obtain chans where ch: "channel_constants c = Inr chans"
    and ks: "ks = head_constants c @ register_constants c @ record_constants c @ chans" and d: "distinct (map k_name ks)"
    using assms(2) by (auto simp: constants_def Let_def names_once split: if_splits)
  note val = value_of_mem[OF d]
  have grp: "set (reg_constants p regs) \<subseteq> set ks" if "(p, regs) \<in> set (register_groups c)" for p regs
    using that by (auto simp: ks register_constants_def register_groups_def)
  have "regs_carried ks (p, regs)" if "(p, regs) \<in> set (register_groups c)" for p regs
    unfolding regs_carried_def using reg_constants_mem[of _ regs, THEN subsetD[OF grp[OF that]], THEN val] by simp
  moreover have "value_of ks (lit name) = Some v" if "(name, v) \<in> set (block_placement c)" for name v
    using bspec[OF placement_listed that] val by (auto simp: ks)
  moreover have "channel_carried c ks x" if "x \<in> set (channels c)" for x
    using channel_values_carried[OF loaded_channels_ready[OF assms(1) that] ch that _ d] by (auto simp: ks)
  ultimately show ?thesis using d by (auto simp: list_all_iff)
qed

definition bare_raw :: raw_contract where
  "bare_raw = sample_raw\<lparr>
     rk_registers := Some [\<lparr>rr_name = Some (lit ''ID''), rr_offset = Some 0, rr_access = Some (lit ''ro''), rr_doc = None, rr_fields = Some [\<lparr>rf_name = Some (lit ''MINOR''), rf_lsb = Some 0, rf_width = Some 8, rf_doc = None\<rparr>]\<rparr>],
     rk_interface_registers := Some \<lparr>bk_base = Some 256, bk_stride = Some 32, bk_entry_stride = None, bk_registers = Some [\<lparr>rr_name = Some (lit ''GM''), rr_offset = Some 4, rr_access = Some (lit ''ro''), rr_doc = None, rr_fields = Some []\<rparr>]\<rparr>, rk_interface_filter_registers := Some \<lparr>bk_base = Some 320, bk_stride = Some 32, bk_entry_stride = None, bk_registers = Some []\<rparr>,
     rk_interface_bound_registers := Some \<lparr>bk_base = Some 512, bk_stride = Some 64, bk_entry_stride = Some 8, bk_registers = Some []\<rparr>, rk_channel_registers := Some \<lparr>bk_base = Some 768, bk_stride = Some 32, bk_entry_stride = None, bk_registers = Some []\<rparr>,
     rk_interface_publication_registers := Some \<lparr>pk_base = Some 0x600, pk_stride = Some 0x100, pk_source_base = Some 0x20,
       pk_source_stride = Some 0x10, pk_sink_base = Some 0x40, pk_sink_stride = Some 0x10,
       pk_registers = Some [], pk_source_registers = Some [], pk_sink_registers = Some []\<rparr>,
     rk_rx_frame := Some \<lparr>rd_kind = Some 1, rd_words = None, rd_header = Some [\<lparr>rw_index = Some 0, rw_fields = Some []\<rparr>, \<lparr>rw_index = Some 1, rw_fields = Some []\<rparr>], rd_doc = None\<rparr>,
     rk_tx_frame := Some \<lparr>rd_kind = Some 2, rd_words = None, rd_header = Some [\<lparr>rw_index = Some 0, rw_fields = Some []\<rparr>, \<lparr>rw_index = Some 1, rw_fields = Some []\<rparr>], rd_doc = None\<rparr>,
     rk_event := Some \<lparr>rd_kind = None, rd_words = Some 4, rd_header = Some [], rd_doc = None\<rparr>,
     rk_event_types := Some [],
     rk_filter := map_option (\<lambda>fl. fl\<lparr>fl_max_terms := Some 1, fl_max_tuples := Some 1\<rparr>) (rk_filter sample_raw),
     rk_channels := map_option tl (rk_channels sample_raw)\<rparr>"

definition bare_contract :: Contract where
  "bare_contract = \<lparr>major = 2, minor = 3, magic = 0x4D42, window_bytes = 0x2000, interfaces = 1, timers = 16, tick_ms = 10,
     index_bits = 16,
     registers = [\<lparr>r_name = lit ''ID'', r_offset = 0, r_access = lit ''ro'', r_doc = [],
       r_fields = [\<lparr>f_name = lit ''MINOR'', f_lsb = 0, f_width = 8, f_doc = []\<rparr>]\<rparr>],
     if_base = 0x100, if_stride = 0x20, 
     if_registers = [\<lparr>r_name = lit ''GM'', r_offset = 4, r_access = lit ''ro'', r_doc = [], r_fields = []\<rparr>], iff_base = 0x140, iff_stride = 0x20, iff_registers = [],
     bound_talkers = 4, bnd_base = 0x200, bnd_stride = 0x40, bnd_entry_stride = 8, bnd_registers = [],
     pub_sources = 2, pub_sinks = 2, pub_base = 0x600, pub_stride = 0x100, pub_source_base = 0x20, pub_source_stride = 0x10,
     pub_sink_base = 0x40, pub_sink_stride = 0x10, pub_registers = [], pub_source_registers = [], pub_sink_registers = [],
     ch_base = 0x300, ch_stride = 0x20, ch_registers = [], evt_base = 0x800, evt_words = 64,
     rx_kind = 1, rx_header = [\<lparr>w_index = 0, w_fields = []\<rparr>, \<lparr>w_index = 1, w_fields = []\<rparr>], rx_doc = [],
     tx_kind = 2, tx_header = [\<lparr>w_index = 0, w_fields = []\<rparr>, \<lparr>w_index = 1, w_fields = []\<rparr>], tx_doc = [],
     ev_words = 4, ev_header = [], ev_doc = [], event_types = [],
     ethertype_byte = 12, subtype_byte = 14, msg_type_byte = 15, dst_byte = 0, max_terms = 1, max_tuples = 1,
     tpids = [0x8100, 0x88A8], dsts = [(lit ''none'', 0, []), (lit ''mac'', 1, []), (lit ''own'', 2, [])],
     tests = [(lit ''none'', 0, []), (lit ''eq_own'', 2, [])], tmr_ops = [(lit ''arm'', 1)], 
     channels = [\<lparr>ch_name = lit ''adp'', ch_ident = 0, ch_rx_base = 4096, ch_rx_words = 64, ch_tx_base = 4480, ch_tx_words = 32,
       ch_max_frame_bytes = 128,
       ch_tuples = [\<lparr>m_dst = lit ''mac'', m_mac = 0x91E0F0010000, m_ethertype = 0x22F0, m_subtype = Some 0xFA, m_msg_mask = 4, m_doc = []\<rparr>],
       ch_burst = 8, ch_refill_ms = 10, ch_cite = lit ''cite'',
       ch_terms = [\<lparr>t_test = lit ''eq_own'', t_offset = 18, t_msg_mask = 0xFFFF, t_field = [], t_doc = []\<rparr>]\<rparr>]\<rparr>"

definition bare_names :: "string list" where
  "bare_names = [''VERSION_MAJOR'', ''VERSION_MINOR'', ''MAGIC'', ''WINDOW_BYTES'', ''REGISTER_SPACE_BYTES'',
    ''N_IF'', ''N_TIMERS'', ''N_BOUND'', ''N_PUB_SOURCES'', ''N_PUB_SINKS'', ''TICK_MS'', ''N_CH'',
    ''INDEX_BITS'', ''MAX_TERMS'', ''MAX_TUPLES'', ''TERM_FIELD_BYTES'', ''DST_BYTE'',
    ''ETHERTYPE_BYTE'', ''SUBTYPE_BYTE'', ''MSG_TYPE_BYTE'', ''DST_NONE'', ''DST_MAC'', ''DST_OWN'',
    ''TEST_NONE'', ''TEST_EQ_OWN'', ''TMR_OP_ARM'', ''REG_ID'', ''ID_MINOR_LSB'', ''ID_MINOR_WIDTH'',
    ''IF_BASE'', ''IF_STRIDE'', ''IF_REG_GM'', ''IFF_BASE'', ''IFF_STRIDE'', ''BND_BASE'', ''BND_STRIDE'',
    ''BND_ENTRY_STRIDE'', ''PUB_BASE'', ''PUB_STRIDE'', ''PUB_SRC_BASE'', ''PUB_SRC_STRIDE'',
    ''PUB_SINK_BASE'', ''PUB_SINK_STRIDE'', ''CH_BASE'', ''CH_STRIDE'', ''RX_KIND'', ''RX_HDR_WORDS'',
    ''TX_KIND'', ''TX_HDR_WORDS'', ''EV_WORDS'', ''EVT_BASE'', ''EVT_WORDS'',
    ''CH_ADP'', ''CH_ADP_RX_BASE'', ''CH_ADP_RX_WORDS'', ''CH_ADP_TX_BASE'', ''CH_ADP_TX_WORDS'', ''CH_ADP_MAX_FRAME_BYTES'',
    ''CH_ADP_RATE_BURST'', ''CH_ADP_RATE_REFILL_MS'', ''CH_ADP_M0_DST'', ''CH_ADP_M0_DST_HI'', ''CH_ADP_M0_DST_LO'',
    ''CH_ADP_M0_ETHERTYPE'', ''CH_ADP_M0_HAS_SUBTYPE'', ''CH_ADP_M0_SUBTYPE'', ''CH_ADP_M0_MSG_MASK'',
    ''CH_ADP_T0_TEST'', ''CH_ADP_T0_OFFSET'', ''CH_ADP_T0_MSG_MASK'']"

lemma bare_loads: "load bare_raw = Inr bare_contract"
  by code_simp

lemma lit_append: "lit s @ lit t = lit (s @ t)" "lit s @ lit t @ r = lit (s @ t) @ r"
  by (simp_all add: lit_def)

lemma bare_upper: "upper (lit ''none'') = lit ''NONE''" "upper (lit ''mac'') = lit ''MAC''" "upper (lit ''own'') = lit ''OWN''"
  "upper (lit ''eq_own'') = lit ''EQ_OWN''" "upper (lit ''arm'') = lit ''ARM''" "upper (lit ''adp'') = lit ''ADP''" "dec_nat 0 = lit ''0''"
  by code_simp+

lemma bare_tables: "table_value [(lit ''none'', 0, []), (lit ''mac'', 1, []), (lit ''own'', 2, [])] (lit ''mac'') = Inr 1"
  "table_value [(lit ''none'', 0, []), (lit ''eq_own'', 2, [])] (lit ''eq_own'') = Inr 2"
  by code_simp+

lemma bare_constants: "\<exists>ks. constants bare_contract = Inr ks"
proof -
  obtain chans where ch: "channel_constants bare_contract = Inr chans" using channel_constants_total[OF bare_loads] by blast
  then have "chans = projr (channel_constants bare_contract)" by simp
  then have "map k_name (head_constants bare_contract @ register_constants bare_contract @ record_constants bare_contract @ chans)
      = map lit bare_names"
    by (simp add: head_constants_def register_constants_def record_constants_def reg_constants_def
      field_constants_def word_constants_def const_def bare_contract_def bare_names_def bare_upper lit_append
      channel_constants_def one_channel_constants_def ring_constants_def tuple_constants_def term_constants_def Let_def bare_tables)
  moreover have "distinct bare_names" unfolding bare_names_def by simp
  then have "distinct (map lit bare_names)" by (simp add: distinct_map inj_on_def)
  ultimately have "distinct (map k_name (head_constants bare_contract @ register_constants bare_contract @ record_constants bare_contract @ chans))"
    by (simp only:)
  then show ?thesis using ch by (simp add: constants_def names_once del: map_append distinct_append)
qed

theorem constants_carry_layout_witness:
  "\<exists>ks. constants bare_contract = Inr ks \<and> value_of ks (lit ''REG_'' @ lit ''ID'') = Some 0
    \<and> value_of ks (lit ''ID'' @ lit ''_'' @ lit ''MINOR'' @ lit ''_WIDTH'') = Some 8
    \<and> value_of ks (lit ''IF_REG_'' @ lit ''GM'') = Some 4 \<and> value_of ks (lit ''IF_BASE'') = Some 0x100
    \<and> value_of ks (lit ''CH_'' @ upper (lit ''adp'') @ lit ''_M'' @ dec_nat 0 @ lit ''_ETHERTYPE'') = Some 0x22F0
    \<and> value_of ks (lit ''CH_'' @ upper (lit ''adp'') @ lit ''_T'' @ dec_nat 0 @ lit ''_OFFSET'') = Some 18"
proof -
  obtain ks where ks: "constants bare_contract = Inr ks" using bare_constants by blast
  from constants_carry_layout[OF bare_loads this] have g: "list_all (regs_carried ks) (register_groups bare_contract)"
    "\<forall>(name, v) \<in> set (block_placement bare_contract). value_of ks (lit name) = Some v"
    "list_all (channel_carried bare_contract ks) (channels bare_contract)" by blast+
  have "channel_carried bare_contract ks (hd (channels bare_contract))" "0 < nat (max_tuples bare_contract)" "0 < nat (max_terms bare_contract)" using g(3) by (simp_all add: bare_contract_def)
  then have "tuple_carried bare_contract ks (hd (channels bare_contract)) 0" "term_carried bare_contract ks (hd (channels bare_contract)) 0"
    unfolding channel_carried_def by blast+
  moreover have "regs_carried ks (''REG_'', registers bare_contract)" "regs_carried ks (''IF_REG_'', if_registers bare_contract)"
    "value_of ks (lit ''IF_BASE'') = Some (if_base bare_contract)" using g(1,2) by (simp_all add: register_groups_def block_placement_def)
  ultimately show ?thesis using ks
    by (intro exI[of _ ks]) (simp add: regs_carried_def tuple_carried_def term_carried_def Let_def bare_contract_def)
qed

end
