(* ===== verification/Nvm_Codec.thy ===== *)
theory Nvm_Codec
  imports Prelude "HOL-Library.Product_Lexorder" "HOL-Library.List_Lexorder" "HOL-Library.Char_ord"
begin

unbundle bit_operations_syntax

text \<open>
  The saved-state image: the fixed points and the id allocation of \<^verbatim>\<open>scripts/nvm_contract.py\<close> and the
  KLJ2 container with its F07.8 records of \<^verbatim>\<open>scripts/nvm_klj2.py\<close>. A dict is an association list
  with distinct keys; a 16-bit or 32-bit checksum register is a word of that width. The mutable
  container \<^verbatim>\<open>SEAM\<close> of the negative controls is an argument, \<open>SEAM\<close> its default value.
\<close>

section \<open>The contract\<close>

definition MAX_PAYLOAD :: nat where "MAX_PAYLOAD = 1024"
definition REC_HDR :: nat where "REC_HDR = 8"
definition NAME_BYTES :: nat where "NAME_BYTES = 64"

type_synonym key = "string \<times> int"
type_synonym nvm_record = "string \<times> int \<times> int option \<times> nat \<times> int"

record fixed_points =
  ID_SPACE :: int
  ERASE_BLOCK :: nat
  T_NVM_COMMIT_TIMEOUT_MS :: nat

definition FIXED :: fixed_points where
  "FIXED = \<lparr>ID_SPACE = 256, ERASE_BLOCK = 64 * 1024, T_NVM_COMMIT_TIMEOUT_MS = 8000\<rparr>"

definition KLJ2_MAGIC :: int where "KLJ2_MAGIC = 0x324A4C4B"
definition KLJ2_FMT_VER :: int where "KLJ2_FMT_VER = 0x00020000"
definition REC_MAGIC :: int where "REC_MAGIC = 0x1722"

datatype verdict =
  VD_OK | VD_MAGIC | VD_VER | VD_LEN | VD_CRC | VD_ENT | VD_SHAPE | VD_REC
| VD_STALE | VD_BLANK | VD_INCOMPLETE | VD_ERASE | VD_PROGRAM | VD_VERIFY

definition ERASED :: byte where "ERASED = 0xFF"
definition VENDOR_DEFAULT_NAME :: "byte list" where
  "VENDOR_DEFAULT_NAME = map of_char ''Kebag Milan Endstation''"
definition KLJ2_HDR :: nat where "KLJ2_HDR = 40"
definition KLJ2_TRAILER :: nat where "KLJ2_TRAILER = 4"
definition ALIGN :: nat where "ALIGN = 4"

definition T_SE_MAX_MS :: nat where "T_SE_MAX_MS = 3000"
definition T_PP_MAX_MS :: nat where "T_PP_MAX_MS = 5"
definition FLASH_PAGE :: nat where "FLASH_PAGE = 256"
definition SPI_HZ :: nat where "SPI_HZ = 12500000"
definition T_NVM_WRITER_ALIVE_MS :: nat where "T_NVM_WRITER_ALIVE_MS = 2000"
definition T_NVM_HEARTBEAT_MS :: nat where "T_NVM_HEARTBEAT_MS = 500"
definition COMMIT_MARGIN :: nat where "COMMIT_MARGIN = 2"
definition ALIVE_HEARTBEATS :: nat where "ALIVE_HEARTBEATS = 4"

definition PAY :: "(string \<times> nat) list" where
  "PAY = [(''CFG_IDX'', 2), (''SUID'', 8), (''RATE'', 4), (''CLKSRC'', 2), (''MCR'', 66), (''BINDING'', 20),
          (''FMT_IN'', 8), (''FMT_OUT'', 8), (''PT_OFS'', 4)]"

definition MAP_ENTRY :: nat where "MAP_ENTRY = 8"

definition ALLOC :: "(string \<times> int option \<times> int) list" where
  "ALLOC = [(''CFG_IDX'', Some 0x00, 1), (''SUID'', Some 0x01, 1), (''RATE'', Some 0x02, 8), (''CLKSRC'', Some 0x0A, 8),
            (''MCR'', Some 0x12, 8), (''BINDING'', None, 16), (''FMT_IN'', Some 0x30, 16), (''FMT_OUT'', Some 0x40, 16),
            (''PT_OFS'', Some 0x50, 16), (''MAPS_IN'', Some 0x60, 16), (''MAPS_OUT'', Some 0x70, 16),
            (''NAME'', Some 0x80, 128)]"

record seams =
  NAME_PRESENCE_FROM_CONTENT :: bool
  DECODE_ALLOW_ABSENT :: bool
  ERASED_HEADER_ONLY :: bool

definition SEAM :: seams where
  "SEAM = \<lparr>NAME_PRESENCE_FROM_CONTENT = False, DECODE_ALLOW_ABSENT = False, ERASED_HEADER_ONLY = False\<rparr>"

record Donor =
  d_base :: int
  d_layout :: int

record Ident =
  i_seq :: int
  i_entity_id :: int
  i_model_id :: int

datatype nvm_refusal = AllocationOverflow | NoncanonicalTail | DuplicateKey

type_synonym 'a nvm = "(nvm_refusal, 'a) result"

section \<open>Checksums\<close>

definition crc16_shift :: "16 word \<Rightarrow> 16 word" where
  "crc16_shift c = (if c AND 0x8000 \<noteq> 0 then push_bit 1 c XOR 0x1021 else push_bit 1 c)"

definition CRC16_TAB :: "16 word list" where
  "CRC16_TAB = map (\<lambda>b. (crc16_shift ^^ 8) (push_bit 8 (of_nat b))) [0..<256]"

definition crc16_step :: "16 word \<Rightarrow> byte \<Rightarrow> 16 word" where
  "crc16_step crc b = push_bit 8 crc XOR CRC16_TAB ! unat ((drop_bit 8 crc XOR ucast b) AND 0xFF)"

definition crc16_ccitt :: "byte list \<Rightarrow> 16 word \<Rightarrow> 16 word" where
  "crc16_ccitt data crc = foldl crc16_step crc data"

text \<open>\<^verbatim>\<open>zlib.crc32\<close>: the reflected polynomial \<^verbatim>\<open>0xEDB88320\<close>, initial and final complement.\<close>

definition crc32_shift :: "32 word \<Rightarrow> 32 word" where
  "crc32_shift c = (if c AND 1 \<noteq> 0 then drop_bit 1 c XOR 0xEDB88320 else drop_bit 1 c)"

definition crc32 :: "byte list \<Rightarrow> 32 word" where
  "crc32 data = NOT (foldl (\<lambda>c b. (crc32_shift ^^ 8) (c XOR ucast b)) (NOT 0) data)"

section \<open>Record ids\<close>

definition alloc_base :: "string \<Rightarrow> int option \<Rightarrow> int \<Rightarrow> int option" where
  "alloc_base g b base = (if g = ''BINDING'' then Some base else b)"

definition id_blocks :: "int \<Rightarrow> (string \<times> int option \<times> int) list" where
  "id_blocks base = map (\<lambda>(g, b, blk). (g, alloc_base g b base, blk)) ALLOC"

definition rid_of_key :: "key \<Rightarrow> int \<Rightarrow> int nvm" where
  "rid_of_key key base = (case key of (grp, index) \<Rightarrow>
     if grp = ''BINDING'' then Inr (base + index)
     else case map_of ALLOC grp of
       None \<Rightarrow> Inl KeyError
     | Some (None, _) \<Rightarrow> Inl TypeError
     | Some (Some b, _) \<Rightarrow> Inr (b + index))"

fun key_in_blocks :: "int \<Rightarrow> (string \<times> int option \<times> int) list \<Rightarrow> key option" where
  "key_in_blocks rid [] = None"
| "key_in_blocks rid ((g, b, blk) # rest) =
     (case b of
        None \<Rightarrow> key_in_blocks rid rest
      | Some b' \<Rightarrow> if b' \<le> rid \<and> rid < b' + blk then Some (g, rid - b') else key_in_blocks rid rest)"

definition key_of_id :: "int \<Rightarrow> int \<Rightarrow> key option" where
  "key_of_id rid base = key_in_blocks rid (id_blocks base)"

section \<open>Encoding\<close>

definition erased_record :: "nat \<Rightarrow> byte list" where
  "erased_record plen = replicate (REC_HDR + plen) ERASED"

definition record_header :: "int \<Rightarrow> nat \<Rightarrow> int \<Rightarrow> byte list nvm" where
  "record_header rid plen layout =
     concatE [pack_be 2 REC_MAGIC, pack_be 1 layout, pack_be 1 rid, pack_be 2 (int plen)]"

definition frame_record :: "int \<Rightarrow> byte list \<Rightarrow> int \<Rightarrow> byte list nvm" where
  "frame_record rid payload layout =
     rbind (record_header rid (length payload) layout) (\<lambda>hdr.
     rbind (pack_be 2 (uint (crc16_ccitt (hdr @ payload) 0xFFFF))) (\<lambda>crc.
       Inr (hdr @ crc @ payload)))"

fun lay_out :: "(int \<times> byte list) list \<Rightarrow> int list \<Rightarrow> byte list \<Rightarrow> (int \<times> nat) list \<Rightarrow> byte list \<times> (int \<times> nat) list" where
  "lay_out frames [] body offs = (body, offs)"
| "lay_out frames (rid # rids) body offs =
     lay_out frames rids (body @ the (map_of frames rid)) (offs @ [(rid, length body)])"

text \<open>\<^verbatim>\<open>(-n) % ALIGN\<close>.\<close>

definition padding :: "nat \<Rightarrow> nat" where
  "padding n = nat ((- int n) mod int ALIGN)"

definition low32 :: "int \<Rightarrow> int" where
  "low32 v = v AND 0xFFFFFFFF"

definition high32 :: "int \<Rightarrow> int" where
  "high32 v = drop_bit 32 v AND 0xFFFFFFFF"

definition klj2_header :: "nat \<Rightarrow> nat \<Rightarrow> Donor \<Rightarrow> Ident \<Rightarrow> byte list nvm" where
  "klj2_header nrec img_len donor ident =
     concatE [pack_le 4 KLJ2_MAGIC, pack_le 4 KLJ2_FMT_VER, pack_le 4 (i_seq ident), pack_le 4 (int nrec),
       pack_le 4 (int img_len),
       pack_le 4 (low32 (i_entity_id ident)), pack_le 4 (high32 (i_entity_id ident)),
       pack_le 4 (low32 (i_model_id ident)), pack_le 4 (high32 (i_model_id ident)),
       pack_le 4 (d_layout donor)]"

definition klj2_assemble :: "(int \<times> byte list) list \<Rightarrow> Donor \<Rightarrow> Ident \<Rightarrow> (byte list \<times> (int \<times> nat) list) nvm" where
  "klj2_assemble frames donor ident =
     (case lay_out frames (sort (map fst frames)) [] [] of (records, offs) \<Rightarrow>
      let body = records @ replicate (padding (length records)) 0;
          img_len = KLJ2_HDR + length body + KLJ2_TRAILER in
      rbind (klj2_header (length frames) img_len donor ident) (\<lambda>hdr.
      rbind (pack_le 4 (uint (crc32 (hdr @ body)))) (\<lambda>crc.
        Inr (hdr @ body @ crc, offs))))"

section \<open>Decoding\<close>

definition u32_le :: "byte list \<Rightarrow> nat \<Rightarrow> int" where
  "u32_le blob at = le_int (slice at (at + 4) blob)"

definition all_erased :: "byte list \<Rightarrow> bool" where
  "all_erased bs = list_all (\<lambda>b. b = ERASED) bs"

record decode_state =
  applied :: "(key \<times> byte list) list"
  erased :: "key list"
  pos :: nat
  last_id :: int

definition read_erased :: "seams \<Rightarrow> (key \<times> nat) list \<Rightarrow> (int \<times> key) list \<Rightarrow> byte list \<Rightarrow> nat
    \<Rightarrow> decode_state \<Rightarrow> verdict + decode_state" where
  "read_erased seam expect order blob lim st =
     (case find (\<lambda>(r, k). r > last_id st) order of
        None \<Rightarrow> Inl VD_REC
      | Some (rid, key) \<Rightarrow>
          (let plen = the (map_of expect key) in
           if pos st + REC_HDR + plen > lim then Inl VD_LEN
           else if \<not> ERASED_HEADER_ONLY seam \<and> \<not> all_erased (slice (pos st + REC_HDR) (pos st + REC_HDR + plen) blob)
           then Inl VD_REC
           else Inr (st\<lparr>erased := erased st @ [key], last_id := rid, pos := pos st + REC_HDR + plen\<rparr>)))"

definition read_framed :: "Donor \<Rightarrow> (key \<times> nat) list \<Rightarrow> byte list \<Rightarrow> nat \<Rightarrow> decode_state \<Rightarrow> verdict + decode_state" where
  "read_framed donor expect blob lim st =
     (let p = pos st;
          rmagic = be_int (slice p (p + 2) blob);
          rver = be_int (slice (p + 2) (p + 3) blob);
          rid = be_int (slice (p + 3) (p + 4) blob);
          plen = nat (be_int (slice (p + 4) (p + 6) blob));
          rcrc = be_int (slice (p + 6) (p + 8) blob);
          pay = slice (p + REC_HDR) (p + REC_HDR + plen) blob in
      if rmagic \<noteq> REC_MAGIC \<or> rver \<noteq> d_layout donor then Inl VD_REC
      else if p + REC_HDR + plen > lim then Inl VD_LEN
      else if uint (crc16_ccitt (slice p (p + 6) blob @ pay) 0xFFFF) \<noteq> rcrc then Inl VD_REC
      else if rid \<le> last_id st then Inl VD_REC
      else case key_of_id rid (d_base donor) of
        None \<Rightarrow> Inl VD_REC
      | Some key \<Rightarrow>
          if map_of expect key \<noteq> Some plen then Inl VD_REC
          else Inr (st\<lparr>applied := applied st @ [(key, pay)], last_id := rid, pos := p + REC_HDR + plen\<rparr>))"

fun read_records :: "seams \<Rightarrow> Donor \<Rightarrow> (key \<times> nat) list \<Rightarrow> (int \<times> key) list \<Rightarrow> byte list \<Rightarrow> nat \<Rightarrow> nat
    \<Rightarrow> decode_state \<Rightarrow> verdict + decode_state" where
  "read_records seam donor expect order blob lim 0 st = Inr st"
| "read_records seam donor expect order blob lim (Suc n) st =
     (if pos st + REC_HDR > lim then Inl VD_LEN
      else rbind (if all_erased (slice (pos st) (pos st + REC_HDR) blob)
                  then read_erased seam expect order blob lim st
                  else read_framed donor expect blob lim st)
             (read_records seam donor expect order blob lim n))"

definition start_state :: decode_state where
  "start_state = \<lparr>applied = [], erased = [], pos = KLJ2_HDR, last_id = -1\<rparr>"

definition decode_body :: "seams \<Rightarrow> Donor \<Rightarrow> (key \<times> nat) list \<Rightarrow> (int \<times> key) list \<Rightarrow> byte list \<Rightarrow> nat \<Rightarrow> nat
    \<Rightarrow> verdict \<times> (key \<times> byte list) list" where
  "decode_body seam donor expect order blob nrec img_len =
     (let lim = img_len - KLJ2_TRAILER in
      case read_records seam donor expect order blob lim nrec start_state of
        Inl v \<Rightarrow> (v, [])
      | Inr st \<Rightarrow>
          if pos st + padding (pos st - KLJ2_HDR) \<noteq> lim then (VD_LEN, [])
          else if \<not> list_all (\<lambda>k. k \<in> fst ` set (applied st) \<or> k \<in> set (erased st)) (map fst expect)
                  \<and> \<not> DECODE_ALLOW_ABSENT seam
          then (VD_INCOMPLETE, [])
          else (VD_OK, applied st))"

definition record_order :: "(key \<times> nat) list \<Rightarrow> int \<Rightarrow> (int \<times> key) list nvm" where
  "record_order expect base =
     rbind (mapE (\<lambda>k. rbind (rid_of_key k base) (\<lambda>r. Inr (r, k))) (map fst expect)) (\<lambda>rows. Inr (sort rows))"

definition klj2_decode :: "seams \<Rightarrow> byte list \<Rightarrow> Donor \<Rightarrow> Ident \<Rightarrow> (key \<times> nat) list
    \<Rightarrow> (verdict \<times> (key \<times> byte list) list) nvm" where
  "klj2_decode seam blob donor ident expect =
     (let img_len = nat (u32_le blob 16) in
      if length blob < KLJ2_HDR + KLJ2_TRAILER then Inr (VD_LEN, [])
      else if all_erased (take KLJ2_HDR blob) then Inr (VD_BLANK, [])
      else if u32_le blob 0 \<noteq> KLJ2_MAGIC then Inr (VD_MAGIC, [])
      else if drop_bit 16 (u32_le blob 4) \<noteq> drop_bit 16 KLJ2_FMT_VER then Inr (VD_VER, [])
      else if \<not> (44 \<le> img_len \<and> img_len \<le> 65536) \<or> length blob \<noteq> img_len then Inr (VD_LEN, [])
      else if uint (crc32 (take (length blob - 4) blob)) \<noteq> u32_le blob (img_len - 4) then Inr (VD_CRC, [])
      else if u32_le blob 20 OR push_bit 32 (u32_le blob 24) \<noteq> i_entity_id ident then Inr (VD_ENT, [])
      else if u32_le blob 28 OR push_bit 32 (u32_le blob 32) \<noteq> i_model_id ident then Inr (VD_SHAPE, [])
      else if u32_le blob 36 \<noteq> d_layout donor then Inr (VD_REC, [])
      else rbind (record_order expect (d_base donor)) (\<lambda>order.
        Inr (decode_body seam donor expect order blob (nat (u32_le blob 12)) img_len)))"

section \<open>Names\<close>

text \<open>\<^verbatim>\<open>name_table\<close> returns a closure; the model takes the ordinal as a further argument.\<close>

definition name_table :: "(int \<times> byte list) list \<Rightarrow> int \<Rightarrow> byte list" where
  "name_table over ordinal =
     (case map_of over ordinal of
        Some v \<Rightarrow> v
      | None \<Rightarrow>
          (let s = take NAME_BYTES (VENDOR_DEFAULT_NAME @ map of_nat (32 # dec ordinal)) in
           s @ replicate (NAME_BYTES - length s) 0))"

definition payload_bytes :: "string \<Rightarrow> int \<Rightarrow> int \<Rightarrow> nat \<Rightarrow> (int \<Rightarrow> byte list) option \<Rightarrow> byte list" where
  "payload_bytes grp index rid plen nval =
     (case (grp = ''NAME'', nval) of
        (True, Some val) \<Rightarrow> val index
      | _ \<Rightarrow> map (\<lambda>j. word_of_int ((rid * 131 + int j * 17) AND 0xFF)) [0..<plen])"

definition names_from_image :: "seams \<Rightarrow> (key \<times> byte list) list \<Rightarrow> nat \<Rightarrow> (int \<times> byte list) list" where
  "names_from_image seam app n_names =
     List.map_filter (\<lambda>k. case map_of app (''NAME'', int k) of
         None \<Rightarrow> None
       | Some pay \<Rightarrow>
           if NAME_PRESENCE_FROM_CONTENT seam \<and> list_all (\<lambda>b. b = 0) pay then None else Some (int k, pay)) [0..<n_names]"

end
