(* ===== verification/Nvm_Crc.thy ===== *)
theory Nvm_Crc
  imports Nvm_Codec
begin

unbundle bit_operations_syntax

text \<open>
  The record checksum: the table-driven routine of \<^verbatim>\<open>nvm_klj2.py\<close> is the bit-serial
  CRC-16/CCITT-FALSE, and it notices every change of a single octet.
\<close>

definition crc16_serial :: "16 word \<Rightarrow> byte \<Rightarrow> 16 word" where
  "crc16_serial crc b = (crc16_shift ^^ 8) (crc XOR push_bit 8 (ucast b))"

lemma top_bit: "(c AND 0x8000 \<noteq> 0) \<longleftrightarrow> bit (c :: 16 word) 15"
proof -
  have e: "(0x8000 :: 16 word) = 2 ^ 15" by simp
  show ?thesis unfolding e by (simp only: and_exp_eq_0_iff_not_bit not_not)
qed

lemma shift_xor: "crc16_shift (x XOR y) = crc16_shift x XOR crc16_shift y"
  by (simp add: crc16_shift_def top_bit bit_xor_iff push_bit_xor ac_simps)

lemma shifts_xor: "(crc16_shift ^^ n) (x XOR y) = (crc16_shift ^^ n) x XOR (crc16_shift ^^ n) y"
  by (induction n) (simp_all add: shift_xor)

lemma low_mask: "(0xFF :: 16 word) = mask 8"
  by (simp add: mask_eq_exp_minus_1)

lemma low_shifts: "n \<le> 8 \<Longrightarrow> (crc16_shift ^^ n) (x AND 0xFF) = push_bit n (x AND 0xFF)"
proof (induction n)
  case (Suc n)
  have "\<not> bit (push_bit n (x AND 0xFF)) 15" using Suc.prems by (auto simp: low_mask bit_simps)
  with Suc show ?case by (simp add: crc16_shift_def top_bit)
qed simp

lemma table_entry: "i < 256 \<Longrightarrow> CRC16_TAB ! i = (crc16_shift ^^ 8) (push_bit 8 (of_nat i))"
  by (simp add: CRC16_TAB_def)

lemma crc16_step_serial: "crc16_step crc b = crc16_serial crc b"
proof -
  let ?x = "crc XOR push_bit 8 (ucast b)" and ?i = "(drop_bit 8 crc XOR ucast b) AND 0xFF"
  have "?i \<le> 0xFF" by (rule word_and_le1)
  then have "unat ?i \<le> unat (0xFF :: 16 word)" by (simp only: word_le_nat_alt)
  then have idx: "unat ?i < 256" by simp
  have "?x = (?x AND 0xFF) XOR push_bit 8 ?i"
    by (rule bit_word_eqI) (auto simp: low_mask bit_simps)
  then have "crc16_serial crc b = (crc16_shift ^^ 8) (?x AND 0xFF) XOR (crc16_shift ^^ 8) (push_bit 8 ?i)"
    unfolding crc16_serial_def by (metis shifts_xor)
  moreover have "push_bit 8 (?x AND 0xFF) = push_bit 8 crc"
    by (rule bit_word_eqI) (auto simp: low_mask bit_simps)
  ultimately show ?thesis using idx by (simp add: crc16_step_def table_entry low_shifts)
qed

text \<open>
  Property C20. The table-driven checksum equals the bit-serial CRC-16/CCITT-FALSE for every initial
  register and every input.
\<close>

theorem crc16_table_is_serial: "crc16_ccitt data crc = foldl crc16_serial crc data"
  by (induction data arbitrary: crc) (simp_all add: crc16_ccitt_def crc16_step_serial)

lemma xor_cancel_right: "(a XOR c = b XOR c) \<longleftrightarrow> a = (b :: 'a::len word)"
  by (metis xor.assoc xor_self_eq xor.right_neutral)

lemma xor_cancel_left: "(c XOR a = c XOR b) \<longleftrightarrow> a = (b :: 'a::len word)"
  by (metis xor.commute xor_cancel_right)

lemma push_bit_bit:
  assumes "push_bit k x = push_bit k (y :: 'a::len word)" and "n + k < LENGTH('a)"
  shows "bit x n = bit y n"
proof -
  have "bit (push_bit k z) (n + k) = bit z n" for z :: "'a word" using assms(2) by (simp add: bit_push_bit_iff)
  then show ?thesis using assms(1) by metis
qed

lemma shift_inject: "crc16_shift x = crc16_shift y \<Longrightarrow> x = y"
proof -
  assume eq: "crc16_shift x = crc16_shift y"
  have b0: "bit (crc16_shift z) 0 \<longleftrightarrow> bit z 15" for z
    by (cases "bit z 15") (auto simp: crc16_shift_def top_bit bit_xor_iff bit_push_bit_iff simp del: push_bit_Suc)
  have top: "bit x 15 = bit y 15" using eq b0 by metis
  then have "push_bit 1 x = push_bit 1 y" using eq by (cases "bit y 15") (simp_all add: crc16_shift_def top_bit xor_cancel_right)
  then have p: "n + 1 < 16 \<Longrightarrow> bit x n = bit y n" for n using push_bit_bit[of 1 x y n] by simp
  show ?thesis
  proof (rule bit_word_eqI)
    fix n
    assume "n < LENGTH(16)"
    then have "n = 15 \<or> n + 1 < 16" by auto
    then show "bit x n = bit y n" using top p by auto
  qed
qed

lemma crc16_step_inject: "crc16_step c b = crc16_step c' b' \<longleftrightarrow> c XOR push_bit 8 (ucast b) = c' XOR push_bit 8 (ucast b')"
proof -
  have "(crc16_shift ^^ n) x = (crc16_shift ^^ n) y \<longleftrightarrow> x = y" for n x y
    by (induction n) (auto dest: shift_inject)
  then show ?thesis by (simp add: crc16_step_serial crc16_serial_def)
qed

lemma crc16_inject: "crc16_ccitt data c = crc16_ccitt data c' \<longleftrightarrow> c = c'"
  by (induction data arbitrary: c c') (simp_all add: crc16_ccitt_def crc16_step_inject xor_cancel_right)

text \<open>
  Two inputs that differ in exactly one octet have different record checksums, so a
  framed record with one octet changed under its header and payload is never accepted as intact.
\<close>

lemma crc16_detects_one_octet:
  assumes "x \<noteq> y"
  shows "crc16_ccitt (pre @ [x] @ post) crc \<noteq> crc16_ccitt (pre @ [y] @ post) crc"
proof -
  let ?c = "crc16_ccitt pre crc"
  have "crc16_step ?c x \<noteq> crc16_step ?c y"
  proof
    assume "crc16_step ?c x = crc16_step ?c y"
    then have "push_bit 8 (ucast x :: 16 word) = push_bit 8 (ucast y)"
      by (simp add: crc16_step_inject xor_cancel_left)
    then have "bit (ucast x :: 16 word) n = bit (ucast y :: 16 word) n" if "n < 8" for n
      using that by (intro push_bit_bit[of 8]) auto
    then have "bit x n = bit y n" if "n < 8" for n using that by (simp add: bit_ucast_iff)
    then have "x = y" by (intro bit_word_eqI) simp
    with assms show False ..
  qed
  then show ?thesis using crc16_inject[of post "crc16_step ?c x" "crc16_step ?c y"] by (simp add: crc16_ccitt_def)
qed

end
