(* ===== verification/Nvm_Journal.thy ===== *)
theory Nvm_Journal
  imports Nvm_Codec "HOL-Library.Multiset"
begin

unbundle bit_operations_syntax

text \<open>
  Correctness of the saved-state codec: the id allocation is a bijection on its blocks, the decoder
  applies nothing it cannot vouch for, and every image the encoder writes for a record set is read
  back exactly, erased records included.
\<close>

section \<open>Record ids\<close>

lemma key_in_blocks_Some:
  "key_in_blocks rid bs = Some (g, i) \<Longrightarrow> \<exists>b blk. (g, Some b, blk) \<in> set bs \<and> rid = b + i \<and> 0 \<le> i \<and> i < blk"
proof (induction rid bs rule: key_in_blocks.induct)
  case (2 rid g' b' blk' rest)
  show ?case
  proof (cases "\<exists>b. b' = Some b \<and> b \<le> rid \<and> rid < b + blk'")
    case True
    then obtain b where "b' = Some b" "b \<le> rid" "rid < b + blk'" by blast
    with "2.prems" show ?thesis by (intro exI[of _ b] exI[of _ blk']) auto
  next
    case False
    then show ?thesis using 2 by (cases b') (auto split: if_splits)
  qed
qed simp

lemma id_blocks_distinct: "distinct (map fst (id_blocks base))"
  by (simp add: id_blocks_def ALLOC_def)

lemma key_of_id_inject:
  assumes "key_of_id r base = Some k" "key_of_id r' base = Some k"
  shows "r = r'"
proof -
  obtain g i where k: "k = (g, i)" by (cases k)
  from key_in_blocks_Some assms obtain b blk b' blk' where
    "(g, Some b, blk) \<in> set (id_blocks base)" "r = b + i" "(g, Some b', blk') \<in> set (id_blocks base)" "r' = b' + i"
    unfolding key_of_id_def k by metis
  with eq_key_imp_eq_value[OF id_blocks_distinct] show ?thesis by fastforce
qed

section \<open>Soundness of the decoder\<close>

text \<open>A payload stands framed in the image: a span of it is exactly the record the encoder writes for that key and payload.\<close>

definition framed_in :: "Donor \<Rightarrow> byte list \<Rightarrow> key \<Rightarrow> byte list \<Rightarrow> bool" where
  "framed_in donor blob k p \<longleftrightarrow> (\<exists>r a. key_of_id r (d_base donor) = Some k \<and> a + REC_HDR + length p \<le> length blob
     \<and> frame_record r p (d_layout donor) = Inr (slice a (a + REC_HDR + length p) blob))"

definition spans_ok :: "Donor \<Rightarrow> (key \<times> nat) list \<Rightarrow> byte list \<Rightarrow> decode_state \<Rightarrow> bool" where
  "spans_ok donor expect blob st \<longleftrightarrow> (\<forall>(k, p) \<in> set (applied st). map_of expect k = Some (length p) \<and> framed_in donor blob k p)
     \<and> (\<forall>k \<in> set (erased st). \<exists>a n. map_of expect k = Some n \<and> a + REC_HDR + n \<le> length blob
          \<and> all_erased (slice a (a + REC_HDR + n) blob))"

definition ids_ok :: "int \<Rightarrow> decode_state \<Rightarrow> bool" where
  "ids_ok base st \<longleftrightarrow> (\<exists>rids. list_all2 (\<lambda>r kp. key_of_id r base = Some (fst kp)) rids (applied st)
     \<and> sorted_wrt (<) rids \<and> (\<forall>r \<in> set rids. r \<le> last_id st))"

lemma ids_ok_distinct:
  assumes "ids_ok base st"
  shows "distinct (map fst (applied st))"
proof -
  from assms obtain rids where r: "list_all2 (\<lambda>r kp. key_of_id r base = Some (fst kp)) rids (applied st)" "sorted_wrt (<) rids"
    unfolding ids_ok_def by blast
  have "i = j" if "i < length (applied st)" "j < length (applied st)" "fst (applied st ! i) = fst (applied st ! j)" for i j
  proof -
    have "rids ! i = rids ! j"
      using r(1) that key_of_id_inject[of "rids ! i" base _ "rids ! j"] by (auto simp: list_all2_conv_all_nth)
    then show ?thesis using r(2) that list_all2_lengthD[OF r(1)]
      by (metis less_irrefl linorder_neqE_nat sorted_wrt_nth_less)
  qed
  then show ?thesis by (auto simp: distinct_conv_nth)
qed

lemma slice_join: "a \<le> b \<Longrightarrow> b \<le> c \<Longrightarrow> slice a c xs = slice a b xs @ slice b c xs"
proof -
  assume "a \<le> b" "b \<le> c"
  then have e: "c - a = (b - a) + (c - b)" "b - a + a = b" by simp_all
  show ?thesis unfolding slice_def e(1) take_add drop_drop e(2) by (rule refl)
qed

lemma be_bytes_slice: "j \<le> length xs \<Longrightarrow> be_bytes (j - i) (be_int (slice i j xs)) = slice i j xs"
  using be_bytes_be_int[of "slice i j xs"] by simp

lemma be_int_slice_range: "j \<le> length xs \<Longrightarrow> 0 \<le> be_int (slice i j xs) \<and> be_int (slice i j xs) < 256 ^ (j - i)"
  using be_int_bounds[of "slice i j xs"] by simp

text \<open>The span a record was read from is the record the encoder would write.\<close>

lemma read_framed_frame:
  assumes fr: "read_framed donor expect blob lim st = Inr st'" and lim: "lim \<le> length blob"
    and plen: "plen = nat (be_int (slice (pos st + 4) (pos st + 6) blob))"
  shows "frame_record (be_int (slice (pos st + 3) (pos st + 4) blob)) (slice (pos st + REC_HDR) (pos st + REC_HDR + plen) blob)
      (d_layout donor) = Inr (slice (pos st) (pos st + REC_HDR + plen) blob)"
proof -
  let ?p = "pos st" and ?pay = "slice (pos st + REC_HDR) (pos st + REC_HDR + plen) blob"
  from fr have c: "be_int (slice ?p (?p + 2) blob) = REC_MAGIC" "be_int (slice (?p + 2) (?p + 3) blob) = d_layout donor"
    "?p + REC_HDR + plen \<le> lim" "uint (crc16_ccitt (slice ?p (?p + 6) blob @ ?pay) 0xFFFF) = be_int (slice (?p + 6) (?p + 8) blob)"
    unfolding read_framed_def Let_def plen[symmetric] by (auto split: if_splits option.splits)
  have l: "?p + 8 \<le> length blob" "?p + REC_HDR + plen \<le> length blob" using c(3) lim by (simp_all add: REC_HDR_def)
  have n: "int plen = be_int (slice (?p + 4) (?p + 6) blob)" using be_int_slice_range[of "?p + 6" blob "?p + 4"] l by (simp add: plen)
  have parts: "be_bytes 2 REC_MAGIC = slice ?p (?p + 2) blob" "be_bytes (Suc 0) (d_layout donor) = slice (?p + 2) (?p + 3) blob"
    "be_bytes (Suc 0) (be_int (slice (?p + 3) (?p + 4) blob)) = slice (?p + 3) (?p + 4) blob"
    "be_bytes 2 (int plen) = slice (?p + 4) (?p + 6) blob"
    "be_bytes 2 (be_int (slice (?p + 6) (?p + 8) blob)) = slice (?p + 6) (?p + 8) blob"
    using be_bytes_slice[of "?p + 2" blob ?p] be_bytes_slice[of "?p + 3" blob "?p + 2"] be_bytes_slice[of "?p + 4" blob "?p + 3"]
      be_bytes_slice[of "?p + 6" blob "?p + 4"] be_bytes_slice[of "?p + 8" blob "?p + 6"] l c(1,2) n by simp_all
  have rng: "0 \<le> REC_MAGIC" "REC_MAGIC < 65536" "0 \<le> d_layout donor" "d_layout donor < 256"
    "0 \<le> be_int (slice (?p + 3) (?p + 4) blob)" "be_int (slice (?p + 3) (?p + 4) blob) < 256" "int plen < 65536"
    "0 \<le> be_int (slice (?p + 6) (?p + 8) blob)" "be_int (slice (?p + 6) (?p + 8) blob) < 65536"
    using be_int_slice_range[of "?p + 3" blob "?p + 2"] be_int_slice_range[of "?p + 4" blob "?p + 3"]
      be_int_slice_range[of "?p + 6" blob "?p + 4"] be_int_slice_range[of "?p + 8" blob "?p + 6"] l c(2) n by (simp_all add: REC_MAGIC_def)
  have hdr: "slice ?p (?p + 6) blob = slice ?p (?p + 2) blob @ slice (?p + 2) (?p + 3) blob @ slice (?p + 3) (?p + 4) blob @ slice (?p + 4) (?p + 6) blob"
    using slice_join[of ?p "?p + 2" "?p + 6" blob] slice_join[of "?p + 2" "?p + 3" "?p + 6" blob] slice_join[of "?p + 3" "?p + 4" "?p + 6" blob] by simp
  have whole: "slice ?p (?p + REC_HDR + plen) blob = slice ?p (?p + 6) blob @ slice (?p + 6) (?p + 8) blob @ ?pay"
    using slice_join[of ?p "?p + 6" "?p + REC_HDR + plen" blob] slice_join[of "?p + 6" "?p + 8" "?p + REC_HDR + plen" blob] by (simp add: REC_HDR_def)
  have lp: "length ?pay = plen" using l by simp
  have "record_header (be_int (slice (?p + 3) (?p + 4) blob)) plen (d_layout donor) = Inr (slice ?p (?p + 6) blob)"
    using rng parts by (simp add: record_header_def pack_be_def hdr)
  then show ?thesis using rng(8,9) c(4) parts(5) unfolding frame_record_def lp by (simp add: pack_be_def whole)
qed

lemma read_framed_sound:
  assumes "read_framed donor expect blob lim st = Inr st'" "lim \<le> length blob" "spans_ok donor expect blob st" "ids_ok (d_base donor) st"
  shows "spans_ok donor expect blob st' \<and> ids_ok (d_base donor) st'"
proof -
  define rid where "rid = be_int (slice (pos st + 3) (pos st + 4) blob)"
  define plen where "plen = nat (be_int (slice (pos st + 4) (pos st + 6) blob))"
  from assms(1) obtain key where c: "pos st + REC_HDR + plen \<le> lim" "last_id st < rid"
    "key_of_id rid (d_base donor) = Some key" "map_of expect key = Some plen"
    "st' = st\<lparr>applied := applied st @ [(key, slice (pos st + REC_HDR) (pos st + REC_HDR + plen) blob)], last_id := rid,
      pos := pos st + REC_HDR + plen\<rparr>"
    unfolding read_framed_def Let_def rid_def[symmetric] plen_def[symmetric] by (auto split: if_splits option.splits)
  have "length (slice (pos st + REC_HDR) (pos st + REC_HDR + plen) blob) = plen" using c(1) assms(2) by simp
  moreover from this have "framed_in donor blob key (slice (pos st + REC_HDR) (pos st + REC_HDR + plen) blob)"
    using read_framed_frame[OF assms(1,2) plen_def] c(1,3) assms(2) unfolding framed_in_def rid_def[symmetric]
    by (intro exI[of _ rid] exI[of _ "pos st"]) simp
  ultimately have "spans_ok donor expect blob st'" using assms(3) c(4,5) by (auto simp: spans_ok_def)
  moreover from assms(4) obtain rids where "list_all2 (\<lambda>r kp. key_of_id r (d_base donor) = Some (fst kp)) rids (applied st)"
    "sorted_wrt (<) rids" "\<forall>r \<in> set rids. r \<le> last_id st" unfolding ids_ok_def by blast
  then have "ids_ok (d_base donor) st'" using c(2,3,5) unfolding ids_ok_def
    by (intro exI[of _ "rids @ [rid]"]) (auto simp: sorted_wrt_append list_all2_appendI)
  ultimately show ?thesis by simp
qed

lemma read_erased_sound:
  assumes "read_erased SEAM expect order blob lim st = Inr st'" "lim \<le> length blob" "spans_ok donor expect blob st" "ids_ok base st"
    "all_erased (slice (pos st) (pos st + REC_HDR) blob)" "snd ` set order \<subseteq> fst ` set expect"
  shows "spans_ok donor expect blob st' \<and> ids_ok base st'"
proof -
  from assms(1) obtain rid key where f: "find (\<lambda>(r, k). r > last_id st) order = Some (rid, key)"
    and c: "pos st + REC_HDR + the (map_of expect key) \<le> lim"
    "all_erased (slice (pos st + REC_HDR) (pos st + REC_HDR + the (map_of expect key)) blob)"
    "st' = st\<lparr>erased := erased st @ [key], last_id := rid, pos := pos st + REC_HDR + the (map_of expect key)\<rparr>"
    unfolding read_erased_def Let_def SEAM_def by (auto split: if_splits option.splits)
  from f have o: "(rid, key) \<in> set order" "rid > last_id st" by (auto simp: find_Some_iff in_set_conv_nth)
  then obtain n where n: "map_of expect key = Some n" using assms(6)
    by (metis image_subset_iff map_of_eq_None_iff not_None_eq snd_conv)
  have "all_erased (slice (pos st) (pos st + REC_HDR + n) blob)"
    using c(2) assms(5) n slice_join[of "pos st" "pos st + REC_HDR" "pos st + REC_HDR + n" blob] by (simp add: all_erased_def)
  then have "spans_ok donor expect blob st'" using assms(2,3) c(1,3) n
    by (auto simp: spans_ok_def intro!: exI[of _ "pos st"])
  moreover have "ids_ok base st'" using assms(4) c(3) o(2) unfolding ids_ok_def by fastforce
  ultimately show ?thesis by simp
qed

lemma read_records_sound:
  assumes "read_records SEAM donor expect order blob lim n st = Inr st'" "lim \<le> length blob"
    "spans_ok donor expect blob st" "ids_ok (d_base donor) st" "snd ` set order \<subseteq> fst ` set expect"
  shows "spans_ok donor expect blob st' \<and> ids_ok (d_base donor) st'"
  using assms(1,3,4)
proof (induction n arbitrary: st)
  case 0
  then show ?case by simp
next
  case (Suc n)
  then obtain t where t: "(if all_erased (slice (pos st) (pos st + REC_HDR) blob)
      then read_erased SEAM expect order blob lim st else read_framed donor expect blob lim st) = Inr t"
    "read_records SEAM donor expect order blob lim n t = Inr st'" by (auto split: if_splits)
  have "spans_ok donor expect blob t \<and> ids_ok (d_base donor) t"
    using t(1) read_erased_sound[OF _ assms(2) Suc.prems(2,3) _ assms(5)] read_framed_sound[OF _ assms(2) Suc.prems(2,3)]
    by (auto split: if_splits)
  with Suc.IH[OF t(2)] show ?case by blast
qed

lemma record_order_keys:
  assumes "record_order expect base = Inr order"
  shows "snd ` set order = fst ` set expect" "\<forall>(r, k) \<in> set order. rid_of_key k base = Inr r"
proof -
  from assms obtain rows where rows: "mapE (\<lambda>k. rbind (rid_of_key k base) (\<lambda>r. Inr (r, k))) (map fst expect) = Inr rows"
    "order = sort rows" by (auto simp: record_order_def)
  have nth: "rid_of_key (map fst expect ! i) base = Inr (fst (rows ! i)) \<and> snd (rows ! i) = map fst expect ! i"
    if "i < length rows" for i
    using mapE_nth[OF rows(1), of i] mapE_length[OF rows(1)] that by (cases "rows ! i") auto
  have "map snd rows = map fst expect" using nth mapE_length[OF rows(1)] by (intro nth_equalityI) auto
  then show "snd ` set order = fst ` set expect" unfolding rows(2) by (metis set_map set_sort)
  show "\<forall>(r, k) \<in> set order. rid_of_key k base = Inr r" using nth by (auto simp: rows(2) in_set_conv_nth) (metis fst_conv snd_conv)
qed


lemma read_records_not_OK: "read_records seam donor expect order blob lim n st \<noteq> Inl VD_OK"
proof (induction n arbitrary: st)
  case (Suc n)
  then show ?case
    by (auto simp: rbind_Inl_iff read_erased_def read_framed_def Let_def split: if_splits option.splits)
qed simp

lemma decode_body_sound:
  assumes "decode_body SEAM donor expect order blob nrec img_len = (v, app)" "img_len = length blob"
    "snd ` set order = fst ` set expect"
  shows "if v = VD_OK then distinct (map fst app) \<and> (\<forall>(k, p) \<in> set app. map_of expect k = Some (length p) \<and> framed_in donor blob k p)
      \<and> (\<forall>k n. map_of expect k = Some n \<longrightarrow> k \<in> fst ` set app
           \<or> (\<exists>a. a + REC_HDR + n \<le> length blob \<and> all_erased (slice a (a + REC_HDR + n) blob)))
    else app = []"
proof (cases "read_records SEAM donor expect order blob (img_len - KLJ2_TRAILER) nrec start_state")
  case (Inl e)
  with read_records_not_OK have "e \<noteq> VD_OK" by metis
  then show ?thesis using assms(1) Inl by (auto simp: decode_body_def Let_def)
next
  case (Inr st)
  have s0: "spans_ok donor expect blob start_state" "ids_ok (d_base donor) start_state"
    by (auto simp: spans_ok_def ids_ok_def start_state_def)
  have "img_len - KLJ2_TRAILER \<le> length blob" "snd ` set order \<subseteq> fst ` set expect" using assms(2,3) by simp_all
  note inv = read_records_sound[OF Inr this(1) s0 this(2)]
  show ?thesis
  proof (cases "v = VD_OK")
    case True
    then have app: "app = applied st" and all: "list_all (\<lambda>k. k \<in> fst ` set (applied st) \<or> k \<in> set (erased st)) (map fst expect)"
      using assms(1) Inr by (auto simp: decode_body_def Let_def SEAM_def split: if_splits)
    have "k \<in> fst ` set app \<or> (\<exists>a. a + REC_HDR + n \<le> length blob \<and> all_erased (slice a (a + REC_HDR + n) blob))"
      if "map_of expect k = Some n" for k n
    proof -
      have "k \<in> fst ` set expect" using map_of_SomeD[OF that] by force
      then have "k \<in> fst ` set app \<or> k \<in> set (erased st)" using all by (auto simp: app list_all_iff)
      then show ?thesis using inv that unfolding spans_ok_def by fastforce
    qed
    then show ?thesis using True inv ids_ok_distinct by (auto simp: app spans_ok_def)
  next
    case False
    then show ?thesis using assms(1) Inr by (auto simp: decode_body_def Let_def split: if_splits)
  qed
qed

text \<open>The header tests the decoder makes before it looks at any record.\<close>

definition header_ok :: "byte list \<Rightarrow> Donor \<Rightarrow> Ident \<Rightarrow> bool" where
  "header_ok blob donor ident \<longleftrightarrow> KLJ2_HDR + KLJ2_TRAILER \<le> length blob \<and> \<not> all_erased (take KLJ2_HDR blob)
     \<and> u32_le blob 0 = KLJ2_MAGIC \<and> drop_bit 16 (u32_le blob 4) = drop_bit 16 KLJ2_FMT_VER
     \<and> nat (u32_le blob 16) = length blob \<and> length blob \<le> 65536
     \<and> uint (crc32 (take (length blob - 4) blob)) = u32_le blob (length blob - 4)
     \<and> u32_le blob 20 OR push_bit 32 (u32_le blob 24) = i_entity_id ident
     \<and> u32_le blob 28 OR push_bit 32 (u32_le blob 32) = i_model_id ident
     \<and> u32_le blob 36 = d_layout donor"

lemma klj2_decode_header_ok:
  "header_ok blob donor ident \<Longrightarrow> klj2_decode seam blob donor ident expect =
     rbind (record_order expect (d_base donor)) (\<lambda>order.
       Inr (decode_body seam donor expect order blob (nat (u32_le blob 12)) (length blob)))"
  by (simp add: header_ok_def klj2_decode_def Let_def KLJ2_HDR_def KLJ2_TRAILER_def)

lemma klj2_decode_header_bad:
  assumes "\<not> header_ok blob donor ident" and "klj2_decode seam blob donor ident expect = Inr (v, app)"
  shows "v \<noteq> VD_OK \<and> app = []"
proof -
  have "KLJ2_HDR + KLJ2_TRAILER = 44" by (simp add: KLJ2_HDR_def KLJ2_TRAILER_def)
  with assms show ?thesis unfolding header_ok_def klj2_decode_def Let_def
    by (simp only: split: if_split_asm) auto
qed

text \<open>
  Property C6. The decoder applies records all or nothing: any verdict but VD_OK applies none, and
  with VD_OK the container magic and checksum, both identities and the record layout match, every applied
  record belongs to the shape with the shape's own length, stands in the image as exactly the framed record
  (layout octet and CRC-16 included) the encoder writes for it, and no key is applied twice; a shape record that
  was not applied stands in the image as a whole span of erased octets, so an omitted record is never accepted.
\<close>

theorem decode_all_or_nothing:
  assumes "klj2_decode SEAM blob donor ident expect = Inr (v, app)"
  shows "if v = VD_OK then
      u32_le blob 0 = KLJ2_MAGIC \<and> u32_le blob 16 = int (length blob)
      \<and> uint (crc32 (take (length blob - 4) blob)) = u32_le blob (length blob - 4)
      \<and> u32_le blob 20 OR push_bit 32 (u32_le blob 24) = i_entity_id ident
      \<and> u32_le blob 28 OR push_bit 32 (u32_le blob 32) = i_model_id ident
      \<and> u32_le blob 36 = d_layout donor
      \<and> distinct (map fst app) \<and> (\<forall>(k, p) \<in> set app. map_of expect k = Some (length p) \<and> framed_in donor blob k p)
      \<and> (\<forall>k n. map_of expect k = Some n \<longrightarrow> k \<in> fst ` set app
           \<or> (\<exists>a. a + REC_HDR + n \<le> length blob \<and> all_erased (slice a (a + REC_HDR + n) blob)))
    else app = []"
proof (cases "header_ok blob donor ident")
  case True
  with assms obtain order where ord: "record_order expect (d_base donor) = Inr order"
    and body: "decode_body SEAM donor expect order blob (nat (u32_le blob 12)) (length blob) = (v, app)"
    by (auto simp: klj2_decode_header_ok)
  have "44 \<le> length blob" using True by (simp add: header_ok_def KLJ2_HDR_def KLJ2_TRAILER_def)
  then have "u32_le blob 16 = int (length blob)" using True by (auto simp: header_ok_def)
  with decode_body_sound[OF body refl record_order_keys(1)[OF ord]] True show ?thesis by (simp add: header_ok_def)
next
  case False
  with klj2_decode_header_bad[OF this assms] show ?thesis by simp
qed

section \<open>Round trip\<close>

text \<open>
  A saved record set: per record its id, its key, the payload length the shape gives it and, when the
  processor has written it, its payload.
\<close>

type_synonym saved = "int \<times> key \<times> nat \<times> byte list option"

definition saved_ok :: "int \<Rightarrow> saved \<Rightarrow> bool" where
  "saved_ok base s = (case s of (r, k, n, c) \<Rightarrow> 0 \<le> r \<and> rid_of_key k base = Inr r \<and> key_of_id r base = Some k
     \<and> (case c of None \<Rightarrow> True | Some p \<Rightarrow> length p = n))"

definition saved_octets :: "int \<Rightarrow> saved \<Rightarrow> byte list nvm" where
  "saved_octets layout s = (case s of (r, k, n, c) \<Rightarrow>
     case c of None \<Rightarrow> Inr (erased_record n) | Some p \<Rightarrow> frame_record r p layout)"

definition saved_frame :: "int \<Rightarrow> saved \<Rightarrow> (int \<times> byte list) nvm" where
  "saved_frame layout s = rbind (saved_octets layout s) (\<lambda>b. Inr (fst s, b))"

definition saved_expect :: "saved list \<Rightarrow> (key \<times> nat) list" where
  "saved_expect items = map (\<lambda>(r, k, n, c). (k, n)) items"

definition saved_payloads :: "saved list \<Rightarrow> (key \<times> byte list) list" where
  "saved_payloads items = List.map_filter (\<lambda>(r, k, n, c). map_option (Pair k) c) items"

definition saved_blank :: "saved list \<Rightarrow> key list" where
  "saved_blank items = List.map_filter (\<lambda>(r, k, n, c). case c of None \<Rightarrow> Some k | Some _ \<Rightarrow> None) items"

lemma slice_mid: "slice (length a + i) (length a + j) (a @ b @ c) = slice i j (b @ c)"
  by (simp add: slice_skip)

lemma frame_record_shape:
  assumes "frame_record r p layout = Inr b"
  obtains hdr where "hdr = be_bytes 2 REC_MAGIC @ be_bytes 1 layout @ be_bytes 1 r @ be_bytes 2 (int (length p))"
    "b = hdr @ be_bytes 2 (uint (crc16_ccitt (hdr @ p) 0xFFFF)) @ p"
    "0 \<le> layout" "layout < 256" "0 \<le> r" "r < 256" "length p < 65536"
  using assms by (auto simp: frame_record_def record_header_def pack_be_def REC_MAGIC_def split: if_splits)

lemma length_frame_record: "frame_record r p layout = Inr b \<Longrightarrow> length b = REC_HDR + length p"
  by (erule frame_record_shape) (simp add: REC_HDR_def)

lemma uint_crc16_bound: "uint (w :: 16 word) < 65536" "0 \<le> uint (w :: 16 word)"
  using uint_bounded[of w] by simp_all

lemma read_framed_step:
  assumes fr: "frame_record r p (d_layout donor) = Inr b" and blob: "blob = pre @ b @ post" and ps: "pos st = length pre"
    and lim: "length pre + length b \<le> lim" and last: "last_id st < r"
    and key: "key_of_id r (d_base donor) = Some k" "map_of expect k = Some (length p)"
  shows "\<not> all_erased (slice (pos st) (pos st + REC_HDR) blob)"
    "read_framed donor expect blob lim st =
      Inr (st\<lparr>applied := applied st @ [(k, p)], last_id := r, pos := pos st + length b\<rparr>)"
proof -
  from fr obtain hdr where h: "hdr = be_bytes 2 REC_MAGIC @ be_bytes 1 (d_layout donor) @ be_bytes 1 r @ be_bytes 2 (int (length p))"
    and b: "b = hdr @ be_bytes 2 (uint (crc16_ccitt (hdr @ p) 0xFFFF)) @ p"
    and rng: "0 \<le> d_layout donor" "d_layout donor < 256" "0 \<le> r" "r < 256" "length p < 65536"
    by (rule frame_record_shape)
  let ?crc = "uint (crc16_ccitt (hdr @ p) 0xFFFF)"
  have lh: "length hdr = 6" by (simp add: h)
  have lb: "length b = REC_HDR + length p" using length_frame_record[OF fr] .
  have sl: "slice (pos st + i) (pos st + j) blob = slice i j (hdr @ be_bytes 2 ?crc @ p @ post)" for i j
    by (simp add: blob ps b slice_mid)
  have s0: "slice (pos st) (pos st + j) blob = slice 0 j (hdr @ be_bytes 2 ?crc @ p @ post)" for j using sl[of 0 j] by simp
  have f: "slice 0 2 (hdr @ be_bytes 2 ?crc @ p @ post) = be_bytes 2 REC_MAGIC"
    "slice 2 3 (hdr @ be_bytes 2 ?crc @ p @ post) = be_bytes 1 (d_layout donor)"
    "slice 3 4 (hdr @ be_bytes 2 ?crc @ p @ post) = be_bytes 1 r"
    "slice 4 6 (hdr @ be_bytes 2 ?crc @ p @ post) = be_bytes 2 (int (length p))"
    "slice 6 8 (hdr @ be_bytes 2 ?crc @ p @ post) = be_bytes 2 ?crc"
    "slice 8 (8 + length p) (hdr @ be_bytes 2 ?crc @ p @ post) = p"
    by (simp_all add: h slice_simps slice_all)
  have f6: "slice 0 6 (hdr @ be_bytes 2 ?crc @ p @ post) = hdr" using lh by (simp add: slice_head slice_all)
  have vals: "be_int (be_bytes 2 REC_MAGIC) = REC_MAGIC" "be_int (be_bytes 1 (d_layout donor)) = d_layout donor"
    "be_int (be_bytes 1 r) = r" "be_int (be_bytes 2 (int (length p))) = int (length p)" "be_int (be_bytes 2 ?crc) = ?crc"
    using rng uint_crc16_bound[of "crc16_ccitt (hdr @ p) 0xFFFF"] by (simp_all add: be_int_be_bytes REC_MAGIC_def)
  have fst_byte: "be_bytes 2 REC_MAGIC = [0x17, 0x22]"
    by code_simp
  show "\<not> all_erased (slice (pos st) (pos st + REC_HDR) blob)"
    unfolding s0 by (simp add: h fst_byte all_erased_def slice_def REC_HDR_def ERASED_def)
  have pay: "slice (pos st + 8) (pos st + (8 + length p)) blob = p" unfolding sl f(6) by (rule refl)
  have "pos st + REC_HDR + length p \<le> lim" using lim lb ps by simp
  then show "read_framed donor expect blob lim st =
      Inr (st\<lparr>applied := applied st @ [(k, p)], last_id := r, pos := pos st + length b\<rparr>)"
    using last key
    unfolding read_framed_def Let_def REC_HDR_def sl s0 f f6 vals
    by (simp add: lb REC_HDR_def s0 f f6 vals add.assoc pay)
qed

lemma read_erased_step:
  assumes blob: "blob = pre @ erased_record n @ post" and ps: "pos st = length pre"
    and lim: "length pre + length (erased_record n) \<le> lim"
    and nxt: "find (\<lambda>(r, k). r > last_id st) order = Some (r, k)" and key: "map_of expect k = Some n"
  shows "all_erased (slice (pos st) (pos st + REC_HDR) blob)"
    "read_erased SEAM expect order blob lim st =
      Inr (st\<lparr>erased := erased st @ [k], last_id := r, pos := pos st + length (erased_record n)\<rparr>)"
proof -
  have sl: "slice (pos st + i) (pos st + j) blob = slice i j (erased_record n @ post)" for i j
    by (simp add: blob ps slice_mid)
  have e: "all_erased (slice i j (erased_record n @ post))" if "j \<le> REC_HDR + n" for i j
    using that by (auto simp: all_erased_def erased_record_def slice_head slice_def list_all_iff)
  show "all_erased (slice (pos st) (pos st + REC_HDR) blob)" using sl[of 0 REC_HDR] e[of REC_HDR 0] by simp
  have "all_erased (slice (pos st + REC_HDR) (pos st + REC_HDR + n) blob)"
    using sl[of REC_HDR "REC_HDR + n"] e[of "REC_HDR + n" REC_HDR] by (simp add: add.assoc)
  then show "read_erased SEAM expect order blob lim st =
      Inr (st\<lparr>erased := erased st @ [k], last_id := r, pos := pos st + length (erased_record n)\<rparr>)"
    using nxt key lim ps by (simp add: read_erased_def Let_def erased_record_def add.assoc)
qed

text \<open>An erased span is read as the next expected record, so it must stand for exactly that one.\<close>

fun next_ok :: "(int \<times> key) list \<Rightarrow> int \<Rightarrow> saved list \<Rightarrow> bool" where
  "next_ok order l [] = True"
| "next_ok order l ((r, k, n, c) # todo) \<longleftrightarrow>
     (c = None \<longrightarrow> find (\<lambda>(r, k). r > l) order = Some (r, k)) \<and> next_ok order r todo"

lemma next_ok_framed: "\<forall>(r, k, n, c) \<in> set todo. c \<noteq> None \<Longrightarrow> next_ok order l todo"
  by (induction order l todo rule: next_ok.induct) auto

lemma next_ok_order:
  "sorted_wrt (<) (map fst todo) \<Longrightarrow> \<forall>s \<in> set todo. l < fst s \<Longrightarrow> \<forall>x \<in> set prev. fst x \<le> l
    \<Longrightarrow> next_ok (prev @ map (\<lambda>(r, k, n, c). (r, k)) todo) l todo"
proof (induction todo arbitrary: l prev)
  case (Cons s todo)
  obtain r k n c where s: "s = (r, k, n, c)" by (cases s)
  have "next_ok ((prev @ [(r, k)]) @ map (\<lambda>(r, k, n, c). (r, k)) todo) r todo"
    using Cons.prems s by (intro Cons.IH) force+
  moreover have "find (\<lambda>(r, k). r > l) (prev @ (r, k) # rest) = Some (r, k)" for rest
    using Cons.prems(2,3) s by (induction prev) auto
  ultimately show ?case by (simp add: s case_prod_unfold)
qed simp

lemma read_saved:
  assumes "mapE (saved_octets (d_layout donor)) todo = Inr bs"
    and "blob = pre @ concat bs @ post" and "pos st = length pre" and "length pre + length (concat bs) \<le> lim"
    and "sorted_wrt (<) (map fst todo)" and "\<forall>s \<in> set todo. last_id st < fst s"
    and "next_ok order (last_id st) todo"
    and "\<forall>s \<in> set todo. saved_ok (d_base donor) s" and "\<forall>(r, k, n, c) \<in> set todo. map_of expect k = Some n"
  shows "read_records SEAM donor expect order blob lim (length todo) st =
    Inr (st\<lparr>applied := applied st @ saved_payloads todo, erased := erased st @ saved_blank todo,
      pos := pos st + length (concat bs), last_id := last (last_id st # map fst todo)\<rparr>)"
  using assms
proof (induction todo arbitrary: st pre bs)
  case Nil
  then show ?case by (simp add: saved_payloads_def saved_blank_def List.map_filter_def)
next
  case (Cons s todo)
  obtain r k n c where s: "s = (r, k, n, c)" by (cases s)
  from Cons.prems(1) obtain b cs where b: "saved_octets (d_layout donor) s = Inr b"
    "mapE (saved_octets (d_layout donor)) todo = Inr cs" "bs = b # cs" by auto
  have key: "map_of expect k = Some n" "last_id st < r" using Cons.prems(6,9) s by auto
  have blob: "blob = pre @ b @ (concat cs @ post)" and room: "length pre + length b \<le> lim" using Cons.prems(2,4) b(3) by auto
  define t where "t = (case c of
      None \<Rightarrow> st\<lparr>erased := erased st @ [k], last_id := r, pos := pos st + length b\<rparr>
    | Some p \<Rightarrow> st\<lparr>applied := applied st @ [(k, p)], last_id := r, pos := pos st + length b\<rparr>)"
  have hdr: "REC_HDR \<le> length b"
    using b(1) s by (auto simp: saved_octets_def erased_record_def length_frame_record split: option.splits)
  have step: "read_records SEAM donor expect order blob lim (length (s # todo)) st
      = read_records SEAM donor expect order blob lim (length todo) t"
  proof (cases c)
    case None
    then have eb: "b = erased_record n" using b(1) s by (simp add: saved_octets_def)
    have "find (\<lambda>(r, k). r > last_id st) order = Some (r, k)"
      using Cons.prems(7) by (simp add: s None)
    note st = read_erased_step[OF blob[unfolded eb] Cons.prems(3) room[unfolded eb] this key(1)]
    show ?thesis using st room hdr Cons.prems(3) by (simp add: t_def None eb)
  next
    case (Some p)
    then have fr: "frame_record r p (d_layout donor) = Inr b" and lp: "length p = n" and kid: "key_of_id r (d_base donor) = Some k"
      using b(1) s Cons.prems(8) by (auto simp: saved_octets_def saved_ok_def)
    note st = read_framed_step[OF fr blob Cons.prems(3) room key(2) kid key(1)[folded lp]]
    show ?thesis using st room hdr Cons.prems(3) by (simp add: t_def Some)
  qed
  have t: "pos t = length (pre @ b)" "last_id t = r"
    using Cons.prems(3) by (auto simp: t_def split: option.splits)
  have "read_records SEAM donor expect order blob lim (length todo) t =
      Inr (t\<lparr>applied := applied t @ saved_payloads todo, erased := erased t @ saved_blank todo,
        pos := pos t + length (concat cs), last_id := last (last_id t # map fst todo)\<rparr>)"
  proof -
    have "\<forall>s \<in> set todo. last_id t < fst s" using Cons.prems(5) s t(2) by auto
    moreover have "next_ok order (last_id t) todo" using Cons.prems(7) s t(2) by simp
    ultimately show ?thesis using Cons.IH[OF b(2) _ t(1)] Cons.prems b(3) s
      by (auto simp: add.assoc)
  qed
  then show ?case unfolding step
    by (cases c) (simp_all add: b(3) s t_def saved_payloads_def saved_blank_def List.map_filter_simps add.assoc)
qed

lemma lay_out_body:
  "fst (lay_out frames rids body offs) = body @ concat (map (\<lambda>r. the (map_of frames r)) rids)"
  by (induction rids arbitrary: body offs) simp_all

lemma sorted_by_id:
  assumes "distinct (map fst items)"
  shows "sorted_wrt (<) (map fst (sort_key fst (items :: ('a::linorder \<times> 'b) list)))"
    "sort (map fst items) = map fst (sort_key fst items)"
proof -
  let ?S = "sort_key fst items"
  have s: "sorted (map fst ?S)" by simp
  have "mset (map fst ?S) = mset (map fst items)" by simp
  then have d: "distinct (map fst ?S)" using assms by (metis distinct_count_atmost_1 set_mset_mset)
  show "sorted_wrt (<) (map fst ?S)" using s d by (simp add: strict_sorted_iff)
  show "sort (map fst items) = map fst ?S" by (rule properties_for_sort) (simp_all add: s)
qed

lemma saved_ids_distinct:
  assumes "\<forall>s \<in> set items. saved_ok base s" "distinct (map (\<lambda>(r, k, n, c). k) items)"
  shows "distinct (map fst items)"
  using assms
proof (induction items)
  case (Cons s items)
  obtain r k n c where s: "s = (r, k, n, c)" by (cases s)
  have "r \<noteq> fst t" if "t \<in> set items" for t
  proof
    assume "r = fst t"
    moreover obtain r' k' n' c' where t: "t = (r', k', n', c')" by (cases t)
    ultimately have "k = k'" using Cons.prems(1) that s by (auto simp: saved_ok_def)
    then show False using Cons.prems(2) that s t by force
  qed
  then have "r \<notin> fst ` set items" by blast
  with Cons show ?case by (simp add: s)
qed simp

lemma record_order_saved:
  assumes "\<forall>s \<in> set items. saved_ok base s" "distinct (map (\<lambda>(r, k, n, c). k) items)"
  shows "record_order (saved_expect items) base = Inr (map (\<lambda>(r, k, n, c). (r, k)) (sort_key fst items))"
proof -
  let ?f = "\<lambda>(r, k, n, c). (r, k) :: int \<times> key" and ?S = "sort_key fst items"
  have m: "mapE (\<lambda>k. rbind (rid_of_key k base) (\<lambda>r. Inr (r, k))) (map fst (saved_expect items)) = Inr (map ?f items)"
    using assms(1) by (induction items) (auto simp: saved_expect_def saved_ok_def split: prod.splits)
  have st: "sorted_wrt (<) (map fst ?S)" by (rule sorted_by_id(1)[OF saved_ids_distinct[OF assms]])
  have "sorted (map ?f ?S)" unfolding sorted_map
    using st[unfolded sorted_wrt_map] by (rule sorted_wrt_mono_rel[rotated]) (auto simp: less_eq_prod_def)
  then have "sort (map ?f items) = map ?f ?S" by (intro properties_for_sort) simp_all
  then show ?thesis using m by (simp add: record_order_def)
qed

lemma saved_frames_octets:
  assumes "mapE (saved_frame layout) items = Inr frames" "distinct (map fst items)"
  shows "map fst frames = map fst items" "length frames = length items"
    "mapE (saved_octets layout) (sort_key fst items) = Inr (map (\<lambda>s. the (map_of frames (fst s))) (sort_key fst items))"
proof -
  have nth: "saved_octets layout (items ! i) = Inr (snd (frames ! i)) \<and> fst (frames ! i) = fst (items ! i)"
    if "i < length items" for i
    using mapE_nth[OF assms(1) that] by (cases "frames ! i") (auto simp: saved_frame_def)
  show len: "length frames = length items" using mapE_length[OF assms(1)] .
  show fst: "map fst frames = map fst items" using nth len by (intro nth_equalityI) auto
  have "saved_octets layout s = Inr (the (map_of frames (fst s)))" if s: "s \<in> set (sort_key fst items)" for s
  proof -
    from s obtain i where i: "i < length items" "s = items ! i" by (auto simp: in_set_conv_nth)
    then have "(fst s, snd (frames ! i)) \<in> set frames" using nth[OF i(1)] len by (metis nth_mem prod.collapse)
    then have "map_of frames (fst s) = Some (snd (frames ! i))" using assms(2) fst by simp
    with nth[OF i(1)] i(2) show ?thesis by simp
  qed
  then show "mapE (saved_octets layout) (sort_key fst items) = Inr (map (\<lambda>s. the (map_of frames (fst s))) (sort_key fst items))"
    by (rule mapE_total)
qed

lemma recombine64: "0 \<le> v \<Longrightarrow> v < 2 ^ 64 \<Longrightarrow> low32 v OR push_bit 32 (high32 v) = v"
proof -
  assume v: "0 \<le> v" "v < 2 ^ 64"
  have m: "0xFFFFFFFF = (mask 32 :: int)" by (simp add: mask_eq_exp_minus_1)
  have t: "take_bit 64 v = v" using v by (simp add: take_bit_int_eq_self)
  show ?thesis
  proof (rule bit_eqI)
    fix n
    have "bit v n \<Longrightarrow> n < 64" using t by (metis bit_take_bit_iff)
    then show "bit (low32 v OR push_bit 32 (high32 v)) n = bit v n"
      by (auto simp: low32_def high32_def m bit_simps)
  qed
qed

lemma low_high_bounds: "0 \<le> low32 v" "low32 v < 256 ^ 4" "0 \<le> high32 v" "high32 v < 256 ^ 4"
proof -
  have m: "0xFFFFFFFF = (mask 32 :: int)" by (simp add: mask_eq_exp_minus_1)
  show "0 \<le> low32 v" "low32 v < 256 ^ 4" "0 \<le> high32 v" "high32 v < 256 ^ 4"
    unfolding low32_def high32_def m
    by (simp_all add: take_bit_nonnegative take_bit_int_less_exp[of 32, simplified] flip: take_bit_eq_mask)
qed

lemma u32_le_field: "length a = at \<Longrightarrow> 0 \<le> v \<Longrightarrow> v < 256 ^ 4 \<Longrightarrow> u32_le (a @ le_bytes 4 v @ rest) at = v"
  by (simp add: u32_le_def slice_skip slice_head slice_all le_int_le_bytes)

lemma klj2_header_fields:
  assumes "klj2_header nrec img_len donor ident = Inr hdr"
  shows "length hdr = KLJ2_HDR" "\<not> all_erased hdr" "u32_le (hdr @ rest) 0 = KLJ2_MAGIC" "u32_le (hdr @ rest) 4 = KLJ2_FMT_VER"
    "u32_le (hdr @ rest) 12 = int nrec" "u32_le (hdr @ rest) 16 = int img_len"
    "u32_le (hdr @ rest) 20 = low32 (i_entity_id ident)" "u32_le (hdr @ rest) 24 = high32 (i_entity_id ident)"
    "u32_le (hdr @ rest) 28 = low32 (i_model_id ident)" "u32_le (hdr @ rest) 32 = high32 (i_model_id ident)"
    "u32_le (hdr @ rest) 36 = d_layout donor"
proof -
  let ?fs = "[KLJ2_MAGIC, KLJ2_FMT_VER, i_seq ident, int nrec, int img_len, low32 (i_entity_id ident), high32 (i_entity_id ident),
      low32 (i_model_id ident), high32 (i_model_id ident), d_layout donor]"
  have h: "hdr = concat (map (le_bytes 4) ?fs)" and rng: "\<forall>v \<in> set ?fs. 0 \<le> v \<and> v < 256 ^ 4"
    using assms low_high_bounds unfolding klj2_header_def by (auto simp: pack_le_def split: if_splits)
  show "length hdr = KLJ2_HDR" by (simp add: h KLJ2_HDR_def)
  have "le_bytes 4 KLJ2_MAGIC = [0x4B, 0x4C, 0x4A, 0x32]" by code_simp
  then show "\<not> all_erased hdr" by (simp add: h all_erased_def ERASED_def)
  have fld: "u32_le (hdr @ rest) (4 * i) = ?fs ! i" if "i < length ?fs" for i
  proof -
    have "hdr = concat (map (le_bytes 4) (take i ?fs)) @ le_bytes 4 (?fs ! i) @ concat (map (le_bytes 4) (drop (Suc i) ?fs))"
    proof -
      have "?fs = take i ?fs @ ?fs ! i # drop (Suc i) ?fs" by (rule id_take_nth_drop[OF that])
      then have "map (le_bytes 4) ?fs = map (le_bytes 4) (take i ?fs @ ?fs ! i # drop (Suc i) ?fs)" by (rule arg_cong)
      then show ?thesis unfolding h by (simp only: concat_append map_append list.map concat.simps)
    qed
    moreover have "length (concat (map (le_bytes 4) (take i ?fs))) = 4 * i"
      using that by (simp add: length_concat comp_def sum_list_triv)
    moreover have "0 \<le> ?fs ! i" "?fs ! i < 256 ^ 4" using rng nth_mem[OF that] by blast+
    ultimately show ?thesis using u32_le_field[of _ "4 * i" "?fs ! i"] by simp
  qed
  show "u32_le (hdr @ rest) 0 = KLJ2_MAGIC" "u32_le (hdr @ rest) 4 = KLJ2_FMT_VER"
    "u32_le (hdr @ rest) 12 = int nrec" "u32_le (hdr @ rest) 16 = int img_len"
    "u32_le (hdr @ rest) 20 = low32 (i_entity_id ident)" "u32_le (hdr @ rest) 24 = high32 (i_entity_id ident)"
    "u32_le (hdr @ rest) 28 = low32 (i_model_id ident)" "u32_le (hdr @ rest) 32 = high32 (i_model_id ident)"
    "u32_le (hdr @ rest) 36 = d_layout donor"
    using fld[of 0] fld[of 1] fld[of 3] fld[of 4] fld[of 5] fld[of 6] fld[of 7] fld[of 8] fld[of 9] by simp_all
qed

lemma klj2_assemble_shape:
  assumes "klj2_assemble frames donor ident = Inr (blob, offs)"
  obtains hdr records where "records = concat (map (\<lambda>r. the (map_of frames r)) (sort (map fst frames)))"
    "klj2_header (length frames) (KLJ2_HDR + length records + padding (length records) + KLJ2_TRAILER) donor ident = Inr hdr"
    "blob = hdr @ (records @ replicate (padding (length records)) 0)
       @ le_bytes 4 (uint (crc32 (hdr @ records @ replicate (padding (length records)) 0)))"
    "offs = snd (lay_out frames (sort (map fst frames)) [] [])"
proof -
  obtain records o2 where lo: "lay_out frames (sort (map fst frames)) [] [] = (records, o2)" by fastforce
  then have rec: "records = concat (map (\<lambda>r. the (map_of frames r)) (sort (map fst frames)))"
    using lay_out_body[of frames "sort (map fst frames)" "[]" "[]"] by simp
  from assms obtain hdr where
    "klj2_header (length frames) (KLJ2_HDR + length records + padding (length records) + KLJ2_TRAILER) donor ident = Inr hdr"
    "blob = hdr @ (records @ replicate (padding (length records)) 0)
       @ le_bytes 4 (uint (crc32 (hdr @ records @ replicate (padding (length records)) 0)))" "offs = o2"
    by (auto simp: klj2_assemble_def lo Let_def pack_le_def add.assoc split: if_splits)
  with rec lo show thesis by (intro that) simp_all
qed

lemma padding_aligned: "KLJ2_HDR + n + padding (KLJ2_HDR + n - KLJ2_HDR) = KLJ2_HDR + (n + padding n)"
  by simp

lemma saved_covered: "list_all (\<lambda>k. k \<in> fst ` set (saved_payloads items) \<or> k \<in> set (saved_blank items)) (map fst (saved_expect items))"
proof (induction items)
  case (Cons s items)
  obtain r k n c where "s = (r, k, n, c)" by (cases s)
  with Cons show ?case
    by (cases c) (auto simp: saved_expect_def saved_payloads_def saved_blank_def List.map_filter_simps list_all_iff)
qed (simp add: saved_expect_def)

lemma saved_sets_perm:
  "set (saved_payloads (sort_key fst items)) = set (saved_payloads items)"
  "set (saved_blank (sort_key fst items)) = set (saved_blank items)"
  by (auto simp: saved_payloads_def saved_blank_def List.map_filter_def)

lemma uint_crc32_bound: "0 \<le> uint (w :: 32 word)" "uint (w :: 32 word) < 256 ^ 4"
  using uint_bounded[of w] by simp_all

lemma frame_record_total:
  assumes "0 \<le> layout" "layout < 256" "0 \<le> r" "r < 256" "length p < 65536"
  shows "\<exists>b. frame_record r p layout = Inr b"
  using assms uint_crc16_bound by (simp add: frame_record_def record_header_def pack_be_def REC_MAGIC_def)

lemma saved_octets_total:
  assumes "0 \<le> layout" "layout < 256" "0 \<le> fst s" "fst s < 256" "saved_ok base s" "fst (snd (snd s)) < 65536"
  shows "\<exists>b. saved_octets layout s = Inr b \<and> length b = REC_HDR + fst (snd (snd s))"
proof -
  obtain r k n c where s: "s = (r, k, n, c)" by (cases s)
  show ?thesis
  proof (cases c)
    case None
    then show ?thesis by (simp add: s saved_octets_def erased_record_def)
  next
    case (Some p)
    then have "length p = n" using assms(5) by (simp add: s saved_ok_def)
    with frame_record_total[of layout r p] length_frame_record[of r p layout] assms Some show ?thesis
      by (auto simp: s saved_octets_def)
  qed
qed

definition area_bytes :: "saved list \<Rightarrow> nat" where
  "area_bytes items = (\<Sum>s \<leftarrow> items. REC_HDR + fst (snd (snd s)))"

text \<open>The record area holds every frame once, whatever the order of the dict.\<close>

lemma records_length:
  assumes "distinct (map fst frames)"
  shows "length (concat (map (\<lambda>r. the (map_of frames r)) (sort (map fst frames)))) = (\<Sum>(r, b) \<leftarrow> frames. length b)"
proof -
  have "map (\<lambda>r. the (map_of frames r)) (sort (map fst frames)) = map snd (sort_key fst frames)"
    unfolding sorted_by_id(2)[OF assms] using assms by (auto simp: comp_def)
  then show ?thesis by (simp add: length_concat comp_def case_prod_beta' flip: sum_mset_sum_list)
qed

lemma assemble_total:
  assumes ids: "distinct (map fst frames)" and "0 \<le> d_layout donor" "d_layout donor < 2 ^ 32"
    and "0 \<le> i_seq ident" "i_seq ident < 2 ^ 32" and room: "(\<Sum>(r, b) \<leftarrow> frames. length b) + padding (\<Sum>(r, b) \<leftarrow> frames. length b) \<le> 65492" and "length frames < 2 ^ 32"
  shows "\<exists>blob offs. klj2_assemble frames donor ident = Inr (blob, offs) \<and> length blob \<le> 65536"
proof -
  define records where "records = concat (map (\<lambda>r. the (map_of frames r)) (sort (map fst frames)))"
  have R: "length records + padding (length records) \<le> 65492" using records_length[OF ids] room by (simp add: records_def)
  have "\<exists>hdr. klj2_header (length frames) (KLJ2_HDR + length records + padding (length records) + KLJ2_TRAILER) donor ident = Inr hdr"
    using assms(2-) R low_high_bounds
    by (simp add: klj2_header_def pack_le_def KLJ2_MAGIC_def KLJ2_FMT_VER_def KLJ2_HDR_def KLJ2_TRAILER_def)
  then obtain hdr where hdr: "klj2_header (length frames) (KLJ2_HDR + length records + padding (length records) + KLJ2_TRAILER) donor ident = Inr hdr" ..
  obtain o2 where lo: "lay_out frames (sort (map fst frames)) [] [] = (records, o2)"
    using lay_out_body[of frames "sort (map fst frames)" "[]" "[]"] by (cases "lay_out frames (sort (map fst frames)) [] []") (auto simp: records_def)
  have "klj2_assemble frames donor ident = Inr (hdr @ (records @ replicate (padding (length records)) 0)
      @ le_bytes 4 (uint (crc32 (hdr @ records @ replicate (padding (length records)) 0))), o2)"
    using hdr uint_crc32_bound by (simp add: klj2_assemble_def lo Let_def pack_le_def add.assoc)
  moreover have "length (hdr @ (records @ replicate (padding (length records)) 0)
      @ le_bytes 4 (uint (crc32 (hdr @ records @ replicate (padding (length records)) 0)))) \<le> 65536"
    using klj2_header_fields(1)[OF hdr] R by (simp add: KLJ2_HDR_def)
  ultimately show ?thesis by blast
qed

text \<open>The records of a shape within the id space and the port's length field are always framed.\<close>

definition saved_fits :: "int \<Rightarrow> saved \<Rightarrow> bool" where
  "saved_fits base s \<longleftrightarrow> saved_ok base s \<and> fst s < 256 \<and> fst (snd (snd s)) < 65536"

lemma saved_frames_total:
  assumes "\<forall>s \<in> set items. saved_fits base s" and "0 \<le> layout" "layout < 256"
  obtains frames where "mapE (saved_frame layout) items = Inr frames"
    "(\<Sum>(r, b) \<leftarrow> frames. length b) = area_bytes items"
proof -
  have "\<exists>fr. saved_frame layout s = Inr fr \<and> length (snd fr) = REC_HDR + fst (snd (snd s))" if "s \<in> set items" for s
  proof -
    have s: "saved_ok base s" "fst s < 256" "fst (snd (snd s)) < 65536" "0 \<le> fst s"
      using assms(1) that by (auto simp: saved_fits_def saved_ok_def)
    from saved_octets_total[OF assms(2,3) s(4,2,1,3)] show ?thesis by (auto simp: saved_frame_def)
  qed
  then obtain g where g: "\<forall>s \<in> set items. saved_frame layout s = Inr (g s) \<and> length (snd (g s)) = REC_HDR + fst (snd (snd s))" by metis
  show thesis
  proof (rule that)
    show "mapE (saved_frame layout) items = Inr (map g items)" using g by (intro mapE_total) blast
    show "(\<Sum>(r, b) \<leftarrow> map g items. length b) = area_bytes items"
      unfolding area_bytes_def using g by (auto simp: case_prod_beta' comp_def intro!: arg_cong[of _ _ sum_list])
  qed
qed

lemma saved_image_total:
  assumes "\<forall>s \<in> set items. saved_fits (d_base donor) s"
    and "distinct (map (\<lambda>(r, k, n, c). k) items)" and "0 \<le> d_layout donor" "d_layout donor < 256"
    and "0 \<le> i_seq ident" "i_seq ident < 2 ^ 32" and "area_bytes items + padding (area_bytes items) \<le> 65492" "length items < 2 ^ 32"
  obtains frames blob offs where "mapE (saved_frame (d_layout donor)) items = Inr frames"
    "klj2_assemble frames donor ident = Inr (blob, offs)" "length blob \<le> 65536"
proof -
  from saved_frames_total[OF assms(1,3,4)] obtain frames where frames: "mapE (saved_frame (d_layout donor)) items = Inr frames"
    "(\<Sum>(r, b) \<leftarrow> frames. length b) = area_bytes items" .
  have ids: "distinct (map fst items)" using assms(1,2) by (intro saved_ids_distinct[of items "d_base donor"]) (auto simp: saved_fits_def)
  note fr = saved_frames_octets[OF frames(1) ids]
  have "\<exists>blob offs. klj2_assemble frames donor ident = Inr (blob, offs) \<and> length blob \<le> 65536"
    using assms ids fr frames(2) by (intro assemble_total) simp_all
  then show thesis using that[OF frames(1)] by blast
qed

text \<open>Whatever octets the frames hold, an assembled image passes every check of its container.\<close>

lemma assembled_decode:
  assumes asm: "klj2_assemble frames donor ident = Inr (blob, offs)" and size: "length blob \<le> 65536"
    and ent: "0 \<le> i_entity_id ident" "i_entity_id ident < 2 ^ 64" and mdl: "0 \<le> i_model_id ident" "i_model_id ident < 2 ^ 64"
  obtains records hdr post where "records = concat (map (\<lambda>r. the (map_of frames r)) (sort (map fst frames)))"
    "blob = hdr @ records @ post" "length hdr = KLJ2_HDR"
    "length blob = KLJ2_HDR + length records + padding (length records) + KLJ2_TRAILER"
    "\<forall>seam expect. klj2_decode seam blob donor ident expect = rbind (record_order expect (d_base donor)) (\<lambda>order.
      Inr (decode_body seam donor expect order blob (length frames) (length blob)))"
proof -
  from asm obtain hdr records where rec: "records = concat (map (\<lambda>r. the (map_of frames r)) (sort (map fst frames)))"
    and hdr: "klj2_header (length frames) (KLJ2_HDR + length records + padding (length records) + KLJ2_TRAILER) donor ident = Inr hdr"
    and blob: "blob = hdr @ (records @ replicate (padding (length records)) 0)
       @ le_bytes 4 (uint (crc32 (hdr @ records @ replicate (padding (length records)) 0)))"
    by (rule klj2_assemble_shape)
  define pad :: "byte list" where "pad = replicate (padding (length records)) 0"
  define crc where "crc = le_bytes 4 (uint (crc32 (hdr @ records @ pad)))"
  have blob': "blob = hdr @ records @ pad @ crc" by (simp add: blob pad_def crc_def)
  note fld = klj2_header_fields[OF hdr]
  have len: "length blob = KLJ2_HDR + length records + padding (length records) + KLJ2_TRAILER"
    by (simp add: blob' fld(1) pad_def crc_def KLJ2_TRAILER_def)
  have "header_ok blob donor ident"
  proof -
    have body: "take (length blob - 4) blob = hdr @ records @ pad"
      by (simp add: blob' crc_def)
    have "u32_le blob (length blob - 4) = uint (crc32 (hdr @ records @ pad))"
      using u32_le_field[of "hdr @ records @ pad" "length blob - 4" "uint (crc32 (hdr @ records @ pad))" "[]"] uint_crc32_bound
      by (simp add: blob' crc_def)
    moreover have "\<not> all_erased (take KLJ2_HDR blob)" using fld(1,2) by (simp add: blob')
    ultimately show ?thesis using fld(3-)[of "records @ pad @ crc"] size ent mdl
      unfolding header_ok_def body by (simp add: recombine64 len flip: blob')
  qed
  note dec = klj2_decode_header_ok[OF this]
  have nrec: "nat (u32_le blob 12) = length frames" using fld(5)[of "records @ pad @ crc"] by (simp add: blob')
  show thesis
    by (rule that[OF rec _ fld(1) len, of "pad @ crc"]) (simp_all add: blob' dec[unfolded blob'] nrec[unfolded blob'])
qed

lemma saved_expect_distinct: "map fst (saved_expect items) = map (\<lambda>(r, k, n, c). k) items"
  by (auto simp: saved_expect_def)

lemma saved_expect_lookup:
  assumes "distinct (map (\<lambda>(r, k, n, c). k) items)" "(r, k, n, c) \<in> set items"
  shows "map_of (saved_expect items) k = Some n"
proof -
  have "(k, n) \<in> set (saved_expect items)" using assms(2) by (force simp: saved_expect_def)
  then show ?thesis using assms(1) by (simp add: saved_expect_distinct)
qed

text \<open>The records of an assembled image, read to the end against any expectation that knows them.\<close>

lemma read_assembled:
  assumes ok: "\<forall>s \<in> set items. saved_ok (d_base donor) s" and keys: "distinct (map (\<lambda>(r, k, n, c). k) items)"
    and frames: "mapE (saved_frame (d_layout donor)) items = Inr frames"
    and blob: "blob = hdr @ concat (map (\<lambda>r. the (map_of frames r)) (sort (map fst frames))) @ post" "length hdr = KLJ2_HDR"
    and expect: "\<forall>(r, k, n, c) \<in> set items. map_of expect k = Some n" and nxt: "next_ok order (-1) (sort_key fst items)"
    and lim: "KLJ2_HDR + length (concat (map (\<lambda>r. the (map_of frames r)) (sort (map fst frames)))) \<le> lim"
  shows "\<exists>l. read_records SEAM donor expect order blob lim (length frames) start_state
    = Inr (start_state\<lparr>applied := saved_payloads (sort_key fst items), erased := saved_blank (sort_key fst items),
        pos := KLJ2_HDR + length (concat (map (\<lambda>r. the (map_of frames r)) (sort (map fst frames)))), last_id := l\<rparr>)"
proof -
  let ?S = "sort_key fst items"
  note ids = saved_ids_distinct[OF ok keys]
  note fr = saved_frames_octets[OF frames ids]
  have cat: "map (\<lambda>r. the (map_of frames r)) (sort (map fst frames)) = map (\<lambda>s. the (map_of frames (fst s))) ?S"
    unfolding fr(1) sorted_by_id(2)[OF ids] by (simp add: comp_def)
  have "\<forall>s \<in> set ?S. last_id start_state < fst s" using ok by (auto simp: start_state_def saved_ok_def)
  moreover have "pos start_state = length hdr" using blob(2) by (simp add: start_state_def)
  ultimately show ?thesis
    using read_saved[OF fr(3) blob(1)[unfolded cat], of start_state lim order expect] blob(2) lim expect nxt ok sorted_by_id(1)[OF ids] fr(2)
    unfolding cat by (intro exI[of _ "last (-1 # map fst ?S)"]) (simp add: start_state_def)
qed

lemma saved_ids_natural: "\<forall>s \<in> set items. saved_ok base s \<Longrightarrow> \<forall>s \<in> set items. -1 < fst s"
  by (auto simp: saved_ok_def)

lemma decode_assembled:
  assumes ok: "\<forall>s \<in> set items. saved_ok (d_base donor) s" and keys: "distinct (map (\<lambda>(r, k, n, c). k) items)"
    and frames: "mapE (saved_frame (d_layout donor)) items = Inr frames"
    and asm: "klj2_assemble frames donor ident = Inr (blob, offs)" and size: "length blob \<le> 65536"
    and ent: "0 \<le> i_entity_id ident" "i_entity_id ident < 2 ^ 64" and mdl: "0 \<le> i_model_id ident" "i_model_id ident < 2 ^ 64"
  shows "klj2_decode SEAM blob donor ident (saved_expect items) = Inr (VD_OK, saved_payloads (sort_key fst items))"
proof -
  let ?S = "sort_key fst items" and ?exp = "saved_expect items"
  note ids = saved_ids_distinct[OF ok keys]
  obtain records hdr post where
    rec: "records = concat (map (\<lambda>r. the (map_of frames r)) (sort (map fst frames)))"
    and blob: "blob = hdr @ records @ post" "length hdr = KLJ2_HDR"
    and len: "length blob = KLJ2_HDR + length records + padding (length records) + KLJ2_TRAILER"
    and dec: "\<forall>seam expect. klj2_decode seam blob donor ident expect = rbind (record_order expect (d_base donor)) (\<lambda>order.
      Inr (decode_body seam donor expect order blob (length frames) (length blob)))"
    by (rule assembled_decode[OF asm size ent mdl])
  have "next_ok (map (\<lambda>(r, k, n, c). (r, k)) ?S) (-1) ?S"
    using next_ok_order[OF sorted_by_id(1)[OF ids], of "-1" "[]"] saved_ids_natural[OF ok] by simp
  moreover have "\<forall>(r, k, n, c) \<in> set items. map_of ?exp k = Some n" using saved_expect_lookup[OF keys] by fast
  ultimately have "\<exists>l. read_records SEAM donor ?exp (map (\<lambda>(r, k, n, c). (r, k)) ?S) blob (length blob - KLJ2_TRAILER) (length frames) start_state
      = Inr (start_state\<lparr>applied := saved_payloads ?S, erased := saved_blank ?S, pos := KLJ2_HDR + length records, last_id := l\<rparr>)"
    unfolding rec using blob len by (intro read_assembled[OF ok keys frames]) (simp_all add: rec)
  then have "decode_body SEAM donor ?exp (map (\<lambda>(r, k, n, c). (r, k)) ?S) blob (length frames) (length blob) = (VD_OK, saved_payloads ?S)"
    using saved_covered[of items] by (auto simp: decode_body_def Let_def len saved_sets_perm)
  then show ?thesis unfolding dec[rule_format] by (simp add: record_order_saved[OF ok keys])
qed

text \<open>
  Property C1. Saved state round trips: whatever record set of a shape is framed (a record never
  written standing as its erased span), the image the encoder assembles decodes as VD_OK and applies
  exactly the written payloads, in ascending id order, for every device identity of 64 bits.
\<close>

theorem saved_state_round_trip:
  assumes ok: "\<forall>s \<in> set items. saved_ok (d_base donor) s" and keys: "distinct (map (\<lambda>(r, k, n, c). k) items)"
    and frames: "mapE (saved_frame (d_layout donor)) items = Inr frames"
    and asm: "klj2_assemble frames donor ident = Inr (blob, offs)" and size: "length blob \<le> 65536"
    and ent: "0 \<le> i_entity_id ident" "i_entity_id ident < 2 ^ 64" and mdl: "0 \<le> i_model_id ident" "i_model_id ident < 2 ^ 64"
  shows "klj2_decode SEAM blob donor ident (saved_expect items) = Inr (VD_OK, saved_payloads (sort_key fst items))"
  by (rule decode_assembled[OF assms])

text \<open>A configuration index that was written and a system unique id that never was.\<close>

definition sample_saved :: "saved list" where
  "sample_saved = [(1, (''SUID'', 0), 8, None), (0, (''CFG_IDX'', 0), 2, Some [1, 2])]"

definition sample_donor :: Donor where
  "sample_donor = \<lparr>d_base = 0x20, d_layout = 1\<rparr>"

definition sample_ident :: Ident where
  "sample_ident = \<lparr>i_seq = 7, i_entity_id = 0x0011223344556677, i_model_id = 0x8899AABBCCDDEEFF\<rparr>"

lemma sample_saved_ok:
  "\<forall>s \<in> set sample_saved. saved_fits (d_base sample_donor) s"
  "distinct (map (\<lambda>(r, k, n, c). k) sample_saved)" "area_bytes sample_saved + padding (area_bytes sample_saved) \<le> 65492"
  by (simp_all add: sample_saved_def saved_fits_def saved_ok_def rid_of_key_def key_of_id_def id_blocks_def alloc_base_def ALLOC_def
      sample_donor_def area_bytes_def REC_HDR_def padding_def ALIGN_def)

lemma sample_image:
  obtains frames blob offs where "mapE (saved_frame (d_layout sample_donor)) sample_saved = Inr frames"
    "klj2_assemble frames sample_donor sample_ident = Inr (blob, offs)" "length blob \<le> 65536"
proof (rule saved_image_total[OF sample_saved_ok(1,2), of sample_ident])
  show "length sample_saved < 2 ^ 32" by (simp add: sample_saved_def)
qed (use sample_saved_ok(3) that in \<open>simp_all add: sample_donor_def sample_ident_def\<close>)

theorem saved_state_round_trip_witness:
  "\<exists>frames blob offs. mapE (saved_frame (d_layout sample_donor)) sample_saved = Inr frames
    \<and> klj2_assemble frames sample_donor sample_ident = Inr (blob, offs)
    \<and> klj2_decode SEAM blob sample_donor sample_ident [((''SUID'', 0), 8), ((''CFG_IDX'', 0), 2)]
        = Inr (VD_OK, [((''CFG_IDX'', 0), [1, 2])])"
proof (rule sample_image)
  fix frames blob offs
  assume im: "mapE (saved_frame (d_layout sample_donor)) sample_saved = Inr frames"
    "klj2_assemble frames sample_donor sample_ident = Inr (blob, offs)" "length blob \<le> 65536"
  have "\<forall>s \<in> set sample_saved. saved_ok (d_base sample_donor) s" using sample_saved_ok(1) by (simp add: saved_fits_def)
  note saved_state_round_trip[OF this sample_saved_ok(2) im]
  moreover have "saved_expect sample_saved = [((''SUID'', 0), 8), ((''CFG_IDX'', 0), 2)]"
    "saved_payloads (sort_key fst sample_saved) = [((''CFG_IDX'', 0), [1, 2])]" by code_simp+
  ultimately show ?thesis using im by (auto simp: sample_ident_def)
qed

theorem decode_all_or_nothing_witness:
  "\<exists>blob app. klj2_decode SEAM blob sample_donor sample_ident (saved_expect sample_saved) = Inr (VD_OK, app)
    \<and> distinct (map fst app) \<and> uint (crc32 (take (length blob - 4) blob)) = u32_le blob (length blob - 4)"
proof (rule sample_image)
  fix frames blob offs
  assume im: "mapE (saved_frame (d_layout sample_donor)) sample_saved = Inr frames"
    "klj2_assemble frames sample_donor sample_ident = Inr (blob, offs)" "length blob \<le> 65536"
  have "\<forall>s \<in> set sample_saved. saved_ok (d_base sample_donor) s" using sample_saved_ok(1) by (simp add: saved_fits_def)
  then have "klj2_decode SEAM blob sample_donor sample_ident (saved_expect sample_saved)
      = Inr (VD_OK, saved_payloads (sort_key fst sample_saved))"
    by (rule decode_assembled[OF _ sample_saved_ok(2) im]) (simp_all add: sample_ident_def)
  with decode_all_or_nothing[OF this] show ?thesis by auto
qed

section \<open>Record offsets\<close>

lemma lay_out_offsets:
  assumes "lay_out frames rids body offs = (body', offs')" "distinct rids" "fst ` set offs \<inter> set rids = {}"
  shows "(\<forall>r \<in> set rids. \<exists>a. map_of offs' r = Some a \<and> slice a (a + length (the (map_of frames r))) body' = the (map_of frames r)
      \<and> a + length (the (map_of frames r)) \<le> length body')
    \<and> (\<forall>r. r \<notin> set rids \<longrightarrow> map_of offs' r = map_of offs r) \<and> (\<exists>more. body' = body @ more)"
  using assms
proof (induction rids arbitrary: body offs)
  case Nil
  then show ?case by simp
next
  case (Cons r rids)
  let ?b = "the (map_of frames r)"
  have pre: "fst ` set (offs @ [(r, length body)]) \<inter> set rids = {}" using Cons.prems(2,3) by auto
  note IH = Cons.IH[OF Cons.prems(1)[unfolded lay_out.simps] _ pre]
  have d: "distinct rids" "r \<notin> set rids" using Cons.prems(2) by auto
  obtain more where more: "body' = (body @ ?b) @ more" using IH d(1) by blast
  have "map_of offs r = None" using Cons.prems(3) by (auto simp: map_of_eq_None_iff)
  then have "map_of (offs @ [(r, length body)]) r = Some (length body)" by (simp add: map_add_def)
  then have here: "map_of offs' r = Some (length body)" using IH d by simp
  have "slice (length body) (length body + length ?b) body' = ?b" "length body + length ?b \<le> length body'"
    unfolding more by (simp_all add: slice_append_hit)
  moreover have "map_of offs' q = map_of offs q" if "q \<notin> set (r # rids)" for q
    using IH d(1) that by (auto simp: map_add_def split: option.splits)
  ultimately show ?case using IH d(1) here more by auto
qed

text \<open>
  The offset table handed out with an image is right: for every record of the image its
  entry, counted from the start of the record area, is where the record's own octets stand.
\<close>

lemma record_offsets_point_at_records:
  assumes "klj2_assemble frames donor ident = Inr (blob, offs)" and "distinct (map fst frames)" and "(r, b) \<in> set frames"
  shows "\<exists>a. map_of offs r = Some a \<and> slice (KLJ2_HDR + a) (KLJ2_HDR + a + length b) blob = b"
proof -
  from assms(1) obtain hdr records where rec: "records = concat (map (\<lambda>r. the (map_of frames r)) (sort (map fst frames)))"
    and hdr: "klj2_header (length frames) (KLJ2_HDR + length records + padding (length records) + KLJ2_TRAILER) donor ident = Inr hdr"
    and blob: "blob = hdr @ (records @ replicate (padding (length records)) 0)
       @ le_bytes 4 (uint (crc32 (hdr @ records @ replicate (padding (length records)) 0)))"
    and offs: "offs = snd (lay_out frames (sort (map fst frames)) [] [])"
    by (rule klj2_assemble_shape)
  have "lay_out frames (sort (map fst frames)) [] [] = (records, offs)"
    using lay_out_body[of frames "sort (map fst frames)" "[]" "[]"] rec offs by (simp add: prod_eq_iff)
  note lo = lay_out_offsets[OF this]
  have b: "the (map_of frames r) = b" using assms(2,3) by simp
  have "r \<in> set (sort (map fst frames))" using assms(3) by force
  then obtain a where a: "map_of offs r = Some a" "slice a (a + length b) records = b" "a + length b \<le> length records"
    using lo assms(2) b by auto
  have "slice (KLJ2_HDR + a) (KLJ2_HDR + a + length b) blob = slice a (a + length b) (records @ replicate (padding (length records)) 0
      @ le_bytes 4 (uint (crc32 (hdr @ records @ replicate (padding (length records)) 0))))"
    using klj2_header_fields(1)[OF hdr] by (simp add: blob slice_skip)
  then show ?thesis using a by (simp add: slice_head)
qed

end
