(* ===== verification/Nvm_Shape.thy ===== *)
theory Nvm_Shape
  imports Nvm_Journal Complex_Main "HOL-Library.AList"
begin

text \<open>
  One configuration's persisted shape, from \<^verbatim>\<open>scripts/nvm_shape.py\<close>: the ledger of mandatory records, the
  inventory of allocated records, the generated firmware constants, and the worst-case commit time.
  The descriptor counts are a dict (an association list); a port is a JSON object of the overlay.
  The millisecond arithmetic the source does in floating point is exact here.
\<close>

section \<open>Shape and ledger\<close>

record port =
  p_index :: int
  p_clusters :: nat
  p_map_mode :: "string option"

record Shape =
  cfg_stem :: string
  names :: nat
  dc :: "(string \<times> nat) list"
  spi :: "port list"
  spo :: "port list"

definition dc_get :: "(string \<times> nat) list \<Rightarrow> string \<Rightarrow> nat nvm" where
  "dc_get d t = (case map_of d t of None \<Rightarrow> Inl KeyError | Some n \<Rightarrow> Inr n)"

text \<open>A rule of the ledger is the constant 1 or a descriptor count.\<close>

datatype ledger_rule = One | CountOf string

fun apply_rule :: "ledger_rule \<Rightarrow> (string \<times> nat) list \<Rightarrow> nat nvm" where
  "apply_rule One d = Inr 1"
| "apply_rule (CountOf t) d = dc_get d t"

definition LEDGER :: "(string \<times> string \<times> string \<times> ledger_rule) list" where
  "LEDGER =
    [(''CFG_IDX'', ''singleton'', ''donor 07 5.1 design decision'', One),
     (''SUID'', ''singleton'', ''donor 07 5.1 design decision'', One),
     (''RATE'', ''per-descriptor'', ''Milan 5.3.5.1'', CountOf ''AUDIO_UNIT''),
     (''CLKSRC'', ''per-descriptor'', ''Milan 5.3.11.1'', CountOf ''CLOCK_DOMAIN''),
     (''MCR'', ''per-descriptor'', ''donor 07 5.1 design decision'', CountOf ''CLOCK_DOMAIN''),
     (''BINDING'', ''per-descriptor'', ''Milan 5.3.8.2/.3/.7'', CountOf ''STREAM_INPUT''),
     (''FMT_IN'', ''per-descriptor'', ''Milan 5.3.8.1'', CountOf ''STREAM_INPUT''),
     (''FMT_OUT'', ''per-descriptor'', ''Milan 5.3.7.1'', CountOf ''STREAM_OUTPUT''),
     (''PT_OFS'', ''per-descriptor'', ''Milan 5.3.7.6'', CountOf ''STREAM_OUTPUT''),
     (''MAPS_IN'', ''per-descriptor'', ''Milan 5.3.10.1'', CountOf ''STREAM_PORT_INPUT''),
     (''MAPS_OUT'', ''per-descriptor'', ''Milan 5.3.9.1'', CountOf ''STREAM_PORT_OUTPUT'')]"

definition NAME_SLOTS :: "(string \<times> nat) list" where
  "NAME_SLOTS = [(''ENTITY'', 2), (''CONFIGURATION'', 1), (''AUDIO_UNIT'', 1), (''STREAM_INPUT'', 1),
     (''STREAM_OUTPUT'', 1), (''AVB_INTERFACE'', 1), (''CLOCK_SOURCE'', 1), (''CLOCK_DOMAIN'', 1),
     (''CONTROL'', 1), (''AUDIO_CLUSTER'', 1)]"

definition expected_names :: "(string \<times> nat) list \<Rightarrow> nat" where
  "expected_names d = (\<Sum>(t, slots) \<leftarrow> NAME_SLOTS. (case map_of d t of None \<Rightarrow> 0 | Some n \<Rightarrow> n) * slots)"

definition expected_records :: "(string \<times> nat) list \<Rightarrow> (string \<times> nat) list nvm" where
  "expected_records d = mapE (\<lambda>(g, cls, clause, rule). rbind (apply_rule rule d) (\<lambda>n. Inr (g, n))) LEDGER"

definition conformant_floor :: "nat \<Rightarrow> (string \<times> nat) list \<Rightarrow> nat nvm" where
  "conformant_floor n d = rbind (expected_records d) (\<lambda>rows. Inr (sum_list (map snd rows) + n))"

section \<open>The commit deadline\<close>

definition ceil_div :: "nat \<Rightarrow> nat \<Rightarrow> nat" where
  "ceil_div a b = (a + b - 1) div b"

definition commit_worst_ms :: "nat \<Rightarrow> rat" where
  "commit_worst_ms img =
     (let pages = ceil_div img FLASH_PAGE;
          readback_ms = of_nat (img * 8) * 1000 / of_nat SPI_HZ in
      of_nat T_SE_MAX_MS + of_nat (pages * T_PP_MAX_MS) + readback_ms)"

section \<open>Firmware constants\<close>

definition FW_MAP_PORTS :: nat where "FW_MAP_PORTS = 16"

definition WRITER_TIMING_MS :: "(string \<times> int) list" where
  "WRITER_TIMING_MS =
    [(''MILAN_NVM_HEARTBEAT_MS'', 250), (''MILAN_NVM_DEBOUNCE_MS'', 1000),
     (''MILAN_NVM_ERASE_TIMEOUT_MS'', 3500), (''MILAN_NVM_PROGRAM_TIMEOUT_MS'', 50),
     (''MILAN_NVM_RESTORE_TIMEOUT_MS'', 3000)]"

definition output_map_entries :: "Shape \<Rightarrow> port \<Rightarrow> nat nvm" where
  "output_map_entries shape port =
     (if p_map_mode port = Some ''dynamic''
      then rbind (dc_get (dc shape) ''STREAM_OUTPUT'') (\<lambda>n. Inr (max (p_clusters port) (n * 8)))
      else Inr (p_clusters port))"

definition map_entries :: "(port \<Rightarrow> nat nvm) \<Rightarrow> port list \<Rightarrow> (int \<times> nat) list nvm" where
  "map_entries f ports = foldE (\<lambda>p d. rbind (f p) (\<lambda>n. Inr (AList.update (p_index p) n d))) ports []"

definition map_constant :: "string \<Rightarrow> nat \<Rightarrow> string" where
  "map_constant label k = ''MILAN_NVM_MAP'' @ label @ ''_ENTRIES_'' @ map char_of (dec_nat k)"

definition map_constants :: "string \<Rightarrow> (int \<times> nat) list \<Rightarrow> (string \<times> int) list" where
  "map_constants label entries =
     map (\<lambda>k. (map_constant label k, case map_of entries (int k) of None \<Rightarrow> 0 | Some n \<Rightarrow> int n)) [0..<FW_MAP_PORTS]"

definition firmware_constants :: "Shape \<Rightarrow> Donor \<Rightarrow> (string \<times> int) list nvm" where
  "firmware_constants shape donor =
     rbind (mapE (\<lambda>(c, t). rbind (dc_get (dc shape) t) (\<lambda>n. Inr (c, int n)))
       [(''MILAN_NVM_N_STREAM_IN'', ''STREAM_INPUT''), (''MILAN_NVM_N_STREAM_OUT'', ''STREAM_OUTPUT''),
        (''MILAN_NVM_N_SPORT_IN'', ''STREAM_PORT_INPUT''), (''MILAN_NVM_N_SPORT_OUT'', ''STREAM_PORT_OUTPUT''),
        (''MILAN_NVM_N_AUDIO_UNIT'', ''AUDIO_UNIT''), (''MILAN_NVM_N_CLK_DOM'', ''CLOCK_DOMAIN'')]) (\<lambda>counts.
     rbind (map_entries (\<lambda>p. Inr (p_clusters p)) (spi shape)) (\<lambda>ins.
     rbind (map_entries (output_map_entries shape) (spo shape)) (\<lambda>outs.
       Inr (counts
         @ [(''MILAN_NVM_N_NAME'', int (names shape)), (''MILAN_NVM_BIND_BASE'', d_base donor),
            (''MILAN_NVM_REC_LAYOUT'', d_layout donor)]
         @ map_constants ''IN'' ins @ map_constants ''OUT'' outs @ WRITER_TIMING_MS))))"

section \<open>The inventory\<close>

text \<open>\<open>inventory_add\<close> is the row the nested \<^verbatim>\<open>add\<close> appends.\<close>

definition inventory_add :: "int \<Rightarrow> string \<times> int \<times> nat \<Rightarrow> nvm_record nvm" where
  "inventory_add base row = (case row of (grp, index, payload) \<Rightarrow>
     case map_of ALLOC grp of
       None \<Rightarrow> Inl KeyError
     | Some (b, block) \<Rightarrow>
         if index \<ge> block then Inr (grp, index, None, payload, block)
         else case alloc_base grp b base of
           None \<Rightarrow> Inl TypeError
         | Some b' \<Rightarrow> Inr (grp, index, Some (b' + index), payload, block))"

definition pay :: "string \<Rightarrow> nat" where
  "pay g = the (map_of PAY g)"

text \<open>The rows of a group indexed by a count, and of two groups that share one loop.\<close>

definition per_count :: "string list \<Rightarrow> nat \<Rightarrow> (string \<times> int \<times> nat) list" where
  "per_count gs n = concat (map (\<lambda>k. map (\<lambda>g. (g, int k, pay g)) gs) [0..<n])"

definition inventory_rows :: "Shape \<Rightarrow> (string \<times> int \<times> nat) list nvm" where
  "inventory_rows shape =
     rbind (dc_get (dc shape) ''AUDIO_UNIT'') (\<lambda>au.
     rbind (dc_get (dc shape) ''CLOCK_DOMAIN'') (\<lambda>cd.
     rbind (dc_get (dc shape) ''STREAM_INPUT'') (\<lambda>si.
     rbind (dc_get (dc shape) ''STREAM_OUTPUT'') (\<lambda>so.
     rbind (mapE (\<lambda>p. rbind (output_map_entries shape p) (\<lambda>n. Inr (''MAPS_OUT'', p_index p, n * MAP_ENTRY))) (spo shape)) (\<lambda>outs.
       Inr ([(''CFG_IDX'', 0, pay ''CFG_IDX''), (''SUID'', 0, pay ''SUID'')]
         @ per_count [''RATE''] au
         @ per_count [''CLKSRC'', ''MCR''] cd
         @ per_count [''BINDING'', ''FMT_IN''] si
         @ per_count [''FMT_OUT'', ''PT_OFS''] so
         @ map (\<lambda>p. (''MAPS_IN'', p_index p, p_clusters p * MAP_ENTRY)) (spi shape)
         @ outs
         @ map (\<lambda>n. (''NAME'', int n, NAME_BYTES)) [0..<names shape]))))))"

definition inventory :: "Shape \<Rightarrow> int \<Rightarrow> nvm_record list nvm" where
  "inventory shape base = rbind (inventory_rows shape) (mapE (inventory_add base))"

definition closed_record_census :: "Shape \<Rightarrow> int \<Rightarrow> (nat \<times> nat) nvm" where
  "closed_record_census shape base =
     rbind (inventory shape base) (\<lambda>records.
       if list_ex (\<lambda>(g, i, r, p, b). r = None) records then Inl (Refused AllocationOverflow)
       else Inr (\<Sum>(g, i, r, p, b) \<leftarrow> records. REC_HDR + p, length records))"

end
