(* ===== verification/Nvm_Gate.thy ===== *)
theory Nvm_Gate
  imports Nvm_Shape
begin

unbundle bit_operations_syntax

text \<open>
  The checks of \<^verbatim>\<open>scripts/check_nvm_record_space.py\<close> and \<^verbatim>\<open>scripts/nvm_map_checks.py\<close>: the exact
  expectation, the key-set comparison, the id, payload, image and deadline bounds, and the questions
  asked of the bytes of an assembled image. A finding is a constructor with the values that identify
  it, not the message text. The seams that rewrite an inventory (\<^verbatim>\<open>OMIT\<close>, \<^verbatim>\<open>XFORM\<close>, \<^verbatim>\<open>OLD_OUTPUT_LENGTH\<close>) are negative
  controls; the checks take the inventory as an argument, so they cover a rewritten one too.
\<close>

datatype nvm_finding =
    NamesDisagree nat nat
  | KeySetDiffers "key list" "key list"
  | MandatoryMissing string string key
  | FurtherMissing nat
  | ExtraRecord key
  | FurtherExtra nat
  | ClaimedTwice key nat
  | NoId key int
  | IdPastSpace key int
  | IdCollision int key key
  | PayloadTooLong key nat
  | ImageTooLong nat
  | CommitTooSlow nat
  | HeartbeatsDontFit
  | ImageDoesNotDecode verdict nat
  | NotRoundTripped key int
  | EmptyNameRefused verdict
  | EmptyNameLost
  | EmptyNameChanged "byte list"
  | NamesNotRestored nat nat
  | IncompleteAccepted key int verdict nat
  | BlankImage verdict nat
  | OneErased int verdict nat
  | TornAccepted verdict nat
  | MissingAccepted int verdict nat
  | MapCapacity key nat nat
  | MapDecode key verdict nat
  | MapLost int
  | OversizedAccepted

section \<open>The expectation\<close>

definition class_of :: "string \<Rightarrow> string \<times> string" where
  "class_of grp = (case map_of LEDGER grp of
     Some (cls, clause, rule) \<Rightarrow> (cls, clause)
   | None \<Rightarrow> (''per-name'', ''Milan 5.3.13''))"

text \<open>The set of required keys, listed without repetition.\<close>

definition record_keys :: "Shape \<Rightarrow> key list nvm" where
  "record_keys shape =
     rbind (expected_records (dc shape)) (\<lambda>rows.
       Inr (concat (map (\<lambda>(g, card). map (\<lambda>i. (g, int i)) [0..<card]) rows)
         @ map (\<lambda>k. (''NAME'', int k)) [0..<expected_names (dc shape)]))"

definition port_lengths :: "(port \<Rightarrow> nat) \<Rightarrow> port list \<Rightarrow> (int \<times> nat) list" where
  "port_lengths f ports = fold (\<lambda>p d. AList.update (p_index p) (f p) d) ports []"

definition expected_length :: "(int \<times> nat) list \<Rightarrow> (int \<times> nat) list \<Rightarrow> key \<Rightarrow> nat nvm" where
  "expected_length spi_cl spo_cl key = (case key of (g, i) \<Rightarrow>
     if g = ''MAPS_IN'' then Inr (case map_of spi_cl i of None \<Rightarrow> 0 | Some n \<Rightarrow> n)
     else if g = ''MAPS_OUT'' then Inr (case map_of spo_cl i of None \<Rightarrow> 0 | Some n \<Rightarrow> n)
     else if g = ''NAME'' then Inr NAME_BYTES
     else case map_of PAY g of None \<Rightarrow> Inl KeyError | Some n \<Rightarrow> Inr n)"

definition expected_payloads :: "Shape \<Rightarrow> (key \<times> nat) list nvm" where
  "expected_payloads shape =
     rbind (dc_get (dc shape) ''STREAM_OUTPUT'') (\<lambda>so.
     (let keys = List.product [0..<so] [0..<8];
          spi_cl = port_lengths (\<lambda>p. p_clusters p * MAP_ENTRY) (spi shape);
          spo_cl = port_lengths (\<lambda>p. MAP_ENTRY * max (p_clusters p)
            (if p_map_mode p = Some ''dynamic'' then length keys else 0)) (spo shape) in
      rbind (record_keys shape) (mapE (\<lambda>k. rbind (expected_length spi_cl spo_cl k) (\<lambda>n. Inr (k, n))))))"

section \<open>Check 0: the key set\<close>

definition rec_key :: "nvm_record \<Rightarrow> key" where
  "rec_key r = (case r of (g, i, rid, p, b) \<Rightarrow> (g, i))"

definition rec_id :: "nvm_record \<Rightarrow> int option" where
  "rec_id r = (case r of (g, i, rid, p, b) \<Rightarrow> rid)"

text \<open>\<^verbatim>\<open>sorted(a - b)\<close>.\<close>

definition sorted_diff :: "key list \<Rightarrow> key list \<Rightarrow> key list" where
  "sorted_diff a b = sort (remdups (filter (\<lambda>k. k \<notin> set b) a))"

definition claims :: "nvm_record list \<Rightarrow> key \<Rightarrow> nvm_record list" where
  "claims recs k = filter (\<lambda>r. rec_key r = k) recs"

definition completeness :: "Shape \<Rightarrow> nvm_record list \<Rightarrow> nvm_finding list nvm" where
  "completeness shape recs =
     rbind (record_keys shape) (\<lambda>want.
       let want_names = expected_names (dc shape);
           got = map rec_key recs;
           missing = sorted_diff want got;
           extra = sorted_diff got want in
       Inr ((if want_names \<noteq> names shape then [NamesDisagree want_names (names shape)] else [])
         @ (if missing \<noteq> [] \<and> extra \<noteq> [] then [KeySetDiffers missing extra] else [])
         @ map (\<lambda>(g, i). case class_of g of (cls, clause) \<Rightarrow> MandatoryMissing cls clause (g, i)) (take 6 missing)
         @ (if length missing > 6 then [FurtherMissing (length missing - 6)] else [])
         @ map ExtraRecord (take 6 extra)
         @ (if length extra > 6 then [FurtherExtra (length extra - 6)] else [])
         @ map (\<lambda>k. ClaimedTwice k (length (claims recs k)))
             (filter (\<lambda>k. length (claims recs k) > 1) (sort (remdups got)))))"

section \<open>Checks 1 to 7: ids, payloads, image, deadline\<close>

record id_scan =
  seen :: "(int \<times> key) list"
  top :: int
  found :: "nvm_finding list"

definition check_id :: "fixed_points \<Rightarrow> nvm_record \<Rightarrow> id_scan \<Rightarrow> id_scan" where
  "check_id fixed row st = (case row of (g, i, rid, payload, block) \<Rightarrow>
     case rid of
       None \<Rightarrow> st\<lparr>found := found st @ [NoId (g, i) block]\<rparr>
     | Some r \<Rightarrow> st\<lparr>
         top := max (top st) r,
         seen := AList.update r (g, i) (seen st),
         found := found st
           @ (if r \<ge> ID_SPACE fixed then [IdPastSpace (g, i) r] else [])
           @ (case map_of (seen st) r of None \<Rightarrow> [] | Some k \<Rightarrow> [IdCollision r k (g, i)])
           @ (if payload > MAX_PAYLOAD then [PayloadTooLong (g, i) payload] else [])\<rparr>)"

definition check_ids :: "fixed_points \<Rightarrow> nvm_record list \<Rightarrow> id_scan" where
  "check_ids fixed recs = fold (check_id fixed) recs \<lparr>seen = [], top = -1, found = []\<rparr>"

definition image_bytes :: "nvm_record list \<Rightarrow> nat" where
  "image_bytes recs =
     (let body = (\<Sum>(g, i, r, p, b) \<leftarrow> recs. REC_HDR + p) in KLJ2_HDR + (body + padding body) + KLJ2_TRAILER)"

definition check_bounds :: "fixed_points \<Rightarrow> nvm_record list \<Rightarrow> nvm_finding list" where
  "check_bounds fixed recs =
     (let img = image_bytes recs in
      (if img > ERASE_BLOCK fixed then [ImageTooLong img] else [])
      @ (if of_nat (T_NVM_COMMIT_TIMEOUT_MS fixed) < of_nat COMMIT_MARGIN * commit_worst_ms img then [CommitTooSlow img] else []))"

definition check_deadline_shape :: "nvm_finding list" where
  "check_deadline_shape =
     (if T_NVM_WRITER_ALIVE_MS < ALIVE_HEARTBEATS * T_NVM_HEARTBEAT_MS then [HeartbeatsDontFit] else [])"

section \<open>Checks 8 to 12: the image\<close>

record Img =
  im_shape :: Shape
  im_recs :: "nvm_record list"
  im_donor :: Donor
  im_ident :: Ident
  im_expect :: "(key \<times> nat) list"

definition frames_for :: "Img \<Rightarrow> (int \<Rightarrow> byte list) \<Rightarrow> key option \<Rightarrow> (int \<times> byte list) list nvm" where
  "frames_for img nval drp =
     foldE (\<lambda>(g, i, r, p, b) out. case r of
         None \<Rightarrow> Inr out
       | Some rid \<Rightarrow>
           if Some (g, i) = drp then Inr out
           else rbind (frame_record rid (payload_bytes g i rid p (Some nval)) (d_layout (im_donor img))) (\<lambda>fr.
             Inr (AList.update rid fr out)))
       (im_recs img) []"

definition assemble_img :: "Img \<Rightarrow> (int \<times> byte list) list \<Rightarrow> byte list nvm" where
  "assemble_img img frames = rbind (klj2_assemble frames (im_donor img) (im_ident img)) (\<lambda>r. Inr (fst r))"

definition decode_img :: "seams \<Rightarrow> Img \<Rightarrow> byte list \<Rightarrow> (verdict \<times> (key \<times> byte list) list) nvm" where
  "decode_img seam img blob = klj2_decode seam blob (im_donor img) (im_ident img) (im_expect img)"

text \<open>Assembling one set of frames and reading it back, the two calls every check makes.\<close>

definition reread :: "seams \<Rightarrow> Img \<Rightarrow> (int \<times> byte list) list \<Rightarrow> (verdict \<times> (key \<times> byte list) list) nvm" where
  "reread seam img frames = rbind (assemble_img img frames) (decode_img seam img)"

definition round_trip :: "seams \<Rightarrow> Img \<Rightarrow> ((int \<times> byte list) list \<times> (key \<times> byte list) list option \<times> nvm_finding list) nvm" where
  "round_trip seam img =
     (let nval = name_table [] in
      rbind (frames_for img nval None) (\<lambda>base_frames.
      rbind (reread seam img base_frames) (\<lambda>(vd, app).
        if vd \<noteq> VD_OK then Inr (base_frames, None, [ImageDoesNotDecode vd (length app)])
        else Inr (base_frames, Some app,
          case find (\<lambda>(g, i, r, p, b). case r of None \<Rightarrow> False
                 | Some rid \<Rightarrow> map_of app (g, i) \<noteq> Some (payload_bytes g i rid p (Some nval))) (im_recs img) of
            None \<Rightarrow> []
          | Some (g, i, r, p, b) \<Rightarrow> [NotRoundTripped (g, i) (the r)]))))"

definition empty_name_survives :: "seams \<Rightarrow> Img \<Rightarrow> nvm_finding list nvm" where
  "empty_name_survives seam img =
     (let empty = replicate NAME_BYTES 0; n = names (im_shape img) in
      rbind (frames_for img (name_table [(0, empty)]) None) (\<lambda>frames.
      rbind (reread seam img frames) (\<lambda>(vd2, ap2).
        if vd2 \<noteq> VD_OK then Inr [EmptyNameRefused vd2]
        else let got = names_from_image seam ap2 n in
          Inr ((case map_of got 0 of
                  None \<Rightarrow> [EmptyNameLost]
                | Some v \<Rightarrow> if v \<noteq> empty then [EmptyNameChanged (take 16 v)] else [])
            @ (if length got \<noteq> n then [NamesNotRestored (length got) n] else [])))))"

definition drop_id_of :: "Img \<Rightarrow> key \<Rightarrow> int option" where
  "drop_id_of img key = (case find (\<lambda>r. rec_key r = key \<and> rec_id r \<noteq> None) (im_recs img) of
     None \<Rightarrow> None | Some r \<Rightarrow> rec_id r)"

text \<open>\<^verbatim>\<open>del d[k]\<close> of a dict.\<close>

definition del_item :: "'k \<Rightarrow> ('k \<times> 'v) list \<Rightarrow> ('k \<times> 'v) list nvm" where
  "del_item k d = (if k \<in> fst ` set d then Inr (AList.delete k d) else Inl KeyError)"

fun first_accepted :: "seams \<Rightarrow> Img \<Rightarrow> (int \<times> byte list) list \<Rightarrow> key list \<Rightarrow> nvm_finding list nvm" where
  "first_accepted seam img base_frames [] = Inr []"
| "first_accepted seam img base_frames (key # keys) =
     (case drop_id_of img key of
        None \<Rightarrow> first_accepted seam img base_frames keys
      | Some drop_id \<Rightarrow>
          rbind (del_item drop_id base_frames) (\<lambda>cut.
          rbind (reread seam img cut) (\<lambda>(vd4, ap4).
            if vd4 = VD_OK \<or> ap4 \<noteq> [] then Inr [IncompleteAccepted key drop_id vd4 (length ap4)]
            else first_accepted seam img base_frames keys)))"

definition incomplete_is_refused :: "seams \<Rightarrow> Img \<Rightarrow> (int \<times> byte list) list \<Rightarrow> nvm_finding list nvm" where
  "incomplete_is_refused seam img base_frames = first_accepted seam img base_frames (sort (map fst (im_expect img)))"

definition blank_frames :: "(int \<times> byte list) list \<Rightarrow> (int \<times> byte list) list" where
  "blank_frames frames = map (\<lambda>(rid, fr). (rid, erased_record (length fr - REC_HDR))) frames"

definition erased_record_rule :: "seams \<Rightarrow> Img \<Rightarrow> (int \<times> byte list) list \<Rightarrow> nvm_finding list nvm" where
  "erased_record_rule seam img base_frames =
     rbind (reread seam img (blank_frames base_frames)) (\<lambda>(vd1, ap1).
     if base_frames = [] then Inl ValueError else
     (let victim = Max (set (map fst base_frames));
          plen = length (the (map_of base_frames victim)) - REC_HDR;
          one = AList.update victim (erased_record plen) base_frames;
          torn = AList.update victim (butlast (erased_record plen) @ [0]) one in
      rbind (reread seam img one) (\<lambda>(vd2, ap2).
      rbind (reread seam img torn) (\<lambda>(vd3, ap3).
      rbind (del_item victim one) (\<lambda>short.
      rbind (reread seam img short) (\<lambda>(vd4, ap4).
        Inr ((if vd1 \<noteq> VD_OK \<or> ap1 \<noteq> [] then [BlankImage vd1 (length ap1)] else [])
          @ (if vd2 \<noteq> VD_OK \<or> (\<exists>k \<in> fst ` set ap2. Some k = key_of_id victim (d_base (im_donor img)))
                \<or> length ap2 \<noteq> length base_frames - 1
             then [OneErased victim vd2 (length ap2)] else [])
          @ (if vd3 \<noteq> VD_REC \<or> ap3 \<noteq> [] then [TornAccepted vd3 (length ap3)] else [])
          @ (if vd4 = VD_OK \<or> ap4 \<noteq> [] then [MissingAccepted victim vd4 (length ap4)] else []))))))))"

definition gate_ident :: Ident where
  "gate_ident = \<lparr>i_seq = 7, i_entity_id = 0x0011223344556677, i_model_id = 0x8899AABBCCDDEEFF\<rparr>"

definition check_image :: "seams \<Rightarrow> fixed_points \<Rightarrow> Shape \<Rightarrow> nvm_record list \<Rightarrow> Donor \<Rightarrow> nvm_finding list nvm" where
  "check_image seam fixed shape recs donor =
     (if list_ex (\<lambda>(g, i, r, p, b). case r of None \<Rightarrow> True | Some rid \<Rightarrow> rid \<ge> ID_SPACE fixed) recs then Inr []
      else rbind (expected_payloads shape) (\<lambda>expect.
        let img = \<lparr>im_shape = shape, im_recs = recs, im_donor = donor, im_ident = gate_ident, im_expect = expect\<rparr> in
        rbind (round_trip seam img) (\<lambda>(base_frames, app, f1).
          case app of
            None \<Rightarrow> Inr f1
          | Some _ \<Rightarrow>
              rbind (if names shape \<noteq> 0 then empty_name_survives seam img else Inr []) (\<lambda>f2.
              rbind (incomplete_is_refused seam img base_frames) (\<lambda>f3.
              rbind (erased_record_rule seam img base_frames) (\<lambda>f4.
                Inr (f1 @ f2 @ f3 @ f4)))))))"

end
