(* ===== verification/Nvm_Inventory.thy ===== *)
theory Nvm_Inventory
  imports Nvm_Gate
begin

text \<open>
  The inventory against the ledger: for a well-formed shape the two derivations of the persisted
  record set agree key by key and length by length, the allocated ids invert, and the key-set check
  reports nothing exactly when the inventory is the ledger.
\<close>

section \<open>The id allocation\<close>

definition base_ok :: "int \<Rightarrow> bool" where
  "base_ok base \<longleftrightarrow> 0x1A \<le> base \<and> base \<le> 0x20"

lemma blocks_invert:
  "base_ok base \<Longrightarrow> \<forall>(g, b, blk) \<in> set (id_blocks base). \<exists>c. b = Some c \<and> 0 \<le> c \<and> c + blk \<le> 256
    \<and> (\<forall>i. 0 \<le> i \<longrightarrow> i < blk \<longrightarrow> key_of_id (c + i) base = Some (g, i)) \<and> (\<forall>i. rid_of_key (g, i) base = Inr (c + i))"
  by (simp add: base_ok_def id_blocks_def alloc_base_def ALLOC_def key_of_id_def rid_of_key_def)

lemma block_facts:
  assumes "base_ok base" "(g, Some b, blk) \<in> set (id_blocks base)"
  shows "0 \<le> b" "b + blk \<le> 256" "0 \<le> i \<Longrightarrow> i < blk \<Longrightarrow> key_of_id (b + i) base = Some (g, i)"
    "rid_of_key (g, i) base = Inr (b + i)"
  using blocks_invert[OF assms(1)] assms(2) by fastforce+

text \<open>
  The id allocation is a bijection: for every base of the BINDING block that keeps it between its
  neighbours, an id belongs to group g and index i exactly when it is the i-th id of the block of g,
  so no two blocks overlap and the inversion loses nothing.
\<close>

lemma record_ids_invert:
  assumes "base_ok base"
  shows "key_of_id r base = Some (g, i) \<longleftrightarrow>
    (\<exists>b blk. (g, Some b, blk) \<in> set (id_blocks base) \<and> 0 \<le> i \<and> i < blk \<and> r = b + i)"
  using key_in_blocks_Some[of r "id_blocks base" g i] block_facts(3)[OF assms]
  by (auto simp: key_of_id_def)

section \<open>Ledger and inventory\<close>

definition shape_ok :: "Shape \<Rightarrow> bool" where
  "shape_ok shape \<longleftrightarrow> names shape = expected_names (dc shape)
     \<and> {''AUDIO_UNIT'', ''CLOCK_DOMAIN'', ''STREAM_INPUT'', ''STREAM_OUTPUT''} \<subseteq> fst ` set (dc shape)
     \<and> map_of (dc shape) ''STREAM_PORT_INPUT'' = Some (length (spi shape))
     \<and> map_of (dc shape) ''STREAM_PORT_OUTPUT'' = Some (length (spo shape))
     \<and> map p_index (spi shape) = map int [0..<length (spi shape)]
     \<and> map p_index (spo shape) = map int [0..<length (spo shape)]"

text \<open>One group of the ledger with its lengths.\<close>

definition group_rows :: "string \<Rightarrow> (nat \<Rightarrow> nat) \<Rightarrow> nat \<Rightarrow> (key \<times> nat) list" where
  "group_rows g f n = map (\<lambda>i. ((g, int i), f i)) [0..<n]"

definition keyed :: "string \<times> int \<times> nat \<Rightarrow> key \<times> nat" where
  "keyed row = (case row of (g, i, p) \<Rightarrow> ((g, i), p))"

lemma per_count_1: "map keyed (per_count [g] n) = group_rows g (\<lambda>_. pay g) n"
  by (induction n) (simp_all add: per_count_def group_rows_def keyed_def)

lemma per_count_2:
  "mset (map keyed (per_count [g, h] n)) = mset (group_rows g (\<lambda>_. pay g) n) + mset (group_rows h (\<lambda>_. pay h) n)"
  by (induction n) (simp_all add: per_count_def group_rows_def keyed_def)

lemma port_lengths_other: "p_index q \<notin> p_index ` set ports \<Longrightarrow> map_of (fold (\<lambda>p d. AList.update (p_index p) (f p) d) ports d) (p_index q) = map_of d (p_index q)"
  by (induction ports arbitrary: d) (auto simp: update_conv')

lemma port_lengths_lookup:
  assumes "distinct (map p_index ports)" "p \<in> set ports"
  shows "map_of (port_lengths f ports) (p_index p) = Some (f p)"
proof -
  have "map_of (fold (\<lambda>p d. AList.update (p_index p) (f p) d) ports d) (p_index p) = Some (f p)" for d
    using assms
  proof (induction ports arbitrary: d)
    case (Cons q ports)
    then show ?case
      by (cases "p = q") (auto simp: port_lengths_other update_conv')
  qed simp
  then show ?thesis by (simp add: port_lengths_def)
qed

lemma group_rows_ports:
  assumes "map p_index ports = map int [0..<length ports]"
  shows "group_rows g (\<lambda>i. case map_of (port_lengths f ports) (int i) of None \<Rightarrow> 0 | Some n \<Rightarrow> n) (length ports)
    = map (\<lambda>p. ((g, p_index p), f p)) ports"
proof (rule nth_equalityI)
  fix i
  assume "i < length (group_rows g (\<lambda>i. case map_of (port_lengths f ports) (int i) of None \<Rightarrow> 0 | Some n \<Rightarrow> n) (length ports))"
  then have i: "i < length ports" by (simp add: group_rows_def)
  then have ix: "p_index (ports ! i) = int i" using assms by (metis nth_map_upt nth_map length_map length_upt diff_zero add_0)
  have "distinct (map p_index ports)" unfolding assms by (simp add: distinct_map)
  from port_lengths_lookup[OF this nth_mem[OF i], of f] ix i
  show "group_rows g (\<lambda>i. case map_of (port_lengths f ports) (int i) of None \<Rightarrow> 0 | Some n \<Rightarrow> n) (length ports) ! i
      = map (\<lambda>p. ((g, p_index p), f p)) ports ! i"
    by (simp add: group_rows_def)
qed (simp add: group_rows_def)

definition in_length :: "port \<Rightarrow> nat" where
  "in_length p = p_clusters p * MAP_ENTRY"

definition out_length :: "nat \<Rightarrow> port \<Rightarrow> nat" where
  "out_length so p = MAP_ENTRY * max (p_clusters p) (if p_map_mode p = Some ''dynamic'' then so * 8 else 0)"

definition ledger_rows :: "Shape \<Rightarrow> nat \<Rightarrow> nat \<Rightarrow> nat \<Rightarrow> nat \<Rightarrow> (key \<times> nat) list" where
  "ledger_rows shape au cd si so =
     group_rows ''CFG_IDX'' (\<lambda>_. pay ''CFG_IDX'') 1 @ group_rows ''SUID'' (\<lambda>_. pay ''SUID'') 1
     @ group_rows ''RATE'' (\<lambda>_. pay ''RATE'') au
     @ group_rows ''CLKSRC'' (\<lambda>_. pay ''CLKSRC'') cd @ group_rows ''MCR'' (\<lambda>_. pay ''MCR'') cd
     @ group_rows ''BINDING'' (\<lambda>_. pay ''BINDING'') si @ group_rows ''FMT_IN'' (\<lambda>_. pay ''FMT_IN'') si
     @ group_rows ''FMT_OUT'' (\<lambda>_. pay ''FMT_OUT'') so @ group_rows ''PT_OFS'' (\<lambda>_. pay ''PT_OFS'') so
     @ map (\<lambda>p. ((''MAPS_IN'', p_index p), in_length p)) (spi shape)
     @ map (\<lambda>p. ((''MAPS_OUT'', p_index p), out_length so p)) (spo shape)
     @ group_rows ''NAME'' (\<lambda>_. NAME_BYTES) (names shape)"

definition counts_of :: "Shape \<Rightarrow> nat \<Rightarrow> nat \<Rightarrow> nat \<Rightarrow> nat \<Rightarrow> bool" where
  "counts_of shape au cd si so \<longleftrightarrow> map_of (dc shape) ''AUDIO_UNIT'' = Some au \<and> map_of (dc shape) ''CLOCK_DOMAIN'' = Some cd
     \<and> map_of (dc shape) ''STREAM_INPUT'' = Some si \<and> map_of (dc shape) ''STREAM_OUTPUT'' = Some so"

lemma shape_ok_counts:
  assumes "shape_ok shape"
  obtains au cd si so where "counts_of shape au cd si so"
proof -
  have "\<exists>n. map_of (dc shape) t = Some n" if "t \<in> fst ` set (dc shape)" for t
    using that map_of_eq_None_iff[of "dc shape" t] by auto
  then show thesis using assms that by (simp add: shape_ok_def counts_of_def) metis
qed

lemma port_keys:
  assumes "map p_index ports = map int [0..<length ports]"
  shows "map (\<lambda>p. (g, p_index p)) ports = map (\<lambda>i. (g, int i)) [0..<length ports]"
  using arg_cong[OF assms, of "map (Pair g)"] by (simp add: comp_def)

lemma record_keys_eq:
  assumes "shape_ok shape" "counts_of shape au cd si so"
  shows "record_keys shape = Inr (map fst (ledger_rows shape au cd si so))"
proof -
  have "expected_records (dc shape) = Inr [(''CFG_IDX'', 1), (''SUID'', 1), (''RATE'', au), (''CLKSRC'', cd), (''MCR'', cd),
      (''BINDING'', si), (''FMT_IN'', si), (''FMT_OUT'', so), (''PT_OFS'', so), (''MAPS_IN'', length (spi shape)), (''MAPS_OUT'', length (spo shape))]"
    using assms by (simp add: expected_records_def LEDGER_def dc_get_def counts_of_def shape_ok_def)
  moreover have "map (\<lambda>p. (''MAPS_IN'', p_index p)) (spi shape) = map (\<lambda>i. (''MAPS_IN'', int i)) [0..<length (spi shape)]"
    "map (\<lambda>p. (''MAPS_OUT'', p_index p)) (spo shape) = map (\<lambda>i. (''MAPS_OUT'', int i)) [0..<length (spo shape)]"
    using assms(1) by (auto simp: shape_ok_def intro!: port_keys)
  ultimately show ?thesis using assms(1)
    by (simp add: record_keys_def ledger_rows_def group_rows_def comp_def shape_ok_def)
qed

lemma mapE_pairs:
  "(\<And>r. r \<in> set rows \<Longrightarrow> f (fst r) = Inr (snd r)) \<Longrightarrow> mapE (\<lambda>k. rbind (f k) (\<lambda>n. Inr (k, n))) (map fst rows) = Inr rows"
  by (induction rows) simp_all

lemma expected_payloads_eq:
  assumes "shape_ok shape" "counts_of shape au cd si so"
  shows "expected_payloads shape = Inr (ledger_rows shape au cd si so)"
proof -
  define spi_cl where "spi_cl = port_lengths in_length (spi shape)"
  define spo_cl where "spo_cl = port_lengths (out_length so) (spo shape)"
  have fn: "(\<lambda>p. p_clusters p * MAP_ENTRY) = in_length"
    "(\<lambda>p. MAP_ENTRY * max (p_clusters p) (if p_map_mode p = Some ''dynamic'' then length (List.product [0..<so] [0..<8]) else 0)) = out_length so"
    by (simp_all add: in_length_def out_length_def fun_eq_iff)
  have len: "expected_length spi_cl spo_cl (fst r) = Inr (snd r)" if "r \<in> set (ledger_rows shape au cd si so)" for r
  proof -
    have d: "distinct (map p_index (spi shape))" "distinct (map p_index (spo shape))"
      using assms(1) by (simp_all add: shape_ok_def distinct_map)
    show ?thesis using that port_lengths_lookup[OF d(1)] port_lengths_lookup[OF d(2)]
      by (auto simp: ledger_rows_def group_rows_def expected_length_def spi_cl_def spo_cl_def PAY_def pay_def)
  qed
  have "mapE (\<lambda>k. rbind (expected_length spi_cl spo_cl k) (\<lambda>n. Inr (k, n))) (map fst (ledger_rows shape au cd si so))
      = Inr (ledger_rows shape au cd si so)"
    by (rule mapE_pairs) (rule len)
  then show ?thesis using assms record_keys_eq[OF assms]
    by (simp add: expected_payloads_def dc_get_def counts_of_def Let_def fn spi_cl_def spo_cl_def)
qed

lemma inventory_rows_eq:
  assumes "shape_ok shape" "counts_of shape au cd si so"
  obtains rows where "inventory_rows shape = Inr rows" "mset (map keyed rows) = mset (ledger_rows shape au cd si so)"
proof -
  have outs: "mapE (\<lambda>p. rbind (output_map_entries shape p) (\<lambda>n. Inr (''MAPS_OUT'', p_index p, n * MAP_ENTRY))) (spo shape)
      = Inr (map (\<lambda>p. (''MAPS_OUT'', p_index p, out_length so p)) (spo shape))"
    using assms(2) by (intro mapE_total) (auto simp: output_map_entries_def dc_get_def counts_of_def out_length_def mult.commute)
  show thesis
  proof (rule that)
    show "inventory_rows shape = Inr ([(''CFG_IDX'', 0, pay ''CFG_IDX''), (''SUID'', 0, pay ''SUID'')]
         @ per_count [''RATE''] au @ per_count [''CLKSRC'', ''MCR''] cd @ per_count [''BINDING'', ''FMT_IN''] si
         @ per_count [''FMT_OUT'', ''PT_OFS''] so
         @ map (\<lambda>p. (''MAPS_IN'', p_index p, in_length p)) (spi shape)
         @ map (\<lambda>p. (''MAPS_OUT'', p_index p, out_length so p)) (spo shape)
         @ map (\<lambda>n. (''NAME'', int n, NAME_BYTES)) [0..<names shape])" (is "_ = Inr ?rows")
      using assms(2) outs by (simp add: inventory_rows_def dc_get_def counts_of_def in_length_def)
    have "map keyed ?rows = group_rows ''CFG_IDX'' (\<lambda>_. pay ''CFG_IDX'') 1 @ group_rows ''SUID'' (\<lambda>_. pay ''SUID'') 1
       @ map keyed (per_count [''RATE''] au) @ map keyed (per_count [''CLKSRC'', ''MCR''] cd)
       @ map keyed (per_count [''BINDING'', ''FMT_IN''] si) @ map keyed (per_count [''FMT_OUT'', ''PT_OFS''] so)
       @ map (\<lambda>p. ((''MAPS_IN'', p_index p), in_length p)) (spi shape)
       @ map (\<lambda>p. ((''MAPS_OUT'', p_index p), out_length so p)) (spo shape) @ group_rows ''NAME'' (\<lambda>_. NAME_BYTES) (names shape)"
      by (simp add: keyed_def group_rows_def comp_def)
    then show "mset (map keyed ?rows) = mset (ledger_rows shape au cd si so)"
      by (simp only: mset_append per_count_1 per_count_2 ledger_rows_def ac_simps)
  qed
qed

lemma ledger_keys_distinct:
  assumes "shape_ok shape"
  shows "distinct (map fst (ledger_rows shape au cd si so))"
proof -
  have "distinct (map p_index (spi shape))" "distinct (map p_index (spo shape))"
    using assms by (simp_all add: shape_ok_def distinct_map)
  then show ?thesis
    by (auto simp: ledger_rows_def group_rows_def distinct_map comp_def inj_on_def)
qed

lemma inventory_add_keeps:
  assumes "inventory_add base (g, i, p) = Inr r"
  shows "rec_key r = (g, i)" "\<exists>rid b. r = (g, i, rid, p, b)"
  using assms by (auto simp: inventory_add_def rec_key_def split: option.splits if_splits)

definition rec_row :: "nvm_record \<Rightarrow> key \<times> nat" where
  "rec_row r = (case r of (g, i, rid, p, b) \<Rightarrow> ((g, i), p))"

lemma inventory_keyed:
  assumes "mapE (inventory_add base) rows = Inr recs"
  shows "map rec_row recs = map keyed rows"
  using assms
proof (induction rows arbitrary: recs)
  case (Cons row rows)
  then obtain r rs where r: "inventory_add base row = Inr r" "mapE (inventory_add base) rows = Inr rs" "recs = r # rs" by auto
  obtain g i p where row: "row = (g, i, p)" by (cases row)
  from inventory_add_keeps(2)[OF r(1)[unfolded row]] Cons.IH[OF r(2)] r(3) row show ?case
    by (auto simp: rec_row_def keyed_def)
qed simp

lemma inventory_ledger:
  assumes "shape_ok shape" "inventory shape base = Inr recs" "expected_payloads shape = Inr expect"
  shows "mset (map rec_row recs) = mset expect" "distinct (map fst expect)" "record_keys shape = Inr (map fst expect)"
proof -
  obtain au cd si so where c: "counts_of shape au cd si so" using shape_ok_counts[OF assms(1)] .
  obtain rows where rows: "inventory_rows shape = Inr rows" "mset (map keyed rows) = mset (ledger_rows shape au cd si so)"
    using inventory_rows_eq[OF assms(1) c] .
  have e: "expect = ledger_rows shape au cd si so" using expected_payloads_eq[OF assms(1) c] assms(3) by simp
  have "map rec_row recs = map keyed rows" using assms(2) rows(1) by (intro inventory_keyed) (simp add: inventory_def)
  then show "mset (map rec_row recs) = mset expect" using rows(2) e by simp
  show "distinct (map fst expect)" "record_keys shape = Inr (map fst expect)"
    using ledger_keys_distinct[OF assms(1)] record_keys_eq[OF assms(1) c] by (simp_all add: e)
qed

text \<open>The key-set check reports nothing exactly on inventories that are the ledger, one record per key.\<close>

lemma rec_key_row: "map rec_key recs = map fst (map rec_row recs)"
  by (simp add: rec_key_def rec_row_def comp_def case_prod_beta')

lemma claims_count: "length (claims recs k) = count (mset (map rec_key recs)) k"
  by (induction recs) (simp_all add: claims_def)

lemma sorted_diff_empty: "sorted_diff a b = [] \<longleftrightarrow> set a \<subseteq> set b"
proof -
  have "sorted_diff a b = [] \<longleftrightarrow> set (sorted_diff a b) = {}" by simp
  also have "set (sorted_diff a b) = set a - set b" by (auto simp: sorted_diff_def)
  finally show ?thesis by auto
qed

lemma distinct_keys_concat:
  "distinct (map fst rows) \<Longrightarrow> distinct (concat (map (\<lambda>(g, card). map (\<lambda>i. (g, int i)) [0..<card]) rows))"
  by (induction rows) (auto simp: distinct_map inj_on_def image_iff)

lemma record_keys_distinct:
  assumes "record_keys shape = Inr want"
  shows "distinct want"
proof -
  from assms obtain rows where rows: "expected_records (dc shape) = Inr rows"
    "want = concat (map (\<lambda>(g, card). map (\<lambda>i. (g, int i)) [0..<card]) rows)
      @ map (\<lambda>k. (''NAME'', int k)) [0..<expected_names (dc shape)]"
    by (auto simp: record_keys_def)
  have "list_all2 (\<lambda>l r. fst r = fst l) LEDGER rows" using rows(1) unfolding expected_records_def mapE_Inr_iff
    by (rule list_all2_mono) auto
  then have "map fst rows = map fst LEDGER" by (auto simp: list_all2_conv_all_nth intro: nth_equalityI)
  moreover have "distinct (map fst LEDGER)" "''NAME'' \<notin> set (map fst LEDGER)" by (simp_all add: LEDGER_def)
  ultimately have "distinct (map fst rows)" "''NAME'' \<notin> set (map fst rows)" by simp_all
  moreover from this have "(''NAME'', n) \<notin> set rows" for n by force
  ultimately show ?thesis using distinct_keys_concat[of rows] by (auto simp: rows(2) distinct_map inj_on_def)
qed

lemma distinct_count_le_1: "distinct xs \<longleftrightarrow> (\<forall>k \<in> set xs. count (mset xs) k \<le> 1)"
  by (auto simp: distinct_count_atmost_1 le_Suc_eq count_mset_0_iff)

lemma once_iff_distinct: "filter (\<lambda>k. length (claims recs k) > 1) (sort (remdups (map rec_key recs))) = [] \<longleftrightarrow> distinct (map rec_key recs)"
  unfolding filter_empty_conv claims_count distinct_count_le_1[of "map rec_key recs"] by (simp add: not_less)

lemma completeness_silent:
  assumes "record_keys shape = Inr want"
  shows "completeness shape recs = Inr [] \<longleftrightarrow>
    names shape = expected_names (dc shape) \<and> mset (map rec_key recs) = mset want"
proof -
  let ?got = "map rec_key recs"
  have "completeness shape recs = Inr [] \<longleftrightarrow> names shape = expected_names (dc shape)
      \<and> sorted_diff want ?got = [] \<and> sorted_diff ?got want = [] \<and> distinct ?got"
    unfolding once_iff_distinct[of recs, symmetric]
    using assms by (cases "sorted_diff want ?got"; cases "sorted_diff ?got want") (auto simp: completeness_def Let_def)
  also have "\<dots> \<longleftrightarrow> names shape = expected_names (dc shape) \<and> set want = set ?got \<and> distinct ?got"
    unfolding sorted_diff_empty by blast
  also have "\<dots> \<longleftrightarrow> names shape = expected_names (dc shape) \<and> mset ?got = mset want"
    using record_keys_distinct[OF assms] by (metis mset_eq_imp_distinct_iff mset_eq_setD set_eq_iff_mset_eq_distinct)
  finally show ?thesis .
qed

text \<open>
  The key-set check is silent exactly when the name count agrees with the shape and the
  inventory holds each required record once and no other: a shifted index, a dropped record, an
  invented one and a duplicate are each reported.
\<close>

lemma completeness_silent_iff:
  assumes "record_keys shape = Inr want"
  shows "completeness shape recs = Inr [] \<longleftrightarrow>
    names shape = expected_names (dc shape) \<and> mset (map rec_key recs) = mset want"
  by (rule completeness_silent[OF assms])

lemma inventory_add_total: "g \<in> set (map fst ALLOC) \<Longrightarrow> \<exists>r. inventory_add base (g, i, p) = Inr r"
  by (auto simp: ALLOC_def inventory_add_def alloc_base_def)

lemma ledger_groups: "(\<lambda>r. fst (fst r)) ` set (ledger_rows shape au cd si so) \<subseteq> set (map fst ALLOC)"
  unfolding ledger_rows_def set_append image_Un by (auto simp: group_rows_def ALLOC_def)

lemma inventory_total:
  assumes "shape_ok shape"
  obtains recs where "inventory shape base = Inr recs"
proof -
  obtain au cd si so where c: "counts_of shape au cd si so" using shape_ok_counts[OF assms] .
  obtain rows where rows: "inventory_rows shape = Inr rows" "mset (map keyed rows) = mset (ledger_rows shape au cd si so)"
    using inventory_rows_eq[OF assms c] .
  have "fst (fst r) \<in> set (map fst ALLOC)" if "r \<in> set (ledger_rows shape au cd si so)" for r
    using that ledger_groups[of shape au cd si so] by blast
  moreover have "keyed row \<in> set (ledger_rows shape au cd si so)" if "row \<in> set rows" for row
    using that mset_eq_setD[OF rows(2)] by auto
  ultimately have "fst (fst (keyed row)) \<in> set (map fst ALLOC)" if "row \<in> set rows" for row using that by blast
  then have "\<exists>r. inventory_add base row = Inr r" if "row \<in> set rows" for row
    using that inventory_add_total[of "fst row" base "fst (snd row)" "snd (snd row)"] by (simp add: keyed_def case_prod_beta')
  then obtain f where "\<And>row. row \<in> set rows \<Longrightarrow> inventory_add base row = Inr (f row)" by metis
  then have "mapE (inventory_add base) rows = Inr (map f rows)" by (rule mapE_total)
  with rows(1) that show thesis by (simp add: inventory_def)
qed

text \<open>
  Property C9. The two derivations of the record set agree: for every well-formed shape the inventory and
  the ledger exist, hold the same keys with the same payload lengths (the output maps of a dynamic
  port grown to its stream/channel keys included), and the key-set check reports nothing.
\<close>

theorem inventory_is_ledger:
  assumes "shape_ok shape"
  shows "\<exists>recs expect. inventory shape base = Inr recs \<and> expected_payloads shape = Inr expect
    \<and> mset (map rec_row recs) = mset expect \<and> distinct (map fst expect) \<and> completeness shape recs = Inr []"
proof -
  obtain recs where r: "inventory shape base = Inr recs" using inventory_total[OF assms] .
  obtain au cd si so where c: "counts_of shape au cd si so" using shape_ok_counts[OF assms] .
  note e = expected_payloads_eq[OF assms c]
  note l = inventory_ledger[OF assms r e]
  have "mset (map rec_key recs) = mset (map fst (ledger_rows shape au cd si so))"
    unfolding rec_key_row mset_map[of fst] l(1) by (rule refl)
  then have "completeness shape recs = Inr []"
    using assms completeness_silent[OF l(3)] by (simp add: shape_ok_def)
  with r e l show ?thesis by blast
qed

text \<open>One stream each way; the output port has dynamic maps and fewer clusters than stream/channel keys.\<close>

definition sample_shape :: Shape where
  "sample_shape = \<lparr>cfg_stem = ''sample'', names = 6,
     dc = [(''ENTITY'', 1), (''AUDIO_UNIT'', 1), (''CLOCK_DOMAIN'', 1), (''STREAM_INPUT'', 1), (''STREAM_OUTPUT'', 1),
           (''STREAM_PORT_INPUT'', 1), (''STREAM_PORT_OUTPUT'', 1)],
     spi = [\<lparr>p_index = 0, p_clusters = 8, p_map_mode = None\<rparr>],
     spo = [\<lparr>p_index = 0, p_clusters = 4, p_map_mode = Some ''dynamic''\<rparr>]\<rparr>"

lemma sample_shape_ok: "shape_ok sample_shape"
  by (simp add: shape_ok_def sample_shape_def expected_names_def NAME_SLOTS_def)

theorem inventory_is_ledger_witness:
  "\<exists>recs expect. inventory sample_shape 0x20 = Inr recs \<and> expected_payloads sample_shape = Inr expect
    \<and> mset (map rec_row recs) = mset expect \<and> distinct (map fst expect) \<and> completeness sample_shape recs = Inr []"
  using inventory_is_ledger[OF sample_shape_ok, of "0x20"] .

end
