(* ===== verification/Nvm_Image.thy ===== *)
theory Nvm_Image
  imports Nvm_Inventory
begin

text \<open>
  The questions the record gate asks of the bytes of an image, answered for every shape: the image
  it encodes reads back, an empty name survives, an image short of one record is refused, and the
  erased-record rule holds in its four faces.
\<close>

section \<open>Dicts of frames\<close>

lemma update_new: "k \<notin> fst ` set al \<Longrightarrow> AList.update k v al = al @ [(k, v)]"
  by (induction al) auto

lemma update_old:
  "k \<in> fst ` set al \<Longrightarrow> distinct (map fst al) \<Longrightarrow> AList.update k v al = map (\<lambda>(a, b). if a = k then (a, v) else (a, b)) al"
proof (induction al)
  case (Cons x al)
  have "map (\<lambda>(a, b). if a = k then (a, v) else (a, b)) al = al" if "k \<notin> fst ` set al"
    using that by (induction al) auto
  with Cons show ?case by (cases x) auto
qed simp

lemma delete_filter: "AList.delete k al = filter (\<lambda>(a, b). a \<noteq> k) al"
  by (induction al) auto

lemma mapE_cong_Inr: "mapE f xs = Inr ys \<Longrightarrow> (\<And>x y. x \<in> set xs \<Longrightarrow> f x = Inr y \<Longrightarrow> g (h x) = Inr (k y)) \<Longrightarrow> mapE g (map h xs) = Inr (map k ys)"
  by (induction xs arbitrary: ys) auto

lemma mapE_filter: "mapE f xs = Inr ys \<Longrightarrow> (\<And>x y. x \<in> set xs \<Longrightarrow> f x = Inr y \<Longrightarrow> Q y = P x) \<Longrightarrow> mapE f (filter P xs) = Inr (filter Q ys)"
  by (induction xs arbitrary: ys) fastforce+

section \<open>The expectation up to its order\<close>

lemma mapE_mset:
  assumes "\<forall>x \<in> set xs. \<exists>y. f x = Inr y" "mset xs = mset xs'"
  obtains ys ys' where "mapE f xs = Inr ys" "mapE f xs' = Inr ys'" "mset ys = mset ys'"
proof -
  from assms(1) obtain g where g: "\<forall>x \<in> set xs. f x = Inr (g x)" by metis
  with mset_eq_setD[OF assms(2)] have "mapE f xs = Inr (map g xs)" "mapE f xs' = Inr (map g xs')"
    by (auto intro!: mapE_total)
  then show thesis using that assms(2) by simp
qed

lemma sort_mset: "mset xs = mset ys \<Longrightarrow> sort xs = sort (ys :: 'a::linorder list)"
  by (simp add: properties_for_sort)

lemma record_order_perm:
  assumes "\<forall>k \<in> fst ` set e. \<exists>r. rid_of_key k base = Inr r" "mset e = mset e'"
  shows "record_order e base = record_order e' base" "\<exists>order. record_order e base = Inr order"
proof -
  have "\<forall>k \<in> set (map fst e). \<exists>y. rbind (rid_of_key k base) (\<lambda>r. Inr (r, k)) = Inr y" using assms(1) by force
  moreover have "mset (map fst e) = mset (map fst e')" using assms(2) by simp
  ultimately obtain ys ys' where ys:
    "mapE (\<lambda>k. rbind (rid_of_key k base) (\<lambda>r. Inr (r, k))) (map fst e) = Inr ys"
    "mapE (\<lambda>k. rbind (rid_of_key k base) (\<lambda>r. Inr (r, k))) (map fst e') = Inr ys'" "mset ys = mset ys'"
    by (rule mapE_mset)
  from sort_mset[OF ys(3)] ys(1,2)
  show "record_order e base = record_order e' base" "\<exists>order. record_order e base = Inr order"
    by (simp_all add: record_order_def)
qed

lemma read_records_lookup:
  assumes "map_of e = map_of e'"
  shows "read_records seam donor e order blob bound n st = read_records seam donor e' order blob bound n st"
proof -
  have e: "read_erased seam e order blob bound st = read_erased seam e' order blob bound st" for st
    unfolding read_erased_def assms by (rule refl)
  have f: "read_framed donor e blob bound st = read_framed donor e' blob bound st" for st
    unfolding read_framed_def assms by (rule refl)
  have "read_records seam donor e order blob bound n = read_records seam donor e' order blob bound n"
  proof (induction n)
    case (Suc n)
    show ?case by (rule ext) (simp add: e f Suc)
  qed (simp add: fun_eq_iff)
  then show ?thesis by simp
qed

lemma decode_perm:
  assumes "\<forall>k \<in> fst ` set e. \<exists>r. rid_of_key k (d_base donor) = Inr r" "mset e = mset e'" "distinct (map fst e)"
  shows "klj2_decode seam blob donor ident e = klj2_decode seam blob donor ident e'"
proof -
  have d: "distinct (map fst e')" using assms(2,3) by (metis mset_eq_imp_distinct_iff mset_map)
  have "set e = set e'" using assms(2) by (rule mset_eq_setD)
  then have m: "map_of e = map_of e'" using assms(3) d by (simp add: map_of_inject_set)
  have l: "list_all P (map fst e) = list_all P (map fst e')" for P using \<open>set e = set e'\<close> by (simp add: list_all_iff)
  have b: "decode_body seam donor e order blob nrec n = decode_body seam donor e' order blob nrec n" for order nrec n
    unfolding decode_body_def read_records_lookup[OF m] l by (rule refl)
  show ?thesis unfolding klj2_decode_def record_order_perm(1)[OF assms(1,2)] b by (rule refl)
qed

section \<open>Reading back\<close>

text \<open>The image of a set of frames, against the expectation of a shape.\<close>

definition img_ok :: "Img \<Rightarrow> bool" where
  "img_ok img \<longleftrightarrow> base_ok (d_base (im_donor img)) \<and> 0 \<le> d_layout (im_donor img) \<and> d_layout (im_donor img) < 256
     \<and> im_ident img = gate_ident \<and> distinct (map fst (im_expect img))
     \<and> (\<forall>k \<in> fst ` set (im_expect img). \<exists>r. rid_of_key k (d_base (im_donor img)) = Inr r)"

definition area_fits :: "nat \<Rightarrow> bool" where
  "area_fits n \<longleftrightarrow> n + padding n \<le> 65492"

lemma reread_total:
  assumes "img_ok img" "distinct (map fst frames)" "area_fits (\<Sum>(r, b) \<leftarrow> frames. length b)" "length frames < 2 ^ 32"
  obtains blob offs where "klj2_assemble frames (im_donor img) gate_ident = Inr (blob, offs)" "length blob \<le> 65536"
    "\<And>seam. reread seam img frames = klj2_decode seam blob (im_donor img) gate_ident (im_expect img)"
proof -
  have "\<exists>blob offs. klj2_assemble frames (im_donor img) gate_ident = Inr (blob, offs) \<and> length blob \<le> 65536"
    using assms by (intro assemble_total) (simp_all add: img_ok_def gate_ident_def area_fits_def)
  then obtain blob offs where b: "klj2_assemble frames (im_donor img) gate_ident = Inr (blob, offs)" "length blob \<le> 65536" by blast
  have "reread seam img frames = klj2_decode seam blob (im_donor img) gate_ident (im_expect img)" for seam
    using assms(1) b(1) by (simp add: reread_def assemble_img_def decode_img_def img_ok_def)
  with b show thesis by (rule that)
qed

lemma saved_frames_area:
  assumes "\<forall>s \<in> set items. saved_fits base s" "0 \<le> layout" "layout < 256" "mapE (saved_frame layout) items = Inr frames"
  shows "(\<Sum>(r, b) \<leftarrow> frames. length b) = area_bytes items"
proof -
  obtain fs where "mapE (saved_frame layout) items = Inr fs" "(\<Sum>(r, b) \<leftarrow> fs. length b) = area_bytes items"
    using saved_frames_total[OF assms(1-3)] .
  with assms(4) show ?thesis by simp
qed

lemma reread_saved:
  assumes "img_ok img" and fits: "\<forall>s \<in> set items. saved_fits (d_base (im_donor img)) s"
    and "mset (saved_expect items) = mset (im_expect img)" and "area_fits (area_bytes items)" "length items < 2 ^ 32"
    and frames: "mapE (saved_frame (d_layout (im_donor img))) items = Inr frames"
  shows "reread SEAM img frames = Inr (VD_OK, saved_payloads (sort_key fst items))"
proof -
  have ok: "\<forall>s \<in> set items. saved_ok (d_base (im_donor img)) s" using fits by (simp add: saved_fits_def)
  have "distinct (map fst (saved_expect items))"
    using assms(1,3) by (metis img_ok_def mset_eq_imp_distinct_iff mset_map)
  then have keys: "distinct (map (\<lambda>(r, k, n, c). k) items)" by (simp add: saved_expect_distinct)
  note fr = saved_frames_octets[OF frames saved_ids_distinct[OF ok keys]]
  have "0 \<le> d_layout (im_donor img)" "d_layout (im_donor img) < 256" using assms(1) by (simp_all add: img_ok_def)
  then have "(\<Sum>(r, b) \<leftarrow> frames. length b) = area_bytes items" using frames by (rule saved_frames_area[OF fits])
  moreover have "distinct (map fst frames)" "length frames < 2 ^ 32"
    using fr(1,2) saved_ids_distinct[OF ok keys] assms(5) by simp_all
  ultimately obtain blob offs where b: "klj2_assemble frames (im_donor img) gate_ident = Inr (blob, offs)" "length blob \<le> 65536"
    "\<And>seam. reread seam img frames = klj2_decode seam blob (im_donor img) gate_ident (im_expect img)"
    using reread_total[OF assms(1)] assms(4) by metis
  have "klj2_decode SEAM blob (im_donor img) gate_ident (saved_expect items) = Inr (VD_OK, saved_payloads (sort_key fst items))"
    by (rule decode_assembled[OF ok keys frames b(1,2)]) (simp_all add: gate_ident_def)
  then show ?thesis unfolding b(3)
    using decode_perm[of "im_expect img" "im_donor img" "saved_expect items"] assms(1,3) by (simp add: img_ok_def)
qed

section \<open>Images that must be refused\<close>

lemma payload_keys: "fst ` set (saved_payloads items) \<subseteq> (\<lambda>(r, k, n, c). k) ` set items"
  by (force simp: saved_payloads_def List.map_filter_def)

lemma framed_no_blank: "\<forall>(r, k, n, c) \<in> set items. c \<noteq> None \<Longrightarrow> saved_blank items = []"
  by (induction items) (auto simp: saved_blank_def List.map_filter_simps)

lemma area_fits_iff: "area_fits n \<longleftrightarrow> n \<le> 65492"
proof -
  have "int (padding n) = (- int n) mod 4" by (simp add: padding_def ALIGN_def)
  moreover have "int n + (- int n) mod 4 \<le> 65492 \<longleftrightarrow> int n \<le> 65492" by presburger
  ultimately have "int (n + padding n) \<le> 65492 \<longleftrightarrow> n \<le> 65492" by simp
  then show ?thesis unfolding area_fits_def by linarith
qed

text \<open>
  A framed subset of the expected records: every record reads, and the image is refused for the key it
  lacks.
\<close>

lemma reread_short:
  assumes "img_ok img" and fits: "\<forall>s \<in> set items. saved_fits (d_base (im_donor img)) s"
    and keys: "distinct (map (\<lambda>(r, k, n, c). k) items)" and framed: "\<forall>(r, k, n, c) \<in> set items. c \<noteq> None"
    and known: "\<forall>(r, k, n, c) \<in> set items. map_of (im_expect img) k = Some n"
    and lacks: "k0 \<in> fst ` set (im_expect img)" "k0 \<notin> (\<lambda>(r, k, n, c). k) ` set items"
    and "area_fits (area_bytes items)" "length items < 2 ^ 32"
    and frames: "mapE (saved_frame (d_layout (im_donor img))) items = Inr frames"
  shows "reread SEAM img frames = Inr (VD_INCOMPLETE, [])"
proof -
  have ok: "\<forall>s \<in> set items. saved_ok (d_base (im_donor img)) s" using fits by (simp add: saved_fits_def)
  note fr = saved_frames_octets[OF frames saved_ids_distinct[OF ok keys]]
  have lay: "0 \<le> d_layout (im_donor img)" "d_layout (im_donor img) < 256" using assms(1) by (simp_all add: img_ok_def)
  have area: "(\<Sum>(r, b) \<leftarrow> frames. length b) = area_bytes items"
    by (rule saved_frames_area[OF fits lay frames])
  have dist: "distinct (map fst frames)" "length frames < 2 ^ 32"
    using fr(1,2) saved_ids_distinct[OF ok keys] assms(9) by simp_all
  obtain blob offs where b: "klj2_assemble frames (im_donor img) gate_ident = Inr (blob, offs)" "length blob \<le> 65536"
    "\<And>seam. reread seam img frames = klj2_decode seam blob (im_donor img) gate_ident (im_expect img)"
    using reread_total[OF assms(1) dist(1) _ dist(2)] assms(8) area by metis
  obtain records hdr post where rec: "records = concat (map (\<lambda>r. the (map_of frames r)) (sort (map fst frames)))"
    and blob: "blob = hdr @ records @ post" "length hdr = KLJ2_HDR"
    and len: "length blob = KLJ2_HDR + length records + padding (length records) + KLJ2_TRAILER"
    and dec: "\<forall>seam expect. klj2_decode seam blob (im_donor img) gate_ident expect = rbind (record_order expect (d_base (im_donor img))) (\<lambda>order.
      Inr (decode_body seam (im_donor img) expect order blob (length frames) (length blob)))"
    by (rule assembled_decode[OF b(1,2)]) (simp_all add: gate_ident_def)
  obtain order where order: "record_order (im_expect img) (d_base (im_donor img)) = Inr order"
    using record_order_perm(2)[OF _ refl] assms(1) unfolding img_ok_def by blast
  have fr_all: "\<forall>(r, k, n, c) \<in> set (sort_key fst items). c \<noteq> None" using framed by simp
  have "\<exists>l. read_records SEAM (im_donor img) (im_expect img) order blob (length blob - KLJ2_TRAILER) (length frames) start_state
      = Inr (start_state\<lparr>applied := saved_payloads (sort_key fst items), erased := saved_blank (sort_key fst items),
          pos := KLJ2_HDR + length records, last_id := l\<rparr>)"
    unfolding rec using blob len
    by (intro read_assembled[OF ok keys frames]) (simp_all add: rec known next_ok_framed[OF fr_all])
  moreover have "\<not> list_all (\<lambda>k. k \<in> fst ` set (saved_payloads (sort_key fst items)) \<or> k \<in> set []) (map fst (im_expect img))"
    using lacks payload_keys[of "sort_key fst items"] by (auto simp: list_all_iff)
  moreover have "saved_blank (sort_key fst items) = []" by (rule framed_no_blank[OF fr_all])
  ultimately have "decode_body SEAM (im_donor img) (im_expect img) order blob (length frames) (length blob) = (VD_INCOMPLETE, [])"
    by (auto simp: decode_body_def Let_def len SEAM_def)
  then show ?thesis unfolding b(3) dec[rule_format] order by simp
qed

lemma read_records_add:
  "read_records seam donor e order blob bound (m + n) st
    = rbind (read_records seam donor e order blob bound m st) (read_records seam donor e order blob bound n)"
proof (induction m arbitrary: st)
  case (Suc m)
  then have "read_records seam donor e order blob bound (m + n)
      = (\<lambda>t. rbind (read_records seam donor e order blob bound m t) (read_records seam donor e order blob bound n))" by (rule ext)
  then show ?case by (simp add: rbind_assoc)
qed simp

text \<open>The last record of the image with its final octet forced to zero: the header still reads as erased, the payload does not.\<close>

definition torn_octets :: "nat \<Rightarrow> byte list" where
  "torn_octets n = butlast (erased_record n) @ [0]"

lemma torn_octets_eq: "torn_octets n = replicate (7 + n) ERASED @ [0]"
  by (simp add: torn_octets_def erased_record_def REC_HDR_def butlast_conv_take)

lemma read_torn:
  assumes blob: "blob = pre @ torn_octets n @ post" and ps: "pos st = length pre" and room: "length pre + 8 + n \<le> bound"
    and nxt: "find (\<lambda>(r, k). r > last_id st) order = Some (r, k)" and key: "map_of expect k = Some n"
  shows "read_records SEAM donor expect order blob bound 1 st = Inl VD_REC"
proof -
  have sl: "slice (pos st + i) (pos st + j) blob = slice i j (torn_octets n @ post)" for i j
    by (simp add: blob ps slice_mid)
  show ?thesis
  proof (cases "n = 0")
    case True
    have "\<not> all_erased (slice (pos st) (pos st + REC_HDR) blob)" using sl[of 0 REC_HDR] True
      by (simp add: torn_octets_eq REC_HDR_def slice_def all_erased_def ERASED_def)
    moreover have "slice (pos st) (pos st + 2) blob = replicate 2 ERASED" using sl[of 0 2] True
      by (simp add: torn_octets_eq slice_def)
    moreover have "be_int (replicate 2 ERASED) = 0xFFFF" by code_simp
    ultimately show ?thesis using room ps by (simp add: read_framed_def REC_MAGIC_def REC_HDR_def Let_def)
  next
    case False
    have "all_erased (slice (pos st) (pos st + REC_HDR) blob)" using sl[of 0 REC_HDR] False
      by (simp add: torn_octets_eq REC_HDR_def slice_head slice_def all_erased_def list_all_iff)
    moreover have "\<not> all_erased (slice (pos st + REC_HDR) (pos st + REC_HDR + n) blob)"
    proof -
      have "slice (pos st + REC_HDR) (pos st + REC_HDR + n) blob = replicate (n - 1) ERASED @ [0]"
        using sl[of REC_HDR "REC_HDR + n"] False
        by (simp add: torn_octets_eq REC_HDR_def slice_def add.assoc)
      then show ?thesis by (simp add: all_erased_def ERASED_def)
    qed
    ultimately show ?thesis using room ps nxt key
      by (simp add: read_erased_def SEAM_def REC_HDR_def Let_def add.assoc)
  qed
qed

lemma sorted_last_is_max:
  assumes "distinct (map fst items)" "x \<in> set items" "\<forall>s \<in> set items. fst s \<le> fst (x :: 'a::linorder \<times> 'b)"
  shows "\<exists>S. sort_key fst items = S @ [x] \<and> sorted_wrt (<) (map fst S) \<and> (\<forall>s \<in> set S. fst s < fst x) \<and> set S = set items - {x}"
proof -
  let ?S = "sort_key fst items"
  have srt: "sorted_wrt (<) (map fst ?S)" by (rule sorted_by_id(1)[OF assms(1)])
  have "?S \<noteq> []" using assms(2) by (metis empty_iff set_sort empty_set)
  then obtain S y where S: "?S = S @ [y]" by (metis append_butlast_last_id)
  have lt: "\<forall>s \<in> set S. fst s < fst y" using srt by (simp add: S sorted_wrt_append)
  have mem: "set items = insert y (set S)" using arg_cong[OF S, of set] by simp
  have "y = x"
  proof (rule ccontr)
    assume "y \<noteq> x"
    then have "fst x < fst y" using assms(2) mem lt by auto
    moreover have "fst y \<le> fst x" using assms(3) mem by simp
    ultimately show False by simp
  qed
  with S lt srt mem show ?thesis by (auto simp: sorted_wrt_append)
qed

lemma last_le_all: "sorted_wrt (<) xs \<Longrightarrow> x \<in> set xs \<Longrightarrow> x \<le> last (y # xs)" for xs :: "'a::linorder list"
  by (cases xs rule: rev_cases) (auto simp: sorted_wrt_append)

lemma decode_torn:
  assumes oct: "mapE (saved_octets (d_layout donor)) S = Inr bs" and blob: "blob = hdr @ concat bs @ (torn_octets n @ post)" "length hdr = KLJ2_HDR"
    and srt: "sorted_wrt (<) (map fst S)" and below: "\<forall>s \<in> set S. fst s < v" "-1 < v"
    and ok: "\<forall>s \<in> set S. saved_ok (d_base donor) s" and framed: "\<forall>(r, k, n, c) \<in> set S. c \<noteq> None"
    and expect: "\<forall>(r, k, n, c) \<in> set S. map_of expect k = Some n" "map_of expect k = Some n"
    and order: "order = map (\<lambda>(r, k, n, c). (r, k)) S @ [(v, k)]" and room: "KLJ2_HDR + length (concat bs) + 8 + n \<le> length blob - KLJ2_TRAILER"
  shows "decode_body SEAM donor expect order blob (length S + 1) (length blob) = (VD_REC, [])"
proof -
  define st where "st = start_state\<lparr>applied := saved_payloads S, erased := saved_blank S,
      pos := KLJ2_HDR + length (concat bs), last_id := last (-1 # map fst S)\<rparr>"
  have nat: "\<forall>s \<in> set S. -1 < fst s" by (rule saved_ids_natural[OF ok])
  have "read_records SEAM donor expect order blob (length blob - KLJ2_TRAILER) (length S) start_state = Inr st"
    using read_saved[OF oct blob(1), of start_state "length blob - KLJ2_TRAILER" order expect] next_ok_framed[OF framed] srt nat ok expect(1) room blob(2)
    by (simp add: start_state_def st_def)
  moreover have "read_records SEAM donor expect order blob (length blob - KLJ2_TRAILER) 1 st = Inl VD_REC"
  proof (rule read_torn[where pre = "hdr @ concat bs" and post = post and r = v])
    have "\<forall>x \<in> set (map fst S). x \<le> last_id st" using last_le_all[OF srt] by (simp add: st_def)
    moreover have "last_id st < v" using below by (cases S rule: rev_cases) (auto simp: st_def)
    ultimately show "find (\<lambda>(r, k). r > last_id st) order = Some (v, k)" unfolding order
      by (induction S) (auto simp: not_less split: prod.splits)
  qed (use blob room expect(2) in \<open>simp_all add: st_def\<close>)
  ultimately show ?thesis unfolding decode_body_def Let_def read_records_add by simp
qed

lemma map_of_replace:
  "map_of (map (\<lambda>(a, b). if a = v then (a, x) else (a, b)) al) r = (if r = v then map_option (\<lambda>_. x) (map_of al v) else map_of al r)"
  by (induction al) auto

lemma map_fst_replace: "map fst (map (\<lambda>(a, b). if a = v then (a, x) else (a, b)) al) = map fst al"
  by (induction al) auto

lemma frame_of_item:
  assumes "mapE (saved_frame layout) items = Inr frames" "distinct (map fst items)" "s \<in> set items"
  shows "map_of frames (fst s) = Some b \<longleftrightarrow> saved_octets layout s = Inr b"
proof -
  note fr = saved_frames_octets[OF assms(1,2)]
  from assms(3) obtain i where i: "i < length items" "s = items ! i" by (metis in_set_conv_nth)
  have nth: "saved_octets layout s = Inr (snd (frames ! i)) \<and> fst (frames ! i) = fst s"
    using mapE_nth[OF assms(1) i(1)] i(2) by (cases "frames ! i") (auto simp: saved_frame_def)
  have "(fst s, snd (frames ! i)) \<in> set frames" using nth i(1) fr(2) by (metis nth_mem prod.collapse)
  then have "map_of frames (fst s) = Some (snd (frames ! i))" using assms(2) fr(1) by simp
  with nth show ?thesis by auto
qed

lemma replace_same_length:
  assumes "\<And>b. (v, b) \<in> set al \<Longrightarrow> length b = length x"
  shows "(\<Sum>(r, b) \<leftarrow> map (\<lambda>(a, b). if a = v then (a, x) else (a, b)) al. length b) = (\<Sum>(r, b) \<leftarrow> al. length b)"
  using assms by (induction al) auto

lemma reread_torn:
  assumes "img_ok img" and fits: "\<forall>s \<in> set items. saved_fits (d_base (im_donor img)) s"
    and expect: "mset (saved_expect items) = mset (im_expect img)" and framed: "\<forall>(r, k, n, c) \<in> set items. c \<noteq> None"
    and area: "area_fits (area_bytes items)" "length items < 2 ^ 32"
    and frames: "mapE (saved_frame (d_layout (im_donor img))) items = Inr frames"
    and victim: "(v, k, n, c) \<in> set items" "\<forall>s \<in> set items. fst s \<le> v"
  shows "reread SEAM img (map (\<lambda>(a, b). if a = v then (a, torn_octets n) else (a, b)) frames) = Inr (VD_REC, [])"
proof -
  define donor where "donor = im_donor img"
  define torn where "torn = map (\<lambda>(a, b). if a = v then (a, torn_octets n) else (a, b)) frames"
  have ok: "\<forall>s \<in> set items. saved_ok (d_base donor) s" using fits by (simp add: saved_fits_def donor_def)
  have dk: "distinct (map fst (im_expect img))" using assms(1) by (simp add: img_ok_def)
  then have "distinct (map fst (saved_expect items))" using expect by (metis mset_eq_imp_distinct_iff mset_map)
  then have keys: "distinct (map (\<lambda>(r, k, n, c). k) items)" by (simp add: saved_expect_distinct)
  note ids = saved_ids_distinct[OF ok keys]
  note fr = saved_frames_octets[OF frames[folded donor_def] ids]
  obtain S where S: "sort_key fst items = S @ [(v, k, n, c)]" "sorted_wrt (<) (map fst S)" "\<forall>s \<in> set S. fst s < v"
    "set S = set items - {(v, k, n, c)}"
    using sorted_last_is_max[OF ids victim(1)] victim(2) by auto
  have ft: "map fst torn = map fst items" unfolding torn_def map_fst_replace by (rule fr(1))
  have oct: "map_of frames (fst s) = Some b \<longleftrightarrow> saved_octets (d_layout donor) s = Inr b" if "s \<in> set items" for s b
    by (rule frame_of_item[OF frames[folded donor_def] ids that])
  obtain p where p: "c = Some p" "length p = n" using framed victim(1) ok by (fastforce simp: saved_ok_def)
  have lenv: "length b = length (torn_octets n)" if "(v, b) \<in> set frames" for b
  proof -
    have "map_of frames v = Some b" using that ids fr(1) by simp
    then have "saved_octets (d_layout donor) (v, k, n, c) = Inr b" using oct[OF victim(1), of b] by simp
    then show ?thesis using p by (simp add: saved_octets_def length_frame_record torn_octets_eq REC_HDR_def)
  qed
  have lay: "0 \<le> d_layout (im_donor img)" "d_layout (im_donor img) < 256" using assms(1) by (simp_all add: img_ok_def)
  have sum: "(\<Sum>(r, b) \<leftarrow> torn. length b) = area_bytes items"
    unfolding torn_def by (rule trans[OF replace_same_length saved_frames_area[OF fits lay frames]]) (rule lenv)
  have dist: "distinct (map fst torn)" "length torn < 2 ^ 32" using ids ft fr(2) area(2) by (simp_all add: torn_def)
  obtain blob offs where b: "klj2_assemble torn donor gate_ident = Inr (blob, offs)" "length blob \<le> 65536"
    "\<And>seam. reread seam img torn = klj2_decode seam blob donor gate_ident (im_expect img)"
    using reread_total[OF assms(1) dist(1) _ dist(2)] area(1) sum donor_def by metis
  obtain records hdr post where rec: "records = concat (map (\<lambda>r. the (map_of torn r)) (sort (map fst torn)))"
    and blob: "blob = hdr @ records @ post" "length hdr = KLJ2_HDR"
    and len: "length blob = KLJ2_HDR + length records + padding (length records) + KLJ2_TRAILER"
    and dec: "\<forall>seam expect. klj2_decode seam blob donor gate_ident expect = rbind (record_order expect (d_base donor)) (\<lambda>order.
      Inr (decode_body seam donor expect order blob (length torn) (length blob)))"
    by (rule assembled_decode[OF b(1,2)]) (simp_all add: gate_ident_def)
  define bs where "bs = map (\<lambda>s. the (map_of frames (fst s))) S"
  have "v \<in> set (map fst frames)" unfolding fr(1) using victim(1) by force
  then have "map_of frames v \<noteq> None" unfolding map_of_eq_None_iff by simp
  then have "map_of torn v = Some (torn_octets n)" by (auto simp: torn_def map_of_replace)
  moreover have "map_of torn (fst s) = map_of frames (fst s)" if "s \<in> set S" for s
    using S(3) that by (auto simp: torn_def map_of_replace)
  ultimately have rec': "records = concat bs @ torn_octets n"
    unfolding rec ft sorted_by_id(2)[OF ids] S(1) bs_def by (simp add: comp_def cong: map_cong)
  have order: "record_order (im_expect img) (d_base donor) = Inr (map (\<lambda>(r, k, n, c). (r, k)) S @ [(v, k)])"
    using record_order_perm(1)[OF _ expect[symmetric]] record_order_saved[OF ok keys] assms(1) S(1) by (simp add: img_ok_def donor_def)
  have look: "map_of (im_expect img) k' = Some n'" if "(r', k', n', c') \<in> set items" for r' k' n' c'
  proof -
    have "(k', n') \<in> set (im_expect img)" using that mset_eq_setD[OF expect] by (force simp: saved_expect_def)
    then show ?thesis using dk by simp
  qed
  have "\<forall>s \<in> set (sort_key fst items). saved_octets (d_layout donor) s = Inr (the (map_of frames (fst s)))"
    using fr(3) unfolding mapE_Inr_iff list_all2_map2 list_all2_same .
  then have "mapE (saved_octets (d_layout donor)) S = Inr bs" unfolding bs_def S(1) by (intro mapE_total) simp
  then have "decode_body SEAM donor (im_expect img) (map (\<lambda>(r, k, n, c). (r, k)) S @ [(v, k)]) blob (length S + 1) (length blob) = (VD_REC, [])"
    by (rule decode_torn[where hdr = hdr and post = post and n = n])
      (use S ok framed look victim(1) blob rec' len saved_ids_natural[OF ok] in \<open>auto simp: torn_octets_eq KLJ2_TRAILER_def\<close>)
  moreover have "length torn = length S + 1" using arg_cong[OF S(1), of length] fr(2) by (simp add: torn_def)
  ultimately show ?thesis using b(3)[of SEAM] dec order unfolding torn_def by simp
qed

end
