(* ===== verification/Nvm_Verdicts.thy ===== *)
theory Nvm_Verdicts
  imports Nvm_Image
begin

text \<open>
  The record gate composed: an inventory the id and size checks accept has an image on which none of
  the byte checks of \<^verbatim>\<open>check_image\<close> reports anything, whatever the shape.
\<close>

section \<open>The id scan\<close>

definition id_of :: "nvm_record \<Rightarrow> int" where
  "id_of r = the (rec_id r)"

definition row_fits :: "fixed_points \<Rightarrow> nvm_record \<Rightarrow> bool" where
  "row_fits fixed row = (case row of (g, i, r, p, b) \<Rightarrow>
     case r of None \<Rightarrow> False | Some rid \<Rightarrow> rid < ID_SPACE fixed \<and> p \<le> MAX_PAYLOAD)"

lemma scan_silent:
  "found (fold (check_id fixed) recs st) = [] \<longleftrightarrow> found st = [] \<and> (\<forall>r \<in> set recs. row_fits fixed r)
     \<and> distinct (map id_of recs) \<and> set (map id_of recs) \<inter> fst ` set (seen st) = {}"
proof (induction recs arbitrary: st)
  case (Cons row recs)
  obtain g i r p b where row: "row = (g, i, r, p, b)" by (cases row)
  have "found (check_id fixed row st) = [] \<longleftrightarrow> found st = [] \<and> row_fits fixed row \<and> id_of row \<notin> fst ` set (seen st)"
    by (auto simp: row check_id_def row_fits_def id_of_def rec_id_def map_of_eq_None_iff
        split: option.splits dest: map_of_SomeD intro: rev_image_eqI)
  moreover have "fst ` set (seen (check_id fixed row st)) = insert (id_of row) (fst ` set (seen st))" if "row_fits fixed row"
    using that by (cases r) (auto simp: row check_id_def row_fits_def id_of_def rec_id_def dom_update)
  ultimately show ?case by (cases "row_fits fixed row") (simp_all add: Cons, blast)
qed simp

text \<open>
  The id scan is silent exactly when every record has an id inside the port's namespace and a
  payload the port can delimit, and no two records share an id.
\<close>

lemma id_scan_silent_iff:
  "found (check_ids fixed recs) = [] \<longleftrightarrow> list_all (row_fits fixed) recs \<and> distinct (map id_of recs)"
  by (simp add: check_ids_def scan_silent list_all_iff)

section \<open>The records of an inventory\<close>

definition rec_saved :: "(int \<Rightarrow> byte list) \<Rightarrow> nvm_record \<Rightarrow> saved" where
  "rec_saved nval row = (case row of (g, i, r, p, b) \<Rightarrow> (the r, (g, i), p, Some (payload_bytes g i (the r) p (Some nval))))"

lemma inventory_add_id:
  assumes "inventory_add base (g, i, p) = Inr (g', i', Some rid, p', blk)"
  shows "\<exists>b. (g', Some b, blk) \<in> set (id_blocks base) \<and> rid = b + i' \<and> i' < blk"
proof -
  from assms obtain b0 c where a: "map_of ALLOC g = Some (b0, blk)" "alloc_base g b0 base = Some c" "g' = g" "i' = i" "rid = c + i" "i < blk"
    by (auto simp: inventory_add_def split: option.splits if_splits)
  from map_of_SomeD[OF a(1)] a(2) have "(g, Some c, blk) \<in> set (id_blocks base)" by (force simp: id_blocks_def)
  with a show ?thesis by blast
qed

lemma ledger_entries:
  assumes "shape_ok shape" "((g, i), p) \<in> set (ledger_rows shape au cd si so)"
  shows "0 \<le> i" "g = ''NAME'' \<Longrightarrow> p = NAME_BYTES"
proof -
  have ix: "\<forall>p \<in> set ports. 0 \<le> p_index p" if "map p_index ports = map int [0..<length ports]" for ports
    using that by (metis (no_types, lifting) imageE image_eqI of_nat_0_le_iff set_map)
  have "\<forall>p \<in> set (spi shape). 0 \<le> p_index p" "\<forall>p \<in> set (spo shape). 0 \<le> p_index p"
    using assms(1) ix unfolding shape_ok_def by blast+
  with assms(2) show "0 \<le> i" "g = ''NAME'' \<Longrightarrow> p = NAME_BYTES" unfolding ledger_rows_def group_rows_def by auto
qed

definition names_64 :: "(int \<Rightarrow> byte list) \<Rightarrow> bool" where
  "names_64 nval \<longleftrightarrow> (\<forall>k. length (nval k) = NAME_BYTES)"

lemma name_table_length: "\<forall>v \<in> snd ` set over. length v = NAME_BYTES \<Longrightarrow> names_64 (name_table over)"
  by (auto simp: names_64_def name_table_def Let_def split: option.splits dest!: map_of_SomeD)

lemma payload_length:
  "(g = ''NAME'' \<longrightarrow> p = NAME_BYTES) \<Longrightarrow> names_64 nval \<Longrightarrow> length (payload_bytes g i rid p (Some nval)) = p"
  by (cases "g = ''NAME''") (auto simp: payload_bytes_def names_64_def)

section \<open>A graded inventory\<close>

definition graded :: "Shape \<Rightarrow> Donor \<Rightarrow> nvm_record list \<Rightarrow> (key \<times> nat) list \<Rightarrow> bool" where
  "graded shape donor recs expect \<longleftrightarrow> shape_ok shape \<and> base_ok (d_base donor) \<and> 0 \<le> d_layout donor \<and> d_layout donor < 256
     \<and> inventory shape (d_base donor) = Inr recs \<and> expected_payloads shape = Inr expect
     \<and> (\<forall>r \<in> set recs. row_fits FIXED r) \<and> image_bytes recs \<le> 65536"

definition gate_img :: "Shape \<Rightarrow> Donor \<Rightarrow> nvm_record list \<Rightarrow> (key \<times> nat) list \<Rightarrow> Img" where
  "gate_img shape donor recs expect =
     \<lparr>im_shape = shape, im_recs = recs, im_donor = donor, im_ident = gate_ident, im_expect = expect\<rparr>"

lemma gate_img_simps [simp]:
  "im_shape (gate_img shape donor recs expect) = shape" "im_recs (gate_img shape donor recs expect) = recs"
  "im_donor (gate_img shape donor recs expect) = donor" "im_ident (gate_img shape donor recs expect) = gate_ident"
  "im_expect (gate_img shape donor recs expect) = expect"
  by (simp_all add: gate_img_def)

lemma graded_ledger:
  assumes "graded shape donor recs expect"
  shows "mset (map rec_row recs) = mset expect" "distinct (map fst expect)"
    "\<forall>((g, i), p) \<in> set expect. 0 \<le> i \<and> (g = ''NAME'' \<longrightarrow> p = NAME_BYTES)"
    "(''CFG_IDX'', 0) \<in> fst ` set expect" "k < names shape \<Longrightarrow> (''NAME'', int k) \<in> fst ` set expect"
proof -
  have g: "shape_ok shape" "inventory shape (d_base donor) = Inr recs" "expected_payloads shape = Inr expect"
    using assms by (simp_all add: graded_def)
  show "mset (map rec_row recs) = mset expect" "distinct (map fst expect)" using inventory_ledger[OF g] by simp_all
  obtain au cd si so where c: "counts_of shape au cd si so" using shape_ok_counts[OF g(1)] .
  have e: "expect = ledger_rows shape au cd si so" using expected_payloads_eq[OF g(1) c] g(3) by simp
  show "\<forall>((g, i), p) \<in> set expect. 0 \<le> i \<and> (g = ''NAME'' \<longrightarrow> p = NAME_BYTES)" using ledger_entries[OF g(1)] unfolding e by blast
  show "(''CFG_IDX'', 0) \<in> fst ` set expect" "k < names shape \<Longrightarrow> (''NAME'', int k) \<in> fst ` set expect"
    unfolding e by (simp_all add: ledger_rows_def group_rows_def image_Un image_image)
qed

lemma graded_row:
  assumes "graded shape donor recs expect" "r \<in> set recs" "names_64 nval"
  obtains g i rid p b where "r = (g, i, Some rid, p, b)" "((g, i), p) \<in> set expect" "saved_fits (d_base donor) (rec_saved nval r)"
proof -
  obtain g i ro p b where r: "r = (g, i, ro, p, b)" by (cases r)
  with assms(1,2) obtain rid where rid: "ro = Some rid" "rid < 256" "p \<le> MAX_PAYLOAD"
    by (auto simp: graded_def row_fits_def FIXED_def split: option.splits)
  have mem: "((g, i), p) \<in> set expect" using mset_eq_setD[OF graded_ledger(1)[OF assms(1)]] assms(2) r
    by (force simp: rec_row_def)
  have i: "0 \<le> i" "g = ''NAME'' \<longrightarrow> p = NAME_BYTES" using graded_ledger(3)[OF assms(1)] mem by auto
  from assms(1,2) obtain row where "inventory_add (d_base donor) row = Inr r"
    using mapE_mem by (fastforce simp: graded_def inventory_def)
  then obtain c where c: "(g, Some c, b) \<in> set (id_blocks (d_base donor))" "rid = c + i" "i < b"
    using inventory_add_id r rid(1) by (cases row) blast
  have "base_ok (d_base donor)" using assms(1) by (simp add: graded_def)
  note blk = block_facts[OF this c(1)]
  have "saved_fits (d_base donor) (rec_saved nval r)"
    using blk(1) blk(3)[OF i(1) c(3)] blk(4)[of i] rid i c payload_length[OF i(2) assms(3), of i rid]
    by (simp add: saved_fits_def saved_ok_def rec_saved_def r MAX_PAYLOAD_def)
  with r rid(1) mem show thesis by (auto intro: that)
qed

lemma graded_items:
  assumes "graded shape donor recs expect" "names_64 nval"
  shows "\<forall>s \<in> set (map (rec_saved nval) recs). saved_fits (d_base donor) s"
    "\<forall>(r, k, n, c) \<in> set (map (rec_saved nval) recs). c \<noteq> None"
    "mset (saved_expect (map (rec_saved nval) recs)) = mset expect"
    "area_fits (area_bytes (map (rec_saved nval) recs))" "length recs < 2 ^ 32"
    "distinct (map (\<lambda>(r, k, n, c). k) (map (rec_saved nval) recs))"
    "distinct (map fst (map (rec_saved nval) recs))"
proof -
  show fits: "\<forall>s \<in> set (map (rec_saved nval) recs). saved_fits (d_base donor) s"
  proof
    fix s
    assume "s \<in> set (map (rec_saved nval) recs)"
    then obtain r where r: "r \<in> set recs" "s = rec_saved nval r" by auto
    show "saved_fits (d_base donor) s" unfolding r(2) by (rule graded_row[OF assms(1) r(1) assms(2)])
  qed
  show "\<forall>(r, k, n, c) \<in> set (map (rec_saved nval) recs). c \<noteq> None" by (auto simp: rec_saved_def)
  have e: "saved_expect (map (rec_saved nval) recs) = map rec_row recs"
    by (auto simp: saved_expect_def rec_saved_def rec_row_def)
  then show ex: "mset (saved_expect (map (rec_saved nval) recs)) = mset expect" using graded_ledger(1)[OF assms(1)] by simp
  have area: "area_bytes (map (rec_saved nval) recs) = (\<Sum>(g, i, r, p, b) \<leftarrow> recs. REC_HDR + p)"
    by (simp add: area_bytes_def comp_def rec_saved_def case_prod_beta')
  have "image_bytes recs \<le> 65536" using assms(1) by (simp add: graded_def)
  then show a: "area_fits (area_bytes (map (rec_saved nval) recs))"
    by (simp add: area image_bytes_def Let_def KLJ2_HDR_def KLJ2_TRAILER_def area_fits_def)
  have "length recs \<le> (\<Sum>(g, i, r, p, b) \<leftarrow> recs. REC_HDR + p)" by (induction recs) (auto simp: REC_HDR_def)
  then show "length recs < 2 ^ 32" using a by (simp add: area area_fits_iff)
  show keys: "distinct (map (\<lambda>(r, k, n, c). k) (map (rec_saved nval) recs))"
    using ex graded_ledger(2)[OF assms(1)] by (metis saved_expect_distinct mset_eq_imp_distinct_iff mset_map)
  show "distinct (map fst (map (rec_saved nval) recs))"
    using fits keys by (intro saved_ids_distinct[of _ "d_base donor"]) (simp_all add: saved_fits_def)
qed

lemma graded_img_ok:
  assumes "graded shape donor recs expect"
  shows "img_ok (gate_img shape donor recs expect)"
proof -
  have "\<exists>r. rid_of_key k (d_base donor) = Inr r" if "k \<in> fst ` set expect" for k
  proof -
    have "fst ` set expect = rec_key ` set recs"
      using arg_cong[OF mset_eq_setD[OF graded_ledger(1)[OF assms]], of "image fst"]
      by (simp add: image_image rec_row_def rec_key_def case_prod_beta')
    with that obtain r where r: "r \<in> set recs" "rec_key r = k" by auto
    obtain g i rid p b where "r = (g, i, Some rid, p, b)" "saved_fits (d_base donor) (rec_saved (name_table []) r)"
      by (rule graded_row[OF assms r(1) name_table_length[of "[]"]]) auto
    with r(2) show ?thesis by (auto simp: rec_saved_def saved_fits_def saved_ok_def rec_key_def)
  qed
  then show ?thesis using assms graded_ledger(2)[OF assms] by (simp add: img_ok_def graded_def)
qed

section \<open>Check 8: the image reads back\<close>

lemma frames_fold:
  assumes "\<forall>r \<in> set recs. rec_id r \<noteq> None" "distinct (map id_of recs)" "set (map id_of recs) \<inter> fst ` set out = {}"
  shows "foldE (\<lambda>(g, i, r, p, b) out. case r of
         None \<Rightarrow> Inr out
       | Some rid \<Rightarrow>
           if Some (g, i) = None then Inr out
           else rbind (frame_record rid (payload_bytes g i rid p (Some nval)) layout) (\<lambda>fr. Inr (AList.update rid fr out))) recs out
    = rbind (mapE (saved_frame layout) (map (rec_saved nval) recs)) (\<lambda>fs. Inr (out @ fs))"
  using assms
proof (induction recs arbitrary: out)
  case (Cons r recs)
  obtain g i rid p b where r: "r = (g, i, Some rid, p, b)" using Cons.prems(1) by (cases r) (auto simp: rec_id_def)
  have id: "id_of r = rid" by (simp add: r id_of_def rec_id_def)
  show ?case
  proof (cases "frame_record rid (payload_bytes g i rid p (Some nval)) layout")
    case (Inl e)
    then show ?thesis by (simp add: r rec_saved_def saved_frame_def saved_octets_def)
  next
    case (Inr fr)
    have "AList.update rid fr out = out @ [(rid, fr)]" using Cons.prems(3) id by (intro update_new) auto
    moreover have "set (map id_of recs) \<inter> fst ` set (out @ [(rid, fr)]) = {}" using Cons.prems(2,3) id by auto
    ultimately show ?thesis using Cons.IH[of "out @ [(rid, fr)]"] Cons.prems(1,2) Inr
      by (simp add: r rec_saved_def saved_frame_def saved_octets_def rbind_assoc)
  qed
qed simp

lemma graded_frames:
  assumes g: "graded shape donor recs expect" and n: "names_64 nval"
  obtains frames where "frames_for (gate_img shape donor recs expect) nval None = Inr frames"
    "mapE (saved_frame (d_layout donor)) (map (rec_saved nval) recs) = Inr frames"
proof -
  have ids: "\<forall>r \<in> set recs. rec_id r \<noteq> None" using g by (auto simp: graded_def row_fits_def rec_id_def split: option.splits)
  have "map fst (map (rec_saved nval) recs) = map id_of recs" by (auto simp: rec_saved_def id_of_def rec_id_def)
  then have d: "distinct (map id_of recs)" using graded_items(7)[OF g n] by (simp only:)
  have "0 \<le> d_layout donor" "d_layout donor < 256" using g by (simp_all add: graded_def)
  then obtain frames where fr: "mapE (saved_frame (d_layout donor)) (map (rec_saved nval) recs) = Inr frames"
    by (rule saved_frames_total[OF graded_items(1)[OF g n]])
  then have "frames_for (gate_img shape donor recs expect) nval None = Inr frames"
    using frames_fold[OF ids d, of "[]" nval "d_layout donor"] unfolding frames_for_def gate_img_simps by simp
  with fr show thesis by (rule that[rotated])
qed

lemma graded_reread:
  assumes "graded shape donor recs expect" "names_64 nval"
    "mapE (saved_frame (d_layout donor)) (map (rec_saved nval) recs) = Inr frames"
  shows "reread SEAM (gate_img shape donor recs expect) frames = Inr (VD_OK, saved_payloads (sort_key fst (map (rec_saved nval) recs)))"
  by (rule reread_saved[OF graded_img_ok[OF assms(1)]]) (use graded_items[OF assms(1,2)] assms(3) in simp_all)

lemma payloads_distinct: "distinct (map (\<lambda>(r, k, n, c). k) items) \<Longrightarrow> distinct (map fst (saved_payloads items))"
proof (induction items)
  case (Cons s items)
  obtain r k n c where s: "s = (r, k, n, c)" by (cases s)
  have "k \<notin> (\<lambda>(r, k, n, c). k) ` set items" using Cons.prems by (simp add: s case_prod_beta')
  then have "k \<notin> fst ` set (saved_payloads items)" using payload_keys[of items] by blast
  with Cons show ?case by (cases c) (auto simp: s saved_payloads_def List.map_filter_simps)
qed (simp add: saved_payloads_def List.map_filter_simps)

lemma payloads_lookup:
  assumes "distinct (map (\<lambda>(r, k, n, c). k) items)" "(r, k, n, Some p) \<in> set items"
  shows "map_of (saved_payloads (sort_key fst items)) k = Some p"
proof -
  have "(k, p) \<in> set (saved_payloads items)" using assms(2) by (force simp: saved_payloads_def List.map_filter_def)
  then have "(k, p) \<in> set (saved_payloads (sort_key fst items))" by (simp add: saved_sets_perm)
  moreover have "mset (map (\<lambda>(r, k, n, c). k) (sort_key fst items)) = mset (map (\<lambda>(r, k, n, c). k) items)" by simp
  from mset_eq_imp_distinct_iff[OF this] have "distinct (map fst (saved_payloads (sort_key fst items)))"
    using assms(1) by (intro payloads_distinct) blast
  ultimately show ?thesis by simp
qed

lemma graded_lookup:
  assumes "graded shape donor recs expect" "names_64 nval" "(g, i, Some rid, p, b) \<in> set recs"
  shows "map_of (saved_payloads (sort_key fst (map (rec_saved nval) recs))) (g, i) = Some (payload_bytes g i rid p (Some nval))"
proof (rule payloads_lookup[OF graded_items(6)[OF assms(1,2)]])
  show "(rid, (g, i), p, Some (payload_bytes g i rid p (Some nval))) \<in> set (map (rec_saved nval) recs)"
    using imageI[OF assms(3), of "rec_saved nval"] by (simp add: rec_saved_def)
qed

lemma default_names: "names_64 (name_table [])"
  by (rule name_table_length) simp

lemma graded_round_trip:
  assumes g: "graded shape donor recs expect"
  obtains frames app where "round_trip SEAM (gate_img shape donor recs expect) = Inr (frames, Some app, [])"
    "mapE (saved_frame (d_layout donor)) (map (rec_saved (name_table [])) recs) = Inr frames"
proof -
  obtain frames where fr: "frames_for (gate_img shape donor recs expect) (name_table []) None = Inr frames"
    "mapE (saved_frame (d_layout donor)) (map (rec_saved (name_table [])) recs) = Inr frames"
    by (rule graded_frames[OF g default_names])
  note rr = graded_reread[OF g default_names fr(2)]
  let ?app = "saved_payloads (sort_key fst (map (rec_saved (name_table [])) recs))"
  have "find (\<lambda>(g, i, r, p, b). case r of None \<Rightarrow> False
      | Some rid \<Rightarrow> map_of ?app (g, i) \<noteq> Some (payload_bytes g i rid p (Some (name_table [])))) recs = None"
    using graded_lookup[OF g default_names] by (auto simp: find_None_iff split: option.splits)
  then have "round_trip SEAM (gate_img shape donor recs expect) = Inr (frames, Some ?app, [])"
    using fr(1) rr by (simp add: round_trip_def Let_def)
  with fr(2) show thesis by (rule that[rotated])
qed

section \<open>Check 9: an empty name survives\<close>

lemma graded_empty_name:
  assumes g: "graded shape donor recs expect" and "names shape \<noteq> 0"
  shows "empty_name_survives SEAM (gate_img shape donor recs expect) = Inr []"
proof -
  define empty :: "byte list" where "empty = replicate NAME_BYTES 0"
  define nval where "nval = name_table [(0, empty)]"
  have n: "names_64 nval" unfolding nval_def by (rule name_table_length) (simp add: empty_def)
  obtain frames where fr: "frames_for (gate_img shape donor recs expect) nval None = Inr frames"
    "mapE (saved_frame (d_layout donor)) (map (rec_saved nval) recs) = Inr frames"
    by (rule graded_frames[OF g n])
  let ?app = "saved_payloads (sort_key fst (map (rec_saved nval) recs))"
  have look: "map_of ?app (''NAME'', int k) = Some (nval (int k))" if k: "k < names shape" for k
  proof -
    have "(''NAME'', int k) \<in> fst ` set (map rec_row recs)"
      using graded_ledger(5)[OF g k] mset_eq_setD[OF graded_ledger(1)[OF g]] by simp
    then obtain r where r: "r \<in> set recs" "fst (rec_row r) = (''NAME'', int k)" by auto
    obtain g' i rid p b where "r = (g', i, Some rid, p, b)" by (rule graded_row[OF g r(1) n])
    with r graded_lookup[OF g n] show ?thesis by (auto simp: rec_row_def payload_bytes_def)
  qed
  have got: "names_from_image SEAM ?app (names shape) = map (\<lambda>k. (int k, nval (int k))) [0..<names shape]"
    using look by (auto simp: names_from_image_def SEAM_def List.map_filter_def filter_id_conv)
  have "map_of (map (\<lambda>k. (int k, nval (int k))) [0..<names shape]) 0 = Some empty"
  proof -
    have "nval 0 = empty" by (simp add: nval_def name_table_def)
    then show ?thesis using assms(2) by (cases "names shape") (simp_all add: upt_rec del: upt_Suc)
  qed
  then show ?thesis using fr(1) graded_reread[OF g n fr(2)] got
    by (simp add: empty_name_survives_def Let_def nval_def[symmetric] empty_def[symmetric])
qed

section \<open>Check 11: an incomplete image is refused\<close>

lemma area_bytes_filter: "area_bytes (filter P items) \<le> area_bytes items"
  by (induction items) (auto simp: area_bytes_def)

lemma saved_expect_mem: "(r, k, n, c) \<in> set items \<Longrightarrow> (k, n) \<in> set (saved_expect items)"
  by (force simp: saved_expect_def)

lemma key_gone:
  assumes "distinct (map (\<lambda>(r, k, n, c). k) items)" "(d, k, n, c) \<in> set items"
  shows "k \<notin> (\<lambda>(r, k, n, c). k) ` set (filter (\<lambda>s. fst s \<noteq> d) items)"
proof
  assume "k \<in> (\<lambda>(r, k, n, c). k) ` set (filter (\<lambda>s. fst s \<noteq> d) items)"
  then obtain s where s: "s \<in> set items" "fst s \<noteq> d" "(\<lambda>(r, k, n, c). k) s = k" by auto
  have "inj_on (\<lambda>(r, k, n, c). k) (set items)" using assms(1) by (simp add: distinct_map)
  then have "s = (d, k, n, c)" by (rule inj_onD) (use s assms(2) in simp_all)
  with s(2) show False by simp
qed

lemma graded_cut:
  assumes g: "graded shape donor recs expect" and fr: "mapE (saved_frame (d_layout donor)) (map (rec_saved (name_table [])) recs) = Inr frames"
    and r: "(g0, i0, Some d, p0, b0) \<in> set recs"
  shows "del_item d frames = Inr (filter (\<lambda>(a, b). a \<noteq> d) frames)"
    "reread SEAM (gate_img shape donor recs expect) (filter (\<lambda>(a, b). a \<noteq> d) frames) = Inr (VD_INCOMPLETE, [])"
proof -
  let ?items = "map (rec_saved (name_table [])) recs"
  let ?cut = "filter (\<lambda>s. fst s \<noteq> d) ?items"
  note it = graded_items[OF g default_names]
  have mem: "(d, (g0, i0), p0, Some (payload_bytes g0 i0 d p0 (Some (name_table [])))) \<in> set ?items"
    using imageI[OF r, of "rec_saved (name_table [])"] by (simp add: rec_saved_def)
  note oct = saved_frames_octets[OF fr it(7)]
  have "d \<in> set (map fst frames)" unfolding oct(1) using imageI[OF mem, of fst] by (simp add: image_image)
  then show "del_item d frames = Inr (filter (\<lambda>(a, b). a \<noteq> d) frames)" by (simp add: del_item_def delete_filter)
  have "map_of expect k = Some n" if "(r, k, n, c) \<in> set ?items" for r k n c
    using saved_expect_mem[OF that] mset_eq_setD[OF it(3)] graded_ledger(2)[OF g] by simp
  then have look: "\<forall>(r, k, n, c) \<in> set ?items. map_of expect k = Some n" by fast
  show "reread SEAM (gate_img shape donor recs expect) (filter (\<lambda>(a, b). a \<noteq> d) frames) = Inr (VD_INCOMPLETE, [])"
  proof (rule reread_short[OF graded_img_ok[OF g], where items = ?cut and ?k0.0 = "(g0, i0)"])
    show "mapE (saved_frame (d_layout (im_donor (gate_img shape donor recs expect)))) ?cut = Inr (filter (\<lambda>(a, b). a \<noteq> d) frames)"
      unfolding gate_img_simps by (rule mapE_filter[OF fr]) (auto simp: saved_frame_def)
    show "area_fits (area_bytes ?cut)" using it(4) area_bytes_filter[of "\<lambda>s. fst s \<noteq> d" ?items] by (simp add: area_fits_iff)
    show "(g0, i0) \<in> fst ` set (im_expect (gate_img shape donor recs expect))" using look mem by (force dest: map_of_SomeD)
    show "(g0, i0) \<notin> (\<lambda>(r, k, n, c). k) ` set ?cut"
      by (rule key_gone[OF it(6) mem])
    show "distinct (map (\<lambda>(r, k, n, c). k) ?cut)" using it(6) by (rule distinct_map_filter)
    show "length ?cut < 2 ^ 32" using it(5) le_less_trans[OF length_filter_le] by fastforce
  qed (use it(1,2) look in auto)
qed

lemma graded_incomplete:
  assumes g: "graded shape donor recs expect" and fr: "mapE (saved_frame (d_layout donor)) (map (rec_saved (name_table [])) recs) = Inr frames"
  shows "incomplete_is_refused SEAM (gate_img shape donor recs expect) frames = Inr []"
proof -
  have "first_accepted SEAM (gate_img shape donor recs expect) frames keys = Inr []" for keys
  proof (induction keys)
    case (Cons key keys)
    show ?case
    proof (cases "drop_id_of (gate_img shape donor recs expect) key")
      case (Some d)
      then obtain r where r: "find (\<lambda>r. rec_key r = key \<and> rec_id r \<noteq> None) recs = Some r" "rec_id r = Some d"
        by (auto simp: drop_id_of_def split: option.splits)
      obtain g0 i0 ro p0 b0 where c: "r = (g0, i0, ro, p0, b0)" by (cases r)
      have "r \<in> set recs" using r(1) by (auto simp: find_Some_iff)
      then have "(g0, i0, Some d, p0, b0) \<in> set recs" using r(2) by (simp add: c rec_id_def)
      from graded_cut[OF g fr this] Some Cons show ?thesis by simp
    qed (simp add: Cons)
  qed simp
  then show ?thesis by (simp add: incomplete_is_refused_def)
qed

section \<open>Check 12: the erased-record rule\<close>

definition blank_some :: "(int \<Rightarrow> bool) \<Rightarrow> saved \<Rightarrow> saved" where
  "blank_some P s = (case s of (r, k, n, c) \<Rightarrow> (r, k, n, if P r then None else c))"

definition erase_some :: "(int \<Rightarrow> bool) \<Rightarrow> (int \<times> byte list) list \<Rightarrow> (int \<times> byte list) list" where
  "erase_some P frames = map (\<lambda>(r, fr). (r, if P r then erased_record (length fr - REC_HDR) else fr)) frames"

lemma blank_some_simps:
  "saved_expect (map (blank_some P) items) = saved_expect items" "area_bytes (map (blank_some P) items) = area_bytes items"
  "map fst (map (blank_some P) items) = map fst items"
  by (induction items) (auto simp: blank_some_def saved_expect_def area_bytes_def)

lemma blank_some_fits: "saved_fits base s \<Longrightarrow> saved_fits base (blank_some P s)"
  by (cases s) (auto simp: saved_fits_def saved_ok_def blank_some_def split: option.splits)

lemma blank_some_frame:
  assumes "saved_frame layout s = Inr fr" "saved_ok base s"
  shows "saved_frame layout (blank_some P s) = Inr (fst fr, if P (fst fr) then erased_record (length (snd fr) - REC_HDR) else snd fr)"
proof -
  obtain r k n c where s: "s = (r, k, n, c)" by (cases s)
  from assms(1) have o: "fst fr = r" "saved_octets layout s = Inr (snd fr)" by (auto simp: saved_frame_def s)
  have "length (snd fr) = REC_HDR + n"
    using o(2)[symmetric] assms(2) by (cases c) (auto simp: s saved_octets_def saved_ok_def erased_record_def dest: length_frame_record[OF sym])
  then show ?thesis using o by (cases c) (auto simp: s blank_some_def saved_frame_def saved_octets_def)
qed

lemma graded_erased:
  assumes g: "graded shape donor recs expect" and fr: "mapE (saved_frame (d_layout donor)) (map (rec_saved (name_table [])) recs) = Inr frames"
  shows "reread SEAM (gate_img shape donor recs expect) (erase_some P frames)
    = Inr (VD_OK, saved_payloads (sort_key fst (map (blank_some P) (map (rec_saved (name_table [])) recs))))"
proof -
  note it = graded_items[OF g default_names]
  show ?thesis
  proof (rule reread_saved[OF graded_img_ok[OF g]])
    show "\<forall>s \<in> set (map (blank_some P) (map (rec_saved (name_table [])) recs)). saved_fits (d_base (im_donor (gate_img shape donor recs expect))) s"
      using it(1) blank_some_fits by auto
    have "saved_frame (d_layout donor) (blank_some P s) = Inr (case y of (r, fr) \<Rightarrow> (r, if P r then erased_record (length fr - REC_HDR) else fr))"
      if "s \<in> set (map (rec_saved (name_table [])) recs)" "saved_frame (d_layout donor) s = Inr y" for s y
    proof -
      have "saved_ok (d_base donor) s" using it(1) that(1) by (simp add: saved_fits_def del: set_map)
      from blank_some_frame[OF that(2) this, of P] show ?thesis by (simp add: case_prod_beta')
    qed
    then show "mapE (saved_frame (d_layout (im_donor (gate_img shape donor recs expect)))) (map (blank_some P) (map (rec_saved (name_table [])) recs))
        = Inr (erase_some P frames)"
      unfolding gate_img_simps erase_some_def by (intro mapE_cong_Inr[OF fr]) blast
  qed (use it(3-5) in \<open>simp_all only: blank_some_simps gate_img_simps length_map\<close>)
qed

lemma length_payloads: "length (saved_payloads items) = length (filter (\<lambda>(r, k, n, c). c \<noteq> None) items)"
  by (induction items) (auto simp: saved_payloads_def List.map_filter_simps split: option.splits)

lemma payloads_perm: "mset (saved_payloads (sort_key fst items)) = mset (saved_payloads items)"
proof -
  have "mset (saved_payloads xs) = image_mset (\<lambda>x. the ((\<lambda>(r, k, n, c). map_option (Pair k) c) x))
      (filter_mset (\<lambda>x. (\<lambda>(r, k, n, c). map_option (Pair k) c) x \<noteq> None) (mset xs))" for xs :: "saved list"
    by (simp add: saved_payloads_def List.map_filter_def comp_def flip: mset_filter)
  then show ?thesis by simp
qed

lemma erase_all: "erase_some (\<lambda>_. True) frames = blank_frames frames"
  by (simp add: erase_some_def blank_frames_def)

lemma erase_one:
  assumes "distinct (map fst frames)" "v \<in> fst ` set frames"
  shows "AList.update v (erased_record (length (the (map_of frames v)) - REC_HDR)) frames = erase_some (\<lambda>r. r = v) frames"
proof -
  have "map_of frames r = Some b" if "(r, b) \<in> set frames" for r b using that assms(1) by simp
  then show ?thesis unfolding update_old[OF assms(2,1)] erase_some_def by auto
qed

lemma length_filter_one:
  assumes "distinct (map f xs)" "v \<in> f ` set xs"
  shows "length (filter (\<lambda>x. f x \<noteq> v) xs) = length xs - 1"
  using assms
proof (induction xs)
  case (Cons x xs)
  have "filter (\<lambda>x. f x \<noteq> v) xs = xs" if "v \<notin> f ` set xs" using that by (auto simp: filter_id_conv)
  with Cons show ?case by (cases xs) auto
qed simp

lemma butlast_torn: "butlast (erased_record n) @ [0] = torn_octets n"
  by (simp add: torn_octets_def)

lemma graded_one_erased:
  assumes d: "distinct (map fst items)" and k: "distinct (map (\<lambda>(r, k, n, c). k) items)" and framed: "\<forall>(r, k, n, c) \<in> set items. c \<noteq> None"
    and v: "(v, k, n, c) \<in> set items"
  defines "app \<equiv> saved_payloads (sort_key fst (map (blank_some (\<lambda>r. r = v)) items))"
  shows "k \<notin> fst ` set app" "length app = length items - 1"
proof -
  let ?B = "map (blank_some (\<lambda>r. r = v)) items"
  have live: "filter (\<lambda>(r, k, n, c). c \<noteq> None) ?B = filter (\<lambda>s. fst s \<noteq> v) items"
    using framed by (induction items) (auto simp: blank_some_def)
  have "saved_payloads xs = saved_payloads (filter (\<lambda>(r, k, n, c). c \<noteq> None) xs)" for xs
    by (induction xs) (auto simp: saved_payloads_def List.map_filter_simps split: option.splits)
  then have "fst ` set (saved_payloads ?B) \<subseteq> (\<lambda>(r, k, n, c). k) ` set (filter (\<lambda>s. fst s \<noteq> v) items)"
    using payload_keys live by metis
  moreover have "set app = set (saved_payloads ?B)" unfolding app_def by (rule saved_sets_perm)
  ultimately show "k \<notin> fst ` set app" using key_gone[OF k v] by auto
  have "length app = length (saved_payloads ?B)" unfolding app_def using payloads_perm by (metis size_mset)
  also have "\<dots> = length items - 1"
    unfolding length_payloads live using length_filter_one[OF d] imageI[OF v, of fst] by simp
  finally show "length app = length items - 1" .
qed

lemma erase_then_torn:
  assumes "distinct (map fst frames)" "v \<in> fst ` set frames"
  shows "AList.update v x (erase_some (\<lambda>r. r = v) frames) = map (\<lambda>(a, b). if a = v then (a, x) else (a, b)) frames"
    "del_item v (erase_some (\<lambda>r. r = v) frames) = Inr (filter (\<lambda>(a, b). a \<noteq> v) frames)"
proof -
  let ?E = "erase_some (\<lambda>r. r = v) frames"
  have f: "map fst ?E = map fst frames" by (auto simp: erase_some_def)
  then have v: "v \<in> fst ` set ?E" using assms(2) by (metis set_map)
  have "distinct (map fst ?E)" using assms(1) f by simp
  then have "AList.update v x ?E = map (\<lambda>(a, b). if a = v then (a, x) else (a, b)) ?E" by (rule update_old[OF v])
  also have "\<dots> = map (\<lambda>(a, b). if a = v then (a, x) else (a, b)) frames" by (induction frames) (auto simp: erase_some_def)
  finally show "AList.update v x ?E = map (\<lambda>(a, b). if a = v then (a, x) else (a, b)) frames" .
  have "filter (\<lambda>(a, b). a \<noteq> v) ?E = filter (\<lambda>(a, b). a \<noteq> v) frames" by (induction frames) (auto simp: erase_some_def)
  then show "del_item v ?E = Inr (filter (\<lambda>(a, b). a \<noteq> v) frames)" using v by (simp add: del_item_def delete_filter)
qed

lemma graded_victim:
  assumes g: "graded shape donor recs expect" and fr: "mapE (saved_frame (d_layout donor)) (map (rec_saved (name_table [])) recs) = Inr frames"
  defines "items \<equiv> map (rec_saved (name_table [])) recs" and "v \<equiv> Max (set (map fst frames))"
  obtains g0 i0 p0 b0 c0 where "(g0, i0, Some v, p0, b0) \<in> set recs" "(v, (g0, i0), p0, c0) \<in> set items"
    "\<forall>s \<in> set items. fst s \<le> v" "v \<in> fst ` set frames" "frames \<noteq> []"
    "length (the (map_of frames v)) - REC_HDR = p0" "key_of_id v (d_base donor) = Some (g0, i0)"
proof -
  note it = graded_items[OF g default_names, folded items_def]
  note oct = saved_frames_octets[OF fr[folded items_def] it(7)]
  have "recs \<noteq> []" using graded_ledger(1,4)[OF g] by auto
  then have ne: "frames \<noteq> []" using oct(2) by (auto simp: items_def)
  then have v: "v \<in> set (map fst frames)" unfolding v_def by (intro Max_in) auto
  then obtain r where r: "r \<in> set recs" "fst (rec_saved (name_table []) r) = v" unfolding oct(1) by (auto simp: items_def)
  obtain g0 i0 rid p0 b0 where c: "r = (g0, i0, Some rid, p0, b0)" "((g0, i0), p0) \<in> set expect"
    "saved_fits (d_base donor) (rec_saved (name_table []) r)" by (rule graded_row[OF g r(1) default_names])
  have rid: "rid = v" using r(2) by (simp add: c(1) rec_saved_def)
  let ?s = "rec_saved (name_table []) r"
  have s: "?s = (v, (g0, i0), p0, Some (payload_bytes g0 i0 v p0 (Some (name_table []))))" by (simp add: c(1) rid rec_saved_def)
  have mem: "?s \<in> set items" using r(1) by (simp add: items_def)
  have len: "length (payload_bytes g0 i0 v p0 (Some (name_table []))) = p0" "key_of_id v (d_base donor) = Some (g0, i0)"
    using c(3) unfolding s by (simp_all add: saved_fits_def saved_ok_def)
  have "map_of frames v \<noteq> None" unfolding map_of_eq_None_iff using v by simp
  then obtain b where b: "map_of frames v = Some b" by blast
  then have "saved_octets (d_layout donor) ?s = Inr b" using frame_of_item[OF fr[folded items_def] it(7) mem, of b] r(2) by simp
  then have "length b = REC_HDR + p0" unfolding s by (simp add: saved_octets_def length_frame_record len(1))
  moreover have "\<forall>s \<in> set items. fst s \<le> v"
    unfolding v_def oct(1) by (simp add: items_def image_image)
  moreover have "v \<in> fst ` set frames" using v by simp
  moreover have "(g0, i0, Some v, p0, b0) \<in> set recs" using r(1) c(1) rid by simp
  ultimately show thesis using mem[unfolded s] ne b len(2) by (intro that) simp_all
qed

lemma graded_erased_rule:
  assumes g: "graded shape donor recs expect" and fr: "mapE (saved_frame (d_layout donor)) (map (rec_saved (name_table [])) recs) = Inr frames"
  shows "erased_record_rule SEAM (gate_img shape donor recs expect) frames = Inr []"
proof -
  let ?I = "map (rec_saved (name_table [])) recs" and ?v = "Max (set (map fst frames))" and ?img = "gate_img shape donor recs expect"
  note it = graded_items[OF g default_names]
  note oct = saved_frames_octets[OF fr it(7)]
  obtain g0 i0 p0 b0 c0 where v: "(g0, i0, Some ?v, p0, b0) \<in> set recs" "(?v, (g0, i0), p0, c0) \<in> set ?I"
    "\<forall>s \<in> set ?I. fst s \<le> ?v" "?v \<in> fst ` set frames" "frames \<noteq> []"
    "length (the (map_of frames ?v)) - REC_HDR = p0" "key_of_id ?v (d_base donor) = Some (g0, i0)"
    by (rule graded_victim[OF g fr])
  have d: "distinct (map fst frames)" unfolding oct(1) by (rule it(7))
  have none: "saved_payloads (sort_key fst (map (blank_some (\<lambda>_. True)) ?I)) = []"
    by (auto simp: saved_payloads_def List.map_filter_def filter_empty_conv blank_some_def split: prod.splits)
  note blank = graded_erased[OF g fr, of "\<lambda>_. True", unfolded erase_all none]
  note one = graded_erased[OF g fr, of "\<lambda>r. r = ?v"]
  note app = graded_one_erased[OF it(7,6,2) v(2)]
  have torn: "reread SEAM ?img (map (\<lambda>(a, b). if a = ?v then (a, torn_octets p0) else (a, b)) frames) = Inr (VD_REC, [])"
    by (rule reread_torn[OF graded_img_ok[OF g], unfolded gate_img_simps, OF it(1) it(3,2,4) _ fr v(2,3)]) (use it(5) in simp)
  note cut = graded_cut[OF g fr v(1)]
  note upd = erase_one[OF d v(4), unfolded v(6)] erase_then_torn[OF d v(4)]
  show ?thesis
    unfolding erased_record_rule_def Let_def blank v(6) upd butlast_torn
    using v(5,7) one app torn cut(2) oct(2) by (auto simp: erased_record_rule_def)
qed

section \<open>The gate\<close>

text \<open>
  Property C3. The byte checks of the gate hold for every shape: when the inventory of a well-formed shape
  passes the id scan and the size and deadline bounds, its image is encoded without error, reads back
  every payload, keeps an empty name, is refused when any one record is cut, and obeys the
  erased-record rule (blank media, one erased record, a torn span, a missing record).
\<close>

theorem image_checks_silent:
  assumes "shape_ok shape" "base_ok (d_base donor)" "0 \<le> d_layout donor" "d_layout donor < 256"
    and "inventory shape (d_base donor) = Inr recs"
    and "found (check_ids FIXED recs) = []" "check_bounds FIXED recs = []"
  shows "check_image SEAM FIXED shape recs donor = Inr []"
proof -
  obtain au cd si so where "counts_of shape au cd si so" using shape_ok_counts[OF assms(1)] .
  from expected_payloads_eq[OF assms(1) this] obtain expect where e: "expected_payloads shape = Inr expect" by blast
  have rows: "\<forall>r \<in> set recs. row_fits FIXED r" using assms(6) by (simp add: check_ids_def scan_silent)
  have "image_bytes recs \<le> 65536" using assms(7) by (auto simp: check_bounds_def Let_def FIXED_def split: if_splits)
  with assms e rows have g: "graded shape donor recs expect" by (simp add: graded_def)
  obtain frames app where rt: "round_trip SEAM (gate_img shape donor recs expect) = Inr (frames, Some app, [])"
    "mapE (saved_frame (d_layout donor)) (map (rec_saved (name_table [])) recs) = Inr frames" by (rule graded_round_trip[OF g])
  have "\<not> list_ex (\<lambda>(g, i, r, p, b). case r of None \<Rightarrow> True | Some rid \<Rightarrow> rid \<ge> ID_SPACE FIXED) recs"
    using rows by (auto simp: list_ex_iff row_fits_def split: option.splits)
  then show ?thesis
    using e rt(1) graded_empty_name[OF g] graded_incomplete[OF g rt(2)] graded_erased_rule[OF g rt(2)]
    by (simp add: check_image_def Let_def flip: gate_img_def)
qed

lemma upt_6: "[0..<6] = [0, 1, 2, 3, 4, 5 :: nat]"
  by (simp add: upt_rec)

definition sample_records :: "nvm_record list" where
  "sample_records = [(''CFG_IDX'', 0, Some 0, 2, 1), (''SUID'', 0, Some 1, 8, 1), (''RATE'', 0, Some 2, 4, 8),
     (''CLKSRC'', 0, Some 10, 2, 8), (''MCR'', 0, Some 18, 66, 8), (''BINDING'', 0, Some 32, 20, 16), (''FMT_IN'', 0, Some 48, 8, 16),
     (''FMT_OUT'', 0, Some 64, 8, 16), (''PT_OFS'', 0, Some 80, 4, 16), (''MAPS_IN'', 0, Some 96, 64, 16), (''MAPS_OUT'', 0, Some 112, 64, 16),
     (''NAME'', 0, Some 128, 64, 128), (''NAME'', 1, Some 129, 64, 128), (''NAME'', 2, Some 130, 64, 128), (''NAME'', 3, Some 131, 64, 128),
     (''NAME'', 4, Some 132, 64, 128), (''NAME'', 5, Some 133, 64, 128)]"

lemma sample_inventory: "inventory sample_shape 0x20 = Inr sample_records"
  by (simp add: inventory_def inventory_rows_def sample_shape_def sample_records_def dc_get_def per_count_def pay_def PAY_def
      output_map_entries_def inventory_add_def ALLOC_def alloc_base_def NAME_BYTES_def MAP_ENTRY_def upt_6)

lemma sample_checks: "found (check_ids FIXED sample_records) = []" "check_bounds FIXED sample_records = []"
  unfolding check_ids_def scan_silent
  by (simp_all add: row_fits_def FIXED_def MAX_PAYLOAD_def sample_records_def id_of_def rec_id_def
      check_bounds_def Let_def image_bytes_def REC_HDR_def KLJ2_HDR_def KLJ2_TRAILER_def padding_def ALIGN_def
      commit_worst_ms_def ceil_div_def FLASH_PAGE_def SPI_HZ_def T_SE_MAX_MS_def T_PP_MAX_MS_def COMMIT_MARGIN_def)

theorem image_checks_silent_witness:
  "inventory sample_shape 0x20 = Inr sample_records \<and> found (check_ids FIXED sample_records) = []
    \<and> check_bounds FIXED sample_records = [] \<and> check_image SEAM FIXED sample_shape sample_records sample_donor = Inr []"
proof -
  have "check_image SEAM FIXED sample_shape sample_records sample_donor = Inr []"
    by (rule image_checks_silent) (use sample_shape_ok sample_inventory sample_checks in \<open>simp_all add: sample_donor_def base_ok_def\<close>)
  with sample_inventory sample_checks show ?thesis by blast
qed

end
