(* ===== verification/Nvm_Maps.thy ===== *)
theory Nvm_Maps
  imports Nvm_Gate
begin

text \<open>
  The output-map checks of \<^verbatim>\<open>scripts/nvm_map_checks.py\<close>: the packed stream/channel mappings of one port,
  their canonical form, and the capacity question asked of a saved and re-read journal.
\<close>

type_synonym mapping_entry = "(int \<times> int) \<times> (int \<times> int)"

definition UNUSED :: "byte list" where
  "UNUSED = replicate MAP_ENTRY 0xFF"

text \<open>\<^verbatim>\<open>struct.pack(">4H", *key, *value)\<close>.\<close>

definition pack_entry :: "mapping_entry \<Rightarrow> byte list nvm" where
  "pack_entry e = (case e of ((s, c), (cl, cc)) \<Rightarrow> concatE [pack_be 2 s, pack_be 2 c, pack_be 2 cl, pack_be 2 cc])"

definition unpack_entry :: "byte list \<Rightarrow> mapping_entry" where
  "unpack_entry b = ((be_int (slice 0 2 b), be_int (slice 2 4 b)), (be_int (slice 4 6 b), be_int (slice 6 8 b)))"

function restore_from :: "bool \<Rightarrow> mapping_entry list \<Rightarrow> byte list \<Rightarrow> mapping_entry list nvm" where
  "restore_from unused_seen restored payload =
     (if payload = [] then Inr restored
      else let entry = take MAP_ENTRY payload; rest = drop MAP_ENTRY payload in
        if entry = UNUSED then restore_from True restored rest
        else if unused_seen \<or> length entry \<noteq> MAP_ENTRY then Inl (Refused NoncanonicalTail)
        else case unpack_entry entry of (key, value) \<Rightarrow>
          if key \<in> fst ` set restored then Inl (Refused DuplicateKey)
          else restore_from False (restored @ [(key, value)]) rest)"
  by pat_completeness auto
termination
  by (relation "measure (\<lambda>(u, r, p). length p)") (auto simp: MAP_ENTRY_def)

declare restore_from.simps [simp del]

definition restore :: "byte list \<Rightarrow> mapping_entry list nvm" where
  "restore payload = restore_from False [] payload"

definition map_keys :: "nat \<Rightarrow> nat \<Rightarrow> (int \<times> int) list" where
  "map_keys so n = take n (map (\<lambda>(s, c). (int s, int c)) (List.product [0..<so] [0..<8]))"

definition round_trip_map :: "seams \<Rightarrow> Shape \<Rightarrow> nvm_record list \<Rightarrow> Donor \<Rightarrow> (key \<times> nat) list \<Rightarrow> nvm_record \<Rightarrow> nat
    \<Rightarrow> nvm_finding list nvm" where
  "round_trip_map seam shape recs donor expect target n = (case target of (grp, prt, rid, plen, block) \<Rightarrow>
     rbind (dc_get (dc shape) ''STREAM_OUTPUT'') (\<lambda>so.
     (let keys = map_keys so n; wanted = map (\<lambda>k. (k, (0, 0))) keys in
      rbind (concatE (map pack_entry wanted)) (\<lambda>packed.
      if length packed > plen then Inr [MapCapacity (grp, prt) n (plen div MAP_ENTRY)]
      else
       (let payload = packed @ concat (replicate ((plen - length packed) div MAP_ENTRY) UNUSED);
            blank = fold (\<lambda>(g, i, r, p, b) d. case r of None \<Rightarrow> d | Some rr \<Rightarrow> AList.update rr (erased_record p) d) recs [] in
        rbind (case rid of None \<Rightarrow> Inl StructError | Some r \<Rightarrow> Inr r) (\<lambda>tid.
        rbind (frame_record tid payload (d_layout donor)) (\<lambda>fr.
        rbind (klj2_assemble (AList.update tid fr blank) donor gate_ident) (\<lambda>(blob, offs).
        rbind (klj2_decode seam blob donor gate_ident expect) (\<lambda>(vd, app).
        if vd \<noteq> VD_OK \<or> set (map fst app) \<noteq> {(grp, prt)} then Inr [MapDecode (grp, prt) vd (length app)]
        else rbind (restore (the (map_of app (grp, prt)))) (\<lambda>live.
        if set live \<noteq> set wanted then Inr [MapLost prt]
        else rbind (pack_entry ((int (length keys), 0), (0, 0))) (\<lambda>extra.
        rbind (frame_record tid (payload @ extra) (d_layout donor)) (\<lambda>fr2.
        rbind (klj2_assemble (AList.update tid fr2 blank) donor gate_ident) (\<lambda>(big, offs2).
        rbind (klj2_decode seam big donor gate_ident expect) (\<lambda>(vd2, app2).
          if vd2 \<noteq> VD_REC \<or> app2 \<noteq> [] then Inr [OversizedAccepted] else Inr []))))))))))))))"

fun concat_results :: "('a \<Rightarrow> 'e + 'b list) \<Rightarrow> 'a list \<Rightarrow> 'e + 'b list" where
  "concat_results f [] = Inr []"
| "concat_results f (x # xs) = rbind (f x) (\<lambda>a. rbind (concat_results f xs) (\<lambda>b. Inr (a @ b)))"

definition check_output_maps :: "seams \<Rightarrow> Shape \<Rightarrow> nvm_record list \<Rightarrow> Donor \<Rightarrow> (key \<times> nat) list \<Rightarrow> nvm_finding list nvm" where
  "check_output_maps seam shape recs donor expect =
     (if list_ex (\<lambda>(g, i, r, p, b). case r of None \<Rightarrow> True | Some rid \<Rightarrow> rid > 255) recs then Inr []
      else let targets = fold (\<lambda>row d. AList.update (snd (rec_key row)) row d)
                 (filter (\<lambda>row. fst (rec_key row) = ''MAPS_OUT'') recs) [] in
        concat_results (\<lambda>port.
          rbind (dc_get (dc shape) ''STREAM_OUTPUT'') (\<lambda>so.
            if p_map_mode port \<noteq> Some ''dynamic'' \<or> so * 8 \<le> p_clusters port then Inr []
            else case map_of targets (p_index port) of
              None \<Rightarrow> Inr []
            | Some target \<Rightarrow>
                concat_results (round_trip_map seam shape recs donor expect target) [p_clusters port + 1, so * 8]))
          (spo shape))"

section \<open>Canonical map payloads\<close>

definition entry_ok :: "mapping_entry \<Rightarrow> bool" where
  "entry_ok e = (case e of ((s, c), (cl, cc)) \<Rightarrow> 0 \<le> s \<and> s < 65536 \<and> 0 \<le> c \<and> c < 65536
     \<and> 0 \<le> cl \<and> cl < 65536 \<and> 0 \<le> cc \<and> cc < 65536 \<and> e \<noteq> ((65535, 65535), (65535, 65535)))"

definition entry_octets :: "mapping_entry \<Rightarrow> byte list" where
  "entry_octets e = (case e of ((s, c), (cl, cc)) \<Rightarrow> be_bytes 2 s @ be_bytes 2 c @ be_bytes 2 cl @ be_bytes 2 cc)"

lemma length_entry [simp]: "length (entry_octets e) = MAP_ENTRY"
  by (simp add: entry_octets_def MAP_ENTRY_def split: prod.splits)

lemma entry_nonempty: "entry_octets e \<noteq> []"
  by (metis MAP_ENTRY_def length_entry list.size(3) zero_neq_numeral)

lemma unpack_entry_octets: "entry_ok e \<Longrightarrow> unpack_entry (entry_octets e) = e"
  by (cases e) (auto simp: entry_ok_def entry_octets_def unpack_entry_def slice_simps slice_all be_int_be_bytes)

lemma unpack_unused: "unpack_entry UNUSED = ((65535, 65535), (65535, 65535))"
  by code_simp

lemma entry_octets_unpack:
  assumes "length b = MAP_ENTRY"
  shows "entry_octets (unpack_entry b) = b"
proof -
  have "be_bytes 2 (be_int (slice i j b)) = slice i j b" if "j = i + 2" "j \<le> 8" for i j
    using be_bytes_be_int[of "slice i j b"] assms that by (simp add: MAP_ENTRY_def)
  from this[of 2 0] this[of 4 2] this[of 6 4] this[of 8 6]
  have "entry_octets (unpack_entry b) = slice 0 2 b @ slice 2 4 b @ slice 4 6 b @ slice 6 8 b"
    by (simp add: entry_octets_def unpack_entry_def)
  also have "\<dots> = b" using assms slice_join[of 0 2 4 b] slice_join[of 0 4 6 b] slice_join[of 0 6 8 b] slice_all[of b 8]
    by (simp add: MAP_ENTRY_def)
  finally show ?thesis .
qed

lemma unpack_bounds:
  assumes "length b = MAP_ENTRY" "b \<noteq> UNUSED"
  shows "entry_ok (unpack_entry b)"
proof -
  have "unpack_entry b \<noteq> unpack_entry UNUSED"
    using assms entry_octets_unpack[of b] entry_octets_unpack[of UNUSED] by (metis UNUSED_def length_replicate)
  moreover have "0 \<le> be_int (slice i j b) \<and> be_int (slice i j b) < 65536" if "j = i + 2" "j \<le> 8" for i j
    using be_int_bounds[of "slice i j b"] assms(1) that by (simp add: MAP_ENTRY_def)
  from this[of 2 0] this[of 4 2] this[of 6 4] this[of 8 6] calculation show ?thesis
    unfolding unpack_unused by (simp add: entry_ok_def unpack_entry_def)
qed

lemma restore_unused_tail:
  "restore_from True acc payload = Inr d \<longleftrightarrow> d = acc \<and> (\<exists>n. payload = concat (replicate n UNUSED))"
proof (induction "length payload" arbitrary: payload rule: less_induct)
  case less
  show ?case
  proof (cases "take MAP_ENTRY payload = UNUSED")
    case True
    then have p: "payload = UNUSED @ drop MAP_ENTRY payload" by (metis append_take_drop_id)
    then have ne: "payload \<noteq> []" by (auto simp: UNUSED_def MAP_ENTRY_def)
    have IH: "restore_from True acc (drop MAP_ENTRY payload) = Inr d \<longleftrightarrow> d = acc \<and> (\<exists>n. drop MAP_ENTRY payload = concat (replicate n UNUSED))"
      using ne by (intro less) (simp add: MAP_ENTRY_def)
    have "(\<exists>n. drop MAP_ENTRY payload = concat (replicate n UNUSED)) \<longleftrightarrow> (\<exists>n. payload = concat (replicate n UNUSED))"
    proof
      assume "\<exists>n. drop MAP_ENTRY payload = concat (replicate n UNUSED)"
      then obtain n where "drop MAP_ENTRY payload = concat (replicate n UNUSED)" ..
      then have "payload = concat (replicate (Suc n) UNUSED)" using p by simp
      then show "\<exists>n. payload = concat (replicate n UNUSED)" ..
    next
      assume "\<exists>n. payload = concat (replicate n UNUSED)"
      then obtain n where "payload = concat (replicate n UNUSED)" ..
      then show "\<exists>n. drop MAP_ENTRY payload = concat (replicate n UNUSED)" using ne by (cases n) (auto simp: UNUSED_def)
    qed
    then show ?thesis using True ne IH by (subst restore_from.simps) (simp add: Let_def)
  next
    case False
    have "payload = [] \<longleftrightarrow> (\<exists>n. payload = concat (replicate n UNUSED))"
    proof
      assume "\<exists>n. payload = concat (replicate n UNUSED)"
      then obtain n where "payload = concat (replicate n UNUSED)" ..
      with False show "payload = []" by (cases n) (auto simp: UNUSED_def)
    qed (auto intro: exI[of _ 0])
    then show ?thesis using False by (subst restore_from.simps) (auto simp: Let_def)
  qed
qed

lemma entry_not_unused: "entry_ok e \<Longrightarrow> entry_octets e \<noteq> UNUSED"
  using unpack_entry_octets[of e] unpack_unused by (auto simp: entry_ok_def)

lemma restore_packed:
  "list_all entry_ok es \<Longrightarrow> distinct (map fst es) \<Longrightarrow> fst ` set es \<inter> fst ` set acc = {}
    \<Longrightarrow> restore_from False acc (concat (map entry_octets es) @ concat (replicate n UNUSED)) = Inr (acc @ es)"
proof (induction es arbitrary: acc)
  case Nil
  show ?case
  proof (cases n)
    case (Suc m)
    have "restore_from True acc (concat (replicate m UNUSED)) = Inr acc" by (auto simp: restore_unused_tail)
    then show ?thesis using Suc by (subst restore_from.simps) (simp add: Let_def UNUSED_def MAP_ENTRY_def)
  qed (simp add: restore_from.simps)
next
  case (Cons e es)
  let ?rest = "concat (map entry_octets es) @ concat (replicate n UNUSED)"
  have e: "entry_ok e" "entry_octets e \<noteq> UNUSED" "entry_octets e \<noteq> []" "fst e \<notin> fst ` set acc"
    using Cons.prems entry_not_unused[of e] entry_nonempty[of e] by auto
  have "restore_from False acc (entry_octets e @ ?rest) = restore_from False (acc @ [e]) ?rest"
    using e unpack_entry_octets[OF e(1)] by (subst restore_from.simps) (cases e, simp add: Let_def)
  then show ?case using Cons by auto
qed

lemma restore_canonical:
  "restore_from False acc payload = Inr d \<Longrightarrow> \<exists>es n. d = acc @ es \<and> payload = concat (map entry_octets es) @ concat (replicate n UNUSED)
       \<and> list_all entry_ok es \<and> distinct (map fst es) \<and> fst ` set es \<inter> fst ` set acc = {}"
proof (induction "length payload" arbitrary: payload acc rule: less_induct)
  case less
  let ?e = "take MAP_ENTRY payload" and ?rest = "drop MAP_ENTRY payload"
  have split: "payload = ?e @ ?rest" by simp
  consider "payload = []" | "payload \<noteq> []" "?e = UNUSED" | "payload \<noteq> []" "?e \<noteq> UNUSED" by blast
  then show ?case
  proof cases
    case 1
    then show ?thesis using less.prems by (intro exI[of _ "[]"] exI[of _ 0]) (simp add: restore_from.simps)
  next
    case 2
    then have "restore_from True acc ?rest = Inr d" using less.prems by (subst (asm) restore_from.simps) (simp add: Let_def)
    then obtain n where "d = acc" "?rest = concat (replicate n UNUSED)" unfolding restore_unused_tail by blast
    then show ?thesis using 2 split by (intro exI[of _ "[]"] exI[of _ "Suc n"]) simp
  next
    case 3
    define e where "e = unpack_entry ?e"
    have r: "length ?e = MAP_ENTRY" "fst e \<notin> fst ` set acc" "restore_from False (acc @ [e]) ?rest = Inr d"
      using less.prems 3 by (subst (asm) restore_from.simps; auto simp: Let_def e_def split: if_splits prod.splits)+
    have ok: "entry_ok e" "entry_octets e = ?e"
      unfolding e_def using unpack_bounds[OF r(1) 3(2)] entry_octets_unpack[OF r(1)] by simp_all
    have "length ?rest < length payload" using 3(1) by (simp add: MAP_ENTRY_def)
    from less.hyps[OF this r(3)] obtain es n where es: "d = (acc @ [e]) @ es"
      "?rest = concat (map entry_octets es) @ concat (replicate n UNUSED)"
      "list_all entry_ok es" "distinct (map fst es)" "fst ` set es \<inter> fst ` set (acc @ [e]) = {}" by blast
    then show ?thesis using split ok r(2) by (intro exI[of _ "e # es"] exI[of _ n]) auto
  qed
qed

text \<open>
  Property C10. The map restore accepts exactly the canonical payloads: packed entries with distinct
  stream/channel keys, none of them the erased pattern, followed only by unused entries; it returns those
  entries in order, so saving a mapping table and restoring it loses nothing.
\<close>

theorem restore_canonical_iff:
  "restore payload = Inr d \<longleftrightarrow> (\<exists>n. payload = concat (map entry_octets d) @ concat (replicate n UNUSED)
     \<and> list_all entry_ok d \<and> distinct (map fst d))"
  using restore_packed[of d "[]"] restore_canonical[of "[]" payload d] by (auto simp: restore_def)

end
