(* ===== verification/Flash_Map.thy ===== *)
theory Flash_Map
  imports Prelude
begin

text \<open>
  The QSPI flash map: the slots of \<^verbatim>\<open>sw/litex/milan_soc.py\<close>, the check the SoC build makes of them, the stricter check of
  \<^verbatim>\<open>sw/litex/flash_map.py\<close> with its high-water mark, the deployment layout, and the bands of
  \<^verbatim>\<open>docs/diagrams/flash_layout.gen.py\<close>. A problem line is a value with the facts the line prints. The \<^verbatim>\<open>ast\<close> walk that
  reads the literals out of the SoC source is the identity on the constants here.
\<close>

section \<open>The slots\<close>

record region =
  rg_offset :: int
  rg_size :: int

record image_slot = region +
  im_addr :: int

datatype slot_kind = Image | Reserved | Free

type_synonym slot = "string \<times> int \<times> int \<times> slot_kind"

definition FLASHBOOT_LAYOUT :: "(string \<times> image_slot) list" where
  "FLASHBOOT_LAYOUT =
     [(''bitstream'', \<lparr>rg_offset = 0, rg_size = 0x400000, im_addr = 0\<rparr>),
      (''aem'', \<lparr>rg_offset = 0x400000, rg_size = 0x010000, im_addr = 0\<rparr>)]"

definition FLASHBOOT_MANIFESTS :: "(string \<times> string list) list" where
  "FLASHBOOT_MANIFESTS = [(''none'', []), (''baremetal'', [''aem''])]"

definition FLASH_SIZE :: int where "FLASH_SIZE = 0x1000000"

definition FLASH_ERASE_BLOCK :: int where "FLASH_ERASE_BLOCK = 0x10000"

definition FLASHBOOT_RESERVED :: "(string \<times> region) list" where
  "FLASHBOOT_RESERVED =
     [(''journal'', \<lparr>rg_offset = 0xEE0000, rg_size = 0x020000\<rparr>),
      (''user'', \<lparr>rg_offset = 0xF00000, rg_size = 0x100000\<rparr>)]"

definition slot_row :: "slot_kind \<Rightarrow> string \<times> 'a region_scheme \<Rightarrow> slot" where
  "slot_row k = (\<lambda>(n, e). (n, rg_offset e, rg_size e, k))"

definition flash_map :: "slot list" where
  "flash_map = sort_key (\<lambda>(_, off, _, _). off) (map (slot_row Image) FLASHBOOT_LAYOUT @ map (slot_row Reserved) FLASHBOOT_RESERVED)"

definition load_map :: "slot list \<times> int \<times> int" where
  "load_map =
     (let rows = map (slot_row Image) FLASHBOOT_LAYOUT @ map (slot_row Reserved) FLASHBOOT_RESERVED
      in (sort_key (\<lambda>(_, off, _, _). off) rows, FLASH_SIZE, FLASH_ERASE_BLOCK))"

definition READ_ONLY :: "string list" where
  "READ_ONLY = map fst FLASHBOOT_LAYOUT"

section \<open>The two checks\<close>

datatype map_problem =
    NonPositive string int
  | OffsetUnaligned string int
  | SizeUnaligned string int
  | Overlaps string int "string option" int
  | PastDevice string int int

definition slot_size_problems :: "int \<Rightarrow> string \<Rightarrow> int \<Rightarrow> int \<Rightarrow> map_problem list" where
  "slot_size_problems erase name off sz =
     (if sz \<le> 0 then [NonPositive name sz] else [])
     @ (if off mod erase \<noteq> 0 then [OffsetUnaligned name off] else [])
     @ (if sz mod erase \<noteq> 0 then [SizeUnaligned name sz] else [])"

fun check_rows :: "int \<Rightarrow> int \<Rightarrow> int \<times> string option \<Rightarrow> slot list \<Rightarrow> map_problem list" where
  "check_rows flash_size erase prev [] = []"
| "check_rows flash_size erase (prev_end, prev_name) ((name, off, sz, _) # rows) =
     slot_size_problems erase name off sz
     @ (if off < prev_end then [Overlaps name off prev_name prev_end] else [])
     @ (if off + sz > flash_size then [PastDevice name (off + sz) flash_size] else [])
     @ check_rows flash_size erase (if off + sz > prev_end then (off + sz, Some name) else (prev_end, prev_name)) rows"

definition check_map :: "slot list \<Rightarrow> int \<Rightarrow> int \<Rightarrow> (unit, map_problem list) result" where
  "check_map rows flash_size erase =
     (if rows \<noteq> [] \<and> erase = 0 then Inl ZeroDivisionError else Inr (check_rows flash_size erase (0, None) rows))"

fun soc_rows :: "int \<times> string option \<Rightarrow> slot list \<Rightarrow> map_problem list" where
  "soc_rows prev [] = []"
| "soc_rows (prev_end, prev_name) ((name, off, sz, _) # rows) =
     slot_size_problems FLASH_ERASE_BLOCK name off sz
     @ (if off < prev_end then [Overlaps name off prev_name prev_end] else [])
     @ (if off + sz > FLASH_SIZE then [PastDevice name (off + sz) FLASH_SIZE] else [])
     @ soc_rows (off + sz, Some name) rows"

definition check_flash_map :: "map_problem list" where
  "check_flash_map = soc_rows (0, None) flash_map"

section \<open>The deployment layout\<close>

record layout_image =
  li_name :: string
  li_offset :: int
  li_addr :: int
  li_budget :: int

record flashboot_layout =
  fl_manifest :: string
  fl_gptp_owner :: string
  fl_cpu_xlen :: int
  fl_entry :: "int option"
  fl_complete :: bool
  fl_flash_size :: int
  fl_erase_block :: int
  fl_images :: "layout_image list"
  fl_reserved :: "(string \<times> region) list"

datatype layout_error = InconsistentMap "map_problem list"

definition upper_name :: "string \<Rightarrow> string" where
  "upper_name = map (\<lambda>c. if 97 \<le> (of_char c :: nat) \<and> of_char c \<le> (122 :: nat) then char_of (of_char c - 32 :: nat) else c)"

definition image_row :: "string \<Rightarrow> image_slot \<Rightarrow> layout_image" where
  "image_row name e = \<lparr>li_name = name, li_offset = rg_offset e, li_addr = im_addr e, li_budget = rg_size e\<rparr>"

definition reserved_constants :: "(string \<times> int) list" where
  "reserved_constants = concat (map (\<lambda>(name, e).
     [(''MILAN_FLASH_'' @ upper_name name @ ''_OFFSET'', rg_offset e), (''MILAN_FLASH_'' @ upper_name name @ ''_SIZE'', rg_size e)])
     FLASHBOOT_RESERVED)"

definition image_constants :: "string \<Rightarrow> image_slot \<Rightarrow> (string \<times> int) list" where
  "image_constants name e =
     [(''MILAN_FLASHBOOT_'' @ upper_name name @ ''_OFFSET'', rg_offset e),
      (''MILAN_FLASHBOOT_'' @ upper_name name @ ''_ADDR'', im_addr e),
      (''MILAN_FLASHBOOT_'' @ upper_name name @ ''_SIZE'', rg_size e)]"

definition layout_slot :: "string \<Rightarrow> (layout_error, image_slot) result" where
  "layout_slot name = (case map_of FLASHBOOT_LAYOUT name of Some e \<Rightarrow> Inr e | None \<Rightarrow> Inl KeyError)"

definition add_flashboot_constants :: "string \<Rightarrow> int \<Rightarrow> string \<Rightarrow> (layout_error, (string \<times> int) list \<times> flashboot_layout) result" where
  "add_flashboot_constants owner xlen manifest_name =
     rbind (ensure (check_flash_map = []) (Refused (InconsistentMap check_flash_map))) (\<lambda>_.
     rbind (case map_of FLASHBOOT_MANIFESTS manifest_name of Some l \<Rightarrow> Inr l | None \<Rightarrow> Inl KeyError) (\<lambda>images.
     let lay = \<lparr>fl_manifest = manifest_name, fl_gptp_owner = owner, fl_cpu_xlen = xlen, fl_entry = None, fl_complete = False,
                fl_flash_size = FLASH_SIZE,
                fl_erase_block = FLASH_ERASE_BLOCK, fl_images = [],
                fl_reserved = sort_key (\<lambda>(_, e). rg_offset e) FLASHBOOT_RESERVED\<rparr>
     in if images = [] then Inr (reserved_constants, lay)
        else rbind (layout_slot ''bitstream'') (\<lambda>eb.
             rbind (mapE (\<lambda>name. rbind (layout_slot name) (\<lambda>e. Inr (name, e))) images) (\<lambda>rows.
             Inr (reserved_constants @ concat (map (\<lambda>(name, e). image_constants name e) rows),
                  lay\<lparr>fl_images := image_row ''bitstream'' eb # map (\<lambda>(name, e). image_row name e) rows\<rparr>)))))"

section \<open>The bands of the drawing\<close>

fun bands_from :: "int \<Rightarrow> int \<Rightarrow> slot list \<Rightarrow> slot list" where
  "bands_from flash_size cursor [] = (if cursor < flash_size then [(''(free)'', cursor, flash_size - cursor, Free)] else [])"
| "bands_from flash_size cursor ((name, off, sz, k) # rows) =
     (if off > cursor then [(''(free)'', cursor, off - cursor, Free)] else [])
     @ (name, off, sz, k) # bands_from flash_size (off + sz) rows"

definition bands :: "slot list \<Rightarrow> int \<Rightarrow> slot list" where
  "bands rows flash_size = bands_from flash_size 0 rows"

section \<open>What a clean map means\<close>

definition slot_range :: "slot \<Rightarrow> int set" where
  "slot_range = (\<lambda>(_, off, sz, _). {off ..< off + sz})"

definition slot_fits :: "int \<Rightarrow> int \<Rightarrow> slot \<Rightarrow> bool" where
  "slot_fits flash_size erase = (\<lambda>(_, off, sz, _). 0 < sz \<and> 0 \<le> off \<and> erase dvd off \<and> erase dvd sz \<and> off + sz \<le> flash_size)"

definition slots_safe :: "slot list \<Rightarrow> int \<Rightarrow> int \<Rightarrow> bool" where
  "slots_safe rows flash_size erase \<longleftrightarrow> list_all (slot_fits flash_size erase) rows
     \<and> sorted_wrt (\<lambda>r r'. slot_range r \<inter> slot_range r' = {}) rows"

definition after :: "slot \<Rightarrow> slot \<Rightarrow> bool" where
  "after = (\<lambda>(_, off, sz, _) (_, off', _, _). off + sz \<le> off')"

lemma check_rows_empty:
  "0 \<le> p \<Longrightarrow> check_rows flash_size erase (p, nm) rows = [] \<longleftrightarrow> list_all (slot_fits flash_size erase) rows
     \<and> list_all (\<lambda>(_, off, _, _). p \<le> off) rows \<and> sorted_wrt after rows"
proof (induction rows arbitrary: p nm)
  case (Cons r rows)
  obtain n off sz k where r: "r = (n, off, sz, k)" by (cases r) auto
  have "check_rows flash_size erase (p, nm) (r # rows) = []
    \<longleftrightarrow> slot_fits flash_size erase r \<and> p \<le> off \<and> check_rows flash_size erase (off + sz, Some n) rows = []"
    using Cons.prems by (auto simp: r slot_fits_def slot_size_problems_def mod_eq_0_iff_dvd not_le not_less split: if_splits)
  moreover have "list_all (after r) rows \<longleftrightarrow> list_all (\<lambda>(_, off', _, _). off + sz \<le> off') rows"
    by (simp add: after_def r list_all_iff case_prod_beta)
  moreover have "check_rows flash_size erase (off + sz, Some n) rows = [] \<longleftrightarrow> list_all (slot_fits flash_size erase) rows
     \<and> list_all (\<lambda>(_, off', _, _). off + sz \<le> off') rows \<and> sorted_wrt after rows" if "slot_fits flash_size erase r"
    by (rule Cons.IH) (use that in \<open>simp add: r slot_fits_def\<close>)
  moreover have "list_all (\<lambda>(_, off, _, _). p \<le> off) rows" if "slot_fits flash_size erase r" "p \<le> off" "list_all (after r) rows"
    using that by (auto simp: r slot_fits_def after_def list_all_iff)
  ultimately show ?case by (auto simp: r list_all_iff)
qed simp

lemma after_iff_disjoint:
  assumes "sorted_wrt (\<lambda>(_, a, _, _) (_, b, _, _). a \<le> b) rows" "list_all (slot_fits flash_size erase) rows"
  shows "sorted_wrt after rows \<longleftrightarrow> sorted_wrt (\<lambda>r r'. slot_range r \<inter> slot_range r' = {}) rows"
proof -
  have "after r r' \<longleftrightarrow> slot_range r \<inter> slot_range r' = {}"
    if "r \<in> set rows" "r' \<in> set rows" "(\<lambda>(_, a, _, _) (_, b, _, _). a \<le> b) r r'" for r r' :: slot
  proof -
    obtain n off sz k n' off' sz' k' where e: "r = (n, off, sz, k)" "r' = (n', off', sz', k')" by (cases r; cases r') auto
    have pos: "0 < sz" "0 < sz'" "off \<le> off'" using that assms(2) by (auto simp: e list_all_iff slot_fits_def)
    then have "off' \<in> slot_range r'" by (simp add: e slot_range_def)
    then show ?thesis using pos by (auto simp: e after_def slot_range_def)
  qed
  then show ?thesis using assms(1) by (induction rows) (auto simp: list_all_iff)
qed

lemma clean_rows:
  assumes "sorted_wrt (\<lambda>(_, a, _, _) (_, b, _, _). a \<le> b) rows" "erase \<noteq> 0"
  shows "check_map rows flash_size erase = Inr [] \<longleftrightarrow> slots_safe rows flash_size erase"
proof -
  have "list_all (slot_fits flash_size erase) rows \<Longrightarrow> list_all (\<lambda>(_, off, _, _). 0 \<le> off) rows"
    by (auto simp: list_all_iff slot_fits_def)
  then show ?thesis
    using check_rows_empty[of 0 flash_size erase None rows] after_iff_disjoint[OF assms(1)] assms(2)
    by (auto simp: check_map_def slots_safe_def)
qed

text \<open>
  Property C30. On rows in offset order the check of \<^verbatim>\<open>flash_map.py\<close> is exact: it reports nothing just when every slot has a positive
  size, starts and ends on an erase block, lies inside the device, and no two slots share an octet.
\<close>

theorem check_map_exact:
  assumes "sorted (map (\<lambda>(_, off, _, _). off) rows)" "erase \<noteq> 0"
  shows "check_map rows flash_size erase = Inr [] \<longleftrightarrow> slots_safe rows flash_size erase"
proof (rule clean_rows)
  show "sorted_wrt (\<lambda>(_, a, _, _) (_, b, _, _). a \<le> b) rows" using assms(1) by (simp add: sorted_map case_prod_unfold)
qed (rule assms(2))

lemma soc_check_rows: "soc_rows p rows = [] \<longleftrightarrow> check_rows FLASH_SIZE FLASH_ERASE_BLOCK p rows = []"
proof (induction rows arbitrary: p)
  case (Cons r rows)
  then show ?case by (cases p; cases r) (auto simp: slot_size_problems_def split: if_splits)
qed simp

text \<open>
  The SoC build compares a slot with its predecessor only, \<^verbatim>\<open>flash_map.py\<close> with the highest end so far: the lists of
  problems differ, but one check is silent on a map just when the other is, so the build refuses the maps the gates refuse.
\<close>

lemma soc_check_equivalent:
  "soc_rows (0, None) rows = [] \<longleftrightarrow> check_rows FLASH_SIZE FLASH_ERASE_BLOCK (0, None) rows = []"
  by (rule soc_check_rows)

lemma check_flash_map_rows: "check_flash_map = [] \<longleftrightarrow> check_map flash_map FLASH_SIZE FLASH_ERASE_BLOCK = Inr []"
  using soc_check_rows[of "(0, None)" flash_map] by (simp add: check_flash_map_def check_map_def FLASH_ERASE_BLOCK_def)

section \<open>Erasing\<close>

text \<open>What the flash driver does to erase an octet: the whole block around it goes.\<close>

definition erase_block_of :: "int \<Rightarrow> int \<Rightarrow> int set" where
  "erase_block_of erase a = {a div erase * erase ..< a div erase * erase + erase}"

locale erase_map =
  fixes rows :: "slot list" and flash_size :: int and erase :: int
  assumes block_positive: "0 < erase" and safe: "slots_safe rows flash_size erase"
begin

lemma fits: "r \<in> set rows \<Longrightarrow> slot_fits flash_size erase r"
  using safe by (simp add: slots_safe_def list_all_iff)

lemma block_inside: "r \<in> set rows \<Longrightarrow> a \<in> slot_range r \<Longrightarrow> erase_block_of erase a \<subseteq> slot_range r"
proof -
  assume r: "r \<in> set rows" and a: "a \<in> slot_range r"
  obtain n off sz k where e: "r = (n, off, sz, k)" by (cases r) auto
  obtain i j where ij: "off = erase * i" "sz = erase * j" using fits[OF r] by (auto simp: e slot_fits_def elim!: dvdE)
  have "erase * i \<le> a" "a < erase * (i + j)" using a by (auto simp: e slot_range_def ij distrib_left)
  moreover have "erase * (a div erase) \<le> a" "a < erase * (a div erase + 1)"
    using block_positive pos_mod_bound[of erase a] pos_mod_sign[of erase a] mult_div_mod_eq[of erase a]
    unfolding distrib_left mult_1_right by linarith+
  ultimately have "erase * i < erase * (a div erase + 1)" "erase * (a div erase) < erase * (i + j)" by linarith+
  then have "i \<le> a div erase" "a div erase < i + j" using block_positive by (simp_all add: mult_less_cancel_left_pos)
  then have "erase * i \<le> erase * (a div erase)" "erase * (a div erase + 1) \<le> erase * (i + j)"
    using block_positive by (intro mult_left_mono; simp)+
  then show ?thesis by (auto simp: e slot_range_def erase_block_of_def ij algebra_simps)
qed

lemma apart: "i < length rows \<Longrightarrow> j < length rows \<Longrightarrow> i \<noteq> j \<Longrightarrow> slot_range (rows ! i) \<inter> slot_range (rows ! j) = {}"
  using safe by (cases i j rule: linorder_cases) (auto simp: slots_safe_def sorted_wrt_iff_nth_less)

lemma erase_apart:
  assumes "i < length rows" "j < length rows" "i \<noteq> j" "a \<in> slot_range (rows ! i)"
  shows "erase_block_of erase a \<subseteq> slot_range (rows ! i)" "erase_block_of erase a \<inter> slot_range (rows ! j) = {}"
  using block_inside[of "rows ! i" a] apart[of i j] assms by fastforce+

end

text \<open>
  Property C31. On a map the check passes, erasing the block around any octet of a slot stays inside that slot and touches no octet of
  any other: writing the journal or the user records never erases a neighbour or a boot image.
\<close>

theorem erase_never_touches_neighbour:
  assumes "sorted (map (\<lambda>(_, off, _, _). off) rows)" "0 < erase" "check_map rows flash_size erase = Inr []"
    and "i < length rows" "j < length rows" "i \<noteq> j" "a \<in> slot_range (rows ! i)"
  shows "erase_block_of erase a \<subseteq> slot_range (rows ! i) \<and> erase_block_of erase a \<inter> slot_range (rows ! j) = {}"
proof -
  have "erase_map rows flash_size erase"
    using assms(1-3) clean_rows[of rows erase flash_size] by unfold_locales (auto simp: sorted_map case_prod_unfold)
  then show ?thesis using erase_map.erase_apart assms(4-7) by blast
qed

section \<open>The bands\<close>

fun tiles :: "int \<Rightarrow> int \<Rightarrow> slot list \<Rightarrow> bool" where
  "tiles a e [] \<longleftrightarrow> a = e"
| "tiles a e ((_, off, sz, _) # rows) \<longleftrightarrow> off = a \<and> 0 < sz \<and> tiles (off + sz) e rows"

lemma bands_from_tile:
  "check_rows flash_size erase (c, nm) rows = [] \<Longrightarrow> c \<le> flash_size \<Longrightarrow> tiles c flash_size (bands_from flash_size c rows)"
proof (induction rows arbitrary: c nm)
  case (Cons r rows)
  obtain n off sz k where r: "r = (n, off, sz, k)" by (cases r) auto
  have ok: "0 < sz" "c \<le> off" "off + sz \<le> flash_size" "check_rows flash_size erase (off + sz, Some n) rows = []"
    using Cons.prems(1) by (auto simp: r slot_size_problems_def split: if_splits)
  then show ?case using Cons.IH[of "off + sz" "Some n"] by (simp add: r)
qed simp

lemma bands_from_slots:
  "filter (\<lambda>(_, _, _, k). k \<noteq> Free) (bands_from flash_size c rows) = filter (\<lambda>(_, _, _, k). k \<noteq> Free) rows"
  by (induction flash_size c rows rule: bands_from.induct) auto

text \<open>
  The bands of the drawing tile the device: on a clean map they start at offset 0, each begins where the last one ended,
  none is empty, and they end at the device size; without the free ones they are the slots of the map in order.
\<close>

lemma bands_tile_device:
  assumes "check_map rows flash_size erase = Inr []" "0 \<le> flash_size"
  shows "tiles 0 flash_size (bands rows flash_size)
     \<and> filter (\<lambda>(_, _, _, k). k \<noteq> Free) (bands rows flash_size) = filter (\<lambda>(_, _, _, k). k \<noteq> Free) rows"
  using assms bands_from_tile[of flash_size erase 0 None rows] bands_from_slots[of flash_size 0 rows]
  by (simp add: bands_def check_map_def split: if_splits)

section \<open>The map of the product\<close>

lemma flash_map_rows: "flash_map =
   [(''bitstream'', 0, 0x400000, Image), (''aem'', 0x400000, 0x010000, Image),
    (''journal'', 0xEE0000, 0x020000, Reserved), (''user'', 0xF00000, 0x100000, Reserved)]"
  by (simp add: flash_map_def slot_row_def FLASHBOOT_LAYOUT_def FLASHBOOT_RESERVED_def)

lemma load_map_eq: "load_map = (flash_map, FLASH_SIZE, FLASH_ERASE_BLOCK)"
  by (simp add: load_map_def flash_map_def)

lemma flash_map_clean: "check_flash_map = []"
  by (simp add: check_flash_map_def flash_map_rows slot_size_problems_def FLASH_SIZE_def FLASH_ERASE_BLOCK_def)

lemma flash_map_sorted: "sorted (map (\<lambda>(_, off, _, _). off) flash_map)"
  by (simp add: flash_map_rows)

lemma flash_map_passes: "check_map flash_map FLASH_SIZE FLASH_ERASE_BLOCK = Inr []"
  using check_flash_map_rows flash_map_clean by blast

interpretation product: erase_map flash_map FLASH_SIZE FLASH_ERASE_BLOCK
  using clean_rows[of flash_map FLASH_ERASE_BLOCK FLASH_SIZE] flash_map_sorted flash_map_passes
  by unfold_locales (simp_all add: FLASH_ERASE_BLOCK_def sorted_map case_prod_unfold)

theorem check_map_exact_witness: "sorted (map (\<lambda>(_, off, _, _). off) flash_map) \<and> slots_safe flash_map FLASH_SIZE FLASH_ERASE_BLOCK"
  using check_map_exact[OF flash_map_sorted, of FLASH_ERASE_BLOCK FLASH_SIZE] flash_map_sorted flash_map_passes
  by (simp add: FLASH_ERASE_BLOCK_def)

theorem erase_never_touches_neighbour_witness:
  "0xEF1234 \<in> slot_range (flash_map ! 2) \<and> erase_block_of FLASH_ERASE_BLOCK 0xEF1234 \<inter> slot_range (flash_map ! 3) = {}"
proof -
  have "0 < FLASH_ERASE_BLOCK" "2 < length flash_map" "3 < length flash_map" "(0xEF1234 :: int) \<in> slot_range (flash_map ! 2)"
    by (simp_all add: FLASH_ERASE_BLOCK_def flash_map_rows slot_range_def)
  then show ?thesis using erase_never_touches_neighbour[OF flash_map_sorted _ flash_map_passes, of 2 3 "0xEF1234"] by simp
qed

text \<open>
  The gates of the trace tests on the same rows: the journal is two erase blocks, the user slot at least five. The deployment layout is
  produced for both manifests; the write ceilings of its images end below every reserved slot.
\<close>

lemma journal_two_blocks: "(''journal'', 0xEE0000, 2 * FLASH_ERASE_BLOCK, Reserved) \<in> set flash_map"
  by (simp add: flash_map_rows FLASH_ERASE_BLOCK_def)

lemma flashboot_layout_protects_reserved:
  assumes "add_flashboot_constants owner xlen m = Inr (cs, lay)" "img \<in> set (fl_images lay)" "res \<in> set (fl_reserved lay)"
  shows "li_offset img + li_budget img \<le> rg_offset (snd res)"
proof -
  consider "m = ''none''" | "m = ''baremetal''"
    using assms(1) by (auto simp: add_flashboot_constants_def FLASHBOOT_MANIFESTS_def split: if_splits option.splits)
  then show ?thesis
    using assms by cases (auto simp: add_flashboot_constants_def FLASHBOOT_MANIFESTS_def FLASHBOOT_LAYOUT_def FLASHBOOT_RESERVED_def
      layout_slot_def image_row_def Let_def split: if_splits)
qed

lemma flashboot_layout_known: "(\<exists>r. add_flashboot_constants owner xlen m = Inr r) \<longleftrightarrow> m \<in> {''none'', ''baremetal''}"
  by (auto simp: add_flashboot_constants_def flash_map_clean ensure_def FLASHBOOT_MANIFESTS_def layout_slot_def FLASHBOOT_LAYOUT_def Let_def)

end
