(* ===== verification/Ctf_Read.thy ===== *)
theory Ctf_Read
  imports Prelude "HOL-Library.AList" "HOL-Library.Sublist"
begin

unbundle bit_operations_syntax

text \<open>
  The CTF stream decoder of \<^verbatim>\<open>sw/trace/ctf_read.py\<close>. The parsed metadata document is an argument; offsets
  are Python ints, and a slice at a negative offset counts from the end as in Python. A string field
  is its octets (the source decodes them with replacement for display). The two \<^verbatim>\<open>while\<close> loops are
  partial functions: a run that does not end is \<open>None\<close>.
\<close>

section \<open>Field types and the metadata\<close>

record IntType =
  size :: int
  signed :: bool
  align :: int

datatype field_type = Int_field IntType | Enum_field IntType "(int \<times> string) list" | Str_field

datatype metadata_error = BitPacked | NoMagic | NoSize string | NoEventId

type_synonym 'a ctf = "(metadata_error, 'a) result"

text \<open>\<open>IntType\<close> of its three properties: a bit-packed integer is refused.\<close>

definition make_IntType :: "int \<Rightarrow> bool \<Rightarrow> int \<Rightarrow> IntType ctf" where
  "make_IntType sz sg al =
     (if sz mod 8 \<noteq> 0 \<or> al mod 8 \<noteq> 0 then Inl (Refused BitPacked) else Inr \<lparr>size = sz, signed = sg, align = al\<rparr>)"

definition nbytes :: "IntType \<Rightarrow> int" where
  "nbytes t = size t div 8"

type_synonym members = "(string \<times> field_type) list"

record Metadata =
  byte_order :: string
  packet_header :: members
  packet_context :: members
  event_header :: members
  event_context :: members
  ev_types :: "(int \<times> string \<times> members) list"

definition validate :: "Metadata \<Rightarrow> unit ctf" where
  "validate meta =
     (if ''magic'' \<notin> fst ` set (packet_header meta) then Inl (Refused NoMagic)
      else if ''packet_size'' \<notin> fst ` set (packet_context meta) then Inl (Refused (NoSize ''packet_size''))
      else if ''content_size'' \<notin> fst ` set (packet_context meta) then Inl (Refused (NoSize ''content_size''))
      else if ''id'' \<notin> fst ` set (event_header meta) then Inl (Refused NoEventId)
      else Inr ())"

section \<open>The cursor\<close>

definition CTF_MAGIC :: int where "CTF_MAGIC = 0xC1FC1FC1"

definition norm_index :: "int \<Rightarrow> nat \<Rightarrow> nat" where
  "norm_index i n = (if i < 0 then nat (int n + i) else min (nat i) n)"

definition py_slice :: "int \<Rightarrow> int \<Rightarrow> 'a list \<Rightarrow> 'a list" where
  "py_slice i j xs = slice (norm_index i (length xs)) (norm_index j (length xs)) xs"

datatype trunc = UnterminatedString | IntegerPastEnd | UnknownEvent

datatype field_value = VInt int | VStr "byte list"

definition align_to :: "int \<Rightarrow> int \<Rightarrow> int" where
  "align_to nbits off =
     (let n = max 1 (nbits div 8); r = off mod n in if r \<noteq> 0 then off + (n - r) else off)"

definition find_nul :: "byte list \<Rightarrow> int \<Rightarrow> int option" where
  "find_nul buf off =
     (let start = norm_index off (length buf); pre = takeWhile (\<lambda>b. b \<noteq> 0) (drop start buf) in
      if start + length pre < length buf then Some (int (start + length pre)) else None)"

definition from_bytes :: "bool \<Rightarrow> bool \<Rightarrow> byte list \<Rightarrow> int" where
  "from_bytes little sg raw =
     (let u = (if little then le_int raw else be_int raw) in
      if sg \<and> raw \<noteq> [] \<and> u \<ge> 2 ^ (8 * length raw - 1) then u - 2 ^ (8 * length raw) else u)"

definition read_int :: "byte list \<Rightarrow> bool \<Rightarrow> IntType \<Rightarrow> int \<Rightarrow> trunc + field_value \<times> int" where
  "read_int buf little t off0 =
     (let off = align_to (align t) off0; n = nbytes t in
      if off + n > int (length buf) then Inl IntegerPastEnd
      else Inr (VInt (from_bytes little (signed t) (py_slice off (off + n) buf)), off + n))"

fun read_field :: "byte list \<Rightarrow> bool \<Rightarrow> field_type \<Rightarrow> int \<Rightarrow> trunc + field_value \<times> int" where
  "read_field buf little Str_field off =
     (case find_nul buf off of
        None \<Rightarrow> Inl UnterminatedString
      | Some e \<Rightarrow> Inr (VStr (py_slice off e buf), e + 1))"
| "read_field buf little (Int_field t) off = read_int buf little t off"
| "read_field buf little (Enum_field t labels) off = read_int buf little t off"

fun read_members :: "byte list \<Rightarrow> bool \<Rightarrow> members \<Rightarrow> (string \<times> field_value) list \<Rightarrow> int
    \<Rightarrow> trunc + (string \<times> field_value) list \<times> int" where
  "read_members buf little [] out off = Inr (out, off)"
| "read_members buf little ((name, ty) # ms) out off =
     rbind (read_field buf little ty off) (\<lambda>(v, off'). read_members buf little ms (AList.update name v out) off')"

definition read_struct :: "byte list \<Rightarrow> bool \<Rightarrow> members \<Rightarrow> int \<Rightarrow> trunc + (string \<times> field_value) list \<times> int" where
  "read_struct buf little ms off = read_members buf little ms [] off"

section \<open>Timestamps and labels\<close>

datatype shown = Raw field_value | Named string | Unnamed field_value

fun label_of :: "field_type \<Rightarrow> field_value \<Rightarrow> shown" where
  "label_of (Enum_field t labels) (VInt v) = (case map_of labels v of Some s \<Rightarrow> Named s | None \<Rightarrow> Unnamed (VInt v))"
| "label_of (Enum_field t labels) v = Unnamed v"
| "label_of ty v = Raw v"

text \<open>\<^verbatim>\<open>dict(members)\<close>: the last declaration of a name counts.\<close>

definition member_dict :: "members \<Rightarrow> (string \<times> field_type) list" where
  "member_dict ms = fold (\<lambda>(n, t) d. AList.update n t d) ms []"

definition labelled :: "members \<Rightarrow> (string \<times> field_value) list \<Rightarrow> (string \<times> shown) list" where
  "labelled ms vs = map (\<lambda>(k, v). (k, label_of (the (map_of (member_dict ms) k)) v)) vs"

fun as_int :: "field_value \<Rightarrow> int ctf" where
  "as_int (VInt i) = Inr i"
| "as_int (VStr _) = Inl TypeError"

fun field_bits :: "field_type \<Rightarrow> int" where
  "field_bits (Int_field t) = size t"
| "field_bits (Enum_field t _) = size t"
| "field_bits Str_field = 0"

definition extend_ts :: "Metadata \<Rightarrow> (string \<times> field_value) list \<Rightarrow> field_value \<Rightarrow> field_value \<Rightarrow> field_value ctf" where
  "extend_ts meta eh base_ts last_ts =
     (case map_of (member_dict (event_header meta)) ''timestamp'' of
        None \<Rightarrow> Inr last_ts
      | Some ty \<Rightarrow>
          rbind (case map_of eh ''timestamp'' of None \<Rightarrow> Inl KeyError | Some v \<Rightarrow> Inr v) (\<lambda>raw.
            let bits = field_bits ty in
            if bits \<ge> 64 then Inr raw
            else if bits < 0 then Inl ValueError
            else rbind (as_int base_ts) (\<lambda>b. rbind (as_int raw) (\<lambda>r. rbind (as_int last_ts) (\<lambda>l.
              let msk = 2 ^ nat bits - 1; t = (b AND NOT msk) OR r in
              Inr (VInt (if t < l then t + (msk + 1) else t)))))))"

section \<open>Packets\<close>

record event_rec =
  ts :: field_value
  ev_name :: string
  ev_id :: int
  ev_packet :: nat
  ev_ctx :: "(string \<times> shown) list"
  ev_payload :: "(string \<times> shown) list"

record Packet =
  pk_header :: "(string \<times> field_value) list"
  pk_context :: "(string \<times> field_value) list"
  pk_events :: "event_rec list"
  pk_offset :: int
  pk_size :: int

datatype decode_note =
    BadMagic int int
  | ImpossibleSizes nat
  | PacketTruncated nat int int
  | TruncatedIn nat trunc

text \<open>Leaving a loop early: a raised exception of the interpreter or a torn structure.\<close>

datatype stop = Raised "metadata_error py_error" | Torn trunc

definition torn :: "trunc + 'a \<Rightarrow> stop + 'a" where
  "torn r = (case r of Inl t \<Rightarrow> Inl (Torn t) | Inr x \<Rightarrow> Inr x)"

definition raised :: "'a ctf \<Rightarrow> stop + 'a" where
  "raised r = (case r of Inl e \<Rightarrow> Inl (Raised e) | Inr x \<Rightarrow> Inr x)"

type_synonym ev_state = "int \<times> field_value \<times> event_rec list"

definition event_step :: "Metadata \<Rightarrow> byte list \<Rightarrow> bool \<Rightarrow> nat \<Rightarrow> field_value \<Rightarrow> ev_state \<Rightarrow> stop + ev_state" where
  "event_step meta buf little npk base_ts st = (case st of (off, last_ts, evs) \<Rightarrow>
     rbind (torn (read_struct buf little (event_header meta) off)) (\<lambda>(eh, off1).
     rbind (raised (case map_of eh ''id'' of None \<Rightarrow> Inl KeyError | Some v \<Rightarrow> Inr v)) (\<lambda>idv.
     case idv of
       VStr _ \<Rightarrow> Inl (Torn UnknownEvent)
     | VInt eid \<Rightarrow>
         (case map_of (ev_types meta) eid of
            None \<Rightarrow> Inl (Torn UnknownEvent)
          | Some (name, ms) \<Rightarrow>
              rbind (torn (read_struct buf little (event_context meta) off1)) (\<lambda>(cc, off2).
              rbind (torn (read_struct buf little ms off2)) (\<lambda>(payload, off3).
              rbind (raised (extend_ts meta eh base_ts last_ts)) (\<lambda>t.
                Inr (off3, t, evs @ [\<lparr>ts = t, ev_name = name, ev_id = eid, ev_packet = npk,
                  ev_ctx = labelled (event_context meta) cc, ev_payload = labelled ms payload\<rparr>]))))))))"

partial_function (option) event_loop :: "Metadata \<Rightarrow> byte list \<Rightarrow> bool \<Rightarrow> nat \<Rightarrow> field_value \<Rightarrow> int \<Rightarrow> ev_state
    \<Rightarrow> ((stop \<times> event_rec list) + ev_state) option" where
  "event_loop meta buf little npk base_ts content_end st =
     (if fst st < content_end
      then (case event_step meta buf little npk base_ts st of
              Inl e \<Rightarrow> Some (Inl (e, snd (snd st)))
            | Inr st' \<Rightarrow> event_loop meta buf little npk base_ts content_end st')
      else Some (Inr st))"

record opened =
  o_hdr :: "(string \<times> field_value) list"
  o_ctx :: "(string \<times> field_value) list"
  o_psize :: int
  o_csize :: int
  o_base_ts :: field_value
  o_cur :: int

definition int_at :: "string \<Rightarrow> (string \<times> field_value) list \<Rightarrow> int ctf" where
  "int_at k d = (case map_of d k of None \<Rightarrow> Inl KeyError | Some v \<Rightarrow> as_int v)"

definition bad_magic :: "(string \<times> field_value) list \<Rightarrow> int \<Rightarrow> decode_note ctf" where
  "bad_magic hdr off = (case map_of hdr ''magic'' of
     None \<Rightarrow> Inr (BadMagic 0 off) | Some (VInt m) \<Rightarrow> Inr (BadMagic m off) | Some (VStr _) \<Rightarrow> Inl ValueError)"

definition open_packet :: "Metadata \<Rightarrow> byte list \<Rightarrow> bool \<Rightarrow> nat \<Rightarrow> int \<Rightarrow> stop + (decode_note + opened)" where
  "open_packet meta buf little npk off =
     rbind (torn (read_struct buf little (packet_header meta) off)) (\<lambda>(hdr, off1).
     if map_of hdr ''magic'' \<noteq> Some (VInt CTF_MAGIC) then rbind (raised (bad_magic hdr off)) (\<lambda>nt. Inr (Inl nt))
     else rbind (torn (read_struct buf little (packet_context meta) off1)) (\<lambda>(ctx, off2).
     rbind (raised (int_at ''packet_size'' ctx)) (\<lambda>ps.
     rbind (raised (int_at ''content_size'' ctx)) (\<lambda>cs.
       let psize = ps div 8; csize = cs div 8 in
       if psize = 0 \<or> csize > psize then Inr (Inl (ImpossibleSizes npk))
       else if off + psize > int (length buf) then Inr (Inl (PacketTruncated npk psize (int (length buf) - off)))
       else Inr (Inr \<lparr>o_hdr = hdr, o_ctx = ctx, o_psize = psize, o_csize = csize,
              o_base_ts = (case map_of ctx ''timestamp_begin'' of None \<Rightarrow> VInt 0 | Some v \<Rightarrow> v), o_cur = off2\<rparr>)))))"

definition blank_tail :: "byte list \<Rightarrow> int \<Rightarrow> bool" where
  "blank_tail buf off = (py_slice off (off + 4) buf = replicate 4 0xFF \<or> py_slice off (off + 4) buf = replicate 4 0)"

type_synonym decoded = "(Packet list \<times> event_rec list \<times> decode_note option) ctf"

partial_function (option) decode_loop :: "Metadata \<Rightarrow> byte list \<Rightarrow> bool \<Rightarrow> int \<Rightarrow> Packet list \<Rightarrow> event_rec list \<Rightarrow> decoded option" where
  "decode_loop meta buf little off packets evs =
     (if off < int (length buf) \<and> \<not> blank_tail buf off
      then (case open_packet meta buf little (length packets) off of
              Inl (Raised e) \<Rightarrow> Some (Inl e)
            | Inl (Torn t) \<Rightarrow> Some (Inr (packets, evs, Some (TruncatedIn (length packets) t)))
            | Inr (Inl nt) \<Rightarrow> Some (Inr (packets, evs, Some nt))
            | Inr (Inr o') \<Rightarrow>
                Option.bind (event_loop meta buf little (length packets) (o_base_ts o') (off + o_csize o') (o_cur o', o_base_ts o', []))
                  (\<lambda>r. case r of
                     Inl (Raised e, _) \<Rightarrow> Some (Inl e)
                   | Inl (Torn t, part) \<Rightarrow> Some (Inr (packets, evs @ part, Some (TruncatedIn (length packets) t)))
                   | Inr (_, _, part) \<Rightarrow>
                       decode_loop meta buf little (off + o_psize o')
                         (packets @ [\<lparr>pk_header = o_hdr o', pk_context = o_ctx o', pk_events = part, pk_offset = off, pk_size = o_psize o'\<rparr>])
                         (evs @ part)))
      else Some (Inr (packets, evs, None)))"

definition decode :: "byte list \<Rightarrow> Metadata \<Rightarrow> decoded option" where
  "decode buf meta =
     decode_loop meta buf (byte_order meta = ''le'' \<or> byte_order meta = ''little_endian'') 0 [] []"

declare event_loop.simps [code] decode_loop.simps [code]

end
