(* ===== verification/Ctf_Rules.thy ===== *)
theory Ctf_Rules
  imports Ctf_Read
begin

text \<open>
  The trace decoder ends on every buffer when the metadata is well formed, never raises, and a torn trace
  decodes to a prefix of the packets of the whole one.
\<close>

section \<open>Well-formed metadata\<close>

fun field_ok :: "field_type \<Rightarrow> bool" where
  "field_ok (Int_field t) \<longleftrightarrow> 0 \<le> size t"
| "field_ok (Enum_field t _) \<longleftrightarrow> 0 \<le> size t"
| "field_ok Str_field \<longleftrightarrow> True"

fun is_int :: "field_type \<Rightarrow> bool" where
  "is_int Str_field = False"
| "is_int _ = True"

fun is_unsigned :: "field_type \<Rightarrow> bool" where
  "is_unsigned (Int_field t) = (\<not> signed t)"
| "is_unsigned (Enum_field t _) = (\<not> signed t)"
| "is_unsigned Str_field = False"

text \<open>The least number of octets a field takes.\<close>

fun width :: "field_type \<Rightarrow> int" where
  "width (Int_field t) = nbytes t"
| "width (Enum_field t _) = nbytes t"
| "width Str_field = 1"

definition struct_width :: "members \<Rightarrow> int" where
  "struct_width ms = sum_list (map (width \<circ> snd) ms)"

definition members_ok :: "members \<Rightarrow> bool" where
  "members_ok ms = list_all (\<lambda>(n, t). field_ok t) ms"

definition has :: "members \<Rightarrow> string \<Rightarrow> (field_type \<Rightarrow> bool) \<Rightarrow> bool" where
  "has ms k P = (case map_of (member_dict ms) k of None \<Rightarrow> False | Some t \<Rightarrow> P t)"

definition meta_ok :: "Metadata \<Rightarrow> bool" where
  "meta_ok meta \<longleftrightarrow> members_ok (packet_header meta) \<and> members_ok (packet_context meta) \<and> members_ok (event_header meta)
     \<and> members_ok (event_context meta) \<and> list_all (\<lambda>(i, n, ms). members_ok ms) (ev_types meta)
     \<and> 4 \<le> struct_width (packet_header meta) \<and> 1 \<le> struct_width (event_header meta)
     \<and> has (packet_header meta) ''magic'' is_int
     \<and> has (packet_context meta) ''packet_size'' is_unsigned \<and> has (packet_context meta) ''content_size'' is_int
     \<and> has (event_header meta) ''id'' is_int
     \<and> (case map_of (member_dict (event_header meta)) ''timestamp'' of None \<Rightarrow> True | Some t \<Rightarrow> is_int t)
     \<and> (case map_of (member_dict (packet_context meta)) ''timestamp_begin'' of None \<Rightarrow> True | Some t \<Rightarrow> is_int t)"

section \<open>Reading\<close>

fun value_ok :: "field_type \<Rightarrow> field_value \<Rightarrow> bool" where
  "value_ok Str_field (VStr _) = True"
| "value_ok Str_field (VInt _) = False"
| "value_ok (Int_field t) (VInt i) \<longleftrightarrow> (\<not> signed t \<longrightarrow> 0 \<le> i)"
| "value_ok (Enum_field t _) (VInt i) \<longleftrightarrow> (\<not> signed t \<longrightarrow> 0 \<le> i)"
| "value_ok _ (VStr _) = False"

lemma align_to_ge: "off \<le> align_to a off"
  by (simp add: align_to_def Let_def less_imp_le)

lemma norm_index_nat: "0 \<le> i \<Longrightarrow> i \<le> int n \<Longrightarrow> norm_index i n = nat i"
  by (auto simp: norm_index_def min_def nat_le_iff)

lemma py_slice_append:
  assumes "0 \<le> i" "i \<le> j" "j \<le> int (length buf)"
  shows "py_slice i j (buf @ ext) = py_slice i j buf"
  using assms by (simp add: py_slice_def norm_index_nat slice_head)

lemma find_nul_bounds: "find_nul buf off = Some e \<Longrightarrow> 0 \<le> off \<Longrightarrow> off \<le> e \<and> e < int (length buf)"
  by (auto simp: find_nul_def Let_def norm_index_def split: if_splits)

lemma find_nul_append:
  assumes "find_nul buf off = Some e" "0 \<le> off"
  shows "find_nul (buf @ ext) off = Some e"
proof -
  have b: "nat off < length buf" using find_nul_bounds[OF assms] assms(2) by linarith
  then have st: "norm_index off (length buf) = nat off" "norm_index off (length (buf @ ext)) = nat off"
    using assms(2) by (simp_all add: norm_index_def)
  let ?p = "takeWhile (\<lambda>b. b \<noteq> 0) (drop (nat off) buf)"
  have e: "nat off + length ?p < length buf" "e = int (nat off + length ?p)"
    using assms(1) unfolding find_nul_def st Let_def by (auto split: if_splits)
  have "\<not> (\<forall>x \<in> set (drop (nat off) buf). x \<noteq> 0)"
  proof
    assume "\<forall>x \<in> set (drop (nat off) buf). x \<noteq> 0"
    then have "?p = drop (nat off) buf" by (simp only: takeWhile_eq_all_conv)
    from arg_cong[OF this, of length] have "length ?p = length buf - nat off" by (simp only: length_drop)
    then show False using e(1) b by linarith
  qed
  then have "takeWhile (\<lambda>b. b \<noteq> 0) (drop (nat off) buf @ ext) = ?p" by (auto intro: takeWhile_append1)
  then show ?thesis using e b unfolding find_nul_def st Let_def by simp
qed

lemma read_int_ok:
  assumes "read_int buf little t off = Inr (v, off')" "0 \<le> off" "0 \<le> size t"
  shows "off + nbytes t \<le> off' \<and> off' \<le> int (length buf) \<and> (\<exists>i. v = VInt i \<and> (\<not> signed t \<longrightarrow> 0 \<le> i))
    \<and> read_int (buf @ ext) little t off = Inr (v, off')"
proof -
  have a: "off \<le> align_to (align t) off" by (rule align_to_ge)
  have n: "0 \<le> nbytes t" using assms(3) by (simp add: nbytes_def)
  have r: "off' = align_to (align t) off + nbytes t" "off' \<le> int (length buf)"
    "v = VInt (from_bytes little (signed t) (py_slice (align_to (align t) off) off' buf))"
    using assms(1) by (auto simp: read_int_def Let_def split: if_splits)
  have "py_slice (align_to (align t) off) off' (buf @ ext) = py_slice (align_to (align t) off) off' buf"
    using a n r assms(2) by (intro py_slice_append) auto
  then have "read_int (buf @ ext) little t off = Inr (v, off')"
    using r by (simp add: read_int_def Let_def)
  moreover have "\<exists>i. v = VInt i \<and> (\<not> signed t \<longrightarrow> 0 \<le> i)"
    using r(3) le_int_bounds be_int_bounds by (auto simp: from_bytes_def Let_def)
  ultimately show ?thesis using a r by simp
qed

lemma read_field_ok:
  assumes "read_field buf little ty off = Inr (v, off')" "0 \<le> off" "field_ok ty"
  shows "off + width ty \<le> off' \<and> off' \<le> int (length buf) \<and> value_ok ty v
    \<and> read_field (buf @ ext) little ty off = Inr (v, off')"
proof (cases ty)
  case (Int_field t)
  then show ?thesis using assms read_int_ok[of buf little t off v off' ext] by (cases v) simp_all
next
  case (Enum_field t l)
  then show ?thesis using assms read_int_ok[of buf little t off v off' ext] by (cases v) simp_all
next
  case Str_field
  then obtain e where e: "find_nul buf off = Some e" "v = VStr (py_slice off e buf)" "off' = e + 1"
    using assms(1) by (auto split: option.splits)
  note b = find_nul_bounds[OF e(1) assms(2)]
  have "py_slice off e (buf @ ext) = py_slice off e buf" using b assms(2) by (intro py_slice_append) auto
  then show ?thesis using Str_field e b find_nul_append[OF e(1) assms(2), of ext] by simp
qed

lemma width_ge: "field_ok t \<Longrightarrow> 0 \<le> width t"
  by (cases t) (auto simp: nbytes_def)

lemma struct_width_Cons [simp]: "struct_width ((n, t) # ms) = width t + struct_width ms" "struct_width [] = 0"
  by (simp_all add: struct_width_def)

lemma struct_width_ge: "members_ok ms \<Longrightarrow> 0 \<le> struct_width ms"
  by (induction ms) (auto simp: members_ok_def width_ge)

text \<open>What a structure read gives: it moves on by at least its width, and a longer buffer reads the same.\<close>

lemma read_members_ok:
  assumes "read_members buf little ms out off = Inr (out', off')" "0 \<le> off" "members_ok ms"
  shows "off + struct_width ms \<le> off' \<and> (ms = [] \<or> off' \<le> int (length buf))
    \<and> read_members (buf @ ext) little ms out off = Inr (out', off')"
  using assms
proof (induction ms arbitrary: out off)
  case (Cons m ms)
  obtain n t where m: "m = (n, t)" by force
  obtain v off1 where r: "read_field buf little t off = Inr (v, off1)"
    "read_members buf little ms (AList.update n v out) off1 = Inr (out', off')"
    using Cons.prems(1) unfolding m by (auto simp: rbind_Inr_iff)
  have ok: "field_ok t" "members_ok ms" using Cons.prems(3) by (auto simp: m members_ok_def)
  note f = read_field_ok[OF r(1) Cons.prems(2) ok(1), of ext]
  have "0 \<le> off1" using f width_ge[OF ok(1)] Cons.prems(2) by linarith
  note ih = Cons.IH[OF r(2) this ok(2)]
  have "off' \<le> int (length buf)" using ih f r(2) by (cases ms) auto
  then show ?case using f ih by (simp add: m)
qed simp

lemma read_members_values:
  assumes "read_members buf little ms out off = Inr (out', off')" "0 \<le> off" "members_ok ms"
    "\<forall>k. rel_option value_ok (map_of d k) (map_of out k)"
  shows "\<forall>k. rel_option value_ok (map_of (fold (\<lambda>(n, t) d. AList.update n t d) ms d) k) (map_of out' k)"
  using assms
proof (induction ms arbitrary: out off d)
  case (Cons m ms)
  obtain n t where m: "m = (n, t)" by force
  obtain v off1 where r: "read_field buf little t off = Inr (v, off1)"
    "read_members buf little ms (AList.update n v out) off1 = Inr (out', off')"
    using Cons.prems(1) unfolding m by (auto simp: rbind_Inr_iff)
  have ok: "field_ok t" "members_ok ms" using Cons.prems(3) by (auto simp: m members_ok_def)
  note f = read_field_ok[OF r(1) Cons.prems(2) ok(1)]
  have o1: "0 \<le> off1" using f width_ge[OF ok(1)] Cons.prems(2) by force
  have "\<forall>k. rel_option value_ok (map_of (AList.update n t d) k) (map_of (AList.update n v out) k)"
    using Cons.prems(4) f by (simp add: update_conv')
  from Cons.IH[OF r(2) o1 ok(2) this] show ?case by (simp add: m)
qed simp

lemma read_struct_ok:
  assumes "read_struct buf little ms off = Inr (out, off')" "0 \<le> off" "members_ok ms"
  shows "off + struct_width ms \<le> off'" "0 \<le> off'" "ms \<noteq> [] \<Longrightarrow> off' \<le> int (length buf)"
    "read_struct (buf @ ext) little ms off = Inr (out, off')"
    "rel_option value_ok (map_of (member_dict ms) k) (map_of out k)"
  using read_members_ok[of buf little ms "[]" off out off' ext] read_members_values[of buf little ms "[]" off out off' "[]"]
    assms struct_width_ge[OF assms(3)]
  by (auto simp: read_struct_def member_dict_def)

lemma has_int:
  assumes "has ms k is_int" "rel_option value_ok (map_of (member_dict ms) k) v"
  shows "\<exists>i. v = Some (VInt i)"
proof -
  obtain t where t: "map_of (member_dict ms) k = Some t" "is_int t"
    using assms(1) by (auto simp: has_def split: option.splits)
  then obtain w where w: "v = Some w" "value_ok t w" using assms(2) by (auto simp: option_rel_Some1)
  show ?thesis using t(2) w by (cases t; cases w) auto
qed

lemma has_unsigned:
  assumes "has ms k is_unsigned" "rel_option value_ok (map_of (member_dict ms) k) v"
  shows "\<exists>i \<ge> 0. v = Some (VInt i)"
proof -
  obtain t where t: "map_of (member_dict ms) k = Some t" "is_unsigned t"
    using assms(1) by (auto simp: has_def split: option.splits)
  then obtain w where w: "v = Some w" "value_ok t w" using assms(2) by (auto simp: option_rel_Some1)
  show ?thesis using t(2) w by (cases t; cases w) auto
qed

lemma opt_int:
  assumes "case map_of (member_dict ms) k of None \<Rightarrow> True | Some t \<Rightarrow> is_int t"
    "rel_option value_ok (map_of (member_dict ms) k) v"
  shows "v = None \<or> (\<exists>i. v = Some (VInt i))"
proof (cases "map_of (member_dict ms) k")
  case (Some t)
  then have "has ms k is_int" using assms(1) by (simp add: has_def)
  from has_int[OF this assms(2)] show ?thesis by blast
qed (use assms(2) in auto)

lemma member_dict_fold:
  "map_of (fold (\<lambda>(n, t) d. AList.update n t d) ms d) k = Some t \<Longrightarrow> (k, t) \<in> set ms \<or> map_of d k = Some t"
proof (induction ms arbitrary: d)
  case (Cons m ms)
  obtain n u where m: "m = (n, u)" by force
  have "(k, t) \<in> set ms \<or> map_of (AList.update n u d) k = Some t" using Cons.prems by (intro Cons.IH) (simp add: m)
  then show ?case by (auto simp: m update_conv' split: if_splits)
qed simp

lemma member_dict_ok: "members_ok ms \<Longrightarrow> map_of (member_dict ms) k = Some t \<Longrightarrow> field_ok t"
  using member_dict_fold[of ms "[]" k t] by (auto simp: member_dict_def members_ok_def list_all_iff)

section \<open>One event\<close>

lemma torn_iff [simp]: "torn r = Inr x \<longleftrightarrow> r = Inr x" "torn r \<noteq> Inl (Raised e)"
  by (auto simp: torn_def split: sum.splits)

lemma raised_iff [simp]: "raised r = Inr x \<longleftrightarrow> r = Inr x"
  by (auto simp: raised_def split: sum.splits)

lemma extend_ts_ok:
  assumes "meta_ok meta" "rel_option value_ok (map_of (member_dict (event_header meta)) ''timestamp'') (map_of eh ''timestamp'')"
  shows "\<exists>i. extend_ts meta eh (VInt b) (VInt l) = Inr (VInt i)"
proof (cases "map_of (member_dict (event_header meta)) ''timestamp''")
  case None
  then show ?thesis by (simp add: extend_ts_def)
next
  case (Some t)
  then have t: "is_int t" using assms(1) by (simp add: meta_ok_def)
  then obtain r where r: "map_of eh ''timestamp'' = Some (VInt r)"
    using has_int[of "event_header meta" "''timestamp''"] assms(2) Some by (auto simp: has_def)
  have "field_ok t" using assms(1) Some by (auto simp: meta_ok_def intro: member_dict_ok)
  then have "0 \<le> field_bits t" by (cases t) auto
  then show ?thesis using Some r by (simp add: extend_ts_def Let_def)
qed

lemma lookup_iff [simp]: "(case r of None \<Rightarrow> Inl e | Some v \<Rightarrow> Inr v) = Inr x \<longleftrightarrow> r = Some x"
  by (cases r) auto

text \<open>The four reads behind a decoded event, and the only two ways to leave without one.\<close>

lemma event_step_Inr:
  assumes "event_step meta buf little n base (off, l, evs) = Inr (off', l', evs')"
  obtains eh off1 eid name ms cc off2 pl where
    "read_struct buf little (event_header meta) off = Inr (eh, off1)" "map_of eh ''id'' = Some (VInt eid)"
    "map_of (ev_types meta) eid = Some (name, ms)" "read_struct buf little (event_context meta) off1 = Inr (cc, off2)"
    "read_struct buf little ms off2 = Inr (pl, off')" "extend_ts meta eh base l = Inr l'"
    "evs' = evs @ [\<lparr>ts = l', ev_name = name, ev_id = eid, ev_packet = n,
       ev_ctx = labelled (event_context meta) cc, ev_payload = labelled ms pl\<rparr>]"
proof -
  obtain eh off1 idv where r: "read_struct buf little (event_header meta) off = Inr (eh, off1)" "map_of eh ''id'' = Some idv"
    using assms by (auto simp: event_step_def)
  with assms that show ?thesis
    by (cases idv) (auto simp: event_step_def torn_def raised_def split: option.splits sum.splits)
qed

lemma event_step_raised:
  assumes "event_step meta buf little n base (off, l, evs) = Inl (Raised e)"
  obtains eh off1 where "read_struct buf little (event_header meta) off = Inr (eh, off1)"
    "map_of eh ''id'' = None \<or> (\<exists>x. extend_ts meta eh base l = Inl x)"
proof -
  obtain eh off1 where r: "read_struct buf little (event_header meta) off = Inr (eh, off1)"
    using assms by (auto simp: event_step_def rbind_Inl_iff)
  moreover have "map_of eh ''id'' = None \<or> (\<exists>x. extend_ts meta eh base l = Inl x)"
  proof (rule ccontr)
    assume c: "\<not> ?thesis"
    then obtain idv t where "map_of eh ''id'' = Some idv" "extend_ts meta eh base l = Inr t"
      by (metis not_None_eq sum.exhaust)
    with r assms show False
      by (cases idv) (auto simp: event_step_def torn_def raised_def rbind_Inl_iff split: option.splits sum.splits)
  qed
  ultimately show ?thesis by (rule that)
qed

lemma event_step_ok:
  assumes "meta_ok meta" "0 \<le> off"
  shows "event_step meta buf little n (VInt b) (off, VInt l, evs) \<noteq> Inl (Raised e)"
    "event_step meta buf little n (VInt b) (off, VInt l, evs) = Inr (off', l', evs')
       \<Longrightarrow> off < off' \<and> (\<exists>i. l' = VInt i) \<and> event_step meta (buf @ ext) little n (VInt b) (off, VInt l, evs) = Inr (off', l', evs')"
proof -
  have ok: "members_ok (event_header meta)" "members_ok (event_context meta)" "1 \<le> struct_width (event_header meta)"
    "has (event_header meta) ''id'' is_int"
    and evok: "map_of (ev_types meta) eid = Some (name, ms) \<Longrightarrow> members_ok ms" for eid name ms
    using assms(1) by (auto simp: meta_ok_def list_all_iff dest: map_of_SomeD)
  show "event_step meta buf little n (VInt b) (off, VInt l, evs) \<noteq> Inl (Raised e)"
  proof
    assume "event_step meta buf little n (VInt b) (off, VInt l, evs) = Inl (Raised e)"
    then obtain eh off1 where r: "read_struct buf little (event_header meta) off = Inr (eh, off1)"
      "map_of eh ''id'' = None \<or> (\<exists>x. extend_ts meta eh (VInt b) (VInt l) = Inl x)" by (rule event_step_raised)
    note v = read_struct_ok(5)[OF r(1) assms(2) ok(1)]
    show False using r(2) has_int[OF ok(4) v] extend_ts_ok[OF assms(1) v, of b l] by auto
  qed
  assume "event_step meta buf little n (VInt b) (off, VInt l, evs) = Inr (off', l', evs')"
  then show "off < off' \<and> (\<exists>i. l' = VInt i) \<and> event_step meta (buf @ ext) little n (VInt b) (off, VInt l, evs) = Inr (off', l', evs')"
  proof (rule event_step_Inr)
    fix eh off1 eid name ms cc off2 pl
    assume r: "read_struct buf little (event_header meta) off = Inr (eh, off1)" "map_of eh ''id'' = Some (VInt eid)"
      "map_of (ev_types meta) eid = Some (name, ms)" "read_struct buf little (event_context meta) off1 = Inr (cc, off2)"
      "read_struct buf little ms off2 = Inr (pl, off')" "extend_ts meta eh (VInt b) (VInt l) = Inr l'"
      "evs' = evs @ [\<lparr>ts = l', ev_name = name, ev_id = eid, ev_packet = n,
       ev_ctx = labelled (event_context meta) cc, ev_payload = labelled ms pl\<rparr>]"
    note h = read_struct_ok[OF r(1) assms(2) ok(1)]
    note c = read_struct_ok[OF r(4) h(2) ok(2)]
    note d = read_struct_ok[OF r(5) c(2) evok[OF r(3)]]
    have "off < off'"
      using h(1) c(1) d(1) ok(3) struct_width_ge[OF ok(2)] struct_width_ge[OF evok[OF r(3)]] by linarith
    then show ?thesis
      using r h(4) c(4) d(4) extend_ts_ok[OF assms(1) h(5), of b l] by (auto simp: event_step_def torn_def raised_def)
  qed
qed

section \<open>The events of a packet\<close>

fun no_raise :: "(stop \<times> event_rec list) + ev_state \<Rightarrow> bool" where
  "no_raise (Inl (Raised e, p)) = False"
| "no_raise _ = True"

fun events_of :: "(stop \<times> event_rec list) + ev_state \<Rightarrow> event_rec list" where
  "events_of (Inl (e, p)) = p"
| "events_of (Inr (off, l, p)) = p"

lemma event_step_appends: "event_step meta buf little n base (off, l, evs) = Inr (off', l', evs') \<Longrightarrow> prefix evs evs'"
  by (erule event_step_Inr) simp

text \<open>Every event moves the cursor on, so the loop ends at the content end at the latest.\<close>

lemma event_loop_ends:
  assumes "meta_ok meta" "0 \<le> off"
  shows "\<exists>r. event_loop meta buf little n (VInt b) ce (off, VInt l, evs) = Some r \<and> no_raise r \<and> prefix evs (events_of r)"
  using assms(2)
proof (induction "nat (ce - off)" arbitrary: off l evs rule: less_induct)
  case less
  show ?case
  proof (cases "off < ce")
    case False
    then show ?thesis by (simp add: event_loop.simps)
  next
    case True
    show ?thesis
    proof (cases "event_step meta buf little n (VInt b) (off, VInt l, evs)")
      case (Inl e)
      then have "no_raise (Inl (e, evs))" using event_step_ok(1)[OF assms(1) less.prems] by (cases e) auto
      then show ?thesis using True Inl by (simp add: event_loop.simps)
    next
      case (Inr st)
      obtain off' l' evs' where st: "st = (off', l', evs')" by (cases st)
      note s = Inr[unfolded st]
      obtain i where i: "off < off'" "l' = VInt i" using event_step_ok(2)[OF assms(1) less.prems s] by blast
      have "\<exists>r. event_loop meta buf little n (VInt b) ce (off', VInt i, evs') = Some r \<and> no_raise r \<and> prefix evs' (events_of r)"
        using i(1) True less.prems by (intro less.hyps) auto
      then show ?thesis using True s i(2) event_step_appends[OF s] by (auto simp: event_loop.simps[of _ _ _ _ _ _ "(off, _)"] intro: prefix_order.trans)
    qed
  qed
qed

lemma event_loop_stable:
  assumes "meta_ok meta" "0 \<le> off" "event_loop meta buf little n (VInt b) ce (off, VInt l, evs) = Some r"
    "event_loop meta (buf @ ext) little n (VInt b) ce (off, VInt l, evs) = Some r'"
  shows "prefix (events_of r) (events_of r') \<and> (\<not> isl r \<longrightarrow> r' = r)"
  using assms(2-)
proof (induction "nat (ce - off)" arbitrary: off l evs rule: less_induct)
  case less
  show ?case
  proof (cases "off < ce \<and> (\<exists>st. event_step meta buf little n (VInt b) (off, VInt l, evs) = Inr st)")
    case False
    then have r: "r = Inr (off, VInt l, evs) \<and> r' = r \<or> (\<exists>e. r = Inl (e, evs))"
      using less.prems(2,3) event_loop.simps[of meta buf little n "VInt b" ce "(off, VInt l, evs)"]
        event_loop.simps[of meta "buf @ ext" little n "VInt b" ce "(off, VInt l, evs)"]
      by (cases "off < ce"; cases "event_step meta buf little n (VInt b) (off, VInt l, evs)") auto
    obtain r'' where "event_loop meta (buf @ ext) little n (VInt b) ce (off, VInt l, evs) = Some r''" "prefix evs (events_of r'')"
      using event_loop_ends[OF assms(1) less.prems(1)] by blast
    then show ?thesis using r less.prems(3) by auto
  next
    case True
    then obtain off' l' evs' where s: "event_step meta buf little n (VInt b) (off, VInt l, evs) = Inr (off', l', evs')" by auto
    obtain i where i: "off < off'" "l' = VInt i"
      "event_step meta (buf @ ext) little n (VInt b) (off, VInt l, evs) = Inr (off', l', evs')"
      using event_step_ok(2)[OF assms(1) less.prems(1) s, of ext] by blast
    show ?thesis
    proof (rule less.hyps[of off'])
      show "nat (ce - off') < nat (ce - off)" "0 \<le> off'" using i(1) True less.prems(1) by auto
      show "event_loop meta buf little n (VInt b) ce (off', VInt i, evs') = Some r"
        using less.prems(2) True s i(2) by (simp add: event_loop.simps[of _ _ _ _ _ _ "(off, _)"])
      show "event_loop meta (buf @ ext) little n (VInt b) ce (off', VInt i, evs') = Some r'"
        using less.prems(3) True i(2,3) by (simp add: event_loop.simps[of _ _ _ _ _ _ "(off, _)"])
    qed
  qed
qed

section \<open>A packet and the whole trace\<close>

lemma open_packet_reads:
  assumes "open_packet meta buf little n off = Inr (Inr k)"
  obtains hdr off1 ctx off2 ps cs where "read_struct buf little (packet_header meta) off = Inr (hdr, off1)"
    "map_of hdr ''magic'' = Some (VInt CTF_MAGIC)" "read_struct buf little (packet_context meta) off1 = Inr (ctx, off2)"
    "int_at ''packet_size'' ctx = Inr ps" "int_at ''content_size'' ctx = Inr cs" "ps div 8 \<noteq> 0" "cs div 8 \<le> ps div 8"
    "off + ps div 8 \<le> int (length buf)"
    "k = \<lparr>o_hdr = hdr, o_ctx = ctx, o_psize = ps div 8, o_csize = cs div 8,
       o_base_ts = (case map_of ctx ''timestamp_begin'' of None \<Rightarrow> VInt 0 | Some v \<Rightarrow> v), o_cur = off2\<rparr>"
  using assms by (auto simp: open_packet_def Let_def split: if_splits)

lemma open_packet_no_raise:
  assumes "meta_ok meta" "0 \<le> off"
  shows "open_packet meta buf little n off \<noteq> Inl (Raised e)"
proof
  assume r: "open_packet meta buf little n off = Inl (Raised e)"
  have ok: "members_ok (packet_header meta)" "members_ok (packet_context meta)" "has (packet_header meta) ''magic'' is_int"
    "has (packet_context meta) ''packet_size'' is_unsigned" "has (packet_context meta) ''content_size'' is_int"
    using assms(1) by (auto simp: meta_ok_def)
  obtain hdr off1 where h: "read_struct buf little (packet_header meta) off = Inr (hdr, off1)"
    using r by (auto simp: open_packet_def rbind_Inl_iff)
  note rh = read_struct_ok[OF h assms(2) ok(1)]
  obtain mg where mg: "map_of hdr ''magic'' = Some (VInt mg)" using has_int[OF ok(3) rh(5)] by blast
  then have "mg = CTF_MAGIC" using r h
    by (auto simp: open_packet_def torn_def raised_def bad_magic_def split: if_splits)
  with mg r h obtain ctx off2 where c: "read_struct buf little (packet_context meta) off1 = Inr (ctx, off2)"
    by (auto simp: open_packet_def torn_def rbind_Inl_iff split: sum.split_asm)
  note rc = read_struct_ok[OF c rh(2) ok(2)]
  obtain ps cs where "map_of ctx ''packet_size'' = Some (VInt ps)" "map_of ctx ''content_size'' = Some (VInt cs)"
    using has_unsigned[OF ok(4) rc(5)] has_int[OF ok(5) rc(5)] by blast
  then show False using r h c mg \<open>mg = CTF_MAGIC\<close>
    by (auto simp: open_packet_def torn_def raised_def int_at_def Let_def split: if_splits)
qed

lemma open_packet_ok:
  assumes "meta_ok meta" "0 \<le> off" "open_packet meta buf little n off = Inr (Inr k)"
  shows "1 \<le> o_psize k \<and> off + 4 \<le> int (length buf) \<and> 0 \<le> o_cur k \<and> (\<exists>b. o_base_ts k = VInt b)
    \<and> off + o_psize k \<le> int (length buf) \<and> open_packet meta (buf @ ext) little n off = Inr (Inr k)"
  using assms(3)
proof (rule open_packet_reads)
  fix hdr off1 ctx off2 ps cs
  assume r: "read_struct buf little (packet_header meta) off = Inr (hdr, off1)"
    "map_of hdr ''magic'' = Some (VInt CTF_MAGIC)" "read_struct buf little (packet_context meta) off1 = Inr (ctx, off2)"
    "int_at ''packet_size'' ctx = Inr ps" "int_at ''content_size'' ctx = Inr cs" "ps div 8 \<noteq> 0" "cs div 8 \<le> ps div 8"
    "off + ps div 8 \<le> int (length buf)"
    "k = \<lparr>o_hdr = hdr, o_ctx = ctx, o_psize = ps div 8, o_csize = cs div 8,
       o_base_ts = (case map_of ctx ''timestamp_begin'' of None \<Rightarrow> VInt 0 | Some v \<Rightarrow> v), o_cur = off2\<rparr>"
  have ok: "members_ok (packet_header meta)" "members_ok (packet_context meta)" "4 \<le> struct_width (packet_header meta)"
    "has (packet_context meta) ''packet_size'' is_unsigned"
    "case map_of (member_dict (packet_context meta)) ''timestamp_begin'' of None \<Rightarrow> True | Some t \<Rightarrow> is_int t"
    using assms(1) by (auto simp: meta_ok_def)
  note h = read_struct_ok[OF r(1) assms(2) ok(1)]
  note c = read_struct_ok[OF r(3) h(2) ok(2)]
  have "packet_header meta \<noteq> []" using ok(3) by auto
  then have "off + 4 \<le> int (length buf)" using h(1,3) ok(3) by simp
  moreover obtain p where "0 \<le> p" "map_of ctx ''packet_size'' = Some (VInt p)" using has_unsigned[OF ok(4) c(5)] by blast
  then have "1 \<le> ps div 8" using r(4,6) by (auto simp: int_at_def)
  moreover have "\<exists>b. (case map_of ctx ''timestamp_begin'' of None \<Rightarrow> VInt 0 | Some v \<Rightarrow> v) = VInt b"
    using opt_int[OF ok(5) c(5)] by auto
  ultimately show ?thesis
    using r c(2) h(4) c(4) by (simp add: open_packet_def torn_def raised_def Let_def)
qed

text \<open>Packets lie back to back from an offset, inside the buffer, numbered events included.\<close>

fun tiled :: "int \<Rightarrow> int \<Rightarrow> Packet list \<Rightarrow> bool" where
  "tiled len off [] \<longleftrightarrow> True"
| "tiled len off (p # ps) \<longleftrightarrow> pk_offset p = off \<and> 1 \<le> pk_size p \<and> off + pk_size p \<le> len \<and> tiled len (off + pk_size p) ps"

definition packed :: "Packet list \<Rightarrow> event_rec list" where
  "packed ps = concat (map pk_events ps)"

lemma packed_simps [simp]: "packed [] = []" "packed (p # ps) = pk_events p @ packed ps"
  by (simp_all add: packed_def)

text \<open>
  The events of a packet, as a relation: from the cursor behind the packet context one event is read
  after the other while the cursor is before the content end.
\<close>

inductive reads :: "Metadata \<Rightarrow> byte list \<Rightarrow> bool \<Rightarrow> nat \<Rightarrow> field_value \<Rightarrow> int \<Rightarrow> ev_state \<Rightarrow> ev_state \<Rightarrow> bool"
  for meta buf little n base ce where
  reads_done: "reads meta buf little n base ce st st"
| reads_event: "fst st < ce \<Longrightarrow> event_step meta buf little n base st = Inr st' \<Longrightarrow> reads meta buf little n base ce st' st''
    \<Longrightarrow> reads meta buf little n base ce st st''"

lemma event_loop_reads:
  assumes "event_loop meta buf little n base ce st = Some r"
  shows "case r of Inr st' \<Rightarrow> reads meta buf little n base ce st st' \<and> ce \<le> fst st'
    | Inl (e, es) \<Rightarrow> \<exists>off l. reads meta buf little n base ce st (off, l, es) \<and> off < ce
        \<and> event_step meta buf little n base (off, l, es) = Inl e"
proof -
  let ?P = "\<lambda>m bu li np ba cc s r. case r of Inr st' \<Rightarrow> reads m bu li np ba cc s st' \<and> cc \<le> fst st'
    | Inl (e, es) \<Rightarrow> \<exists>off l. reads m bu li np ba cc s (off, l, es) \<and> off < cc \<and> event_step m bu li np ba (off, l, es) = Inl e"
  show ?thesis
  proof (rule event_loop.raw_induct[where P = ?P, OF _ assms])
    fix el m bu li np ba cc s r
    assume ih: "\<And>m bu li np ba cc s r. el m bu li np ba cc s = Some r \<Longrightarrow> ?P m bu li np ba cc s r"
      and u: "(if fst s < cc then case event_step m bu li np ba s of Inl e \<Rightarrow> Some (Inl (e, snd (snd s)))
        | Inr st' \<Rightarrow> el m bu li np ba cc st' else Some (Inr s)) = Some r"
    show "?P m bu li np ba cc s r"
    proof (cases "fst s < cc")
      case False
      then show ?thesis using u by (auto intro: reads_done)
    next
      case lt: True
      obtain off l es where s: "s = (off, l, es)" by (cases s)
      show ?thesis
      proof (cases "event_step m bu li np ba s")
        case (Inl e)
        then show ?thesis using u lt by (auto simp: s intro!: exI[of _ off] exI[of _ l] reads_done)
      next
        case (Inr st')
        then have "?P m bu li np ba cc st' r" using u lt by (intro ih) simp
        then show ?thesis using reads_event[OF lt Inr] by (cases r) (auto, blast)
      qed
    qed
  qed
qed

text \<open>A packet of the result is the one that opens at its offset, with exactly the events read up to its content end.\<close>

definition packet_read :: "Metadata \<Rightarrow> byte list \<Rightarrow> bool \<Rightarrow> nat \<Rightarrow> Packet \<Rightarrow> bool" where
  "packet_read meta buf little n p \<longleftrightarrow> (\<exists>k off l. open_packet meta buf little n (pk_offset p) = Inr (Inr k)
     \<and> pk_header p = o_hdr k \<and> pk_context p = o_ctx k \<and> pk_size p = o_psize k
     \<and> reads meta buf little n (o_base_ts k) (pk_offset p + o_csize k) (o_cur k, o_base_ts k, []) (off, l, pk_events p)
     \<and> pk_offset p + o_csize k \<le> off)"

text \<open>
  Why the decode stops at an offset, with which note and which trailing events: the buffer or its written part is
  over; no packet opens there; or one opens and the event after the trailing ones does not parse.
\<close>

definition stops :: "Metadata \<Rightarrow> byte list \<Rightarrow> bool \<Rightarrow> nat \<Rightarrow> int \<Rightarrow> decode_note option \<Rightarrow> event_rec list \<Rightarrow> bool" where
  "stops meta buf little n at nt rest \<longleftrightarrow>
     (case nt of
        None \<Rightarrow> rest = [] \<and> (int (length buf) \<le> at \<or> blank_tail buf at)
      | Some note \<Rightarrow> at < int (length buf) \<and> \<not> blank_tail buf at \<and>
          (case open_packet meta buf little n at of
             Inl (Raised e) \<Rightarrow> False
           | Inl (Torn t) \<Rightarrow> rest = [] \<and> note = TruncatedIn n t
           | Inr (Inl nt') \<Rightarrow> rest = [] \<and> note = nt'
           | Inr (Inr k) \<Rightarrow> (\<exists>off l t. reads meta buf little n (o_base_ts k) (at + o_csize k) (o_cur k, o_base_ts k, []) (off, l, rest)
               \<and> off < at + o_csize k \<and> event_step meta buf little n (o_base_ts k) (off, l, rest) = Inl (Torn t)
               \<and> note = TruncatedIn n t)))"

definition laid :: "Metadata \<Rightarrow> byte list \<Rightarrow> bool \<Rightarrow> int \<Rightarrow> Packet list \<Rightarrow> event_rec list \<Rightarrow> Packet list \<times> event_rec list \<times> decode_note option \<Rightarrow> bool" where
  "laid meta buf little off packets evs = (\<lambda>(ps, es, nt). \<exists>ps' rest. ps = packets @ ps' \<and> tiled (int (length buf)) off ps'
     \<and> (\<forall>j < length ps'. packet_read meta buf little (length packets + j) (ps' ! j))
     \<and> es = evs @ packed ps' @ rest \<and> stops meta buf little (length ps) (off + sum_list (map pk_size ps')) nt rest)"

lemma laid_step:
  assumes "laid meta buf little (off + pk_size p) (packets @ [p]) (evs @ pk_events p) r" "pk_offset p = off" "1 \<le> pk_size p"
    "off + pk_size p \<le> int (length buf)" "packet_read meta buf little (length packets) p"
  shows "laid meta buf little off packets evs r"
proof -
  obtain ps es nt where r: "r = (ps, es, nt)" by (cases r)
  obtain ps' rest where a: "ps = packets @ [p] @ ps'" "tiled (int (length buf)) (off + pk_size p) ps'"
    "\<forall>j < length ps'. packet_read meta buf little (Suc (length packets) + j) (ps' ! j)"
    "es = evs @ pk_events p @ packed ps' @ rest"
    "stops meta buf little (length ps) (off + pk_size p + sum_list (map pk_size ps')) nt rest"
    using assms(1) by (auto simp: laid_def r)
  have "packet_read meta buf little (length packets + j) ((p # ps') ! j)" if "j < length (p # ps')" for j
    using a(3) assms(5) that by (cases j) auto
  then show ?thesis unfolding laid_def r prod.case
    using assms(2-4) a by (intro exI[of _ "p # ps'"] exI[of _ rest]) (simp add: add.assoc)
qed

lemma decode_loop_opened:
  assumes "off < int (length buf)" "\<not> blank_tail buf off" "open_packet meta buf little (length packets) off = Inr (Inr k)"
    "o_base_ts k = VInt b"
    "event_loop meta buf little (length packets) (VInt b) (off + o_csize k) (o_cur k, VInt b, []) = Some r" "no_raise r"
  shows "decode_loop meta buf little off packets evs = (case r of
          Inl (t, part) \<Rightarrow> Some (Inr (packets, evs @ part, Some (TruncatedIn (length packets) (case t of Torn x \<Rightarrow> x | Raised e \<Rightarrow> UnknownEvent))))
        | Inr (_, _, part) \<Rightarrow> decode_loop meta buf little (off + o_psize k)
            (packets @ [\<lparr>pk_header = o_hdr k, pk_context = o_ctx k, pk_events = part, pk_offset = off, pk_size = o_psize k\<rparr>])
            (evs @ part))"
  unfolding decode_loop.simps[of meta buf little off packets evs] using assms by (cases r rule: no_raise.cases) simp_all

text \<open>The cases of one turn of the outer loop on well-formed metadata.\<close>

lemma decode_loop_turn:
  assumes "meta_ok meta" "0 \<le> off"
  obtains
    (blank) "decode_loop meta buf little off packets evs = Some (Inr (packets, evs, None))"
      "stops meta buf little (length packets) off None []"
  | (noted) nt where "off < int (length buf)" "decode_loop meta buf little off packets evs = Some (Inr (packets, evs, Some nt))"
      "\<forall>k. open_packet meta buf little (length packets) off \<noteq> Inr (Inr k)" "stops meta buf little (length packets) off (Some nt) []"
  | (turn) k b r where "off < int (length buf)" "\<not> blank_tail buf off"
      "open_packet meta buf little (length packets) off = Inr (Inr k)" "o_base_ts k = VInt b"
      "event_loop meta buf little (length packets) (VInt b) (off + o_csize k) (o_cur k, VInt b, []) = Some r" "no_raise r"
      "decode_loop meta buf little off packets evs = (case r of
          Inl (t, part) \<Rightarrow> Some (Inr (packets, evs @ part, Some (TruncatedIn (length packets) (case t of Torn x \<Rightarrow> x | Raised e \<Rightarrow> UnknownEvent))))
        | Inr (_, _, part) \<Rightarrow> decode_loop meta buf little (off + o_psize k)
            (packets @ [\<lparr>pk_header = o_hdr k, pk_context = o_ctx k, pk_events = part, pk_offset = off, pk_size = o_psize k\<rparr>])
            (evs @ part))"
proof (cases "off < int (length buf) \<and> \<not> blank_tail buf off")
  case False
  then show thesis using blank by (auto simp: decode_loop.simps stops_def)
next
  case True
  note u = decode_loop.simps[of meta buf little off packets evs]
  show thesis
  proof (cases "open_packet meta buf little (length packets) off")
    case (Inl e)
    then obtain t where "e = Torn t" using open_packet_no_raise[OF assms] by (cases e) auto
    then show thesis using noted[of "TruncatedIn (length packets) t"] True Inl u by (simp add: stops_def)
  next
    case (Inr q)
    show thesis
    proof (cases q)
      case (Inl nt)
      then show thesis using noted[of nt] True Inr u by (simp add: stops_def)
    next
      case (Inr k)
      with \<open>open_packet _ _ _ _ _ = Inr q\<close> have k: "open_packet meta buf little (length packets) off = Inr (Inr k)" by simp
      obtain b where b: "o_base_ts k = VInt b" "0 \<le> o_cur k" using open_packet_ok[OF assms k] by blast
      obtain r where r: "event_loop meta buf little (length packets) (VInt b) (off + o_csize k) (o_cur k, VInt b, []) = Some r"
        "no_raise r" using event_loop_ends[OF assms(1) b(2)] by blast
      with True k b show thesis by (intro turn[OF _ _ k b(1) r] decode_loop_opened) auto
    qed
  qed
qed


lemma decode_loop_ends:
  assumes "meta_ok meta" "0 \<le> off"
  shows "\<exists>r. decode_loop meta buf little off packets evs = Some (Inr r) \<and> laid meta buf little off packets evs r"
  using assms(2)
proof (induction "nat (int (length buf) - off)" arbitrary: off packets evs rule: less_induct)
  case less
  from assms(1) less.prems show ?case
  proof (cases rule: decode_loop_turn[of meta off buf little packets evs])
    case (turn k b r)
    note o = open_packet_ok[OF assms(1) less.prems turn(3), of "[]"]
    note rd = event_loop_reads[OF turn(5)]
    show ?thesis
    proof (cases r rule: events_of.cases)
      case (1 e part)
      then obtain t where e: "e = Torn t" using turn(6) by (cases e) auto
      have "stops meta buf little (length packets) off (Some (TruncatedIn (length packets) t)) part"
        using rd turn(1-4) unfolding 1 e by (auto simp: stops_def)
      then show ?thesis using turn(7) unfolding 1 e by (simp add: laid_def)
    next
      case (2 off' l part)
      let ?p = "\<lparr>pk_header = o_hdr k, pk_context = o_ctx k, pk_events = part, pk_offset = off, pk_size = o_psize k\<rparr>"
      have "\<exists>x. decode_loop meta buf little (off + o_psize k) (packets @ [?p]) (evs @ part) = Some (Inr x)
        \<and> laid meta buf little (off + o_psize k) (packets @ [?p]) (evs @ part) x"
        using o less.prems turn(1) by (intro less.hyps) auto
      then obtain x where x: "decode_loop meta buf little (off + o_psize k) (packets @ [?p]) (evs @ part) = Some (Inr x)"
        "laid meta buf little (off + o_psize k) (packets @ [?p]) (evs @ part) x" by blast
      have "packet_read meta buf little (length packets) ?p"
        using rd turn(3,4) unfolding 2 packet_read_def by auto
      then have "laid meta buf little off packets evs x" using o x(2) by (intro laid_step[of meta buf little off ?p]) auto
      then show ?thesis using turn(7) 2 x(1) by simp
    qed
  qed (auto simp: laid_def)
qed

lemma decode_loop_extends:
  assumes "decode_loop meta buf little off packets evs = Some (Inr (ps, es, nt))" "meta_ok meta" "0 \<le> off"
  shows "prefix packets ps" "prefix evs es"
  using decode_loop_ends[OF assms(2,3), of buf little packets evs] assms(1) by (auto simp: laid_def)

lemma decode_loop_torn:
  assumes "meta_ok meta" "0 \<le> off" "decode_loop meta buf little off packets evs = Some (Inr (ps, es, nt))"
    "decode_loop meta (buf @ ext) little off packets evs = Some (Inr (ps', es', nt'))"
  shows "prefix ps ps' \<and> prefix es es'"
  using assms(2-)
proof (induction "nat (int (length buf) - off)" arbitrary: off packets evs rule: less_induct)
  case less
  have grow: "prefix packets ps' \<and> prefix evs es'"
    using decode_loop_extends[OF less.prems(3) assms(1) less.prems(1)] by simp
  from assms(1) less.prems(1) show ?case
  proof (cases rule: decode_loop_turn[of meta off buf little packets evs])
    case (turn k b r)
    note o = open_packet_ok[OF assms(1) less.prems(1) turn(3), of ext]
    have nb: "\<not> blank_tail (buf @ ext) off"
      using turn(2) o less.prems(1) by (simp add: blank_tail_def py_slice_append)
    from assms(1) less.prems(1) obtain r' where
      r': "event_loop meta (buf @ ext) little (length packets) (VInt b) (off + o_csize k) (o_cur k, VInt b, []) = Some r'" "no_raise r'"
      using event_loop_ends o by blast
    have st: "prefix (events_of r) (events_of r') \<and> (\<not> isl r \<longrightarrow> r' = r)"
      using o by (intro event_loop_stable[OF assms(1) _ turn(5) r'(1)]) simp
    have w: "decode_loop meta (buf @ ext) little off packets evs = (case r' of
        Inl (t, part) \<Rightarrow> Some (Inr (packets, evs @ part, Some (TruncatedIn (length packets) (case t of Torn x \<Rightarrow> x | Raised e \<Rightarrow> UnknownEvent))))
      | Inr (_, _, part) \<Rightarrow> decode_loop meta (buf @ ext) little (off + o_psize k)
          (packets @ [\<lparr>pk_header = o_hdr k, pk_context = o_ctx k, pk_events = part, pk_offset = off, pk_size = o_psize k\<rparr>])
          (evs @ part))"
      using turn(1,4) o nb r' by (intro decode_loop_opened) auto
    show ?thesis
    proof (cases r rule: events_of.cases)
      case (1 t part)
      then have t: "ps = packets" "es = evs @ part" using turn(7) less.prems(2) by simp_all
      have "prefix (evs @ events_of r') es'"
      proof (cases r' rule: events_of.cases)
        case (2 off' l part')
        have "0 \<le> off + o_psize k" using less.prems(1) o by simp
        from decode_loop_extends(2)[OF trans[OF w[unfolded 2 sum.case prod.case, symmetric] less.prems(3)] assms(1) this]
        have "prefix (evs @ part') es'" .
        then show ?thesis by (simp add: 2)
      qed (use w less.prems(3) in simp)
      moreover have "prefix (evs @ part) (evs @ events_of r')" using st 1 by simp
      ultimately have "prefix (evs @ part) es'" by (rule prefix_order.trans[rotated])
      then show ?thesis using t grow by simp
    next
      case (2 off' l part)
      then have r'': "r' = r" using st by simp
      show ?thesis
        using less.prems(2,3) turn(1,7) w o less.prems(1) unfolding 2 r''
        by (intro less.hyps[of "off + o_psize k"]) auto
    qed
  qed (use less.prems(2) grow in auto)
qed


section \<open>Properties of the decoder\<close>

text \<open>
  Property C21. On well-formed metadata (byte-sized fields, an integer magic, id and timestamps, unsigned
  packet sizes, at least one octet per event header) the decoder ends on every buffer and raises nothing.
  The packets lie back to back from offset 0 inside the buffer, each is the one that opens at its offset with
  exactly the events that parse one after the other up to its content end, and the event list is theirs in
  order. The decode stops behind the last packet for the reason its note gives; only when an event of a packet
  that opens there does not parse do further events follow, exactly those that parse before it.
\<close>

theorem decode_returns:
  assumes "meta_ok meta"
  shows "\<exists>ps es nt rest little. little = (byte_order meta = ''le'' \<or> byte_order meta = ''little_endian'')
    \<and> decode buf meta = Some (Inr (ps, es, nt)) \<and> tiled (int (length buf)) 0 ps
    \<and> (\<forall>j < length ps. packet_read meta buf little j (ps ! j))
    \<and> es = concat (map pk_events ps) @ rest \<and> stops meta buf little (length ps) (sum_list (map pk_size ps)) nt rest"
  using decode_loop_ends[OF assms, of 0 buf "byte_order meta = ''le'' \<or> byte_order meta = ''little_endian''" "[]" "[]"]
  by (auto simp: decode_def laid_def packed_def)

text \<open>
  Property C22. A trace cut short at any octet decodes to a prefix of the packets and a prefix of the events of
  the whole trace: a torn segment never yields a record the full one does not have.
\<close>

theorem torn_prefix:
  assumes "meta_ok meta" "decode (take n buf) meta = Some (Inr (ps, es, nt))" "decode buf meta = Some (Inr (ps', es', nt'))"
  shows "prefix ps ps' \<and> prefix es es'"
  using decode_loop_torn[OF assms(1), of 0 "take n buf" _ "[]" "[]" ps es nt "drop n buf" ps' es' nt'] assms(2,3)
  by (simp add: decode_def)

definition u8_t :: field_type where "u8_t = Int_field \<lparr>size = 8, signed = False, align = 8\<rparr>"

definition u32_t :: field_type where "u32_t = Int_field \<lparr>size = 32, signed = False, align = 8\<rparr>"

definition tiny_meta :: Metadata where
  "tiny_meta = \<lparr>byte_order = ''le'', packet_header = [(''magic'', u32_t)],
     packet_context = [(''packet_size'', u8_t), (''content_size'', u8_t)],
     event_header = [(''id'', u8_t), (''timestamp'', u8_t)], event_context = [], ev_types = [(7, ''beat'', [(''seq'', u8_t)])]\<rparr>"

definition tiny_buf :: "byte list" where
  "tiny_buf = [0xC1, 0x1F, 0xFC, 0xC1, 72, 72, 7, 5, 1]"

lemma tiny_meta_ok: "meta_ok tiny_meta"
  by (simp add: meta_ok_def tiny_meta_def u8_t_def u32_t_def members_ok_def struct_width_def nbytes_def has_def member_dict_def)

lemma tiny_decode: "decode tiny_buf tiny_meta = Some (Inr ([\<lparr>pk_header = [(''magic'', VInt 3254525889)],
            pk_context = [(''packet_size'', VInt 72), (''content_size'', VInt 72)],
            pk_events = [\<lparr>ts = VInt 5, ev_name = ''beat'', ev_id = 7, ev_packet = 0,
                  ev_ctx = [], ev_payload = [(''seq'', Raw (VInt 1))]\<rparr>],
            pk_offset = 0, pk_size = 9\<rparr>],
        [\<lparr>ts = VInt 5, ev_name = ''beat'', ev_id = 7, ev_packet = 0,
            ev_ctx = [], ev_payload = [(''seq'', Raw (VInt 1))]\<rparr>], None))"
  by code_simp

lemma tiny_decode_torn: "decode (take 8 tiny_buf) tiny_meta = Some (Inr ([], [], Some (PacketTruncated 0 9 8)))"
  by code_simp

theorem decode_returns_witness:
  "meta_ok tiny_meta \<and> (\<exists>ps es nt rest. decode tiny_buf tiny_meta = Some (Inr (ps, es, nt)) \<and> tiled (int (length tiny_buf)) 0 ps
    \<and> es = concat (map pk_events ps) @ rest \<and> length ps = 1 \<and> rest = [] \<and> packet_read tiny_meta tiny_buf True 0 (ps ! 0))"
proof -
  obtain ps es nt rest where d: "decode tiny_buf tiny_meta = Some (Inr (ps, es, nt))" "tiled (int (length tiny_buf)) 0 ps"
    "\<forall>j < length ps. packet_read tiny_meta tiny_buf True j (ps ! j)" "es = concat (map pk_events ps) @ rest"
    using decode_returns[OF tiny_meta_ok, of tiny_buf] by (auto simp: tiny_meta_def)
  moreover have "length ps = 1" "es = concat (map pk_events ps)" using d(1) tiny_decode by auto
  ultimately show ?thesis using tiny_meta_ok by (intro conjI exI[of _ ps] exI[of _ es] exI[of _ nt] exI[of _ rest]) simp_all
qed

theorem torn_prefix_witness:
  "\<exists>ps es nt ps' es' nt'. decode (take 8 tiny_buf) tiny_meta = Some (Inr (ps, es, nt))
     \<and> decode tiny_buf tiny_meta = Some (Inr (ps', es', nt')) \<and> prefix ps ps' \<and> prefix es es' \<and> length ps < length ps'"
  using torn_prefix[OF tiny_meta_ok tiny_decode_torn tiny_decode] tiny_decode_torn tiny_decode by force

section \<open>A field of no width\<close>

text \<open>
  The parser gives an integer declared without a size the size 0, and \<^const>\<open>validate\<close> asks only that an
  \<^verbatim>\<open>id\<close> member exists: an event of no octets keeps the cursor where it is and the inner loop runs for ever.
\<close>

definition stuck_meta :: Metadata where
  "stuck_meta = tiny_meta\<lparr>event_header := [(''id'', Int_field \<lparr>size = 0, signed = False, align = 8\<rparr>)], ev_types := [(0, ''none'', [])]\<rparr>"

lemma event_loop_stuck:
  assumes "\<And>evs. \<exists>evs'. event_step meta buf little n base (off, l, evs) = Inr (off, l, evs')" "off < ce"
  shows "event_loop meta buf little n base ce (off, l, evs) = None"
proof (rule ccontr)
  have st: "\<not> (m = meta \<and> bu = buf \<and> li = little \<and> np = n \<and> ba = base \<and> cc = ce \<and> fst s = off \<and> fst (snd s) = l)"
    if "event_loop m bu li np ba cc s = Some r" for m bu li np ba cc s r
  proof (rule event_loop.raw_induct[where P = "\<lambda>m bu li np ba cc s r. \<not> (m = meta \<and> bu = buf \<and> li = little \<and> np = n
      \<and> ba = base \<and> cc = ce \<and> fst s = off \<and> fst (snd s) = l)", OF _ that])
    fix el m bu li np ba cc s r
    assume ih: "\<And>m bu li np ba cc s r. el m bu li np ba cc s = Some r \<Longrightarrow> \<not> (m = meta \<and> bu = buf \<and> li = little \<and> np = n
        \<and> ba = base \<and> cc = ce \<and> fst s = off \<and> fst (snd s) = l)"
      and u: "(if fst s < cc then case event_step m bu li np ba s of Inl e \<Rightarrow> Some (Inl (e, snd (snd s)))
        | Inr st' \<Rightarrow> el m bu li np ba cc st' else Some (Inr s)) = Some r"
    show "\<not> (m = meta \<and> bu = buf \<and> li = little \<and> np = n \<and> ba = base \<and> cc = ce \<and> fst s = off \<and> fst (snd s) = l)"
    proof
      assume a: "m = meta \<and> bu = buf \<and> li = little \<and> np = n \<and> ba = base \<and> cc = ce \<and> fst s = off \<and> fst (snd s) = l"
      then obtain evs where s: "s = (off, l, evs)" by (cases s) auto
      obtain evs' where e: "event_step meta buf little n base s = Inr (off, l, evs')" using assms(1) unfolding s by blast
      then have "el meta buf little n base ce (off, l, evs') = Some r" using u a assms(2) by (simp add: s)
      from ih[OF this] show False by simp
    qed
  qed
  assume "event_loop meta buf little n base ce (off, l, evs) \<noteq> None"
  then obtain r where "event_loop meta buf little n base ce (off, l, evs) = Some r" by blast
  from st[OF this] show False by simp
qed

lemma stuck_step: "event_step stuck_meta tiny_buf True 0 (VInt 0) (6, VInt 0, evs)
   = Inr (6, VInt 0, evs @ [\<lparr>ts = VInt 0, ev_name = ''none'', ev_id = 0, ev_packet = 0, ev_ctx = [], ev_payload = []\<rparr>])"
  by (simp add: event_step_def stuck_meta_def tiny_meta_def tiny_buf_def read_struct_def read_int_def align_to_def nbytes_def
    from_bytes_def py_slice_def norm_index_def slice_def torn_def raised_def extend_ts_def member_dict_def labelled_def)


text \<open>Validated metadata on which the decoder does not return.\<close>

lemma decode_stuck: "validate stuck_meta = Inr () \<and> decode tiny_buf stuck_meta = None"
proof -
  have o: "open_packet stuck_meta tiny_buf True 0 0 = Inr (Inr \<lparr>o_hdr = [(''magic'', VInt CTF_MAGIC)],
      o_ctx = [(''packet_size'', VInt 72), (''content_size'', VInt 72)], o_psize = 9, o_csize = 9, o_base_ts = VInt 0, o_cur = 6\<rparr>)"
    by code_simp
  have nb: "\<not> blank_tail tiny_buf 0" "0 < int (length tiny_buf)" by code_simp+
  have "event_loop stuck_meta tiny_buf True 0 (VInt 0) 9 (6, VInt 0, []) = None"
    using stuck_step by (intro event_loop_stuck) auto
  then have "decode_loop stuck_meta tiny_buf True 0 [] [] = None"
    by (subst decode_loop.simps) (simp add: o nb del: of_nat_0_less_iff)
  then show ?thesis by (simp add: decode_def) (simp add: validate_def stuck_meta_def tiny_meta_def)
qed

end
