(* ===== verification/Trace_Bundle.thy ===== *)
theory Trace_Bundle
  imports Flash_Map Ctf_Rules "HOL-Library.List_Lexorder" "HOL-Library.Product_Lexorder"
begin

text \<open>
  Trace bundles (\<^verbatim>\<open>sw/trace/trace_segment.py\<close>): a directory of numbered segments, each an xz stream of its own, packed by
  write, fsync and rename, read back in the order of the ordinals, and rotated oldest first under a byte budget.
  The xz codec is outside the repository: \<open>xz\<close> is the encoder, and \<open>feed\<close>, \<open>eof\<close> and \<open>d0\<close> the incremental decoder. A file name
  is text over ASCII. Printing is left out.
\<close>

section \<open>Names\<close>

definition SEGMENT_BYTES :: nat where "SEGMENT_BYTES = 256 * 1024"

definition PINNED_SEGMENT :: nat where "PINNED_SEGMENT = 0"

text \<open>The ceiling of a bundle, read from the flash map; without a readable map the code falls back to a constant.\<close>

definition user_slot :: "(slot list \<times> int \<times> int) option \<Rightarrow> int \<times> int" where
  "user_slot loaded = (case loaded of
       None \<Rightarrow> (2 * 1024 * 1024, 64 * 1024)
     | Some (rows, _, erase) \<Rightarrow> (case filter (\<lambda>(name, _). name = ''user'') rows of
           [] \<Rightarrow> (2 * 1024 * 1024, 64 * 1024)
         | (_, _, sz, _) # _ \<Rightarrow> (sz, erase)))"

definition USER_RESERVE_BLOCKS :: int where "USER_RESERVE_BLOCKS = 5"

definition DEFAULT_LOG_BUDGET :: "(slot list \<times> int \<times> int) option \<Rightarrow> int" where
  "DEFAULT_LOG_BUDGET loaded = (case user_slot loaded of (user_bytes, erase_bytes) \<Rightarrow> user_bytes - USER_RESERVE_BLOCKS * erase_bytes)"

text \<open>
  \<^verbatim>\<open>^seg-(\d{6})\.ctf(?:\.xz)?$\<close> on the last component of a path; \<^verbatim>\<open>$\<close> also stands before a final newline.
\<close>

definition seg_tails :: "pystr list" where
  "seg_tails = [lit ''.ctf'', lit ''.ctf.xz'', lit ''.ctf'' @ [10], lit ''.ctf.xz'' @ [10]]"

definition segment_number :: "pystr \<Rightarrow> nat option" where
  "segment_number name =
     (if take 4 name = lit ''seg-'' \<and> length (take 6 (drop 4 name)) = 6
         \<and> list_all (\<lambda>c. 48 \<le> c \<and> c \<le> 57) (take 6 (drop 4 name)) \<and> drop 10 name \<in> set seg_tails
      then Some (undec (take 6 (drop 4 name))) else None)"

definition seg_name :: "nat \<Rightarrow> pystr" where
  "seg_name n = (let d = dec_nat n in lit ''seg-'' @ replicate (6 - length d) 48 @ d @ lit ''.ctf.xz'')"

definition is_xz :: "pystr \<Rightarrow> bool" where
  "is_xz name = (drop (length name - 3) name = lit ''.xz'')"

section \<open>The directory\<close>

text \<open>The files of a directory by name, in the order a listing yields them.\<close>

type_synonym trace_dir = "(pystr \<times> byte list) list"

definition segments :: "trace_dir \<Rightarrow> (nat \<times> pystr \<times> byte list) list" where
  "segments dir = sort_key (\<lambda>(n, name, _). (n, name))
     (List.map_filter (\<lambda>(name, b). map_option (\<lambda>n. (n, name, b)) (segment_number name)) dir)"

section \<open>Packing\<close>

definition METADATA_NAME :: pystr where "METADATA_NAME = lit ''metadata''"

definition pack_target :: "pystr \<Rightarrow> pystr" where
  "pack_target name = (case segment_number name of Some n \<Rightarrow> seg_name n | None \<Rightarrow> name @ lit ''.xz'')"

definition partial_of :: "pystr \<Rightarrow> pystr" where
  "partial_of base = base @ lit ''.partial''"

definition commit :: "pystr \<Rightarrow> byte list \<Rightarrow> trace_dir \<Rightarrow> trace_dir" where
  "commit base blob dir = AList.update base blob (AList.delete (partial_of base) dir)"

fun pack_loop :: "(byte list \<Rightarrow> byte list) \<Rightarrow> trace_dir \<Rightarrow> (pystr \<times> byte list) list \<Rightarrow> trace_dir \<times> int" where
  "pack_loop xz dir [] = (dir, 0)"
| "pack_loop xz dir ((name, data) # raw) =
     (if length data > SEGMENT_BYTES then (dir, 1) else pack_loop xz (commit (pack_target name) (xz data) dir) raw)"

definition cmd_pack :: "(byte list \<Rightarrow> byte list) \<Rightarrow> byte list \<Rightarrow> trace_dir \<Rightarrow> (pystr \<times> byte list) list \<Rightarrow> trace_dir \<times> int" where
  "cmd_pack xz meta dir raw =
     (case pack_loop xz dir raw of (d, rc) \<Rightarrow>
        if rc \<noteq> 0 then (d, rc)
        else if map_of d METADATA_NAME = None then (AList.update METADATA_NAME meta d, 0) else (d, 0))"

section \<open>Reading back\<close>

text \<open>\<open>feed\<close> gives None when the decoder raises; \<open>blob[i:i + 65536]\<close> for the whole blob.\<close>

fun chunks :: "nat \<Rightarrow> byte list \<Rightarrow> byte list list" where
  "chunks k [] = []"
| "chunks k (b # bs) = (if k = 0 then [] else take k (b # bs) # chunks k (drop k (b # bs)))"

fun tolerant_loop :: "('d \<Rightarrow> byte list \<Rightarrow> ('d \<times> byte list) option) \<Rightarrow> ('d \<Rightarrow> bool) \<Rightarrow> 'd \<Rightarrow> byte list \<Rightarrow> byte list list \<Rightarrow> byte list \<times> bool" where
  "tolerant_loop feed eof d out [] = (out, \<not> eof d)"
| "tolerant_loop feed eof d out (c # cs) =
     (case feed d c of None \<Rightarrow> (out, True) | Some (d', o') \<Rightarrow> tolerant_loop feed eof d' (out @ o') cs)"

definition decompress_tolerant ::
    "('d \<Rightarrow> byte list \<Rightarrow> ('d \<times> byte list) option) \<Rightarrow> ('d \<Rightarrow> bool) \<Rightarrow> 'd \<Rightarrow> byte list \<Rightarrow> byte list \<times> bool" where
  "decompress_tolerant feed eof d0 blob = tolerant_loop feed eof d0 [] (chunks 65536 blob)"

definition segment_data ::
    "('d \<Rightarrow> byte list \<Rightarrow> ('d \<times> byte list) option) \<Rightarrow> ('d \<Rightarrow> bool) \<Rightarrow> 'd \<Rightarrow> pystr \<Rightarrow> byte list \<Rightarrow> byte list \<times> bool" where
  "segment_data feed eof d0 name blob = (if is_xz name then decompress_tolerant feed eof d0 blob else (blob, False))"

text \<open>The octets of \<^verbatim>\<open>stream_0\<close> and the ordinals of the truncated segments.\<close>

definition unpack_segments ::
    "('d \<Rightarrow> byte list \<Rightarrow> ('d \<times> byte list) option) \<Rightarrow> ('d \<Rightarrow> bool) \<Rightarrow> 'd \<Rightarrow> trace_dir \<Rightarrow> byte list \<times> nat list" where
  "unpack_segments feed eof d0 dir =
     (let segs = segments dir; rd = (\<lambda>(n, name, blob). segment_data feed eof d0 name blob) in
      (concat (map (fst \<circ> rd) segs), map fst (filter (snd \<circ> rd) segs)))"

text \<open>The output directory is another one than the bundle: \<^verbatim>\<open>copyfile\<close> onto itself would raise.\<close>

definition STREAM_NAME :: pystr where "STREAM_NAME = lit ''stream_0''"

definition meta_for :: "byte list \<Rightarrow> trace_dir \<Rightarrow> byte list" where
  "meta_for generated dir = (case map_of dir METADATA_NAME of Some m \<Rightarrow> m | None \<Rightarrow> generated)"

definition cmd_unpack ::
    "('d \<Rightarrow> byte list \<Rightarrow> ('d \<times> byte list) option) \<Rightarrow> ('d \<Rightarrow> bool) \<Rightarrow> 'd \<Rightarrow> byte list \<Rightarrow> trace_dir \<Rightarrow> trace_dir \<Rightarrow> trace_dir \<times> nat list" where
  "cmd_unpack feed eof d0 generated dir out =
     (case unpack_segments feed eof d0 dir of (data, truncated) \<Rightarrow>
        (AList.update STREAM_NAME data (AList.update METADATA_NAME (meta_for generated dir) out), truncated))"

text \<open>
  The report of \<^verbatim>\<open>verify\<close>: packets, events and segments with a note. A directory without a segment is opened as
  a file, which raises.
\<close>

fun verify_loop :: "Metadata \<Rightarrow> byte list list \<Rightarrow> nat \<times> nat \<times> nat \<Rightarrow> (nat \<times> nat \<times> nat) ctf option" where
  "verify_loop meta [] acc = Some (Inr acc)"
| "verify_loop meta (b # bs) (pk, ev, bad) =
     (case decode b meta of
        None \<Rightarrow> None
      | Some (Inl e) \<Rightarrow> Some (Inl e)
      | Some (Inr (packets, events, note)) \<Rightarrow>
          verify_loop meta bs (pk + length packets, ev + length events, bad + (if note = None then 0 else 1)))"

definition cmd_verify ::
    "('d \<Rightarrow> byte list \<Rightarrow> ('d \<times> byte list) option) \<Rightarrow> ('d \<Rightarrow> bool) \<Rightarrow> 'd \<Rightarrow> Metadata \<Rightarrow> trace_dir \<Rightarrow> (nat \<times> nat \<times> nat) ctf option" where
  "cmd_verify feed eof d0 meta dir =
     (if segments dir = [] then Some (Inl OSError)
      else verify_loop meta (map (\<lambda>(n, name, blob). fst (segment_data feed eof d0 name blob)) (segments dir)) (0, 0, 0))"

section \<open>Rotation\<close>

text \<open>\<^verbatim>\<open>sizes\<close> is keyed by the ordinal: of two files with one ordinal the later one's size stands.\<close>

definition sizes :: "(nat \<times> pystr \<times> byte list) list \<Rightarrow> (nat \<times> nat) list" where
  "sizes segs = fold (\<lambda>(n, _, b). AList.update n (length b)) segs []"

definition size_of :: "(nat \<times> nat) list \<Rightarrow> nat \<Rightarrow> int" where
  "size_of sz n = (case map_of sz n of Some k \<Rightarrow> int k | None \<Rightarrow> 0)"

fun evict :: "int \<Rightarrow> bool \<Rightarrow> (nat \<times> nat) list \<Rightarrow> (nat \<times> pystr \<times> byte list) list \<Rightarrow> int \<Rightarrow> (nat \<times> pystr) list \<Rightarrow> int \<times> (nat \<times> pystr) list" where
  "evict budget pinned_too sz [] tot removed = (tot, removed)"
| "evict budget pinned_too sz ((n, name, b) # segs) tot removed =
     (if tot \<le> budget then (tot, removed)
      else if n = PINNED_SEGMENT \<and> \<not> pinned_too then evict budget pinned_too sz segs tot removed
      else evict budget pinned_too sz segs (tot - size_of sz n) (removed @ [(n, name)]))"

record rotation =
  rt_dir :: trace_dir
  rt_total :: int
  rt_removed :: "(nat \<times> pystr) list"
  rt_status :: int

definition cmd_rotate :: "int \<Rightarrow> bool \<Rightarrow> bool \<Rightarrow> trace_dir \<Rightarrow> rotation" where
  "cmd_rotate budget dry_run evict_pinned dir =
     (let segs = segments dir; sz = sizes segs;
          (tot, removed) = evict budget evict_pinned sz segs (sum_list (map (int \<circ> snd) sz)) []
      in \<lparr>rt_dir = (if dry_run then dir else fold (\<lambda>(_, name). AList.delete name) removed dir),
          rt_total = tot, rt_removed = removed, rt_status = (if tot > budget then 1 else 0)\<rparr>)"

section \<open>Ordinals\<close>

lemma length_dec_nat: "n < 10 ^ Suc k \<Longrightarrow> length (dec_nat n) \<le> Suc k"
proof (induction n arbitrary: k rule: dec_nat.induct)
  case (1 n)
  show ?case
  proof (cases "n < 10")
    case True
    then show ?thesis by (subst dec_nat.simps) simp
  next
    case False
    then obtain j where k: "k = Suc j" using 1(2) by (cases k) auto
    then have "n div 10 < 10 ^ Suc j" using 1(2) by (simp add: div_less_iff_less_mult mult.commute)
    then have "length (dec_nat (n div 10)) \<le> Suc j" using 1(1) False by blast
    then show ?thesis using False k by (subst dec_nat.simps) simp
  qed
qed

lemma undec_zeros: "undec (replicate k 48 @ s) = undec s"
  by (induction k) (simp_all add: undec_def)

lemma undec_bound: "list_all (\<lambda>c. 48 \<le> c \<and> c \<le> 57) s \<Longrightarrow> undec s < 10 ^ length s"
proof (induction s rule: rev_induct)
  case (snoc c s)
  have "undec (s @ [c]) = 10 * undec s + (c - 48)" by (simp add: undec_def)
  moreover have "c - 48 \<le> 9" "undec s < 10 ^ length s" using snoc by auto
  ultimately show ?case by simp
qed (simp add: undec_def)

lemma segment_number_bound: "segment_number s = Some n \<Longrightarrow> n < 1000000"
  using undec_bound[of "take 6 (drop 4 s)"] by (auto simp: segment_number_def split: if_splits)

lemma segment_number_seg_name:
  assumes "n < 1000000"
  shows "segment_number (seg_name n) = Some n" "is_xz (seg_name n)"
proof -
  define p where "p = replicate (6 - length (dec_nat n)) 48 @ dec_nat n"
  have len: "length p = 6" using length_dec_nat[of n 5] assms by (simp add: p_def)
  have dig: "list_all (\<lambda>c. 48 \<le> c \<and> c \<le> 57) p" using dec_nat_digits by (auto simp: p_def list_all_iff)
  have s: "seg_name n = lit ''seg-'' @ p @ lit ''.ctf.xz''" by (simp add: seg_name_def p_def Let_def)
  have "take 6 (drop 4 (seg_name n)) = p" "take 4 (seg_name n) = lit ''seg-''" "drop 10 (seg_name n) = lit ''.ctf.xz''"
    by (simp_all add: s len lit_def)
  moreover have "undec p = n" by (simp add: p_def undec_zeros)
  ultimately show "segment_number (seg_name n) = Some n" using len dig by (simp add: segment_number_def seg_tails_def)
  show "is_xz (seg_name n)" by (simp add: is_xz_def s len lit_def)
qed

lemma segment_number_partial [simp]: "segment_number (partial_of base) = None"
proof (rule ccontr)
  assume "segment_number (partial_of base) \<noteq> None"
  then have t: "drop 10 (partial_of base) \<in> set seg_tails" by (auto simp: segment_number_def split: if_splits)
  then have "drop 10 (partial_of base) \<noteq> []" by (auto simp: seg_tails_def lit_def)
  then have "last (drop 10 (partial_of base)) = last (partial_of base)" by (intro last_drop) auto
  also have "\<dots> = 108" by (simp add: partial_of_def lit_def)
  finally show False using t by (auto simp: seg_tails_def lit_def)
qed

lemma segment_number_metadata [simp]: "segment_number METADATA_NAME = None"
  by (simp add: segment_number_def METADATA_NAME_def lit_def)

lemma segment_number_metadata_target: "pack_target name \<noteq> METADATA_NAME" "pack_target name \<noteq> partial_of METADATA_NAME"
  "METADATA_NAME \<noteq> partial_of base" "partial_of base = partial_of base' \<longleftrightarrow> base = base'"
proof -
  have "\<exists>q. pack_target name = q @ lit ''.xz''"
    by (cases "segment_number name") (auto simp: pack_target_def seg_name_def Let_def lit_def)
  then obtain q where "pack_target name = q @ lit ''.xz''" by blast
  then have l: "last (pack_target name) = 122" by (simp add: lit_def)
  have m: "last METADATA_NAME = 97" and p: "last (partial_of b) = 108" for b by (simp_all add: METADATA_NAME_def partial_of_def lit_def)
  show "pack_target name \<noteq> METADATA_NAME" using l m by force
  show "pack_target name \<noteq> partial_of METADATA_NAME" using l p[of METADATA_NAME] by force
  show "METADATA_NAME \<noteq> partial_of base" using m p[of base] by force
  show "partial_of base = partial_of base' \<longleftrightarrow> base = base'" by (simp add: partial_of_def)
qed

section \<open>Packing as a machine\<close>

text \<open>
  What the file system goes through while \<^verbatim>\<open>cmd_pack\<close> runs, one rule per system call: the temporary file is opened and grows by
  writes of any size, the rename puts the finished stream in place. The metadata copy is written in place.
\<close>

datatype phase =
    Ready
  | Writing pystr "byte list" nat
  | Copying nat
  | Stopped int

record pack_state =
  pk_dir :: trace_dir
  pk_todo :: "(pystr \<times> byte list) list"
  pk_phase :: phase

inductive pack_step :: "(byte list \<Rightarrow> byte list) \<Rightarrow> byte list \<Rightarrow> pack_state \<Rightarrow> pack_state \<Rightarrow> bool" for xz meta where
  open_partial: "length data \<le> SEGMENT_BYTES \<Longrightarrow> base = pack_target name \<Longrightarrow>
     pack_step xz meta \<lparr>pk_dir = dir, pk_todo = (name, data) # raw, pk_phase = Ready\<rparr>
       \<lparr>pk_dir = AList.update (partial_of base) [] dir, pk_todo = raw, pk_phase = Writing base (xz data) 0\<rparr>"
| write_some: "k < j \<Longrightarrow> j \<le> length blob \<Longrightarrow>
     pack_step xz meta \<lparr>pk_dir = dir, pk_todo = raw, pk_phase = Writing base blob k\<rparr>
       \<lparr>pk_dir = AList.update (partial_of base) (take j blob) dir, pk_todo = raw, pk_phase = Writing base blob j\<rparr>"
| rename: "k = length blob \<Longrightarrow>
     pack_step xz meta \<lparr>pk_dir = dir, pk_todo = raw, pk_phase = Writing base blob k\<rparr>
       \<lparr>pk_dir = commit base blob dir, pk_todo = raw, pk_phase = Ready\<rparr>"
| refuse: "length data > SEGMENT_BYTES \<Longrightarrow>
     pack_step xz meta \<lparr>pk_dir = dir, pk_todo = (name, data) # raw, pk_phase = Ready\<rparr>
       \<lparr>pk_dir = dir, pk_todo = (name, data) # raw, pk_phase = Stopped 1\<rparr>"
| copy_open: "map_of dir METADATA_NAME = None \<Longrightarrow>
     pack_step xz meta \<lparr>pk_dir = dir, pk_todo = [], pk_phase = Ready\<rparr>
       \<lparr>pk_dir = AList.update METADATA_NAME [] dir, pk_todo = [], pk_phase = Copying 0\<rparr>"
| copy_some: "k < j \<Longrightarrow> j \<le> length meta \<Longrightarrow>
     pack_step xz meta \<lparr>pk_dir = dir, pk_todo = [], pk_phase = Copying k\<rparr>
       \<lparr>pk_dir = AList.update METADATA_NAME (take j meta) dir, pk_todo = [], pk_phase = Copying j\<rparr>"
| copied: "k = length meta \<Longrightarrow>
     pack_step xz meta \<lparr>pk_dir = dir, pk_todo = [], pk_phase = Copying k\<rparr> \<lparr>pk_dir = dir, pk_todo = [], pk_phase = Stopped 0\<rparr>"
| finished: "map_of dir METADATA_NAME \<noteq> None \<Longrightarrow>
     pack_step xz meta \<lparr>pk_dir = dir, pk_todo = [], pk_phase = Ready\<rparr> \<lparr>pk_dir = dir, pk_todo = [], pk_phase = Stopped 0\<rparr>"

inductive_cases stoppedE: "pack_step xz meta \<lparr>pk_dir = dir, pk_todo = raw, pk_phase = Stopped rc\<rparr> st"

definition pack_start :: "trace_dir \<Rightarrow> (pystr \<times> byte list) list \<Rightarrow> pack_state" where
  "pack_start dir raw = \<lparr>pk_dir = dir, pk_todo = raw, pk_phase = Ready\<rparr>"

abbreviation pack_reaches :: "(byte list \<Rightarrow> byte list) \<Rightarrow> byte list \<Rightarrow> pack_state \<Rightarrow> pack_state \<Rightarrow> bool" where
  "pack_reaches xz meta \<equiv> (pack_step xz meta)\<^sup>*\<^sup>*"

text \<open>What a reader of the directory may find under a segment name: the old file, or a whole new stream.\<close>

definition from_raw :: "(byte list \<Rightarrow> byte list) \<Rightarrow> (pystr \<times> byte list) list \<Rightarrow> pystr \<Rightarrow> byte list \<Rightarrow> bool" where
  "from_raw xz raw s blob \<longleftrightarrow> (\<exists>(name, data) \<in> set raw. length data \<le> SEGMENT_BYTES \<and> pack_target name = s \<and> blob = xz data)"

definition old_or_whole :: "(byte list \<Rightarrow> byte list) \<Rightarrow> (pystr \<times> byte list) list \<Rightarrow> trace_dir \<Rightarrow> trace_dir \<Rightarrow> bool" where
  "old_or_whole xz raw dir0 dir \<longleftrightarrow> (\<forall>s. segment_number s \<noteq> None
     \<longrightarrow> map_of dir s = map_of dir0 s \<or> (\<exists>blob. map_of dir s = Some blob \<and> from_raw xz raw s blob))"

fun phase_ok :: "(byte list \<Rightarrow> byte list) \<Rightarrow> (pystr \<times> byte list) list \<Rightarrow> phase \<Rightarrow> bool" where
  "phase_ok xz raw (Writing base blob k) \<longleftrightarrow> k \<le> length blob \<and> from_raw xz raw base blob"
| "phase_ok xz raw _ \<longleftrightarrow> True"

definition pack_inv :: "(byte list \<Rightarrow> byte list) \<Rightarrow> trace_dir \<Rightarrow> (pystr \<times> byte list) list \<Rightarrow> pack_state \<Rightarrow> bool" where
  "pack_inv xz dir0 raw0 st \<longleftrightarrow> set (pk_todo st) \<subseteq> set raw0 \<and> phase_ok xz raw0 (pk_phase st) \<and> old_or_whole xz raw0 dir0 (pk_dir st)"

lemma not_partial: "segment_number s \<noteq> None \<Longrightarrow> s \<noteq> partial_of base \<and> s \<noteq> METADATA_NAME"
  by auto

lemma commit_lookup: "segment_number s \<noteq> None \<Longrightarrow> map_of (commit base blob dir) s = (if s = base then Some blob else map_of dir s)"
  using not_partial[of s base] by (simp add: commit_def update_conv' delete_conv')

lemma other_lookup:
  "segment_number s \<noteq> None \<Longrightarrow> map_of (AList.update (partial_of base) b dir) s = map_of dir s"
  "segment_number s \<noteq> None \<Longrightarrow> map_of (AList.update METADATA_NAME b dir) s = map_of dir s"
  using not_partial[of s] by (simp_all add: update_conv')

lemma pack_step_inv: "pack_step xz meta st st' \<Longrightarrow> pack_inv xz dir0 raw0 st \<Longrightarrow> pack_inv xz dir0 raw0 st'"
proof (induction rule: pack_step.induct)
  case (open_partial data base name dir raw)
  then have "from_raw xz raw0 base (xz data)" by (force simp: pack_inv_def from_raw_def)
  then show ?case using open_partial by (simp add: pack_inv_def old_or_whole_def other_lookup)
qed (auto simp: pack_inv_def old_or_whole_def other_lookup commit_lookup)

text \<open>What the command still has to do from a state.\<close>

fun finish :: "(byte list \<Rightarrow> byte list) \<Rightarrow> byte list \<Rightarrow> pack_state \<Rightarrow> trace_dir \<times> int" where
  "finish xz meta \<lparr>pk_dir = dir, pk_todo = raw, pk_phase = Ready\<rparr> = cmd_pack xz meta dir raw"
| "finish xz meta \<lparr>pk_dir = dir, pk_todo = raw, pk_phase = Writing base blob k\<rparr> = cmd_pack xz meta (commit base blob dir) raw"
| "finish xz meta \<lparr>pk_dir = dir, pk_todo = raw, pk_phase = Copying k\<rparr> = (AList.update METADATA_NAME meta dir, 0)"
| "finish xz meta \<lparr>pk_dir = dir, pk_todo = raw, pk_phase = Stopped rc\<rparr> = (dir, rc)"

definition copy_ok :: "byte list \<Rightarrow> pack_state \<Rightarrow> bool" where
  "copy_ok meta st \<longleftrightarrow> (\<forall>k. pk_phase st = Copying k
     \<longrightarrow> pk_todo st = [] \<and> k \<le> length meta \<and> map_of (pk_dir st) METADATA_NAME = Some (take k meta))
     \<and> (\<forall>base blob k. pk_phase st = Writing base blob k \<longrightarrow> k \<le> length blob)"

lemma update_again: "AList.update k v (AList.update k w al) = AList.update k v al"
  by (induction al) auto

lemma update_same: "map_of al k = Some v \<Longrightarrow> AList.update k v al = al"
  by (induction al) (auto split: if_splits)

lemma delete_updated: "AList.delete k (AList.update k v al) = AList.delete k al"
  by (induction al) (auto simp: AList.delete_eq)

lemma commit_partial: "commit base blob (AList.update (partial_of base) b dir) = commit base blob dir"
  by (simp add: commit_def delete_updated)

lemma pack_step_copy_ok: "pack_step xz meta st st' \<Longrightarrow> copy_ok meta st \<Longrightarrow> copy_ok meta st'"
  by (induction rule: pack_step.induct) (auto simp: copy_ok_def update_conv')

lemma pack_step_finish: "pack_step xz meta st st' \<Longrightarrow> copy_ok meta st \<Longrightarrow> finish xz meta st' = finish xz meta st"
proof (induction rule: pack_step.induct)
  case (open_partial data base name dir raw)
  then show ?case by (simp add: commit_partial cmd_pack_def)
next
  case (copied k dir)
  then show ?case by (simp add: copy_ok_def update_same)
qed (auto simp: commit_partial cmd_pack_def update_again)

lemma pack_reaches_inv:
  assumes "pack_reaches xz meta (pack_start dir raw) st"
  shows "pack_inv xz dir raw st" "copy_ok meta st" "finish xz meta st = cmd_pack xz meta dir raw"
proof -
  have "pack_inv xz dir raw st \<and> copy_ok meta st \<and> finish xz meta st = cmd_pack xz meta dir raw"
    using assms
  proof (induction rule: rtranclp_induct)
    case base
    then show ?case by (simp add: pack_start_def pack_inv_def old_or_whole_def copy_ok_def)
  next
    case (step st st')
    then show ?case using pack_step_inv pack_step_copy_ok pack_step_finish by metis
  qed
  then show "pack_inv xz dir raw st" "copy_ok meta st" "finish xz meta st = cmd_pack xz meta dir raw" by simp_all
qed

definition pack_work :: "(byte list \<Rightarrow> byte list) \<Rightarrow> byte list \<Rightarrow> pack_state \<Rightarrow> nat" where
  "pack_work xz meta st =
     (let rest = (\<Sum>(name, data) \<leftarrow> pk_todo st. length (xz data) + 3) + length meta + 3 in
      case pk_phase st of Ready \<Rightarrow> rest | Writing base blob k \<Rightarrow> length blob - k + 1 + rest | Copying k \<Rightarrow> length meta - k + 1 | Stopped rc \<Rightarrow> 0)"

lemma pack_step_work: "pack_step xz meta st st' \<Longrightarrow> pack_work xz meta st' < pack_work xz meta st"
  by (induction rule: pack_step.induct) (auto simp: pack_work_def Let_def)

lemma pack_progress:
  assumes "copy_ok meta st" "\<And>rc. pk_phase st \<noteq> Stopped rc"
  shows "\<exists>st'. pack_step xz meta st st'"
proof -
  obtain dir raw ph where st: "st = \<lparr>pk_dir = dir, pk_todo = raw, pk_phase = ph\<rparr>" by (cases st) auto
  show ?thesis
  proof (cases ph)
    case Ready
    show ?thesis
    proof (cases raw)
      case Nil
      show ?thesis unfolding st Ready Nil
        by (cases "map_of dir METADATA_NAME = None") (blast intro: pack_step.copy_open pack_step.finished)+
    next
      case (Cons x raw')
      obtain name data where "x = (name, data)" by (cases x)
      then show ?thesis unfolding st Ready Cons
        by (cases "length data \<le> SEGMENT_BYTES") (auto simp: not_le intro: pack_step.open_partial pack_step.refuse)
    qed
  next
    case (Writing base blob k)
    then have "k \<le> length blob" using assms(1) by (simp add: copy_ok_def st)
    then consider "k = length blob" | "k < length blob" by linarith
    then show ?thesis unfolding st Writing by cases (blast intro: pack_step.rename pack_step.write_some)+
  next
    case (Copying k)
    then have c: "raw = []" "k \<le> length meta" using assms(1) by (simp_all add: copy_ok_def st)
    then consider "k = length meta" | "k < length meta" by linarith
    then show ?thesis unfolding st Copying c(1) by cases (blast intro: pack_step.copied pack_step.copy_some)+
  next
    case (Stopped rc)
    then show ?thesis using assms(2)[of rc] st by simp
  qed
qed

lemma pack_can_stop: "copy_ok meta st \<Longrightarrow> \<exists>st' rc. pack_reaches xz meta st st' \<and> pk_phase st' = Stopped rc"
proof (induction "pack_work xz meta st" arbitrary: st rule: less_induct)
  case less
  show ?case
  proof (cases "\<exists>rc. pk_phase st = Stopped rc")
    case False
    then obtain st' where s: "pack_step xz meta st st'" using pack_progress[OF less.prems] by blast
    from less.hyps[OF pack_step_work[OF s] pack_step_copy_ok[OF s less.prems]] s show ?thesis
      by (meson converse_rtranclp_into_rtranclp)
  qed blast
qed

text \<open>
  Property C32. A pack can be interrupted anywhere: in every directory the run goes through, whatever the sizes of its
  writes, a file with a segment name is either the file that was there before, untouched, or the complete stream of one
  of the sources. A half-written stream never carries a segment name.
\<close>

theorem pack_interruptible:
  assumes "pack_reaches xz meta (pack_start dir raw) st" "segment_number s = Some n"
  shows "map_of (pk_dir st) s = map_of dir s
     \<or> (\<exists>name data. (name, data) \<in> set raw \<and> length data \<le> SEGMENT_BYTES \<and> pack_target name = s \<and> map_of (pk_dir st) s = Some (xz data))"
  using pack_reaches_inv(1)[OF assms(1)] assms(2) by (fastforce simp: pack_inv_def old_or_whole_def from_raw_def)

text \<open>
  Property C33. The system calls of a pack implement the command: every run that stops leaves the directory and the status
  of \<open>cmd_pack\<close>, no run is infinite (each call reduces the work left), and from every state of a run the command can
  still be completed.
\<close>

theorem pack_refines_command:
  assumes "pack_reaches xz meta (pack_start dir raw) st"
  shows "(\<forall>rc. pk_phase st = Stopped rc \<longrightarrow> cmd_pack xz meta dir raw = (pk_dir st, rc))
     \<and> (\<forall>st'. pack_step xz meta st st' \<longrightarrow> pack_work xz meta st' < pack_work xz meta st)
     \<and> (\<exists>st' rc. pack_reaches xz meta st st' \<and> pk_phase st' = Stopped rc \<and> cmd_pack xz meta dir raw = (pk_dir st', rc))"
proof -
  have stop: "cmd_pack xz meta dir raw = (pk_dir u, rc)" if "pack_reaches xz meta (pack_start dir raw) u" "pk_phase u = Stopped rc" for u rc
    using pack_reaches_inv(3)[OF that(1)] that(2) by (cases u) auto
  obtain st' rc where s: "pack_reaches xz meta st st'" "pk_phase st' = Stopped rc"
    using pack_can_stop[OF pack_reaches_inv(2)[OF assms]] by blast
  moreover have "cmd_pack xz meta dir raw = (pk_dir st', rc)" using stop[OF rtranclp_trans[OF assms s(1)] s(2)] .
  ultimately show ?thesis using stop[OF assms] pack_step_work by blast
qed

section \<open>Packing and unpacking\<close>

fun feed_all :: "('d \<Rightarrow> byte list \<Rightarrow> ('d \<times> byte list) option) \<Rightarrow> 'd \<Rightarrow> byte list list \<Rightarrow> ('d \<times> byte list) option" where
  "feed_all feed d [] = Some (d, [])"
| "feed_all feed d (c # cs) = (case feed d c of None \<Rightarrow> None
     | Some (d', b) \<Rightarrow> (case feed_all feed d' cs of None \<Rightarrow> None | Some (e, b') \<Rightarrow> Some (e, b @ b')))"

text \<open>
  The documented behaviour of the codec: however an encoded stream is cut into non-empty pieces, the decoder takes them
  all, yields the plaintext and is at the end of the stream.
\<close>

definition xz_codec :: "(byte list \<Rightarrow> byte list) \<Rightarrow> ('d \<Rightarrow> byte list \<Rightarrow> ('d \<times> byte list) option) \<Rightarrow> ('d \<Rightarrow> bool) \<Rightarrow> 'd \<Rightarrow> bool" where
  "xz_codec xz feed eof d0 \<longleftrightarrow>
     (\<forall>data cs. concat cs = xz data \<and> [] \<notin> set cs \<longrightarrow> (\<exists>e. feed_all feed d0 cs = Some (e, data) \<and> eof e))"

lemma tolerant_feed_all: "feed_all feed d cs = Some (e, b) \<Longrightarrow> tolerant_loop feed eof d out cs = (out @ b, \<not> eof e)"
  by (induction cs arbitrary: d b out) (auto split: option.splits)

lemma chunks_concat: "0 < k \<Longrightarrow> concat (chunks k b) = b \<and> [] \<notin> set (chunks k b)"
  by (induction k b rule: chunks.induct) auto

lemma decompress_xz: "xz_codec xz feed eof d0 \<Longrightarrow> decompress_tolerant feed eof d0 (xz data) = (data, False)"
  using chunks_concat[of 65536 "xz data"] tolerant_feed_all[of feed d0 "chunks 65536 (xz data)" _ data eof "[]"]
  by (fastforce simp: xz_codec_def decompress_tolerant_def)

definition packed_dir :: "(byte list \<Rightarrow> byte list) \<Rightarrow> nat list \<Rightarrow> (pystr \<times> byte list) list \<Rightarrow> trace_dir" where
  "packed_dir xz ns raw = map2 (\<lambda>n r. (seg_name n, xz (snd r))) ns raw"

lemma seg_name_inject: "m < 1000000 \<Longrightarrow> n < 1000000 \<Longrightarrow> seg_name m = seg_name n \<longleftrightarrow> m = n"
  using segment_number_seg_name(1) by (metis option.inject)

lemma update_fresh: "k \<notin> fst ` set al \<Longrightarrow> AList.update k v al = al @ [(k, v)]"
  by (induction al) auto

lemma commit_fresh:
  assumes "base \<notin> fst ` set dir" "partial_of base \<notin> fst ` set dir"
  shows "commit base blob dir = dir @ [(base, blob)]"
  using assms by (simp add: commit_def AList.delete_id update_fresh)

lemma pack_loop_fresh:
  assumes "map (segment_number \<circ> fst) raw = map Some ns" "distinct ns" "\<forall>r \<in> set raw. length (snd r) \<le> SEGMENT_BYTES"
    "\<forall>s \<in> fst ` set dir. \<exists>m. s = seg_name m \<and> m < 1000000 \<and> m \<notin> set ns"
  shows "pack_loop xz dir raw = (dir @ packed_dir xz ns raw, 0)"
  using assms
proof (induction raw arbitrary: dir ns)
  case Nil
  then show ?case by (simp add: packed_dir_def)
next
  case (Cons r raw)
  obtain n ms where ns: "ns = n # ms" "segment_number (fst r) = Some n" "map (segment_number \<circ> fst) raw = map Some ms"
    using Cons.prems(1) by (cases ns) (auto simp: comp_def)
  have n: "n < 1000000" using segment_number_bound[OF ns(2)] .
  have "seg_name n \<notin> fst ` set dir" using Cons.prems(4) seg_name_inject n by (auto simp: ns(1))
  moreover have "partial_of (seg_name n) \<notin> fst ` set dir"
    using Cons.prems(4) segment_number_seg_name(1) by (metis option.distinct(1) segment_number_partial)
  ultimately have c: "commit (pack_target (fst r)) (xz (snd r)) dir = dir @ [(seg_name n, xz (snd r))]"
    using commit_fresh by (simp add: pack_target_def ns(2))
  have "pack_loop xz (dir @ [(seg_name n, xz (snd r))]) raw = ((dir @ [(seg_name n, xz (snd r))]) @ packed_dir xz ms raw, 0)"
    using Cons.prems n by (intro Cons.IH[OF ns(3)]) (auto simp: ns(1))
  then show ?case using Cons.prems(3) c by (cases r) (simp add: packed_dir_def ns(1))
qed

lemma packed_segments:
  assumes "length ns = length raw" "sorted_wrt (<) ns" "\<forall>n \<in> set ns. n < 1000000"
  shows "segments (packed_dir xz ns raw @ [(METADATA_NAME, meta)]) = map2 (\<lambda>n r. (n, seg_name n, xz (snd r))) ns raw"
proof -
  let ?f = "\<lambda>(name, b). map_option (\<lambda>n. (n, name, b)) (segment_number name)" and ?l = "map2 (\<lambda>n r. (n, seg_name n, xz (snd r))) ns raw"
  have "List.map_filter ?f (packed_dir xz ns raw) = ?l"
    using assms(1,3) unfolding packed_dir_def
    by (induction ns raw rule: list_induct2) (simp_all add: List.map_filter_simps segment_number_seg_name(1))
  then have "List.map_filter ?f (packed_dir xz ns raw @ [(METADATA_NAME, meta)]) = ?l"
    by (simp add: List.map_filter_def)
  moreover have "sorted (map (\<lambda>(n, name, _). (n, name)) ?l)"
  proof -
    have "map fst (map (\<lambda>(n, name, _). (n, name)) ?l) = ns" using assms(1) by (induction ns raw rule: list_induct2) auto
    then have "sorted_wrt (\<lambda>a b. fst a < fst b) (map (\<lambda>(n, name, _). (n, name)) ?l)"
      using assms(2) sorted_wrt_map[of "(<)" fst "map (\<lambda>(n, name, _). (n, name)) ?l"] by simp
    then show ?thesis by (rule sorted_wrt_mono_rel[rotated]) (simp add: less_eq_prod_def)
  qed
  ultimately show ?thesis by (simp add: segments_def sort_key_id_if_sorted)
qed

text \<open>
  Property C34. What is packed is what is read back: raw segments with increasing ordinals, each within the segment size,
  packed into an empty directory and unpacked again, give a stream with the octets of the segments one after the other and
  the metadata of the pack, with no segment reported truncated.
\<close>

theorem pack_unpack_round_trip:
  assumes "xz_codec xz feed eof d0" "map (segment_number \<circ> fst) raw = map Some ns" "sorted_wrt (<) ns"
    "\<forall>r \<in> set raw. length (snd r) \<le> SEGMENT_BYTES"
  shows "\<exists>dir out'. cmd_pack xz meta [] raw = (dir, 0) \<and> cmd_unpack feed eof d0 generated dir out = (out', [])
     \<and> map_of out' STREAM_NAME = Some (concat (map snd raw)) \<and> map_of out' METADATA_NAME = Some meta"
proof -
  have len: "length ns = length raw" using assms(2) by (metis length_map)
  have b: "\<forall>n \<in> set ns. n < 1000000"
  proof
    fix n assume "n \<in> set ns"
    then have "Some n \<in> set (map (segment_number \<circ> fst) raw)" unfolding assms(2) by simp
    then show "n < 1000000" using segment_number_bound by fastforce
  qed
  have dist: "distinct ns" using assms(3) by (simp add: strict_sorted_iff)
  note p = pack_loop_fresh[OF assms(2) dist assms(4), of "[]" xz, simplified]
  have names: "METADATA_NAME \<notin> fst ` set (packed_dir xz ns raw)"
  proof
    assume "METADATA_NAME \<in> fst ` set (packed_dir xz ns raw)"
    then obtain n where "n \<in> set ns" "METADATA_NAME = seg_name n" by (auto simp: packed_dir_def dest: set_zip_leftD)
    then show False using segment_number_seg_name(1)[of n] b segment_number_metadata by simp
  qed
  let ?dir = "packed_dir xz ns raw @ [(METADATA_NAME, meta)]"
  have c: "cmd_pack xz meta [] raw = (?dir, 0)"
    using names by (simp add: cmd_pack_def p update_fresh map_of_eq_None_iff)
  have rd: "segment_data feed eof d0 (seg_name n) (xz d) = (d, False)" if "n \<in> set ns" for n d
    using that b decompress_xz[OF assms(1)] segment_number_seg_name(2) by (simp add: segment_data_def)
  have "concat (map (fst \<circ> (\<lambda>(n, name, blob). segment_data feed eof d0 name blob)) (map2 (\<lambda>n r. (n, seg_name n, xz (snd r))) ns raw))
      = concat (map snd raw)
    \<and> filter (snd \<circ> (\<lambda>(n, name, blob). segment_data feed eof d0 name blob)) (map2 (\<lambda>n r. (n, seg_name n, xz (snd r))) ns raw) = []"
    using len rd by (induction ns raw rule: list_induct2) auto
  then have u: "unpack_segments feed eof d0 ?dir = (concat (map snd raw), [])"
    by (simp add: unpack_segments_def packed_segments[OF len assms(3) b] Let_def)
  have "map_of ?dir METADATA_NAME = Some meta" using map_of_eq_None_iff[THEN iffD2, OF names] by (simp add: map_add_def)
  moreover have "METADATA_NAME \<noteq> STREAM_NAME" by (simp add: METADATA_NAME_def STREAM_NAME_def lit_def)
  ultimately show ?thesis using c by (auto simp: cmd_unpack_def u meta_for_def update_conv')
qed

section \<open>Rotation\<close>

definition evictable :: "bool \<Rightarrow> (nat \<times> pystr \<times> byte list) list \<Rightarrow> (nat \<times> pystr \<times> byte list) list" where
  "evictable pinned_too segs = filter (\<lambda>(n, _). n \<noteq> PINNED_SEGMENT \<or> pinned_too) segs"

lemma evict_prefix:
  "\<exists>k \<le> length (evictable p segs). evict budget p sz segs t removed
       = (t - (\<Sum>(n, _) \<leftarrow> take k (evictable p segs). size_of sz n), removed @ map (\<lambda>(n, name, _). (n, name)) (take k (evictable p segs)))
     \<and> (t - (\<Sum>(n, _) \<leftarrow> take k (evictable p segs). size_of sz n) \<le> budget \<or> k = length (evictable p segs))
     \<and> (0 < k \<longrightarrow> t - (\<Sum>(n, _) \<leftarrow> take (k - 1) (evictable p segs). size_of sz n) > budget)"
proof (induction segs arbitrary: t removed)
  case (Cons x segs)
  obtain n name b where x: "x = (n, name, b)" by (cases x)
  consider (stop) "t \<le> budget" | (pin) "t > budget" "n = PINNED_SEGMENT" "\<not> p" | (drop) "t > budget" "n \<noteq> PINNED_SEGMENT \<or> p" by linarith
  then show ?case
  proof cases
    case stop
    then show ?thesis by (intro exI[of _ 0]) (simp add: x)
  next
    case pin
    then show ?thesis using Cons.IH[of t removed] by (simp add: x evictable_def)
  next
    case drop
    then have e: "evictable p (x # segs) = x # evictable p segs" by (auto simp: x evictable_def)
    obtain k where k: "k \<le> length (evictable p segs)" "evict budget p sz segs (t - size_of sz n) (removed @ [(n, name)])
       = (t - size_of sz n - (\<Sum>(n, _) \<leftarrow> take k (evictable p segs). size_of sz n),
          (removed @ [(n, name)]) @ map (\<lambda>(n, name, _). (n, name)) (take k (evictable p segs)))"
      "t - size_of sz n - (\<Sum>(n, _) \<leftarrow> take k (evictable p segs). size_of sz n) \<le> budget \<or> k = length (evictable p segs)"
      "0 < k \<longrightarrow> t - size_of sz n - (\<Sum>(n, _) \<leftarrow> take (k - 1) (evictable p segs). size_of sz n) > budget"
      using Cons.IH[of "t - size_of sz n" "removed @ [(n, name)]"] by blast
    have "evict budget p sz (x # segs) t removed = evict budget p sz segs (t - size_of sz n) (removed @ [(n, name)])"
      using drop by (auto simp: x)
    then show ?thesis using k drop(1) unfolding e by (intro exI[of _ "Suc k"]) (cases k; auto simp: x algebra_simps)
  qed
qed (simp add: evictable_def)

lemma sizes_distinct: "distinct (map fst segs) \<Longrightarrow> sizes segs = map (\<lambda>(n, _, b). (n, length b)) segs"
proof (induction segs rule: rev_induct)
  case (snoc x segs)
  obtain n s b where x: "x = (n, s, b)" by (cases x)
  have "sizes (segs @ [x]) = AList.update n (length b) (sizes segs)" by (simp add: sizes_def x)
  also have "\<dots> = AList.update n (length b) (map (\<lambda>(n, _, b). (n, length b)) segs)" using snoc by simp
  also have "\<dots> = map (\<lambda>(n, _, b). (n, length b)) segs @ [(n, length b)]" using snoc.prems x by (intro update_fresh) force
  finally show ?case by (simp add: x)
qed (simp add: sizes_def)

lemma size_of_distinct:
  assumes "distinct (map fst segs)" "(n, name, b) \<in> set segs"
  shows "size_of (sizes segs) n = int (length b)"
proof -
  have "map_of (map (\<lambda>(n, _, b). (n, length b)) segs) n = Some (length b)"
    using assms by (induction segs) (auto simp: rev_image_eqI)
  then show ?thesis by (simp add: size_of_def sizes_distinct[OF assms(1)])
qed

lemma fold_delete: "fold (\<lambda>(_, name). AList.delete name) removed dir = filter (\<lambda>(s, _). s \<notin> snd ` set removed) dir"
proof (induction removed arbitrary: dir)
  case (Cons x removed)
  have "fold (\<lambda>(_, name). AList.delete name) (x # removed) dir
      = filter (\<lambda>(s, _). s \<notin> snd ` set removed) (AList.delete (snd x) dir)"
    by (cases x) (simp add: Cons.IH)
  also have "\<dots> = filter (\<lambda>(s, _). s \<notin> snd ` set (x # removed)) dir"
    unfolding AList.delete_eq filter_filter by (intro filter_cong) auto
  finally show ?case .
qed simp

lemma segments_filter: "segments (filter (\<lambda>(s, _). P s) dir) = filter (\<lambda>(_, s, _). P s) (segments dir)"
proof -
  let ?f = "\<lambda>(name, b). map_option (\<lambda>n. (n, name, b)) (segment_number name)"
  have "List.map_filter ?f (filter (\<lambda>(s, _). P s) dir) = filter (\<lambda>(_, s, _). P s) (List.map_filter ?f dir)"
    by (induction dir) (auto simp: List.map_filter_simps split: option.splits)
  then show ?thesis by (simp add: segments_def filter_sort)
qed

lemma set_segments: "(n, s, b) \<in> set (segments dir) \<longleftrightarrow> (s, b) \<in> set dir \<and> segment_number s = Some n"
  by (force simp: segments_def List.map_filter_def)

definition seg_bytes :: "(nat \<times> pystr \<times> byte list) list \<Rightarrow> int" where
  "seg_bytes segs = (\<Sum>(_, _, b) \<leftarrow> segs. int (length b))"

lemma seg_bytes_filter: "seg_bytes (filter P xs) = seg_bytes xs - seg_bytes (filter (Not \<circ> P) xs)"
  by (induction xs) (auto simp: seg_bytes_def)

lemma take_filter_complement:
  assumes "distinct xs"
  shows "filter (\<lambda>x. x \<in> set (take k (filter P xs))) xs = take k (filter P xs)"
  using assms
proof (induction xs arbitrary: k)
  case (Cons x xs)
  show ?case
  proof (cases "P x \<and> 0 < k")
    case True
    then obtain j where k: "k = Suc j" by (cases k) auto
    have "filter (\<lambda>y. y \<in> set (take k (filter P (x # xs)))) xs = filter (\<lambda>y. y \<in> set (take j (filter P xs))) xs"
      using Cons.prems True k by (intro filter_cong) auto
    then show ?thesis using Cons k True by simp
  next
    case False
    have "x \<notin> set (take k (filter P xs))" using Cons.prems by (auto dest: in_set_takeD)
    then show ?thesis using False Cons by (cases "P x") auto
  qed
qed simp

lemma map_of_keep: "s \<notin> A \<Longrightarrow> map_of (filter (\<lambda>(s, _). s \<notin> A) al) s = map_of al s"
  by (induction al) auto

lemma segment_of_name:
  assumes "distinct (map fst dir)" "x \<in> set (segments dir)" "y \<in> set (segments dir)" "fst (snd x) = fst (snd y)"
  shows "x = y"
proof -
  obtain n s b n' b' where e: "x = (n, s, b)" "y = (n', s, b')" using assms(4) by (cases x; cases y) auto
  then have "(s, b) \<in> set dir" "(s, b') \<in> set dir" "segment_number s = Some n" "segment_number s = Some n'"
    using assms(2,3) by (auto simp: set_segments)
  then show ?thesis using assms(1) e by (auto dest: eq_key_imp_eq_value)
qed

lemma segments_without:
  assumes "distinct (map fst dir)" "set gone \<subseteq> set (segments dir)"
  shows "segments (filter (\<lambda>(s, _). s \<notin> snd ` set (map (\<lambda>(n, name, _). (n, name)) gone)) dir)
    = filter (\<lambda>s. s \<notin> set gone) (segments dir)"
  unfolding segments_filter
proof (intro filter_cong refl)
  let ?names = "snd ` set (map (\<lambda>(n, name, _). (n, name)) gone)"
  fix x assume x: "x \<in> set (segments dir)"
  have "fst (snd x) \<in> ?names \<longleftrightarrow> x \<in> set gone"
  proof
    assume "fst (snd x) \<in> ?names"
    then obtain y where "y \<in> set gone" "fst (snd y) = fst (snd x)" by (auto simp: case_prod_beta)
    moreover from this have "x = y" by (intro segment_of_name[OF assms(1) x] subsetD[OF assms(2)]) simp_all
    ultimately show "x \<in> set gone" by simp
  next
    assume "x \<in> set gone"
    then have "(\<lambda>(n, name, _). (n, name)) x \<in> set (map (\<lambda>(n, name, _). (n, name)) gone)" by (simp only: set_map imageI)
    moreover have "snd ((\<lambda>(n, name, _). (n, name)) x) = fst (snd x)" by (simp add: case_prod_beta)
    ultimately show "fst (snd x) \<in> ?names" by (intro image_eqI[of _ snd]) simp_all
  qed
  then show "(case x of (_, s, _) \<Rightarrow> s \<notin> ?names) = (x \<notin> set gone)" by (simp add: case_prod_beta)
qed

lemma segments_distinct:
  assumes "distinct (map fst dir)"
  shows "distinct (segments dir)"
proof -
  let ?seg = "\<lambda>(name, b). map_option (\<lambda>n. (n, name, b)) (segment_number name)"
  have "distinct (map (\<lambda>x. fst (snd x)) (List.map_filter ?seg dir))"
    using assms
  proof (induction dir)
    case (Cons x dir)
    have "set (map (\<lambda>x. fst (snd x)) (List.map_filter ?seg dir)) \<subseteq> set (map fst dir)" by (force simp: List.map_filter_def)
    with Cons show ?case by (cases x) (auto simp: List.map_filter_simps split: option.splits)
  qed (simp add: List.map_filter_simps)
  then show ?thesis unfolding segments_def distinct_sort by (rule distinct_map[THEN iffD1, THEN conjunct1])
qed

text \<open>What the sizes table books for a list of segments, and for those it lets go.\<close>

definition booked :: "(nat \<times> pystr \<times> byte list) list \<Rightarrow> int" where
  "booked segs = sum_list (map (int \<circ> snd) (sizes segs))"

definition released :: "(nat \<times> pystr \<times> byte list) list \<Rightarrow> (nat \<times> pystr \<times> byte list) list \<Rightarrow> int" where
  "released segs gone = (\<Sum>(n, _) \<leftarrow> gone. size_of (sizes segs) n)"

lemma booked_distinct: "distinct (map fst segs) \<Longrightarrow> booked segs = seg_bytes segs"
  unfolding booked_def seg_bytes_def by (simp only: sizes_distinct) (rule arg_cong[where f = sum_list], auto)

lemma released_distinct: "distinct (map fst segs) \<Longrightarrow> set gone \<subseteq> set segs \<Longrightarrow> released segs gone = seg_bytes gone"
  unfolding released_def seg_bytes_def using size_of_distinct[of segs]
  by (intro arg_cong[where f = sum_list] map_cong) auto


text \<open>
  The default budget leaves five erase blocks of the product's user slot free; the fallback taken without a readable map is larger
  than the slot.
\<close>

lemma default_budget: "user_slot (Some load_map) = (0x100000, FLASH_ERASE_BLOCK)" "DEFAULT_LOG_BUDGET (Some load_map) = 0xB0000"
  by (simp_all add: user_slot_def DEFAULT_LOG_BUDGET_def load_map_eq flash_map_rows FLASH_ERASE_BLOCK_def USER_RESERVE_BLOCKS_def)

lemma fallback_budget_exceeds_slot: "DEFAULT_LOG_BUDGET None > fst (user_slot (Some load_map))"
  unfolding default_budget by (simp add: user_slot_def DEFAULT_LOG_BUDGET_def USER_RESERVE_BLOCKS_def)

section \<open>A codec and a bundle\<close>

text \<open>An escape code: every octet follows a 1, a 0 ends the stream, and nothing may follow it.\<close>

datatype esc = Plain | Escaped | Ended

fun esc_octet :: "esc \<Rightarrow> byte \<Rightarrow> (esc \<times> byte list) option" where
  "esc_octet Plain c = (if c = 1 then Some (Escaped, []) else if c = 0 then Some (Ended, []) else None)"
| "esc_octet Escaped c = Some (Plain, [c])"
| "esc_octet Ended c = None"

fun esc_feed :: "esc \<Rightarrow> byte list \<Rightarrow> (esc \<times> byte list) option" where
  "esc_feed d [] = Some (d, [])"
| "esc_feed d (c # cs) = (case esc_octet d c of None \<Rightarrow> None
     | Some (d', b) \<Rightarrow> (case esc_feed d' cs of None \<Rightarrow> None | Some (e, b') \<Rightarrow> Some (e, b @ b')))"

definition esc_xz :: "byte list \<Rightarrow> byte list" where
  "esc_xz data = concat (map (\<lambda>b. [1, b]) data) @ [0]"

lemma esc_feed_append: "esc_feed d (a @ b)
  = (case esc_feed d a of None \<Rightarrow> None
     | Some (d', o1) \<Rightarrow> (case esc_feed d' b of None \<Rightarrow> None | Some (e, o2) \<Rightarrow> Some (e, o1 @ o2)))"
  by (induction a arbitrary: d) (auto split: option.splits)

lemma esc_feed_all: "feed_all esc_feed d cs = esc_feed d (concat cs)"
  by (induction cs arbitrary: d) (auto simp: esc_feed_append split: option.splits)

lemma esc_codec: "xz_codec esc_xz esc_feed (\<lambda>d. d = Ended) Plain"
proof -
  have "esc_feed Plain (esc_xz data) = Some (Ended, data)" for data by (induction data) (simp_all add: esc_xz_def)
  then show ?thesis by (simp add: xz_codec_def esc_feed_all)
qed

definition sample_raw :: "(pystr \<times> byte list) list" where
  "sample_raw = [(lit ''seg-000000.ctf'', [7, 8]), (lit ''seg-000002.ctf'', [9])]"

lemma sample_raw_ordinals: "map (segment_number \<circ> fst) sample_raw = map Some [0, 2]"
  by (simp add: sample_raw_def segment_number_def seg_tails_def lit_def undec_def)

theorem pack_unpack_round_trip_witness:
  "\<exists>dir out'. cmd_pack esc_xz [5] [] sample_raw = (dir, 0) \<and> cmd_unpack esc_feed (\<lambda>d. d = Ended) Plain [6] dir [] = (out', [])
     \<and> map_of out' STREAM_NAME = Some [7, 8, 9] \<and> map_of out' METADATA_NAME = Some [5]"
proof -
  have "\<forall>r \<in> set sample_raw. length (snd r) \<le> SEGMENT_BYTES" by (simp add: sample_raw_def SEGMENT_BYTES_def)
  from pack_unpack_round_trip[OF esc_codec sample_raw_ordinals _ this, of "[5]" "[6]" "[]"] show ?thesis by (auto simp: sample_raw_def)
qed

definition half_written :: pack_state where
  "half_written = \<lparr>pk_dir = [(partial_of (seg_name 0), [1, 7])], pk_todo = tl sample_raw, pk_phase = Writing (seg_name 0) (esc_xz [7, 8]) 2\<rparr>"

lemma half_written_reached: "pack_reaches esc_xz [5] (pack_start [] sample_raw) half_written"
proof -
  let ?u = "\<lparr>pk_dir = AList.update (partial_of (seg_name 0)) [] [], pk_todo = tl sample_raw, pk_phase = Writing (seg_name 0) (esc_xz [7, 8]) 0\<rparr>"
  have "pack_target (lit ''seg-000000.ctf'') = seg_name 0" using sample_raw_ordinals by (simp add: sample_raw_def pack_target_def)
  then have "pack_step esc_xz [5] (pack_start [] sample_raw) ?u"
    using pack_step.open_partial[of "[7, 8]" "seg_name 0" "lit ''seg-000000.ctf''" esc_xz "[5]" "[]" "tl sample_raw"]
    by (simp add: pack_start_def sample_raw_def SEGMENT_BYTES_def)
  moreover have "pack_step esc_xz [5] ?u
      \<lparr>pk_dir = AList.update (partial_of (seg_name 0)) (take 2 (esc_xz [7, 8])) (AList.update (partial_of (seg_name 0)) [] []),
       pk_todo = tl sample_raw, pk_phase = Writing (seg_name 0) (esc_xz [7, 8]) 2\<rparr>"
    by (rule pack_step.write_some) (simp_all add: esc_xz_def)
  ultimately show ?thesis by (simp add: half_written_def esc_xz_def)
qed

theorem pack_interruptible_witness:
  "pack_reaches esc_xz [5] (pack_start [] sample_raw) half_written \<and> map_of (pk_dir half_written) (seg_name 0) = None"
  using pack_interruptible[OF half_written_reached segment_number_seg_name(1)[of 0]] half_written_reached
  by (auto simp: half_written_def partial_of_def lit_def)

theorem pack_refines_command_witness:
  "\<exists>st rc. pack_reaches esc_xz [5] half_written st \<and> pk_phase st = Stopped rc \<and> cmd_pack esc_xz [5] [] sample_raw = (pk_dir st, rc)"
  using pack_refines_command[OF half_written_reached] by blast

lemma metadata_not_segment: "n < 1000000 \<Longrightarrow> seg_name n \<noteq> METADATA_NAME" "n < 1000000 \<Longrightarrow> METADATA_NAME \<noteq> seg_name n"
  using segment_number_seg_name(1)[of n] by auto

definition sample_dir :: trace_dir where
  "sample_dir = [(seg_name 2, [1, 2, 3]), (METADATA_NAME, [5]), (seg_name 0, [4]), (seg_name 1, [6, 7])]"

lemma sample_segments: "segments sample_dir = [(0, seg_name 0, [4]), (1, seg_name 1, [6, 7]), (2, seg_name 2, [1, 2, 3])]"
proof -
  let ?l = "[(2, seg_name 2, [1, 2, 3]), (0, seg_name 0, [4]), (1, seg_name 1, [6, 7])] :: (nat \<times> pystr \<times> byte list) list"
  have "segments sample_dir = sort_key (\<lambda>(n, name, _). (n, name)) ?l"
    by (simp add: segments_def sample_dir_def List.map_filter_simps segment_number_seg_name)
  then show ?thesis by (simp add: less_eq_prod_def)
qed


text \<open>
  With two files of one ordinal (a raw segment beside its packed copy) the sizes table holds one of them: the command
  reports success on a directory that holds more than the budget.
\<close>

lemma rotate_same_ordinal:
  "\<exists>dir. rt_status (cmd_rotate 4 False False dir) = 0 \<and> rt_dir (cmd_rotate 4 False False dir) = dir \<and> seg_bytes (segments dir) = 8"
proof -
  let ?raw = "lit ''seg-000001.ctf''" and ?b = "replicate 4 (0 :: byte)"
  let ?dir = "[(?raw, ?b), (seg_name 1, ?b)]"
  have n: "segment_number ?raw = Some 1" "segment_number (seg_name 1) = Some 1"
    by (simp_all add: segment_number_seg_name) (simp add: segment_number_def seg_tails_def lit_def undec_def)
  have "List.map_filter (\<lambda>(name, b). map_option (\<lambda>n. (n, name, b)) (segment_number name)) ?dir = [(1, ?raw, ?b), (1, seg_name 1, ?b)]"
    by (simp only: List.map_filter_simps n prod.case option.map option.case)
  then have "segments ?dir = insort_key (\<lambda>(n, name, _). (n, name)) (1, ?raw, ?b) [(1, seg_name 1, ?b)]"
    by (simp only: segments_def) simp
  then have "\<exists>s t. segments ?dir = [(1, s, ?b), (1, t, ?b)]" by (auto split: if_splits)
  then show ?thesis
    by (intro exI[of _ ?dir]) (auto simp: cmd_rotate_def sizes_def seg_bytes_def Let_def)
qed

end
