(* ===== verification/Builder_Formats.thy ===== *)
theory Builder_Formats
  imports Aem_Specs "HOL-Library.AList" "HOL-Library.Sublist"
begin

unbundle bit_operations_syntax

text \<open>
  Stream formats and stream declarations of the end-station builder
  (\<^verbatim>\<open>sw/builder/endstation_builder.py\<close>). A YAML value is a \<open>yv\<close>; a value of any other scalar type keeps
  only its truth value, which is all the code reads of it. A Python \<^verbatim>\<open>bool\<close> passes \<^verbatim>\<open>isinstance(v, int)\<close>
  and is kept as the integer it equals. A refusal is a constructor instead of the message text.
\<close>

section \<open>Configuration values\<close>

text \<open>
  What the YAML loader yields. A value of another type (a float, a date) is kept as its truth value and as what
  \<^verbatim>\<open>int(v)\<close> makes of it, \<open>None\<close> when that raises.
\<close>

datatype yv =
    YNull
  | YBool bool
  | YInt int
  | YStr pystr
  | YList "yv list"
  | YMap "(pystr \<times> yv) list"
  | YOther bool "int option"

text \<open>The refusals of the reservation section, of the section loaders and of the board side stand in types of their own.\<close>

datatype srp_error =
    SrpNotMapping | SrpSubNotMapping | SrpClass | SrpVidRange | SrpVidFixed | SrpTimer string
  | SrpQueueBits | SrpQueueBoard | SrpPolicy | SrpIntervalRange | SrpIntervalFixed | SrpMaxFrame | SrpBandwidth
  | SrpNotMulticast | SrpLatency | SrpNotBool string | SrpFrameWide nat int | SrpOverBudget int int | SrpRows nat

datatype load_error =
    NotBaseRate | NoClockSource | UnknownClockSource | RepeatedClockSource | DefaultNotOffered | CrfOutputNotMapping
    | TooManyRates nat | DuplicateRates | CurrentRateMissing | PllRate int | SinkNeedsSource | SourceNeedsSink
    | GptpKeys | GptpDomain int | GptpLatencyMissing string | GptpLatencyRange string int | GptpOctet string int
    | GptpPinned string int | EnginePins | EnginePort int | NamesKeys | NotAemString | AemStringNul | AemStringLong
    | ClockNamesKeys | ClockNameNowhere string | NumberedNameLong | UnknownInterface | WordLength int | RuleRetired
    | PhysicalKeys | PhysicalRange string int | PoolKeys | PoolsUnread | FabricKeys | FabricUnread | LaneWithoutPool
    | BadChannelNames | TooFewChannelNames nat | SerialClock int | MixedMapModes | NeedsCrfOutput | NeedsInternal
    | GroupOui | OuiContradicts

datatype board_error =
    MacNotQuoted | BadMac | ZeroMac | GroupMac | PlatformKeys | MacRequired | PpMemAlign int | FilterPosture
    | FeatureKeys | FeatureNotBool string | ServoNeeded | MaapNeeded | PlaybackNeeded | FilterWithoutPlayback
    | FabricOwnerRetired | FabricOwnerNeedsGptp | NoRenderLane int | RenderTooWide int | RenderNotFullBus int
    | UnknownBoard | ConstraintKeys | PhyContradicts | GmiiKnob | BadFlashboot | QueueCount int | ClockOrder
    | BadEthPort | SocKeys | UnknownCpu | ProfileRetired | SocNotFull | BadXlen | BaremetalClock | BaremetalCpu
    | BaremetalCache | BaremetalFlashboot

datatype config_error =
    MissingKey
  | NotQuoted | NotHex | TooWide nat
  | ReservedModelId
  | NotPow2
  | BadFactoryOffset
  | BufferFloor | BufferWidth
  | TooManyFormats nat | MixedFamily | NotMilanCrf
  | NoStreams | TooManyStreams nat
  | BadChannels | FormatsNotList | UtCurrent | UtRestated
  | BadClusters | BadMapMode | StaticListener | PageNeedsDynamic | BadMapPage | OffsetOnListener
  | UnknownPolicy | EmptyPool string nat | PagesDiffer "int list" | PageRange int
  | NoNamer string
  | NotWholeSamples
  | SrpRefused srp_error | LoadRefused load_error | BoardRefused board_error

type_synonym 'a cfg = "(config_error, 'a) result"

fun truthy :: "yv \<Rightarrow> bool" where
  "truthy YNull = False"
| "truthy (YBool b) = b"
| "truthy (YInt i) = (i \<noteq> 0)"
| "truthy (YStr s) = (s \<noteq> [])"
| "truthy (YList xs) = (xs \<noteq> [])"
| "truthy (YMap m) = (m \<noteq> [])"
| "truthy (YOther b n) = b"

text \<open>\<^verbatim>\<open>isinstance(v, int)\<close> with the value, and \<^verbatim>\<open>type(v) is int\<close>.\<close>

fun as_pyint :: "yv \<Rightarrow> int option" where
  "as_pyint (YInt i) = Some i"
| "as_pyint (YBool b) = Some (of_bool b)"
| "as_pyint _ = None"

fun exact_int :: "yv \<Rightarrow> int option" where
  "exact_int (YInt i) = Some i"
| "exact_int _ = None"

definition within :: "int \<Rightarrow> int \<Rightarrow> int option \<Rightarrow> bool" where
  "within lo hi v = (case v of None \<Rightarrow> False | Some i \<Rightarrow> lo \<le> i \<and> i \<le> hi)"

definition get :: "(pystr \<times> yv) list \<Rightarrow> string \<Rightarrow> yv \<Rightarrow> yv" where
  "get m k d = (case map_of m (lit k) of None \<Rightarrow> d | Some v \<Rightarrow> v)"

text \<open>
  \<^verbatim>\<open>_req\<close>: the membership test of Python works on mappings, lists and strings, the subscript after it on
  mappings only.
\<close>

fun req :: "yv \<Rightarrow> string \<Rightarrow> yv cfg" where
  "req (YMap m) k = (case map_of m (lit k) of None \<Rightarrow> Inl (Refused MissingKey) | Some v \<Rightarrow> Inr v)"
| "req (YList xs) k = (if YStr (lit k) \<in> set xs then Inl TypeError else Inl (Refused MissingKey))"
| "req (YStr t) k = (if sublist (lit k) t then Inl TypeError else Inl (Refused MissingKey))"
| "req _ k = Inl TypeError"

section \<open>Hexadecimal text\<close>

definition EUI64_MAX :: int where "EUI64_MAX = push_bit 64 1 - 1"

definition strip_0x :: "pystr \<Rightarrow> pystr" where
  "strip_0x s = (case s of c # x # r \<Rightarrow> if c = 48 \<and> (x = 120 \<or> x = 88) then r else s | _ \<Rightarrow> s)"

definition hex_text :: "yv \<Rightarrow> nat \<Rightarrow> int cfg" where
  "hex_text v bits = (case v of
     YStr s \<Rightarrow>
       (case hex_run 0 False (strip_0x s) of
          None \<Rightarrow> Inl (Refused NotHex)
        | Some n \<Rightarrow>
            let digits = filter (\<lambda>c. c \<noteq> 95) (strip_0x s) in
            if length digits > bits div 4 then Inl (Refused (TooWide bits)) else Inr n)
   | _ \<Rightarrow> Inl (Refused NotQuoted))"

definition eui64 :: "yv \<Rightarrow> int cfg" where
  "eui64 v = hex_text v 64"

definition model_id :: "yv \<Rightarrow> int cfg" where
  "model_id v = rbind (eui64 v) (\<lambda>n. if n = 0 \<or> n = EUI64_MAX then Inl (Refused ReservedModelId) else Inr n)"

text \<open>\<^verbatim>\<open>f"0x{n:0wX}"\<close> of a non-negative number: upper-case digits, padded with zeros to \<open>w\<close>.\<close>

definition HEXDIGITS :: pystr where "HEXDIGITS = lit ''0123456789ABCDEF''"

fun hex_nat :: "nat \<Rightarrow> pystr" where
  "hex_nat n = (if n < 16 then [HEXDIGITS ! n] else hex_nat (n div 16) @ [HEXDIGITS ! (n mod 16)])"

declare hex_nat.simps [simp del]

definition hex_fmt :: "nat \<Rightarrow> int \<Rightarrow> pystr" where
  "hex_fmt w n = (let d = hex_nat (nat n) in lit ''0x'' @ replicate (w - length d) 48 @ d)"

definition fmt64 :: "yv \<Rightarrow> pystr cfg" where
  "fmt64 v = rbind (eui64 v) (\<lambda>n. Inr (hex_fmt 16 n))"

definition pow2 :: "yv \<Rightarrow> int cfg" where
  "pow2 v = (case as_pyint v of
     Some i \<Rightarrow> if i > 0 \<and> i AND (i - 1) = 0 then Inr i else Inl (Refused NotPow2)
   | None \<Rightarrow> Inl (Refused NotPow2))"

section \<open>AAF stream formats\<close>

definition fmt_word :: "pystr \<Rightarrow> int cfg" where
  "fmt_word s = (case py_int16 s of Inr n \<Rightarrow> Inr n | Inl _ \<Rightarrow> Inl ValueError)"

definition fmt_channels_of :: "pystr \<Rightarrow> int option cfg" where
  "fmt_channels_of fmt = rbind (fmt_word fmt) (\<lambda>n.
     if drop_bit 56 n AND 0x7F \<noteq> 0x02 then Inr None else Inr (Some (drop_bit 22 n AND 0x3FF)))"

definition BASE_RATE_HZ :: "(int \<times> int \<times> int) list" where
  "BASE_RATE_HZ = [(48000, 0x5, 6), (96000, 0x7, 12), (192000, 0x9, 24)]"

definition BASE_CHANNELS :: "int list" where
  "BASE_CHANNELS = [1, 2, 4, 6, 8]"

definition aaf_word :: "int \<Rightarrow> int \<Rightarrow> int \<Rightarrow> bool \<Rightarrow> int" where
  "aaf_word nsr spf channels ut =
     push_bit 56 0x02 OR push_bit 52 (of_bool ut) OR push_bit 48 nsr
     OR push_bit 40 0x02 OR push_bit 32 32 OR push_bit 22 channels OR push_bit 12 spf"

definition aaf_pcm32 :: "int \<Rightarrow> int \<Rightarrow> bool \<Rightarrow> int cfg" where
  "aaf_pcm32 channels rate_hz ut = (case map_of BASE_RATE_HZ rate_hz of
     None \<Rightarrow> Inl KeyError | Some (nsr, spf) \<Rightarrow> Inr (aaf_word nsr spf channels ut))"

text \<open>The loop over the rates returns the first whose stem matches.\<close>

definition stem_of :: "int \<Rightarrow> int" where
  "stem_of n = n AND NOT (push_bit 52 1 OR push_bit 22 0x3FF)"

definition base_format_rate :: "pystr \<Rightarrow> (int \<times> int \<times> bool) option cfg" where
  "base_format_rate fmt = rbind (fmt_word fmt) (\<lambda>n.
     Inr (case find (\<lambda>(rate, nsr, spf). stem_of n = aaf_word nsr spf 0 False) BASE_RATE_HZ of
            None \<Rightarrow> None
          | Some (rate, _) \<Rightarrow> Some (rate, drop_bit 22 n AND 0x3FF, drop_bit 52 n AND 1 \<noteq> 0)))"

type_synonym cover = "(int \<times> int set) list"

definition row_cover :: "int \<Rightarrow> bool \<Rightarrow> int set" where
  "row_cover ch ut = (if ut then {c \<in> set BASE_CHANNELS. c \<le> ch} else {ch} \<inter> set BASE_CHANNELS)"

definition cover_step :: "pystr \<Rightarrow> cover \<Rightarrow> cover cfg" where
  "cover_step f cov = rbind (base_format_rate f) (\<lambda>row. Inr (case row of
     None \<Rightarrow> cov
   | Some (rate, ch, ut) \<Rightarrow>
       let add = row_cover ch ut in
       if add = {} then cov
       else AList.update rate ((case map_of cov rate of None \<Rightarrow> {} | Some s \<Rightarrow> s) \<union> add) cov))"

definition base_format_cover :: "pystr list \<Rightarrow> cover cfg" where
  "base_format_cover fmts = foldE cover_step fmts []"

text \<open>\<^verbatim>\<open>base_format_complete\<close>: the keys are distinct, so sorting the items never compares two sets.\<close>

definition base_format_complete :: "pystr list \<Rightarrow> pystr list cfg" where
  "base_format_complete fmts = rbind (base_format_cover fmts) (\<lambda>cov.
     rbind (mapE (\<lambda>(rate, got).
         if set BASE_CHANNELS - got \<noteq> {}
         then rbind (aaf_pcm32 8 rate True) (\<lambda>w. Inr [hex_fmt 16 w])
         else Inr []) (sort_key fst cov))
       (\<lambda>more. Inr (fmts @ concat more)))"

section \<open>Validation of formats\<close>

definition CRF_FORMAT_DEFAULT :: pystr where
  "CRF_FORMAT_DEFAULT = lit ''0x041060010000BB80''"

fun family_ok :: "int \<Rightarrow> pystr list \<Rightarrow> bool cfg" where
  "family_ok fam [] = Inr True"
| "family_ok fam (w # ws) = rbind (fmt_word w) (\<lambda>n. if drop_bit 56 n \<noteq> fam then Inr False else family_ok fam ws)"

datatype family = AAF | CRF

definition validate_stream_formats :: "pystr list \<Rightarrow> family \<Rightarrow> unit cfg" where
  "validate_stream_formats formats fam =
     rbind (ensure (length formats \<le> MAX_STREAM_FORMATS) (Refused (TooManyFormats (length formats)))) (\<lambda>_.
     rbind (case fam of CRF \<Rightarrow> fmt_word CRF_FORMAT_DEFAULT | AAF \<Rightarrow> aaf_pcm32 0 48000 False) (\<lambda>fw.
     rbind (family_ok (drop_bit 56 fw) formats) (\<lambda>ok.
     rbind (ensure ok (Refused MixedFamily)) (\<lambda>_.
       ensure (fam = AAF \<or> list_all (\<lambda>w. w = CRF_FORMAT_DEFAULT) formats) (Refused NotMilanCrf)))))"

definition crf_format :: "yv \<Rightarrow> pystr cfg" where
  "crf_format v = rbind (fmt64 v) (\<lambda>word. rbind (validate_stream_formats [word] CRF) (\<lambda>_. Inr word))"

section \<open>Stream declarations\<close>

definition PRESENTATION_TIME_OFFSET_NS :: int where "PRESENTATION_TIME_OFFSET_NS = 2000000"

definition BUFLEN_DEFAULT_NS :: int where "BUFLEN_DEFAULT_NS = 2126000"

definition UINT32_MAX :: int where "UINT32_MAX = 2 ^ 32 - 1"

definition factory_offset :: "(pystr \<times> yv) list \<Rightarrow> int cfg" where
  "factory_offset raw =
     (if exact_int (get raw ''presentation_time_offset_ns'' (YInt PRESENTATION_TIME_OFFSET_NS)) = Some PRESENTATION_TIME_OFFSET_NS
      then Inr PRESENTATION_TIME_OFFSET_NS else Inl (Refused BadFactoryOffset))"

datatype direction = Listener | Talker

definition stream_buffer_ns :: "(pystr \<times> yv) list \<Rightarrow> direction \<Rightarrow> yv cfg" where
  "stream_buffer_ns s dir =
     (let v = get s ''buffer_length_ns'' (YInt BUFLEN_DEFAULT_NS) in
      if dir = Talker then Inr v
      else case exact_int v of
        None \<Rightarrow> Inl (Refused BufferFloor)
      | Some i \<Rightarrow> if i < BUFLEN_DEFAULT_NS then Inl (Refused BufferFloor)
                  else if i > UINT32_MAX then Inl (Refused BufferWidth) else Inr v)"

record stream_cfg =
  sc_name :: yv
  sc_channels :: int
  sc_formats :: "pystr list"
  sc_clusters :: int
  sc_map_mode :: string
  sc_map_page :: "int option"
  sc_buffer :: yv
  sc_offset :: "int option"

definition stream_formats :: "(pystr \<times> yv) list \<Rightarrow> int \<Rightarrow> direction \<Rightarrow> int \<Rightarrow> pystr list cfg" where
  "stream_formats s ch dir rate_hz =
     rbind (case get s ''formats'' (YList []) of YList fs \<Rightarrow> Inr fs | _ \<Rightarrow> Inl (Refused FormatsNotList)) (\<lambda>fs0.
     rbind (if fs0 \<noteq> [] then Inr fs0 else rbind (aaf_pcm32 ch rate_hz False) (\<lambda>w. Inr [YStr (hex_fmt 16 w)])) (\<lambda>fs1.
     rbind (mapE fmt64 fs1) (\<lambda>fs.
     rbind (py_nth fs 0) (\<lambda>f0.
     rbind (base_format_rate f0) (\<lambda>hd.
     rbind (ensure (case hd of Some (_, _, ut) \<Rightarrow> \<not> ut | None \<Rightarrow> True) (Refused UtCurrent)) (\<lambda>_.
     rbind (if dir = Talker then Inr fs
            else rbind (mapE (\<lambda>f. rbind (base_format_rate f) (\<lambda>row.
                     ensure (case row of Some (_, _, ut) \<Rightarrow> \<not> ut | None \<Rightarrow> True) (Refused UtRestated))) fs)
                   (\<lambda>_. base_format_complete fs)) (\<lambda>out.
     rbind (validate_stream_formats out AAF) (\<lambda>_. Inr out))))))))"

definition map_mode_of :: "(pystr \<times> yv) list \<Rightarrow> direction \<Rightarrow> string cfg" where
  "map_mode_of s dir =
     (let v = get s ''map_mode'' (YStr (lit (if dir = Listener then ''dynamic'' else ''static''))) in
      if v = YStr (lit ''dynamic'') then Inr ''dynamic''
      else if v = YStr (lit ''static'') then
        (if dir = Listener then Inl (Refused StaticListener) else Inr ''static'')
      else Inl (Refused BadMapMode))"

definition map_page_of :: "(pystr \<times> yv) list \<Rightarrow> string \<Rightarrow> int option cfg" where
  "map_page_of s mode = (case get s ''map_page'' YNull of
     YNull \<Rightarrow> Inr None
   | v \<Rightarrow> if mode \<noteq> ''dynamic'' then Inl (Refused PageNeedsDynamic)
          else if within 1 11 (as_pyint v) then Inr (as_pyint v) else Inl (Refused BadMapPage))"

definition stream_row :: "direction \<Rightarrow> int \<Rightarrow> nat \<times> yv \<Rightarrow> stream_cfg cfg" where
  "stream_row dir rate_hz ks = (case ks of (k, s) \<Rightarrow>
     rbind (req s ''channels'') (\<lambda>c.
     rbind (if within 1 32 (as_pyint c) then Inr (the (as_pyint c)) else Inl (Refused BadChannels)) (\<lambda>ch.
     case s of YMap m \<Rightarrow>
       rbind (stream_formats m ch dir rate_hz) (\<lambda>fmts.
       let cl = as_pyint (get m ''clusters'' (YInt ch)) in
       rbind (if within 1 32 cl then Inr (the cl) else Inl (Refused BadClusters)) (\<lambda>clusters.
       rbind (map_mode_of m dir) (\<lambda>mode.
       rbind (map_page_of m mode) (\<lambda>page.
       rbind (stream_buffer_ns m dir) (\<lambda>buf.
       rbind (if dir = Talker then rbind (factory_offset m) (\<lambda>o1. Inr (Some o1))
              else if map_of m (lit ''presentation_time_offset_ns'') \<noteq> None then Inl (Refused OffsetOnListener)
              else Inr None) (\<lambda>ofs.
         Inr \<lparr>sc_name = get m ''name'' (YStr (lit ''Stream '' @ lit (if dir = Listener then ''In'' else ''Out'') @ lit '' '' @ dec_nat k)),
              sc_channels = ch, sc_formats = fmts, sc_clusters = clusters, sc_map_mode = mode,
              sc_map_page = page, sc_buffer = buf, sc_offset = ofs\<rparr>))))))
     | _ \<Rightarrow> Inl TypeError)))"

definition streams :: "yv \<Rightarrow> direction \<Rightarrow> int \<Rightarrow> stream_cfg list cfg" where
  "streams lst dir rate_hz = (case lst of
     YList rows \<Rightarrow>
       (if rows = [] then Inl (Refused NoStreams)
        else if length rows > 16 then Inl (Refused (TooManyStreams (length rows)))
        else mapE (stream_row dir rate_hz) (enum rows))
   | _ \<Rightarrow> Inl (Refused NoStreams))"

section \<open>Printing and parsing words\<close>

lemma HEXDIGITS_digit:
  assumes "d < 16"
  shows "hex_digit (HEXDIGITS ! d) = Some d"
proof -
  have "\<forall>d \<in> set [0..<16]. hex_digit (HEXDIGITS ! d) = Some d" by code_simp
  then show ?thesis using assms by simp
qed

definition hexval :: "int \<Rightarrow> pystr \<Rightarrow> int" where
  "hexval = foldl (\<lambda>v c. 16 * v + int (the (hex_digit c)))"

lemma hex_run_digits:
  "\<forall>c \<in> set s. hex_digit c \<noteq> None \<Longrightarrow> s \<noteq> [] \<Longrightarrow> hex_run v ok s = Some (hexval v s)"
proof (induction s arbitrary: v ok)
  case (Cons c s)
  have c: "c \<noteq> 95" "hex_digit c \<noteq> None" using Cons.prems by (auto simp: hex_digit_def)
  show ?case
  proof (cases "s = []")
    case True
    then show ?thesis using c by (auto simp: hexval_def)
  next
    case False
    then have "hex_run w True s = Some (hexval w s)" for w using Cons by simp
    then show ?thesis using c by (auto simp: hexval_def)
  qed
qed simp

lemma hex_nat_digits: "c \<in> set (hex_nat n) \<Longrightarrow> hex_digit c \<noteq> None"
proof (induction n rule: hex_nat.induct)
  case (1 n)
  then show ?case by (subst (asm) (2) hex_nat.simps) (auto simp: HEXDIGITS_digit split: if_splits)
qed

lemma hexval_hex_nat: "hexval 0 (hex_nat n) = int n"
proof (induction n rule: hex_nat.induct)
  case (1 n)
  show ?case
  proof (cases "n < 16")
    case True
    then show ?thesis by (subst hex_nat.simps) (simp add: hexval_def HEXDIGITS_digit)
  next
    case False
    then have "hexval 0 (hex_nat (n div 16)) = int (n div 16)" using 1 by simp
    moreover have "16 * int (n div 16) + int (n mod 16) = int n"
      by (metis mult_div_mod_eq of_nat_add of_nat_mult of_nat_numeral)
    ultimately show ?thesis using False by (subst hex_nat.simps) (simp add: hexval_def HEXDIGITS_digit)
  qed
qed

lemma hex_nat_Nil [simp]: "hex_nat n \<noteq> []"
  by (subst hex_nat.simps) simp

lemma hexval_zeros: "hexval 0 (replicate k 48 @ s) = hexval 0 s"
  by (induction k) (simp_all add: hexval_def hex_digit_def)

lemma hex_nat_length: "n < 16 ^ Suc k \<Longrightarrow> length (hex_nat n) \<le> Suc k"
proof (induction k arbitrary: n)
  case 0
  then show ?case by (subst hex_nat.simps) simp
next
  case (Suc k)
  show ?case
  proof (cases "n < 16")
    case True
    then show ?thesis by (subst hex_nat.simps) simp
  next
    case False
    have "n div 16 < 16 ^ Suc k" using Suc.prems by (simp add: less_mult_imp_div_less mult.commute)
    from Suc.IH[OF this] False show ?thesis by (subst hex_nat.simps) simp
  qed
qed

definition digits_of :: "nat \<Rightarrow> int \<Rightarrow> pystr" where
  "digits_of w n = replicate (w - length (hex_nat (nat n))) 48 @ hex_nat (nat n)"

lemma hex_fmt_digits: "hex_fmt w n = 48 # 120 # digits_of w n"
  by (simp add: hex_fmt_def digits_of_def lit_def Let_def)

lemma digits_of:
  "\<forall>c \<in> set (digits_of w n). hex_digit c \<noteq> None" "digits_of w n \<noteq> []" "0 \<le> n \<Longrightarrow> hexval 0 (digits_of w n) = n"
  by (auto simp: digits_of_def hex_digit_def hexval_zeros hexval_hex_nat dest: hex_nat_digits split: if_splits)

lemma digit_not: "hex_digit c \<noteq> None \<Longrightarrow> \<not> is_space c" "hex_digit c \<noteq> None \<Longrightarrow> c \<noteq> 95"
  by (auto simp: hex_digit_def is_space_def split: if_splits)

lemma fmt_word_hex_fmt [simp]:
  assumes "0 \<le> n"
  shows "fmt_word (hex_fmt w n) = Inr n"
proof -
  let ?d = "digits_of w n"
  have d: "\<forall>c \<in> set ?d. hex_digit c \<noteq> None" "?d \<noteq> []" by (rule digits_of)+
  obtain r l where l: "?d = r @ [l]" using d(2) by (metis rev_exhaust)
  have "\<not> is_space l" using d(1) digit_not by (auto simp: l)
  then have "dropWhile is_space (rev (48 # 120 # ?d)) = rev (48 # 120 # ?d)" by (simp add: l)
  then have t: "rev (dropWhile is_space (rev (dropWhile is_space (hex_fmt w n)))) = 48 # 120 # ?d"
    by (simp add: hex_fmt_digits is_space_def)
  obtain c r' where c: "?d = c # r'" using d(2) by (cases ?d) auto
  have "c \<noteq> 95" using d(1) digit_not by (auto simp: c)
  then have "hex_body (48 # 120 # ?d) = Some n"
    using hex_run_digits[OF d, of 0 False] digits_of(3)[OF assms, of w] by (simp add: hex_body_def c)
  then show ?thesis unfolding fmt_word_def py_int16_def t Let_def by simp
qed

lemma length_digits_of: "0 \<le> n \<Longrightarrow> n < 16 ^ Suc k \<Longrightarrow> length (digits_of (Suc k) n) = Suc k"
  using hex_nat_length[of "nat n" k] by (simp add: digits_of_def nat_less_iff del: power_Suc)

lemma hex_text_hex_fmt:
  assumes "0 \<le> n" "n < 16 ^ Suc k"
  shows "hex_text (YStr (hex_fmt (Suc k) n)) (4 * Suc k) = Inr n"
proof -
  let ?d = "digits_of (Suc k) n"
  have d: "\<forall>c \<in> set ?d. hex_digit c \<noteq> None" "?d \<noteq> []" by (rule digits_of)+
  have "filter (\<lambda>c. c \<noteq> 95) ?d = ?d" using d(1) digit_not by (intro filter_True) blast
  then show ?thesis
    using hex_run_digits[OF d, of 0 False] digits_of(3)[OF assms(1)] length_digits_of[OF assms]
    by (simp add: hex_text_def hex_fmt_digits strip_0x_def)
qed

lemma hexval_bound:
  "\<forall>c \<in> set s. hex_digit c \<noteq> None \<Longrightarrow> 0 \<le> v \<Longrightarrow> 0 \<le> hexval v s \<and> hexval v s < (v + 1) * 16 ^ length s"
proof (induction s arbitrary: v)
  case (Cons c s)
  obtain d where d: "hex_digit c = Some d" "d < 16" using Cons.prems(1) by (auto simp: hex_digit_def split: if_splits)
  have "0 \<le> hexval (16 * v + int d) s \<and> hexval (16 * v + int d) s < (16 * v + int d + 1) * 16 ^ length s"
    using Cons by (intro Cons.IH) auto
  moreover have "(16 * v + int d + 1) * 16 ^ length s \<le> (v + 1) * 16 ^ length (c # s)"
    using d(2) mult_right_mono[of "16 * v + int d + 1" "(v + 1) * 16" "16 ^ length s"] by (simp add: mult.assoc)
  moreover have "hexval v (c # s) = hexval (16 * v + int d) s" using d(1) by (simp add: hexval_def)
  ultimately show ?case by linarith
qed (simp add: hexval_def)

lemma hex_run_value:
  "hex_run v ok s = Some n \<Longrightarrow> (\<forall>c \<in> set (filter (\<lambda>c. c \<noteq> 95) s). hex_digit c \<noteq> None) \<and> n = hexval v (filter (\<lambda>c. c \<noteq> 95) s)"
  by (induction v ok s rule: hex_run.induct) (auto simp: hexval_def split: if_splits option.splits)

lemma hex_text_bounds:
  assumes "hex_text v bits = Inr n"
  shows "0 \<le> n \<and> n < 16 ^ (bits div 4)"
proof -
  obtain s where s: "v = YStr s" "hex_run 0 False (strip_0x s) = Some n" "length (filter (\<lambda>c. c \<noteq> 95) (strip_0x s)) \<le> bits div 4"
    using assms by (auto simp: hex_text_def Let_def split: yv.splits option.splits if_splits)
  let ?d = "filter (\<lambda>c. c \<noteq> 95) (strip_0x s)"
  have "0 \<le> n \<and> n < 16 ^ length ?d" using hex_run_value[OF s(2)] hexval_bound[of ?d 0] by simp
  moreover have "(16::int) ^ length ?d \<le> 16 ^ (bits div 4)" using s(3) by (intro power_increasing) auto
  ultimately show ?thesis by linarith
qed

text \<open>
  A format word is canonical: whatever spelling a configuration uses, the stored text is 18 characters
  long, reads back as the declared 64-bit number, and is a fixed point of the normalisation.
\<close>

lemma fmt64_canonical:
  assumes "fmt64 v = Inr f"
  shows "\<exists>n. eui64 v = Inr n \<and> 0 \<le> n \<and> n < 2 ^ 64 \<and> fmt_word f = Inr n \<and> fmt64 (YStr f) = Inr f \<and> length f = 18"
proof -
  obtain n where n: "eui64 v = Inr n" "f = hex_fmt 16 n" using assms by (auto simp: fmt64_def)
  have b: "0 \<le> n" "n < 16 ^ Suc 15" using hex_text_bounds[of v 64 n] n(1) by (simp_all add: eui64_def)
  have "hex_text (YStr f) 64 = Inr n" using hex_text_hex_fmt[OF b] by (simp add: n(2))
  then have "fmt64 (YStr f) = Inr f" by (simp add: fmt64_def eui64_def n(2))
  moreover have "length f = 18" using length_digits_of[OF b] by (simp add: n(2) hex_fmt_digits)
  ultimately show ?thesis using n b by simp
qed

section \<open>The fields of a format word\<close>

lemma or_low:
  fixes a b :: int
  assumes "0 \<le> b" "b < 2 ^ k"
  shows "push_bit k a OR b = push_bit k a + b"
proof -
  have "take_bit k b = b" using assms by (simp add: take_bit_int_eq_self)
  then have "concat_bit k b a = push_bit k a OR b" by (simp add: concat_bit_def or.commute)
  moreover have "concat_bit k b a = b + push_bit k a" using \<open>take_bit k b = b\<close> by (simp add: concat_bit_eq)
  ultimately show ?thesis by simp
qed

lemma aaf_word_sum:
  assumes "0 \<le> nsr" "nsr < 16" "0 \<le> spf" "spf < 1024" "0 \<le> ch" "ch < 1024"
  shows "aaf_word nsr spf ch ut = 0x0200022000000000 + of_bool ut * 2 ^ 52 + nsr * 2 ^ 48 + ch * 2 ^ 22 + spf * 2 ^ 12"
proof -
  have 1: "push_bit 22 ch OR push_bit 12 spf = ch * 2 ^ 22 + spf * 2 ^ 12" (is "_ = ?a")
    using assms by (subst or_low) (auto simp: push_bit_eq_mult)
  have 2: "push_bit 32 32 OR ?a = 32 * 2 ^ 32 + ?a" (is "_ = ?b")
    using assms by (subst or_low) (auto simp: push_bit_eq_mult)
  have 3: "push_bit 40 2 OR ?b = 2 * 2 ^ 40 + ?b" (is "_ = ?c")
    using assms by (subst or_low) (auto simp: push_bit_eq_mult)
  have 4: "push_bit 48 nsr OR ?c = nsr * 2 ^ 48 + ?c" (is "_ = ?d")
    using assms by (subst or_low) (auto simp: push_bit_eq_mult)
  have 5: "push_bit 52 (of_bool ut) OR ?d = of_bool ut * 2 ^ 52 + ?d" (is "_ = ?e")
    using assms by (subst or_low) (auto simp: push_bit_eq_mult)
  have 6: "push_bit 56 2 OR ?e = 2 * 2 ^ 56 + ?e"
    using assms by (subst or_low) (auto simp: push_bit_eq_mult)
  show ?thesis unfolding aaf_word_def 1 2 3 4 5 6 by simp
qed

lemma and_3FF: "(n::int) AND 0x3FF = n mod 1024"
  using take_bit_eq_mask[of 10 n] by (simp add: take_bit_eq_mod mask_eq_exp_minus_1)

lemma masked_out:
  fixes ch k a :: int
  assumes "ch AND k = ch"
  shows "push_bit i ch AND NOT (a OR push_bit i k) = 0"
proof (rule bit_eqI)
  fix n
  have "bit ch m \<Longrightarrow> bit k m" for m using assms by (metis bit_and_iff)
  then show "bit (push_bit i ch AND NOT (a OR push_bit i k)) n = bit 0 n" by (auto simp: bit_simps)
qed

lemma stem_of_aaf_word:
  assumes "(rate, nsr, spf) \<in> set BASE_RATE_HZ" "0 \<le> ch" "ch < 1024"
  shows "stem_of (aaf_word nsr spf ch ut) = aaf_word nsr spf 0 False"
proof -
  have "ch AND 0x3FF = ch" using assms(2,3) by (simp add: and_3FF)
  from masked_out[OF this, of 22 "push_bit 52 1"]
  have ch: "push_bit 22 ch AND NOT (push_bit 52 1 OR push_bit 22 0x3FF) = 0" .
  have ut: "push_bit 52 (of_bool ut) AND NOT (push_bit 52 1 OR push_bit 22 0x3FF) = (0::int)" by (cases ut) simp_all
  have stem: "stem_of (aaf_word nsr spf ch ut)
      = push_bit 56 2 AND NOT (push_bit 52 1 OR push_bit 22 0x3FF) OR (push_bit 48 nsr AND NOT (push_bit 52 1 OR push_bit 22 0x3FF)
        OR (push_bit 40 2 AND NOT (push_bit 52 1 OR push_bit 22 0x3FF) OR (push_bit 32 32 AND NOT (push_bit 52 1 OR push_bit 22 0x3FF)
        OR push_bit 12 spf AND NOT (push_bit 52 1 OR push_bit 22 0x3FF))))"
    unfolding stem_of_def aaf_word_def bit.conj_disj_distrib2 ch ut by simp
  from assms(1) show ?thesis unfolding stem by (auto simp: BASE_RATE_HZ_def aaf_word_def)
qed

lemma aaf_word_fields:
  assumes "(rate, nsr, spf) \<in> set BASE_RATE_HZ" "0 \<le> ch" "ch < 1024"
  shows "drop_bit 22 (aaf_word nsr spf ch ut) AND 0x3FF = ch" "(drop_bit 52 (aaf_word nsr spf ch ut) AND 1 \<noteq> 0) = ut"
    "0 \<le> aaf_word nsr spf ch ut" "aaf_word nsr spf ch ut < 2 ^ 64" "drop_bit 56 (aaf_word nsr spf ch ut) = 2"
proof -
  have b: "0 \<le> nsr" "nsr < 16" "0 \<le> spf" "spf < 1024" using assms(1) by (auto simp: BASE_RATE_HZ_def)
  note s = aaf_word_sum[OF b assms(2,3), of ut]
  let ?w = "aaf_word nsr spf ch ut"
  have u: "0 \<le> (of_bool ut :: int)" "(of_bool ut :: int) \<le> 1" by simp_all
  have "?w = spf * 2 ^ 12 + (ch + 1024 * (0x02000220 + of_bool ut * 2 ^ 20 + nsr * 2 ^ 16)) * 2 ^ 22" by (simp add: s)
  then have "?w div 2 ^ 22 = ch + 1024 * (0x02000220 + of_bool ut * 2 ^ 20 + nsr * 2 ^ 16)"
    using b by (simp add: div_pos_pos_trivial)
  then have "?w div 2 ^ 22 mod 1024 = ch" using assms(2,3) by (simp only: mod_mult_self2 mod_pos_pos_trivial)
  then show "drop_bit 22 ?w AND 0x3FF = ch" by (simp add: and_3FF drop_bit_eq_div)
  define r where "r = 0x022000000000 + nsr * 2 ^ 48 + ch * 2 ^ 22 + spf * 2 ^ 12"
  have r: "0 \<le> r" "r < 2 ^ 52" using b assms(2,3) by (simp_all add: r_def)
  have "?w = r + (of_bool ut + 2 * 16) * 2 ^ 52" by (simp add: s r_def)
  then have "?w div 2 ^ 52 = of_bool ut + 2 * 16" using r by (simp add: div_pos_pos_trivial)
  then show "(drop_bit 52 ?w AND 1 \<noteq> 0) = ut" by (cases ut) (simp_all add: drop_bit_eq_div and_one_eq)
  have w: "?w = (r + of_bool ut * 2 ^ 52) + 2 * 2 ^ 56" by (simp add: s r_def)
  have "0 \<le> r + of_bool ut * 2 ^ 52" "r + of_bool ut * 2 ^ 52 < 2 ^ 56" using r u by simp_all
  then show "0 \<le> ?w" "?w < 2 ^ 64" "drop_bit 56 ?w = 2" unfolding w by (simp_all add: drop_bit_eq_div div_pos_pos_trivial)
qed

lemma base_format_rate_word:
  assumes "(rate, nsr, spf) \<in> set BASE_RATE_HZ" "0 \<le> ch" "ch < 1024"
  shows "base_format_rate (hex_fmt 16 (aaf_word nsr spf ch ut)) = Inr (Some (rate, ch, ut))"
proof -
  note f = aaf_word_fields[OF assms, of ut]
  have "find (\<lambda>(rate, nsr', spf'). aaf_word nsr spf 0 False = aaf_word nsr' spf' 0 False) BASE_RATE_HZ = Some (rate, nsr, spf)"
    using assms(1) by (auto simp: BASE_RATE_HZ_def aaf_word_def)
  then show ?thesis using f stem_of_aaf_word[OF assms, of ut] by (simp add: base_format_rate_def)
qed

lemma base_rate_cases: "map_of BASE_RATE_HZ r = Some (nsr, spf) \<Longrightarrow> (r, nsr, spf) \<in> set BASE_RATE_HZ"
  by (auto dest: map_of_SomeD)

text \<open>
  The stream-format qword of every Base rate and channel count reads back as the rate, the
  channel count and the "up to" bit it was made of.
\<close>

lemma aaf_format_round_trip:
  assumes "aaf_pcm32 ch rate ut = Inr w" "0 \<le> ch" "ch < 1024"
  shows "base_format_rate (hex_fmt 16 w) = Inr (Some (rate, ch, ut)) \<and> fmt_channels_of (hex_fmt 16 w) = Inr (Some ch)"
proof -
  obtain nsr spf where r: "(rate, nsr, spf) \<in> set BASE_RATE_HZ" "w = aaf_word nsr spf ch ut"
    using assms(1) by (auto simp: aaf_pcm32_def split: option.splits dest: base_rate_cases)
  note f = aaf_word_fields[OF r(1) assms(2,3), of ut]
  show ?thesis using base_format_rate_word[OF r(1) assms(2,3)] f by (simp add: r(2) fmt_channels_of_def)
qed

section \<open>The Base family of a format list\<close>

text \<open>The Base channel counts a list advertises at a rate.\<close>

definition row_at :: "int \<Rightarrow> pystr \<Rightarrow> int set" where
  "row_at r f = (case base_format_rate f of
     Inr (Some (rate, ch, ut)) \<Rightarrow> if rate = r then row_cover ch ut else {} | _ \<Rightarrow> {})"

definition covered :: "pystr list \<Rightarrow> int \<Rightarrow> int set" where
  "covered fmts r = (\<Union>f \<in> set fmts. row_at r f)"

definition cov_at :: "cover \<Rightarrow> int \<Rightarrow> int set" where
  "cov_at cov r = (case map_of cov r of None \<Rightarrow> {} | Some s \<Rightarrow> s)"

definition cover_ok :: "cover \<Rightarrow> bool" where
  "cover_ok cov \<longleftrightarrow> distinct (map fst cov) \<and> (\<forall>r s. map_of cov r = Some s \<longrightarrow> s \<noteq> {} \<and> r \<in> fst ` set BASE_RATE_HZ)"

lemma covered_append: "covered (a @ b) r = covered a r \<union> covered b r"
  by (simp add: covered_def Union_Un_distrib image_Un)

lemma covered_Cons: "covered (f # b) r = row_at r f \<union> covered b r"
  by (simp add: covered_def)

lemma row_cover_base: "row_cover ch ut \<subseteq> set BASE_CHANNELS"
  by (auto simp: row_cover_def)

lemma covered_base: "covered fmts r \<subseteq> set BASE_CHANNELS"
proof -
  have "row_at r f \<subseteq> set BASE_CHANNELS" for f
    using row_cover_base by (simp add: row_at_def split: sum.split option.split)
  then show ?thesis by (auto simp: covered_def)
qed

lemma base_format_rate_in: "base_format_rate f = Inr (Some (rate, ch, ut)) \<Longrightarrow> rate \<in> fst ` set BASE_RATE_HZ"
proof -
  assume "base_format_rate f = Inr (Some (rate, ch, ut))"
  then obtain n a b where "find (\<lambda>(rate, nsr, spf). stem_of n = aaf_word nsr spf 0 False) BASE_RATE_HZ = Some (rate, a, b)"
    unfolding base_format_rate_def by (auto split: option.splits)
  then show ?thesis unfolding find_Some_iff by (metis fst_conv imageI nth_mem)
qed

lemma cover_step_ok:
  assumes "cover_step f cov = Inr cov'" "cover_ok cov"
  shows "cover_ok cov'" "cov_at cov' r = cov_at cov r \<union> row_at r f"
proof -
  obtain row where row: "base_format_rate f = Inr row" using assms(1) by (auto simp: cover_step_def)
  have "cover_ok cov' \<and> cov_at cov' r = cov_at cov r \<union> row_at r f"
  proof (cases "row = None \<or> (\<exists>rate ch ut. row = Some (rate, ch, ut) \<and> row_cover ch ut = {})")
    case True
    then have "cov' = cov" "row_at r f = {}"
      using assms(1) row by (auto simp: cover_step_def row_at_def Let_def split: if_splits)
    then show ?thesis using assms(2) by simp
  next
    case False
    then obtain rate ch ut where s: "row = Some (rate, ch, ut)" "row_cover ch ut \<noteq> {}" by (cases row) auto
    then have c: "cov' = AList.update rate (cov_at cov rate \<union> row_cover ch ut) cov"
      using assms(1) row by (simp add: cover_step_def cov_at_def Let_def)
    have "rate \<in> fst ` set BASE_RATE_HZ" using base_format_rate_in row s(1) by simp
    then have "cover_ok cov'" using assms(2) s(2) unfolding cover_ok_def c
      by (auto simp: distinct_update update_conv' split: if_splits)
    then show ?thesis using row s(1) by (auto simp: c cov_at_def update_conv' row_at_def)
  qed
  then show "cover_ok cov'" "cov_at cov' r = cov_at cov r \<union> row_at r f" by simp_all
qed

lemma foldE_cover:
  "foldE cover_step fmts cov = Inr cov' \<Longrightarrow> cover_ok cov
    \<Longrightarrow> cover_ok cov' \<and> (\<forall>r. cov_at cov' r = cov_at cov r \<union> covered fmts r)"
proof (induction fmts arbitrary: cov)
  case Nil
  then show ?case by (simp add: covered_def)
next
  case (Cons f fmts)
  obtain c where c: "cover_step f cov = Inr c" "foldE cover_step fmts c = Inr cov'" using Cons.prems(1) by auto
  note s = cover_step_ok[OF c(1) Cons.prems(2)]
  from Cons.IH[OF c(2) s(1)] show ?case by (auto simp: s(2) covered_Cons)
qed

lemma base_format_cover_ok:
  assumes "base_format_cover fmts = Inr cov"
  shows "distinct (map fst cov)" "map_of cov r = (if covered fmts r = {} then None else Some (covered fmts r))"
    "map_of cov r = Some s \<Longrightarrow> r \<in> fst ` set BASE_RATE_HZ"
proof -
  have c: "cover_ok cov" "cov_at cov r = covered fmts r"
    using foldE_cover[of fmts "[]" cov] assms by (auto simp: base_format_cover_def cover_ok_def cov_at_def)
  then show "distinct (map fst cov)" "map_of cov r = Some s \<Longrightarrow> r \<in> fst ` set BASE_RATE_HZ"
    by (simp_all add: cover_ok_def)
  show "map_of cov r = (if covered fmts r = {} then None else Some (covered fmts r))"
    using c by (cases "map_of cov r") (auto simp: cover_ok_def cov_at_def)
qed

lemma base_format_cover_total: "\<forall>f \<in> set fmts. \<exists>n. fmt_word f = Inr n \<Longrightarrow> \<exists>cov. base_format_cover fmts = Inr cov"
proof -
  have "\<forall>f \<in> set fmts. \<exists>n. fmt_word f = Inr n \<Longrightarrow> \<exists>cov'. foldE cover_step fmts cov = Inr cov'" for cov
  proof (induction fmts arbitrary: cov)
    case (Cons f fmts)
    obtain c where "cover_step f cov = Inr c" using Cons.prems by (auto simp: cover_step_def base_format_rate_def)
    moreover obtain cov' where "foldE cover_step fmts c = Inr cov'" using Cons by (metis list.set_intros(2))
    ultimately show ?case by simp
  qed simp
  then show "\<forall>f \<in> set fmts. \<exists>n. fmt_word f = Inr n \<Longrightarrow> \<exists>cov. base_format_cover fmts = Inr cov"
    by (simp add: base_format_cover_def)
qed


lemma mapE_Inr_concat: "mapE f xs = Inr yss \<Longrightarrow> x \<in> set (concat yss) \<longleftrightarrow> (\<exists>a \<in> set xs. \<exists>ys. f a = Inr ys \<and> x \<in> set ys)"
  by (induction xs arbitrary: yss) auto

lemma map_of_BASE: "map_of BASE_RATE_HZ r = Some x \<longleftrightarrow> (r, x) \<in> set BASE_RATE_HZ"
  by (rule map_of_eq_Some_iff) (simp add: BASE_RATE_HZ_def)

definition completion :: "int \<times> int set \<Rightarrow> pystr list cfg" where
  "completion = (\<lambda>(rate, got). if set BASE_CHANNELS - got \<noteq> {} then rbind (aaf_pcm32 8 rate True) (\<lambda>w. Inr [hex_fmt 16 w]) else Inr [])"

lemma completion_mem:
  "(\<exists>ys. completion (r, got) = Inr ys \<and> f \<in> set ys) \<longleftrightarrow>
     set BASE_CHANNELS - got \<noteq> {} \<and> (\<exists>nsr spf. (r, nsr, spf) \<in> set BASE_RATE_HZ \<and> f = hex_fmt 16 (aaf_word nsr spf 8 True))"
  by (cases "map_of BASE_RATE_HZ r") (auto simp: completion_def aaf_pcm32_def simp flip: map_of_BASE)

text \<open>The entries the completion appends: one "up to" 8 format per rate that is armed and not whole.\<close>

definition completes :: "pystr list \<Rightarrow> pystr list \<Rightarrow> bool" where
  "completes fmts extra \<longleftrightarrow> (\<forall>f. f \<in> set extra \<longleftrightarrow> (\<exists>r nsr spf. (r, nsr, spf) \<in> set BASE_RATE_HZ \<and> covered fmts r \<noteq> {}
      \<and> set BASE_CHANNELS - covered fmts r \<noteq> {} \<and> f = hex_fmt 16 (aaf_word nsr spf 8 True)))"

lemma base_format_complete_entries:
  assumes "base_format_complete fmts = Inr out"
  obtains extra where "out = fmts @ extra" "completes fmts extra"
proof -
  obtain cov more where c: "base_format_cover fmts = Inr cov" "mapE completion (sort_key fst cov) = Inr more" "out = fmts @ concat more"
    using assms by (auto simp: base_format_complete_def completion_def)
  note ok = base_format_cover_ok[OF c(1)]
  have mem: "a \<in> set cov \<longleftrightarrow> covered fmts (fst a) \<noteq> {} \<and> snd a = covered fmts (fst a)" for a
    using map_of_eq_Some_iff[OF ok(1), of "fst a" "snd a"] unfolding ok(2) by (simp split: if_splits) metis
  have "f \<in> set (concat more) \<longleftrightarrow> (\<exists>a \<in> set cov. \<exists>ys. completion (fst a, snd a) = Inr ys \<and> f \<in> set ys)" for f
    using mapE_Inr_concat[OF c(2), of f] by simp
  then have "completes fmts (concat more)" unfolding completes_def completion_mem Bex_def mem by (metis fst_conv snd_conv)
  with c(3) show thesis by (rule that)
qed

lemma covered_rate: "covered fmts r \<noteq> {} \<Longrightarrow> \<exists>nsr spf. (r, nsr, spf) \<in> set BASE_RATE_HZ"
proof -
  assume "covered fmts r \<noteq> {}"
  then obtain f where "row_at r f \<noteq> {}" by (auto simp: covered_def)
  then obtain ch ut where "base_format_rate f = Inr (Some (r, ch, ut))"
    by (auto simp: row_at_def split: sum.splits option.splits if_splits)
  from base_format_rate_in[OF this] show ?thesis by force
qed

lemma row_at_completion:
  assumes "(rate, nsr, spf) \<in> set BASE_RATE_HZ"
  shows "row_at r (hex_fmt 16 (aaf_word nsr spf 8 True)) = (if r = rate then set BASE_CHANNELS else {})"
  using base_format_rate_word[OF assms, of 8 True] by (auto simp: row_at_def row_cover_def BASE_CHANNELS_def)

lemma not_whole: "set BASE_CHANNELS - covered fmts r \<noteq> {} \<longleftrightarrow> covered fmts r \<noteq> set BASE_CHANNELS"
  using covered_base[of fmts r] by blast

lemma completes_covered:
  assumes "completes fmts extra"
  shows "covered (fmts @ extra) r = (if covered fmts r = {} then {} else set BASE_CHANNELS)"
proof -
  have "x \<in> covered extra r \<longleftrightarrow> covered fmts r \<noteq> {} \<and> covered fmts r \<noteq> set BASE_CHANNELS \<and> x \<in> set BASE_CHANNELS" for x
  proof -
    have "x \<in> covered extra r \<longleftrightarrow> (\<exists>q nsr spf. (q, nsr, spf) \<in> set BASE_RATE_HZ \<and> covered fmts q \<noteq> {}
        \<and> covered fmts q \<noteq> set BASE_CHANNELS \<and> x \<in> row_at r (hex_fmt 16 (aaf_word nsr spf 8 True)))"
      unfolding covered_def[of extra] UN_iff Bex_def assms[unfolded completes_def, rule_format] not_whole by blast
    also have "\<dots> \<longleftrightarrow> covered fmts r \<noteq> {} \<and> covered fmts r \<noteq> set BASE_CHANNELS \<and> x \<in> set BASE_CHANNELS"
      using row_at_completion[of _ _ _ r] covered_rate[of fmts r] by (metis empty_iff)
    finally show ?thesis .
  qed
  then show ?thesis using covered_base[of fmts r] unfolding covered_append by auto
qed

lemma completes_nothing: "completes fmts extra \<Longrightarrow> \<forall>r. covered fmts r \<in> {{}, set BASE_CHANNELS} \<Longrightarrow> extra = []"
  unfolding completes_def not_whole by (metis insertE last_in_set singletonD)

lemma completes_words: "completes fmts extra \<Longrightarrow> f \<in> set extra \<Longrightarrow> \<exists>n. fmt_word f = Inr n \<and> 0 \<le> n \<and> n < 2 ^ 64 \<and> drop_bit 56 n = 2"
  unfolding completes_def using aaf_word_fields(3-5)[of _ _ _ 8 True] fmt_word_hex_fmt by (metis zero_le_numeral numeral_less_iff semiring_norm(76,78) rel_simps(28))

lemma base_format_complete_total:
  assumes "\<forall>f \<in> set fmts. \<exists>n. fmt_word f = Inr n"
  shows "\<exists>out. base_format_complete fmts = Inr out"
proof -
  obtain cov where c: "base_format_cover fmts = Inr cov" using base_format_cover_total[OF assms] by blast
  note ok = base_format_cover_ok[OF c]
  have "\<exists>y. completion a = Inr y" if a: "a \<in> set cov" for a
  proof -
    have "map_of cov (fst a) = Some (snd a)" using a ok(1) by (simp add: map_of_eq_Some_iff)
    from ok(3)[OF this] obtain x where "map_of BASE_RATE_HZ (fst a) = Some x" by (auto simp: BASE_RATE_HZ_def)
    then show ?thesis by (cases a) (auto simp: completion_def aaf_pcm32_def split: prod.splits)
  qed
  then obtain more where "mapE completion (sort_key fst cov) = Inr more"
    using mapE_total[of "sort_key fst cov" completion "\<lambda>a. projr (completion a)"] by (metis set_sort sum.sel(2))
  with c show ?thesis by (simp add: base_format_complete_def completion_def)
qed

text \<open>The Base rates a list arms without covering every Base channel count, in ascending order, with their format fields.\<close>

definition incomplete_rates :: "pystr list \<Rightarrow> (int \<times> int \<times> int) list" where
  "incomplete_rates fmts = filter (\<lambda>b. covered fmts (fst b) \<noteq> {} \<and> covered fmts (fst b) \<noteq> set BASE_CHANNELS) BASE_RATE_HZ"

definition up_to_8 :: "int \<times> int \<times> int \<Rightarrow> pystr" where
  "up_to_8 = (\<lambda>(r, nsr, spf). hex_fmt 16 (aaf_word nsr spf 8 True))"

lemma completion_at:
  assumes "(r, nsr, spf) \<in> set BASE_RATE_HZ"
  shows "completion (r, covered fmts r) = Inr (if covered fmts r = set BASE_CHANNELS then [] else [up_to_8 (r, nsr, spf)])"
proof -
  have "map_of BASE_RATE_HZ r = Some (nsr, spf)" using assms unfolding map_of_BASE .
  then show ?thesis using not_whole[of fmts r] by (simp add: completion_def aaf_pcm32_def up_to_8_def)
qed

lemma mapE_pointwise: "(\<And>x. x \<in> set xs \<Longrightarrow> f x = Inr (g x)) \<Longrightarrow> mapE f xs = Inr (map g xs)"
  by (induction xs) simp_all

lemma mapE_map_eq: "mapE f (map g xs) = mapE (\<lambda>x. f (g x)) xs"
  by (induction xs) simp_all

lemma base_rates_sorted: "sorted (map fst BASE_RATE_HZ)" "distinct (map fst BASE_RATE_HZ)"
  by (simp_all add: BASE_RATE_HZ_def)

lemma concat_map_if: "concat (map (\<lambda>x. if P x then [] else [g x]) xs) = map g (filter (\<lambda>x. \<not> P x) xs)"
  by (induction xs) simp_all

text \<open>The cover, in the order of its rates, is the armed part of the table of Base rates.\<close>

lemma sorted_cover:
  assumes "base_format_cover fmts = Inr cov"
  shows "sort_key fst cov = map (\<lambda>b. (fst b, covered fmts (fst b))) (filter (\<lambda>b. covered fmts (fst b) \<noteq> {}) BASE_RATE_HZ)"
proof -
  let ?b = "filter (\<lambda>b. covered fmts (fst b) \<noteq> {}) BASE_RATE_HZ"
  note ok = base_format_cover_ok[OF assms]
  have mem: "a \<in> set cov \<longleftrightarrow> covered fmts (fst a) \<noteq> {} \<and> snd a = covered fmts (fst a)" for a
    using map_of_eq_Some_iff[OF ok(1), of "fst a" "snd a"] unfolding ok(2) by (simp split: if_splits) metis
  have "set (map fst (sort_key fst cov)) = set (map fst ?b)"
  proof (intro set_eqI iffI)
    fix r assume "r \<in> set (map fst (sort_key fst cov))"
    then have "covered fmts r \<noteq> {}" using mem by auto
    then show "r \<in> set (map fst ?b)" using covered_rate[of fmts r] by force
  next
    fix r assume "r \<in> set (map fst ?b)"
    then have "(r, covered fmts r) \<in> set cov" using mem[of "(r, covered fmts r)"] by auto
    then show "r \<in> set (map fst (sort_key fst cov))" by force
  qed
  moreover have "distinct (map fst (sort_key fst cov))" "sorted (map fst (sort_key fst cov))"
    using ok(1) by (simp_all add: distinct_map)
  moreover have "distinct (map fst ?b)" "sorted (map fst ?b)"
    using base_rates_sorted by (simp_all add: distinct_map_filter sorted_filter)
  ultimately have keys: "map fst (sort_key fst cov) = map fst ?b" by (intro sorted_distinct_set_unique)
  have "sort_key fst cov = map (\<lambda>a. (fst a, covered fmts (fst a))) (sort_key fst cov)"
    by (rule sym, rule map_idI) (use mem in \<open>metis prod.collapse set_sort\<close>)
  also have "\<dots> = map (\<lambda>r. (r, covered fmts r)) (map fst (sort_key fst cov))" by simp
  finally show ?thesis unfolding keys by simp
qed

lemma base_format_complete_exact:
  assumes "\<forall>f \<in> set fmts. \<exists>n. fmt_word f = Inr n"
  shows "base_format_complete fmts = Inr (fmts @ map up_to_8 (incomplete_rates fmts))"
proof -
  let ?b = "filter (\<lambda>b. covered fmts (fst b) \<noteq> {}) BASE_RATE_HZ"
  obtain cov where c: "base_format_cover fmts = Inr cov" using base_format_cover_total[OF assms] by blast
  have "mapE completion (sort_key fst cov)
      = Inr (map (\<lambda>b. if covered fmts (fst b) = set BASE_CHANNELS then [] else [up_to_8 b]) ?b)"
  proof -
    have "mapE (\<lambda>b. completion (fst b, covered fmts (fst b))) ?b
        = Inr (map (\<lambda>b. if covered fmts (fst b) = set BASE_CHANNELS then [] else [up_to_8 b]) ?b)"
      by (rule mapE_pointwise) (use completion_at in force)
    then show ?thesis unfolding sorted_cover[OF c] mapE_map_eq by simp
  qed
  moreover have "filter (\<lambda>b. covered fmts (fst b) \<noteq> set BASE_CHANNELS) ?b = incomplete_rates fmts"
    by (simp add: incomplete_rates_def)
  ultimately show ?thesis using c concat_map_if[of "\<lambda>b. covered fmts (fst b) = set BASE_CHANNELS" up_to_8 ?b]
    by (simp add: base_format_complete_def completion_def)
qed

text \<open>
  Property C23. Milan v1.2 6.4 by construction: the completed list of a Stream Input is the declared list followed by
  exactly one "up to 8 channels" format, in ascending order, per rate the list arms without covering all Base channel
  counts, so nothing redundant is added; it arms no new rate, advertises every Base channel count of each armed
  rate, and completing it again adds nothing. A list of hexadecimal words is never refused.
\<close>

theorem base_format_family_complete:
  assumes "\<forall>f \<in> set fmts. \<exists>n. fmt_word f = Inr n"
  shows "\<exists>out. base_format_complete fmts = Inr out \<and> out = fmts @ map up_to_8 (incomplete_rates fmts)
    \<and> (\<forall>r. covered out r = (if covered fmts r = {} then {} else set BASE_CHANNELS))
    \<and> base_format_complete out = Inr out"
proof -
  obtain extra where e: "base_format_complete fmts = Inr (fmts @ extra)" "completes fmts extra"
    using base_format_complete_total[OF assms] by (metis base_format_complete_entries)
  note c = completes_covered[OF e(2)]
  obtain extra' where e': "base_format_complete (fmts @ extra) = Inr ((fmts @ extra) @ extra')" "completes (fmts @ extra) extra'"
    using base_format_complete_total[of "fmts @ extra"] completes_words[OF e(2)] assms
    by (metis base_format_complete_entries UnE set_append)
  have "extra' = []" using c by (intro completes_nothing[OF e'(2)]) simp
  moreover have "extra = map up_to_8 (incomplete_rates fmts)" using e(1) base_format_complete_exact[OF assms] by simp
  ultimately show ?thesis using e(1) c e'(1) by auto
qed

theorem base_format_family_complete_witness:
  "base_format_complete [hex_fmt 16 0x0205022000806000] = Inr [hex_fmt 16 0x0205022000806000, hex_fmt 16 (aaf_word 5 6 8 True)]
     \<and> covered [hex_fmt 16 0x0205022000806000, hex_fmt 16 (aaf_word 5 6 8 True)] 48000 = {1, 2, 4, 6, 8}"
proof -
  have w: "aaf_word 5 6 2 False = 0x0205022000806000" by (simp add: aaf_word_def)
  have "base_format_rate (hex_fmt 16 0x0205022000806000) = Inr (Some (48000, 2, False))"
    using base_format_rate_word[of 48000 5 6 2 False] by (simp add: w BASE_RATE_HZ_def)
  then have c: "covered [hex_fmt 16 0x0205022000806000] r = (if r = 48000 then {2} else {})" for r
    by (simp add: covered_def row_at_def row_cover_def BASE_CHANNELS_def)
  have "incomplete_rates [hex_fmt 16 0x0205022000806000] = [(48000, 5, 6)]"
    by (simp add: incomplete_rates_def c BASE_RATE_HZ_def BASE_CHANNELS_def)
  moreover have "\<forall>f \<in> set [hex_fmt 16 0x0205022000806000]. \<exists>n. fmt_word f = Inr n" by simp
  from base_format_family_complete[OF this] obtain out where
    "base_format_complete [hex_fmt 16 0x0205022000806000] = Inr out"
    "out = [hex_fmt 16 0x0205022000806000] @ map up_to_8 (incomplete_rates [hex_fmt 16 0x0205022000806000])"
    "covered out 48000 = (if covered [hex_fmt 16 0x0205022000806000] 48000 = {} then {} else set BASE_CHANNELS)" by blast
  ultimately show ?thesis by (simp add: c up_to_8_def BASE_CHANNELS_def)
qed

section \<open>Accepted stream declarations\<close>

definition no_ut :: "pystr \<Rightarrow> bool" where
  "no_ut f = (case base_format_rate f of Inr (Some (_, _, ut)) \<Rightarrow> \<not> ut | Inr None \<Rightarrow> True | Inl _ \<Rightarrow> False)"

definition formats_ok :: "direction \<Rightarrow> pystr list \<Rightarrow> bool" where
  "formats_ok dir fs \<longleftrightarrow> fs \<noteq> [] \<and> length fs \<le> MAX_STREAM_FORMATS \<and> no_ut (fs ! 0)
     \<and> (\<forall>f \<in> set fs. \<exists>n. fmt_word f = Inr n \<and> drop_bit 56 n = 2)
     \<and> (dir = Listener \<longrightarrow> (\<forall>r. covered fs r \<in> {{}, set BASE_CHANNELS}))"

definition stream_ok :: "direction \<Rightarrow> stream_cfg \<Rightarrow> bool" where
  "stream_ok dir s \<longleftrightarrow> 1 \<le> sc_channels s \<and> sc_channels s \<le> 32 \<and> 1 \<le> sc_clusters s \<and> sc_clusters s \<le> 32
     \<and> formats_ok dir (sc_formats s) \<and> sc_map_mode s \<in> {''static'', ''dynamic''}
     \<and> (dir = Listener \<longrightarrow> sc_map_mode s = ''dynamic'')
     \<and> (\<forall>p. sc_map_page s = Some p \<longrightarrow> sc_map_mode s = ''dynamic'' \<and> 1 \<le> p \<and> p \<le> 11)
     \<and> (dir = Listener \<longrightarrow> within BUFLEN_DEFAULT_NS UINT32_MAX (exact_int (sc_buffer s)))
     \<and> sc_offset s = (if dir = Talker then Some PRESENTATION_TIME_OFFSET_NS else None)"

lemma fmt64_word: "fmt64 v = Inr f \<Longrightarrow> \<exists>n. fmt_word f = Inr n"
  using hex_text_bounds[of v 64] by (auto simp: fmt64_def eui64_def)

lemma family_ok_iff: "family_ok fam fs = Inr True \<longleftrightarrow> (\<forall>f \<in> set fs. \<exists>n. fmt_word f = Inr n \<and> drop_bit 56 n = fam)"
  by (induction fs) auto

lemma validate_aaf:
  assumes "validate_stream_formats fs AAF = Inr u"
  shows "length fs \<le> MAX_STREAM_FORMATS \<and> (\<forall>f \<in> set fs. \<exists>n. fmt_word f = Inr n \<and> drop_bit 56 n = 2)"
proof -
  have "aaf_pcm32 0 48000 False = Inr (aaf_word 5 6 0 False)" by (simp add: aaf_pcm32_def BASE_RATE_HZ_def)
  moreover have "drop_bit 56 (aaf_word 5 6 0 False) = 2" by (simp add: aaf_word_def drop_bit_eq_div)
  ultimately show ?thesis
    using assms by (auto simp: validate_stream_formats_def family_ok_iff[symmetric])
qed

lemma stream_formats_ok:
  assumes "stream_formats s ch dir rate = Inr out"
  shows "formats_ok dir out"
proof -
  obtain fs f0 row where f: "py_nth fs 0 = (Inr f0 :: pystr cfg)" "base_format_rate f0 = Inr row"
    "case row of Some (_, _, ut) \<Rightarrow> \<not> ut | None \<Rightarrow> True"
    "(if dir = Talker then Inr fs else rbind (mapE (\<lambda>f. rbind (base_format_rate f) (\<lambda>row.
        ensure (case row of Some (_, _, ut) \<Rightarrow> \<not> ut | None \<Rightarrow> True) (Refused UtRestated))) fs) (\<lambda>_. base_format_complete fs)) = Inr out"
    and v: "validate_stream_formats out AAF = Inr ()"
    using assms unfolding stream_formats_def rbind_Inr_iff ensure_Inr_iff by (elim exE conjE) (rule that, simp_all)
  have hd: "fs \<noteq> []" "f0 = fs ! 0" using f(1) by simp_all
  have c: "out = fs \<and> dir = Talker \<or> base_format_complete fs = Inr out \<and> dir = Listener"
    using f(4) by (cases dir) auto
  obtain extra where e: "out = fs @ extra" "dir = Listener \<longrightarrow> completes fs extra"
    using c by (metis append.right_neutral base_format_complete_entries direction.distinct(1))
  have "no_ut (out ! 0)" using f(2,3) hd by (simp add: e(1) nth_append no_ut_def split: option.splits)
  moreover have "dir = Listener \<longrightarrow> (\<forall>r. covered out r \<in> {{}, set BASE_CHANNELS})"
    using e completes_covered by auto
  ultimately show ?thesis using validate_aaf[OF v] hd(1) e(1) by (simp add: formats_ok_def)
qed

lemma within_Inr: "(if within lo hi v then Inr (the v) else Inl e) = Inr c \<longleftrightarrow> v = Some c \<and> lo \<le> c \<and> c \<le> hi"
  by (auto simp: within_def split: option.splits)

lemma map_mode_ok: "map_mode_of m dir = Inr mode \<Longrightarrow> mode \<in> {''static'', ''dynamic''} \<and> (dir = Listener \<longrightarrow> mode = ''dynamic'')"
  by (auto simp: map_mode_of_def Let_def split: if_splits)

lemma map_page_ok: "map_page_of m mode = Inr (Some p) \<Longrightarrow> mode = ''dynamic'' \<and> 1 \<le> p \<and> p \<le> 11"
  by (auto simp: map_page_of_def within_def split: yv.splits if_splits)

lemma stream_buffer_ok: "stream_buffer_ns m Listener = Inr v \<Longrightarrow> within BUFLEN_DEFAULT_NS UINT32_MAX (exact_int v)"
  by (auto simp: stream_buffer_ns_def Let_def within_def split: option.splits if_splits)

lemma stream_row_ok:
  assumes "stream_row dir rate (k, s) = Inr r"
  shows "stream_ok dir r"
proof -
  obtain m where s: "s = YMap m" using assms by (cases s) (auto simp: stream_row_def split: if_splits)
  obtain ch fmts cl mode page buf ofs where f: "1 \<le> ch \<and> ch \<le> 32" "1 \<le> cl \<and> cl \<le> 32" "stream_formats m ch dir rate = Inr fmts"
    "map_mode_of m dir = Inr mode" "map_page_of m mode = Inr page" "stream_buffer_ns m dir = Inr buf"
    "(if dir = Talker then rbind (factory_offset m) (\<lambda>o1. Inr (Some o1))
      else if map_of m (lit ''presentation_time_offset_ns'') \<noteq> None then Inl (Refused OffsetOnListener) else Inr None) = Inr ofs"
    "sc_channels r = ch \<and> sc_formats r = fmts \<and> sc_clusters r = cl \<and> sc_map_mode r = mode \<and> sc_map_page r = page
     \<and> sc_buffer r = buf \<and> sc_offset r = ofs"
    using assms unfolding s stream_row_def prod.case rbind_Inr_iff yv.case Let_def within_Inr
    by (elim exE conjE) (rule that; force)
  have "ofs = (if dir = Talker then Some PRESENTATION_TIME_OFFSET_NS else None)"
    using f(7) by (auto simp: factory_offset_def split: if_splits)
  then show ?thesis
    using f stream_formats_ok[OF f(3)] map_mode_ok[OF f(4)] map_page_ok[of m mode] stream_buffer_ok[of m buf]
    by (auto simp: stream_ok_def)
qed

lemma streams_ok:
  assumes "streams lst dir rate = Inr out"
  shows "out \<noteq> [] \<and> length out \<le> 16 \<and> list_all (stream_ok dir) out"
proof -
  obtain rows where r: "rows \<noteq> []" "length rows \<le> 16" "mapE (stream_row dir rate) (enum rows) = Inr out"
    using assms by (auto simp: streams_def split: yv.splits if_splits)
  have "length out = length rows" using mapE_length[OF r(3)] by simp
  moreover have "stream_ok dir (out ! i)" if "i < length out" for i
    using mapE_nth[OF r(3), of i] that calculation by (auto simp: enum_nth intro: stream_row_ok)
  ultimately show ?thesis using r(1,2) by (auto simp: list_all_length)
qed

text \<open>
  Property C24. Every accepted list of streams is well formed: 1 to 16 streams of 1 to 32 channels and clusters, a non-empty
  AAF-only format list inside the descriptor bound whose current format carries no "up to" bit; a listener is dynamically
  mapped, advertises whole Base families and holds a buffer length inside the Milan floor and the 32-bit field; a talker
  has the 2 ms factory offset; a map page is given only to dynamic streams and is 1 to 11.
\<close>

theorem streams_well_formed:
  assumes "streams lst dir rate = Inr out"
  shows "out \<noteq> [] \<and> length out \<le> 16 \<and> list_all (stream_ok dir) out"
  using assms by (rule streams_ok)

theorem streams_well_formed_witness:
  "\<exists>out. streams (YList [YMap [(lit ''channels'', YInt 2)]]) Talker 48000 = Inr out \<and> out \<noteq> []
     \<and> sc_offset (out ! 0) = Some 2000000 \<and> no_ut (sc_formats (out ! 0) ! 0)"
proof -
  have w: "aaf_word 5 6 2 False = 0x0205022000806000" by (simp add: aaf_word_def)
  let ?f = "hex_fmt 16 0x0205022000806000"
  have a: "aaf_pcm32 2 48000 False = Inr 0x0205022000806000" "aaf_pcm32 0 48000 False = Inr 0x0205022000006000"
    by (simp_all add: aaf_pcm32_def BASE_RATE_HZ_def w aaf_word_def)
  have f: "fmt64 (YStr ?f) = Inr ?f" using hex_text_hex_fmt[of "0x0205022000806000" 15] by (simp add: fmt64_def eui64_def)
  have b: "base_format_rate ?f = Inr (Some (48000, 2, False))"
    using base_format_rate_word[of 48000 5 6 2 False] by (simp add: w BASE_RATE_HZ_def)
  have v: "validate_stream_formats [?f] AAF = Inr ()"
    by (simp add: validate_stream_formats_def a drop_bit_eq_div MAX_STREAM_FORMATS_def AEM_DESCRIPTOR_MAX_BYTES_def
      STREAM_FORMATS_OFFSET_def STREAM_FORMAT_BYTES_def)
  have "stream_formats [(lit ''channels'', YInt 2)] 2 Talker 48000 = Inr [?f]"
    by (simp add: stream_formats_def get_def lit_def a f b v)
  then have "\<exists>out. streams (YList [YMap [(lit ''channels'', YInt 2)]]) Talker 48000 = Inr out"
    by (simp add: streams_def enum_def stream_row_def get_def lit_def within_def map_mode_of_def map_page_of_def
      stream_buffer_ns_def factory_offset_def)
  then obtain out where o: "streams (YList [YMap [(lit ''channels'', YInt 2)]]) Talker 48000 = Inr out" by blast
  from streams_well_formed[OF o] have "stream_ok Talker (out ! 0)" "out \<noteq> []" by (auto simp: list_all_length)
  then show ?thesis using o by (auto simp: stream_ok_def formats_ok_def PRESENTATION_TIME_OFFSET_NS_def)
qed

end
