(* ===== verification/Builder_Clusters.thy ===== *)
theory Builder_Clusters
  imports Builder_Formats
begin

text \<open>
  The cluster and port layout of the end-station builder (\<^verbatim>\<open>cluster_layout\<close> and the cluster names of
  \<^verbatim>\<open>sw/builder/endstation_builder.py\<close>): one STREAM_PORT per stream, each with a contiguous AUDIO_CLUSTER block whose pool
  segments name the role of every cluster. The \<^verbatim>\<open>pools\<close> mapping is the pair of the truth value of \<^verbatim>\<open>pilot\<close> and the
  integer \<^verbatim>\<open>loopback\<close>; an absent mapping reads as neither.
\<close>

section \<open>Rules, segments and ports\<close>

record ClusterRules =
  policy :: string
  iface_channels :: int
  phys :: "(int \<times> int) option"
  pools :: "bool \<times> int"
  lb_backed :: bool

record segment =
  seg_role :: string
  seg_offset :: int
  seg_width :: int
  seg_first :: int

record bport =
  bp_index :: nat
  bp_stream_index :: nat
  bp_clusters :: int
  bp_base_cluster :: int
  bp_maps :: int
  bp_base_map :: int
  bp_map_mode :: string
  bp_map_page :: "int option"
  bp_pool :: "segment list"
  bp_lb_backed :: bool

definition CLUSTER_POLICIES :: "string list" where
  "CLUSTER_POLICIES = [''cap-at-interface'', ''cluster-per-stream-channel'', ''role-pools'']"

text \<open>Physical width per direction, render then capture.\<close>

definition cluster_widths :: "ClusterRules \<Rightarrow> int \<times> int" where
  "cluster_widths rules = (case phys rules of None \<Rightarrow> (iface_channels rules, iface_channels rules) | Some w \<Rightarrow> w)"

definition effective_clusters :: "ClusterRules \<Rightarrow> stream_cfg \<Rightarrow> int" where
  "effective_clusters rules s =
     (if policy rules = ''cap-at-interface'' then min (sc_clusters s) (iface_channels rules) else sc_clusters s)"

definition legacy_pool :: "int \<Rightarrow> int \<Rightarrow> int \<Rightarrow> segment list" where
  "legacy_pool dir_base n ph =
     (let n_phys = max 0 (min n (ph - dir_base));
          off = n_phys
      in (if n_phys \<noteq> 0 then [\<lparr>seg_role = ''physical'', seg_offset = 0, seg_width = n_phys, seg_first = dir_base\<rparr>] else [])
         @ (if n - off \<noteq> 0
            then [\<lparr>seg_role = ''virtual'', seg_offset = off, seg_width = n - off, seg_first = dir_base + off\<rparr>] else []))"

text \<open>The loop over the three roles, in their fixed order, skipping a pool of no width.\<close>

fun role_segments :: "nat \<Rightarrow> int \<Rightarrow> (string \<times> int) list \<Rightarrow> segment list" where
  "role_segments i off [] = []"
| "role_segments i off ((role, w) # rest) =
     (if w > 0
      then \<lparr>seg_role = role, seg_offset = off, seg_width = w,
             seg_first = (if role \<noteq> ''loopback'' then 0 else int i)\<rparr> # role_segments i (off + w) rest
      else role_segments i off rest)"

definition role_pool :: "ClusterRules \<Rightarrow> bool \<Rightarrow> nat \<Rightarrow> segment list cfg" where
  "role_pool rules input i =
     (let (ph_render, ph_capture) = cluster_widths rules;
          segs = role_segments i 0
            [(''physical'', if input then ph_render else ph_capture),
             (''pilot'', if input then 0 else if fst (pools rules) then 1 else 0),
             (''loopback'', if input then 0 else snd (pools rules))]
      in if segs = [] \<and> input \<and> ph_render = 0 then Inr []
         else if segs = [] then Inl (Refused (EmptyPool (if input then ''INPUT'' else ''OUTPUT'') i))
         else Inr segs)"

definition port_pool :: "ClusterRules \<Rightarrow> bool \<Rightarrow> nat \<Rightarrow> int \<Rightarrow> stream_cfg \<Rightarrow> (segment list \<times> int) cfg" where
  "port_pool rules input i dir_base s =
     (if policy rules = ''role-pools''
      then rbind (role_pool rules input i) (\<lambda>pool. Inr (pool, sum_list (map seg_width pool)))
      else let n = effective_clusters rules s;
               ph = (if input then fst (cluster_widths rules) else snd (cluster_widths rules))
           in Inr (legacy_pool dir_base n ph, n))"

text \<open>The two port loops differ in the direction and in what the cluster and map numbering start from.\<close>

fun ports_from :: "ClusterRules \<Rightarrow> bool \<Rightarrow> nat \<Rightarrow> int \<Rightarrow> int \<Rightarrow> int \<Rightarrow> stream_cfg list \<Rightarrow> bport list cfg" where
  "ports_from rules input i base next_map dir_base [] = Inr []"
| "ports_from rules input i base next_map dir_base (s # ss) =
     rbind (port_pool rules input i dir_base s) (\<lambda>(pool, n).
     let dyn = (sc_map_mode s = ''dynamic'') in
     rbind (ports_from rules input (Suc i) (base + n) (if dyn then next_map else next_map + 1) (dir_base + n) ss) (\<lambda>ps.
       Inr (\<lparr>bp_index = i, bp_stream_index = i, bp_clusters = n, bp_base_cluster = base,
              bp_maps = (if dyn then 0 else 1), bp_base_map = (if dyn then 0 else next_map),
              bp_map_mode = sc_map_mode s, bp_map_page = (if input then sc_map_page s else None),
              bp_pool = pool, bp_lb_backed = (if input then True else lb_backed rules)\<rparr> # ps)))"

definition input_ports :: "stream_cfg list \<Rightarrow> ClusterRules \<Rightarrow> bport list cfg" where
  "input_ports listeners rules = ports_from rules True 0 0 0 0 listeners"

definition output_ports :: "stream_cfg list \<Rightarrow> ClusterRules \<Rightarrow> int \<Rightarrow> int \<Rightarrow> bport list cfg" where
  "output_ports talkers rules base next_map = ports_from rules False 0 base next_map 0 talkers"

definition port_dynamic :: "bport \<Rightarrow> bool" where
  "port_dynamic p = (bp_map_mode p = ''dynamic'')"

definition explicit_pages :: "bport list \<Rightarrow> int list" where
  "explicit_pages dynp = remdups (List.map_filter bp_map_page dynp)"

definition settle_map_page :: "bport list \<Rightarrow> bport list cfg" where
  "settle_map_page ports =
     (let dynp = filter port_dynamic ports in
      if dynp = [] then Inr ports
      else if length (explicit_pages dynp) > 1 then Inl (Refused (PagesDiffer (sort (explicit_pages dynp))))
      else let page = (case explicit_pages dynp of p # _ \<Rightarrow> p
                       | [] \<Rightarrow> max 1 (min (Max (set (map bp_clusters dynp))) 8))
           in if \<not> (1 \<le> page \<and> page \<le> 11) then Inl (Refused (PageRange page))
              else Inr (map (\<lambda>p. if port_dynamic p then p\<lparr>bp_map_page := Some page\<rparr> else p) ports))"

definition cluster_layout :: "stream_cfg list \<Rightarrow> stream_cfg list \<Rightarrow> ClusterRules \<Rightarrow> (bport list \<times> bport list) cfg" where
  "cluster_layout listeners talkers rules =
     (if policy rules \<notin> set CLUSTER_POLICIES then Inl (Refused UnknownPolicy)
      else rbind (input_ports listeners rules) (\<lambda>raw_in.
        rbind (settle_map_page raw_in) (\<lambda>ports_in.
        rbind (output_ports talkers rules (sum_list (map bp_clusters ports_in)) (sum_list (map bp_maps ports_in))) (\<lambda>ports_out.
          Inr (ports_in, ports_out)))))"

section \<open>The power-on segment and the cluster names\<close>

definition primary_roles :: "bool \<Rightarrow> string list" where
  "primary_roles input =
     (if input then [''physical'', ''virtual''] else [''physical'', ''loopback'', ''pilot'', ''virtual''])"

text \<open>The last segment of a role is the dict's.\<close>

definition by_role :: "bport \<Rightarrow> string \<Rightarrow> segment option" where
  "by_role p role =
     (if role = ''loopback'' \<and> \<not> bp_lb_backed p then None
      else find (\<lambda>g. seg_role g = role) (rev (bp_pool p)))"

definition primary_segment :: "bport \<Rightarrow> bool \<Rightarrow> segment option" where
  "primary_segment p input =
     (case find (\<lambda>role. by_role p role \<noteq> None) (primary_roles input) of
        Some role \<Rightarrow> by_role p role
      | None \<Rightarrow> (case bp_pool p of g # _ \<Rightarrow> Some g | [] \<Rightarrow> None))"

record naming =
  nm_label :: pystr
  nm_way :: pystr
  nm_names :: "pystr list"
  nm_rx :: "(nat \<times> nat) list"

definition IFACE_LABEL :: "(string \<times> string) list" where
  "IFACE_LABEL = [(''i2s_philips'', ''I2S''), (''tdm8'', ''TDM8''), (''tdm16'', ''TDM16''), (''tdm32'', ''TDM32''),
     (''aes3'', ''AES3''), (''spdif'', ''S/PDIF'')]"

definition cluster_naming :: "string \<Rightarrow> pystr list option \<Rightarrow> stream_cfg list \<Rightarrow> bool \<Rightarrow> naming" where
  "cluster_naming kind channel_names listeners input =
     \<lparr>nm_label = lit (case map_of IFACE_LABEL kind of Some l \<Rightarrow> l | None \<Rightarrow> ''AUDIO''),
      nm_way = lit (if input then ''Out'' else ''In''),
      nm_names = (case channel_names of Some ns \<Rightarrow> ns | None \<Rightarrow> []),
      nm_rx = concat (map (\<lambda>(si, s). map (Pair si) [0..<nat (sc_channels s)]) (enum listeners))\<rparr>"

definition chname :: "naming \<Rightarrow> int \<Rightarrow> pystr \<Rightarrow> pystr" where
  "chname ctx k fallback = (if k < int (length (nm_names ctx)) then nm_names ctx ! nat k else fallback)"

definition rx_index :: "naming \<Rightarrow> int \<Rightarrow> nat" where
  "rx_index ctx stream = (case find (\<lambda>(k, si, ch). int si = stream \<and> ch = 0) (enum (nm_rx ctx)) of Some (k, _) \<Rightarrow> k | None \<Rightarrow> 0)"

definition cluster_name :: "naming \<Rightarrow> string \<Rightarrow> int \<Rightarrow> nat \<Rightarrow> pystr cfg" where
  "cluster_name ctx role first n =
     (if role = ''physical'' then
        Inr (nm_label ctx @ lit '' '' @ nm_way ctx @ lit '' '' @ chname ctx (first + int n) (dec (first + int n)))
      else if role = ''virtual'' then Inr (lit ''Virtual '' @ nm_way ctx @ lit '' '' @ dec (first + int n))
      else if role = ''pilot'' then Inr (lit ''Pilot Tone'')
      else if role = ''loopback'' then
        (if nm_rx ctx = [] then Inr (lit ''Loopback ch '' @ dec_nat n)
         else let (si, ch) = nm_rx ctx ! ((rx_index ctx first + n) mod length (nm_rx ctx))
              in Inr (lit ''Loopback S'' @ dec_nat si @ lit '' '' @ chname ctx (int ch) (lit ''ch '' @ dec_nat ch)))
      else Inl (Refused (NoNamer role)))"

definition cluster_names :: "naming \<Rightarrow> bport \<Rightarrow> pystr list cfg" where
  "cluster_names ctx p =
     rbind (concatE (map (\<lambda>g. mapE (cluster_name ctx (seg_role g) (seg_first g)) [0..<nat (seg_width g)]) (bp_pool p))) (\<lambda>out.
       if int (length out) = bp_clusters p then Inr out else Inl AssertionError)"

section \<open>Pools and blocks\<close>

text \<open>The segments cover the cluster offsets from \<open>off\<close> to \<open>n\<close>, back to back.\<close>

fun pool_tiles :: "int \<Rightarrow> segment list \<Rightarrow> int \<Rightarrow> bool" where
  "pool_tiles off [] n \<longleftrightarrow> off = n"
| "pool_tiles off (g # gs) n \<longleftrightarrow> seg_offset g = off \<and> 1 \<le> seg_width g \<and> pool_tiles (off + seg_width g) gs n"

lemma pool_tiles_le: "pool_tiles off gs n \<Longrightarrow> off \<le> n"
proof (induction gs arbitrary: off)
  case (Cons g gs)
  then have "off + seg_width g \<le> n" "1 \<le> seg_width g" by auto
  then show ?case by linarith
qed simp

lemma pool_tiles_sum: "pool_tiles off gs n \<Longrightarrow> n = off + sum_list (map seg_width gs)"
proof (induction gs arbitrary: off)
  case (Cons g gs)
  have "n = off + seg_width g + sum_list (map seg_width gs)" using Cons.prems by (intro Cons.IH) simp
  then show ?case by simp
qed simp

lemma role_segments_tile: "pool_tiles off (role_segments i off ws) (off + sum_list (map seg_width (role_segments i off ws)))"
proof (induction i off ws rule: role_segments.induct)
  case (2 i off role w rest)
  then show ?case by (auto simp: add.assoc)
qed simp

lemma legacy_pool_tile: "0 \<le> n \<Longrightarrow> pool_tiles 0 (legacy_pool b n ph) n"
  by (auto simp: legacy_pool_def Let_def max_def min_def)

lemma port_pool_tile:
  assumes "port_pool rules input i b s = Inr (pool, n)" "policy rules \<noteq> ''role-pools'' \<Longrightarrow> 0 \<le> effective_clusters rules s"
  shows "pool_tiles 0 pool n"
proof (cases "policy rules = ''role-pools''")
  case True
  then obtain ws where "pool = [] \<or> pool = role_segments i 0 ws" "n = sum_list (map seg_width pool)"
    using assms(1) by (auto simp: port_pool_def role_pool_def Let_def simp del: role_segments.simps split: if_splits prod.splits)
  then show ?thesis using role_segments_tile[of 0 i ws] by auto
next
  case False
  then have "pool = legacy_pool b n (if input then fst (cluster_widths rules) else snd (cluster_widths rules))" "n = effective_clusters rules s"
    using assms(1) by (auto simp: port_pool_def Let_def)
  then show ?thesis using legacy_pool_tile assms(2)[OF False] by simp
qed

definition streams_fit :: "ClusterRules \<Rightarrow> stream_cfg list \<Rightarrow> bool" where
  "streams_fit rules ss \<longleftrightarrow> (\<forall>s \<in> set ss. 1 \<le> sc_clusters s) \<and> 1 \<le> iface_channels rules"

fun numbered :: "nat \<Rightarrow> int \<Rightarrow> int \<Rightarrow> bport list \<Rightarrow> bool" where
  "numbered i base nm [] \<longleftrightarrow> True"
| "numbered i base nm (p # ps) \<longleftrightarrow> bp_index p = i \<and> bp_stream_index p = i \<and> bp_base_cluster p = base
     \<and> bp_maps p = of_bool (\<not> port_dynamic p) \<and> (\<not> port_dynamic p \<longrightarrow> bp_base_map p = nm)
     \<and> numbered (Suc i) (base + bp_clusters p) (nm + bp_maps p) ps"

lemma ports_from_ok:
  assumes "ports_from rules input i base nm b ss = Inr ps" "streams_fit rules ss"
  shows "numbered i base nm ps \<and> length ps = length ss \<and> map bp_map_mode ps = map sc_map_mode ss
    \<and> (\<forall>p \<in> set ps. pool_tiles 0 (bp_pool p) (bp_clusters p)) \<and> (input \<longrightarrow> map bp_map_page ps = map sc_map_page ss)"
  using assms
proof (induction ss arbitrary: i base nm b ps)
  case (Cons s ss)
  let ?nm = "if sc_map_mode s = ''dynamic'' then nm else nm + 1"
  obtain pool n qs where q: "port_pool rules input i b s = Inr (pool, n)"
    "ports_from rules input (Suc i) (base + n) ?nm (b + n) ss = Inr qs"
    "ps = \<lparr>bp_index = i, bp_stream_index = i, bp_clusters = n, bp_base_cluster = base,
              bp_maps = (if sc_map_mode s = ''dynamic'' then 0 else 1), bp_base_map = (if sc_map_mode s = ''dynamic'' then 0 else nm),
              bp_map_mode = sc_map_mode s, bp_map_page = (if input then sc_map_page s else None),
              bp_pool = pool, bp_lb_backed = (if input then True else lb_backed rules)\<rparr> # qs"
    using Cons.prems(1) by (auto simp: Let_def)
  have "0 \<le> effective_clusters rules s" using Cons.prems(2) by (auto simp: streams_fit_def effective_clusters_def)
  then have "pool_tiles 0 pool n" using port_pool_tile[OF q(1)] by simp
  moreover have "streams_fit rules ss" using Cons.prems(2) by (simp add: streams_fit_def)
  ultimately show ?case using Cons.IH[OF q(2)] by (auto simp: q(3) port_dynamic_def)
qed simp

lemma settle_map_page_ok:
  assumes "settle_map_page ports = Inr out"
  shows "\<exists>page. out = map (\<lambda>p. if port_dynamic p then p\<lparr>bp_map_page := Some page\<rparr> else p) ports \<and> 1 \<le> page \<and> page \<le> 11"
proof (cases "filter port_dynamic ports = []")
  case True
  then have "out = ports" "\<forall>p \<in> set ports. \<not> port_dynamic p"
    using assms by (auto simp: settle_map_page_def filter_empty_conv)
  then show ?thesis by (intro exI[of _ 1]) (auto intro: map_idI[symmetric])
qed (use assms in \<open>auto simp: settle_map_page_def Let_def split: if_splits\<close>)

lemma numbered_map_page:
  "numbered i base nm ps \<Longrightarrow> numbered i base nm (map (\<lambda>p. if port_dynamic p then p\<lparr>bp_map_page := q\<rparr> else p) ps)"
  by (induction ps arbitrary: i base nm) (auto simp: port_dynamic_def)

lemma numbered_nth:
  assumes "numbered i base nm ps" "k < length ps"
  shows "bp_index (ps ! k) = i + k \<and> bp_stream_index (ps ! k) = i + k
    \<and> bp_base_cluster (ps ! k) = base + sum_list (map bp_clusters (take k ps)) \<and> bp_maps (ps ! k) = of_bool (\<not> port_dynamic (ps ! k))
    \<and> (\<not> port_dynamic (ps ! k) \<longrightarrow> bp_base_map (ps ! k) = nm + sum_list (map bp_maps (take k ps)))"
  using assms
proof (induction ps arbitrary: i base nm k)
  case (Cons p ps)
  show ?case
  proof (cases k)
    case 0
    then show ?thesis using Cons.prems by simp
  next
    case (Suc j)
    then show ?thesis using Cons.IH[of "Suc i" "base + bp_clusters p" "nm + bp_maps p" j] Cons.prems by auto
  qed
qed simp

lemma cluster_layout_parts:
  assumes "cluster_layout L T rules = Inr (pi, po)" "streams_fit rules (L @ T)"
  obtains page where "numbered 0 0 0 pi" "numbered 0 (sum_list (map bp_clusters pi)) (sum_list (map bp_maps pi)) po"
    "length pi = length L" "length po = length T" "map bp_map_mode pi = map sc_map_mode L" "map bp_map_mode po = map sc_map_mode T"
    "\<forall>p \<in> set (pi @ po). pool_tiles 0 (bp_pool p) (bp_clusters p)" "1 \<le> page" "page \<le> 11"
    "\<forall>p \<in> set pi. port_dynamic p \<longrightarrow> bp_map_page p = Some page"
proof -
  obtain raw where r: "ports_from rules True 0 0 0 0 L = Inr raw" "settle_map_page raw = Inr pi"
    "ports_from rules False 0 (sum_list (map bp_clusters pi)) (sum_list (map bp_maps pi)) 0 T = Inr po"
    using assms(1) by (auto simp: cluster_layout_def input_ports_def output_ports_def split: if_splits)
  obtain page where p: "pi = map (\<lambda>p. if port_dynamic p then p\<lparr>bp_map_page := Some page\<rparr> else p) raw" "1 \<le> page" "page \<le> 11"
    using settle_map_page_ok[OF r(2)] by blast
  have f: "streams_fit rules L" "streams_fit rules T" using assms(2) by (auto simp: streams_fit_def)
  note i = ports_from_ok[OF r(1) f(1)] and o = ports_from_ok[OF r(3) f(2)]
  show thesis
  proof (rule that[of page])
    show "numbered 0 0 0 pi" unfolding p(1) using i by (simp add: numbered_map_page)
    have "map bp_map_mode pi = map bp_map_mode raw" by (simp add: p(1))
    then show "map bp_map_mode pi = map sc_map_mode L" using i by simp
    have "\<forall>p \<in> set pi. pool_tiles 0 (bp_pool p) (bp_clusters p)" unfolding p(1) using i by auto
    then show "\<forall>p \<in> set (pi @ po). pool_tiles 0 (bp_pool p) (bp_clusters p)" using o by auto
  qed (use i o p in \<open>auto simp: port_dynamic_def\<close>)
qed

text \<open>
  Property C25. The layout of an accepted configuration has one port per stream; the cluster blocks follow each other
  without a gap, inputs before outputs; the pool segments of a port cover its clusters exactly; a static port has one
  AUDIO_MAP, and those are numbered without a gap; all dynamic input ports share one map page of 1 to 11.
\<close>

theorem layout_partitions_clusters:
  assumes "cluster_layout L T rules = Inr (pi, po)" "streams_fit rules (L @ T)"
  shows "length pi = length L \<and> length po = length T \<and> (\<forall>p \<in> set (pi @ po). pool_tiles 0 (bp_pool p) (bp_clusters p))
    \<and> (\<forall>k < length (pi @ po). bp_base_cluster ((pi @ po) ! k) = sum_list (map bp_clusters (take k (pi @ po))))
    \<and> (\<forall>k < length (pi @ po). bp_maps ((pi @ po) ! k) = of_bool (\<not> port_dynamic ((pi @ po) ! k))
        \<and> (\<not> port_dynamic ((pi @ po) ! k) \<longrightarrow> bp_base_map ((pi @ po) ! k) = sum_list (map bp_maps (take k (pi @ po)))))
    \<and> (\<exists>page. 1 \<le> page \<and> page \<le> 11 \<and> (\<forall>p \<in> set pi. port_dynamic p \<longrightarrow> bp_map_page p = Some page))"
proof -
  obtain page where *: "numbered 0 0 0 pi" "numbered 0 (sum_list (map bp_clusters pi)) (sum_list (map bp_maps pi)) po"
    "length pi = length L" "length po = length T"
    "\<forall>p \<in> set (pi @ po). pool_tiles 0 (bp_pool p) (bp_clusters p)" "1 \<le> page" "page \<le> 11"
    "\<forall>p \<in> set pi. port_dynamic p \<longrightarrow> bp_map_page p = Some page"
    using cluster_layout_parts[OF assms] by metis
  have k: "bp_base_cluster ((pi @ po) ! k) = sum_list (map bp_clusters (take k (pi @ po)))
      \<and> bp_maps ((pi @ po) ! k) = of_bool (\<not> port_dynamic ((pi @ po) ! k))
      \<and> (\<not> port_dynamic ((pi @ po) ! k) \<longrightarrow> bp_base_map ((pi @ po) ! k) = sum_list (map bp_maps (take k (pi @ po))))"
    if "k < length (pi @ po)" for k
    using numbered_nth[OF *(1), of k] numbered_nth[OF *(2), of "k - length pi"] that
    by (cases "k < length pi") (simp_all add: nth_append)
  then show ?thesis using * by blast
qed

definition role_rules :: ClusterRules where
  "role_rules = \<lparr>policy = ''role-pools'', iface_channels = 8, phys = Some (2, 0), pools = (True, 3), lb_backed = True\<rparr>"

definition row_stream :: "string \<Rightarrow> stream_cfg" where
  "row_stream mode = \<lparr>sc_name = YNull, sc_channels = 2, sc_formats = [], sc_clusters = 2, sc_map_mode = mode,
     sc_map_page = None, sc_buffer = YNull, sc_offset = None\<rparr>"

theorem layout_partitions_clusters_witness:
  "\<exists>pi po. cluster_layout [row_stream ''dynamic''] [row_stream ''static''] role_rules = Inr (pi, po)
     \<and> length po = 1 \<and> bp_base_cluster ((pi @ po) ! 1) = 2 \<and> bp_clusters (po ! 0) = 4"
proof -
  have "\<exists>p q. cluster_layout [row_stream ''dynamic''] [row_stream ''static''] role_rules = Inr ([p], [q])
      \<and> bp_clusters p = 2 \<and> bp_clusters q = 4"
    by (simp add: cluster_layout_def CLUSTER_POLICIES_def role_rules_def input_ports_def output_ports_def port_pool_def
      role_pool_def cluster_widths_def row_stream_def settle_map_page_def port_dynamic_def explicit_pages_def List.map_filter_simps Let_def)
  then obtain p q where l: "cluster_layout [row_stream ''dynamic''] [row_stream ''static''] role_rules = Inr ([p], [q])"
    "bp_clusters p = 2" "bp_clusters q = 4" by blast
  have "streams_fit role_rules ([row_stream ''dynamic''] @ [row_stream ''static''])"
    by (simp add: streams_fit_def role_rules_def row_stream_def)
  from layout_partitions_clusters[OF l(1) this] have "bp_base_cluster (([p] @ [q]) ! 1) = 2" using l(2) by force
  with l show ?thesis by (intro exI[of _ "[p]"] exI[of _ "[q]"]) simp
qed

end
