(* ===== verification/Builder_Overlay.thy ===== *)
theory Builder_Overlay
  imports Builder_Clusters
begin

unbundle bit_operations_syntax

text \<open>
  The AEM overlay the end-station builder emits (\<^verbatim>\<open>emit_aem_overlay\<close> of
  \<^verbatim>\<open>sw/builder/endstation_builder.py\<close>) from a normalised configuration, in the record the descriptor generator
  reads (\<open>overlay\<close> of theory \<open>Aem_Specs\<close>), with the descriptor census and the advertised ADP shape.
  A stream name that is not text has no field in that record; the code fails on it when it encodes the descriptor.
\<close>

section \<open>The normalised configuration\<close>

record clocking =
  ck_sampling_rate_hz :: int
  ck_audio_unit_rates_hz :: "int list"
  ck_media_clock_sources :: "string list"
  ck_crf_sink :: bool
  ck_crf_format :: pystr
  ck_crf_output :: bool
  ck_crf_output_format :: pystr

record end_cfg =
  ec_entity :: overlay_entity
  ec_listeners :: "stream_cfg list"
  ec_talkers :: "stream_cfg list"
  ec_clocking :: clocking
  ec_kind :: string
  ec_policy :: string
  ec_channel_names :: "pystr list option"
  ec_loopback_lane :: bool
  ec_ports_in :: "bport list"
  ec_ports_out :: "bport list"
  ec_object_names :: "(string \<times> pystr) list"
  ec_clock_names :: "(string \<times> pystr) list"
  ec_gptp :: "gptp_set option"
  ec_model_lint_waivers :: "pystr list"

definition OVERLAY_SCHEMA_ID :: string where "OVERLAY_SCHEMA_ID = ''kebag-logic/aem-overlay''"

definition OVERLAY_SCHEMA_VERSION :: string where "OVERLAY_SCHEMA_VERSION = ''2.2.0''"

section \<open>Streams and clock sources\<close>

fun text_of :: "yv \<Rightarrow> pystr cfg" where
  "text_of (YStr s) = Inr s"
| "text_of _ = Inl TypeError"

definition input_row :: "stream_cfg \<Rightarrow> overlay_stream cfg" where
  "input_row s = rbind (text_of (sc_name s)) (\<lambda>n.
     Inr \<lparr>os_name = n, os_kind = Some ''aaf'', os_formats = sc_formats s, os_buffer_length_ns = exact_int (sc_buffer s)\<rparr>)"

definition output_row :: "stream_cfg \<Rightarrow> overlay_stream cfg" where
  "output_row s = rbind (text_of (sc_name s)) (\<lambda>n.
     Inr \<lparr>os_name = n, os_kind = Some ''aaf'', os_formats = sc_formats s, os_buffer_length_ns = None\<rparr>)"

definition overlay_streams :: "end_cfg \<Rightarrow> (overlay_stream list \<times> overlay_stream list) cfg" where
  "overlay_streams cfg =
     (let clk = ec_clocking cfg in
      rbind (mapE input_row (ec_listeners cfg)) (\<lambda>ins.
      rbind (mapE output_row (ec_talkers cfg)) (\<lambda>outs.
        Inr (ins @ (if ck_crf_sink clk
                    then [\<lparr>os_name = lit ''CRF'', os_kind = Some ''crf'', os_formats = [ck_crf_format clk],
                           os_buffer_length_ns = Some BUFLEN_DEFAULT_NS\<rparr>] else []),
             outs @ (if ck_crf_output clk
                     then [\<lparr>os_name = lit ''CRF'', os_kind = Some ''crf'', os_formats = [ck_crf_output_format clk],
                            os_buffer_length_ns = None\<rparr>] else [])))))"

definition CLOCK_SOURCE_NAMES :: "(string \<times> string) list" where
  "CLOCK_SOURCE_NAMES = [(''internal'', ''Internal''), (''crf'', ''CRF Clock''), (''stream'', ''Stream Clock'')]"

definition clock_name :: "end_cfg \<Rightarrow> string \<Rightarrow> pystr" where
  "clock_name cfg k = (case map_of (ec_clock_names cfg) k of
     Some n \<Rightarrow> n | None \<Rightarrow> lit (the (map_of CLOCK_SOURCE_NAMES k)))"

definition overlay_clock_sources :: "end_cfg \<Rightarrow> overlay_clock list" where
  "overlay_clock_sources cfg =
     (let n = length (ec_listeners cfg); srcs = ck_media_clock_sources (ec_clocking cfg) in
      (if ''internal'' \<in> set srcs
       then [\<lparr>oc_name = clock_name cfg ''internal'', oc_type = ''internal'', oc_location_type = ''CLOCK_SOURCE'', oc_location_index = 0\<rparr>] else [])
      @ (if ''crf'' \<in> set srcs
         then [\<lparr>oc_name = clock_name cfg ''crf'', oc_type = ''crf'', oc_location_type = ''STREAM_INPUT'', oc_location_index = int n\<rparr>] else [])
      @ (if ''input_stream'' \<in> set srcs
         then map (\<lambda>k. \<lparr>oc_name = (if n = 1 then clock_name cfg ''stream'' else clock_name cfg ''stream'' @ lit '' '' @ dec_nat k),
                         oc_type = ''input_stream'', oc_location_type = ''STREAM_INPUT'', oc_location_index = int k\<rparr>) [0..<n]
         else []))"

section \<open>Maps, clusters and ports\<close>

definition map_rows :: "end_cfg \<Rightarrow> bport \<Rightarrow> bool \<Rightarrow> int \<Rightarrow> int list list" where
  "map_rows cfg p input channels =
     (if ec_policy cfg \<noteq> ''role-pools''
      then map (\<lambda>ch. [int (bp_stream_index p), int ch, int ch, 0]) [0..<nat (bp_clusters p)]
      else case primary_segment p input of
        None \<Rightarrow> []
      | Some g \<Rightarrow> map (\<lambda>ch. [int (bp_stream_index p), int ch, seg_offset g + int ch, 0]) [0..<nat (min channels (seg_width g))])"

definition port_map :: "end_cfg \<Rightarrow> stream_cfg list \<Rightarrow> bool \<Rightarrow> bport \<Rightarrow> overlay_map cfg" where
  "port_map cfg ss input p =
     rbind (if input \<or> primary_segment p input \<noteq> None then Inr () else Inl TypeError) (\<lambda>_.
     rbind (py_nth ss (int (bp_stream_index p))) (\<lambda>s.
       Inr \<lparr>om_index = bp_base_map p, om_mappings = map_rows cfg p input (sc_channels s)\<rparr>))"

definition overlay_audio_maps :: "end_cfg \<Rightarrow> overlay_map list cfg" where
  "overlay_audio_maps cfg =
     rbind (mapE (port_map cfg (ec_listeners cfg) True) (filter (Not \<circ> port_dynamic) (ec_ports_in cfg))) (\<lambda>ins.
     rbind (mapE (port_map cfg (ec_talkers cfg) False) (filter (Not \<circ> port_dynamic) (ec_ports_out cfg))) (\<lambda>outs.
       Inr (sort_key om_index (ins @ outs))))"

definition port_clusters :: "naming \<Rightarrow> bool \<Rightarrow> bport \<Rightarrow> overlay_cluster list cfg" where
  "port_clusters ctx input p = rbind (cluster_names ctx p) (\<lambda>names.
     concatE (map (\<lambda>g. mapE (\<lambda>n. rbind (py_nth names (seg_offset g + int n)) (\<lambda>nm.
         Inr \<lparr>ol_index = bp_base_cluster p + (seg_offset g + int n), ol_name = nm,
              ol_direction = (if input then ''input'' else ''output'')\<rparr>)) [0..<nat (seg_width g)]) (bp_pool p)))"

definition overlay_audio_clusters :: "end_cfg \<Rightarrow> overlay_cluster list cfg" where
  "overlay_audio_clusters cfg =
     (let ctx = cluster_naming (ec_kind cfg) (ec_channel_names cfg) (ec_listeners cfg) in
      rbind (concatE (map (port_clusters (ctx True) True) (ec_ports_in cfg))) (\<lambda>ins.
      rbind (concatE (map (port_clusters (ctx False) False) (ec_ports_out cfg))) (\<lambda>outs. Inr (ins @ outs))))"

text \<open>\<^verbatim>\<open>port_public\<close>: the dynamic keys only on a dynamic port, and no page when the port has none.\<close>

definition port_public :: "bool \<Rightarrow> bport \<Rightarrow> overlay_port" where
  "port_public input p =
     \<lparr>op_clusters = bp_clusters p, op_base_cluster = bp_base_cluster p, op_maps = bp_maps p, op_base_map = bp_base_map p,
      op_map_mode = (if port_dynamic p then Some ''dynamic'' else None),
      op_map_page = (if port_dynamic p \<and> bp_map_page p \<notin> {None, Some 0} then bp_map_page p else None),
      op_stream_index = Some (int (bp_stream_index p)),
      op_pool = Some (map (\<lambda>g. \<lparr>pg_role = seg_role g, pg_offset = seg_offset g, pg_width = seg_width g\<rparr>) (bp_pool p)),
      op_primary_role = map_option seg_role (primary_segment p input)\<rparr>"

section \<open>The document\<close>

definition emit_aem_overlay :: "end_cfg \<Rightarrow> overlay cfg" where
  "emit_aem_overlay cfg =
     rbind (overlay_streams cfg) (\<lambda>(ins, outs).
     rbind (overlay_audio_maps cfg) (\<lambda>maps.
     rbind (overlay_audio_clusters cfg) (\<lambda>clusters. Inr
       \<lparr>ov_schema = Some OVERLAY_SCHEMA_ID, ov_schema_version = Some OVERLAY_SCHEMA_VERSION, ov_entity = ec_entity cfg,
        ov_sampling_rates_hz = ck_audio_unit_rates_hz (ec_clocking cfg),
        ov_current_sampling_rate_hz = ck_sampling_rate_hz (ec_clocking cfg),
        ov_stream_inputs = ins, ov_stream_outputs = outs, ov_clock_sources = overlay_clock_sources cfg,
        ov_ports_in = map (port_public True) (ec_ports_in cfg), ov_ports_out = map (port_public False) (ec_ports_out cfg),
        ov_audio_maps = maps, ov_audio_clusters = Some clusters,
        ov_names = (if ec_object_names cfg = [] then None else Some (ec_object_names cfg)),
        ov_gptp = ec_gptp cfg, ov_loopback_lane = Some (Some (ec_loopback_lane cfg)),
        ov_model_lint_waivers = (if ec_model_lint_waivers cfg = [] then None else Some (ec_model_lint_waivers cfg))\<rparr>)))"

definition descriptor_counts :: "end_cfg \<Rightarrow> (string \<times> int) list cfg" where
  "descriptor_counts cfg = rbind (overlay_audio_maps cfg) (\<lambda>maps.
     let clk = ec_clocking cfg in
     Inr [(''ENTITY'', 1), (''CONFIGURATION'', 1), (''AUDIO_UNIT'', 1),
       (''STREAM_INPUT'', int (length (ec_listeners cfg)) + of_bool (ck_crf_sink clk)),
       (''STREAM_OUTPUT'', int (length (ec_talkers cfg)) + of_bool (ck_crf_output clk)),
       (''AVB_INTERFACE'', 1), (''CLOCK_SOURCE'', int (length (overlay_clock_sources cfg))),
       (''CLOCK_DOMAIN'', 1), (''CONTROL'', 1), (''LOCALE'', 1), (''STRINGS'', 1),
       (''STREAM_PORT_INPUT'', int (length (ec_ports_in cfg))), (''STREAM_PORT_OUTPUT'', int (length (ec_ports_out cfg))),
       (''AUDIO_CLUSTER'', sum_list (map bp_clusters (ec_ports_in cfg)) + sum_list (map bp_clusters (ec_ports_out cfg))),
       (''AUDIO_MAP'', int (length maps))])"

record adp_shape_rec =
  ad_talker_stream_sources :: int
  ad_listener_stream_sinks :: int
  ad_talker_capabilities :: int
  ad_listener_capabilities :: int

definition adp_shape :: "end_cfg \<Rightarrow> adp_shape_rec" where
  "adp_shape cfg =
     (let clk = ec_clocking cfg in
      \<lparr>ad_talker_stream_sources = int (length (ec_talkers cfg)) + (if ck_crf_output clk then 1 else 0),
       ad_listener_stream_sinks = int (length (ec_listeners cfg)) + (if ck_crf_sink clk then 1 else 0),
       ad_talker_capabilities = 0x0001 OR 0x4000 OR (if ck_crf_output clk then 0x0800 else 0),
       ad_listener_capabilities = 0x0001 OR 0x4000 OR (if ck_crf_sink clk then 0x0800 else 0)\<rparr>)"

end
