(* ===== verification/Builder_Gate.thy ===== *)
theory Builder_Gate
  imports Builder_Overlay Aem_Model
begin

text \<open>
  The builder in front of the descriptor generator: what the AUDIO_MAP gate and the model assembly find in the overlay
  of an accepted configuration.
\<close>

section \<open>Configurations the builder has laid out\<close>

text \<open>
  Streams that passed \<^const>\<open>streams\<close>, at most 16 per direction, and ports that \<^const>\<open>cluster_layout\<close> made of them.
\<close>

definition cfg_built :: "end_cfg \<Rightarrow> bool" where
  "cfg_built cfg \<longleftrightarrow> list_all (stream_ok Listener) (ec_listeners cfg) \<and> list_all (stream_ok Talker) (ec_talkers cfg)
     \<and> length (ec_listeners cfg) \<le> 16 \<and> length (ec_talkers cfg) \<le> 16
     \<and> (\<exists>rules. policy rules = ec_policy cfg \<and> 1 \<le> iface_channels rules
          \<and> cluster_layout (ec_listeners cfg) (ec_talkers cfg) rules = Inr (ec_ports_in cfg, ec_ports_out cfg))"

lemma streams_fit_ok: "list_all (stream_ok d) ss \<Longrightarrow> list_all (stream_ok d') ts \<Longrightarrow> 1 \<le> iface_channels rules \<Longrightarrow> streams_fit rules (ss @ ts)"
  by (auto simp: streams_fit_def stream_ok_def list_all_iff)

definition statics :: "bport list \<Rightarrow> bport list" where
  "statics ps = filter (Not \<circ> port_dynamic) ps"

lemma numbered_static_maps: "numbered i base nm ps \<Longrightarrow> map bp_base_map (statics ps) = map (\<lambda>k. nm + int k) [0..<length (statics ps)]"
proof (induction ps arbitrary: i base nm)
  case (Cons p ps)
  from Cons.prems have ih: "map bp_base_map (statics ps) = map (\<lambda>k. (nm + bp_maps p) + int k) [0..<length (statics ps)]"
    by (auto intro: Cons.IH)
  show ?case
  proof (cases "port_dynamic p")
    case True
    then show ?thesis using ih Cons.prems by (simp add: statics_def)
  next
    case False
    then have "map (\<lambda>k. nm + int k) [0..<length (statics (p # ps))] = nm # map (\<lambda>k. nm + int (Suc k)) [0..<length (statics ps)]"
      by (simp add: statics_def map_upt_Suc del: upt_Suc)
    then show ?thesis using ih Cons.prems False by (simp add: statics_def)
  qed
qed (simp add: statics_def)

lemma static_map_lookup:
  assumes "numbered i base 0 ps" "p \<in> set ps" "\<not> port_dynamic p"
  shows "0 \<le> bp_base_map p \<and> bp_base_map p < int (length (statics ps)) \<and> statics ps ! nat (bp_base_map p) = p"
proof -
  have "p \<in> set (statics ps)" using assms(2,3) by (simp add: statics_def)
  then obtain k where k: "k < length (statics ps)" "statics ps ! k = p" by (auto simp: in_set_conv_nth)
  have "bp_base_map (statics ps ! k) = int k"
    using arg_cong[OF numbered_static_maps[OF assms(1)], of "\<lambda>xs. xs ! k"] k(1) by simp
  then show ?thesis using k by simp
qed

lemma pool_tiles_mem: "pool_tiles off gs n \<Longrightarrow> g \<in> set gs \<Longrightarrow> off \<le> seg_offset g \<and> 1 \<le> seg_width g \<and> seg_offset g + seg_width g \<le> n"
proof (induction gs arbitrary: off)
  case (Cons h gs)
  have t: "pool_tiles (off + seg_width h) gs n" "1 \<le> seg_width h" "seg_offset h = off" using Cons.prems(1) by auto
  show ?case
  proof (cases "g = h")
    case True
    then show ?thesis using t pool_tiles_le[OF t(1)] by simp
  next
    case False
    then show ?thesis using Cons.IH[OF t(1)] Cons.prems(2) t(2) by force
  qed
qed simp

lemma find_mem: "find P xs = Some x \<Longrightarrow> x \<in> set xs \<and> P x"
  by (auto simp: find_Some_iff)

lemma by_role_in_pool: "by_role p role = Some g \<Longrightarrow> g \<in> set (bp_pool p)"
  by (auto simp: by_role_def split: if_splits dest: find_mem)

lemma primary_in_pool: "primary_segment p input = Some g \<Longrightarrow> g \<in> set (bp_pool p)"
  by (auto simp: primary_segment_def split: option.splits list.splits dest: by_role_in_pool)

section \<open>Output rows\<close>

text \<open>The mapping rows of a static output port: its own stream, distinct channels, offsets inside the port.\<close>

lemma map_rows_ok:
  assumes "pool_tiles 0 (bp_pool p) (bp_clusters p)" "bp_clusters p \<le> 32 \<or> ec_policy cfg = ''role-pools''" "channels \<le> 32"
  shows "length (map_rows cfg p input channels) \<le> 32"
    "map (\<lambda>r. (r ! 0, r ! 1)) (map_rows cfg p input channels)
       = map (\<lambda>ch. (int (bp_stream_index p), int ch)) [0..<length (map_rows cfg p input channels)]"
    "r \<in> set (map_rows cfg p input channels) \<Longrightarrow> length r = 4 \<and> r ! 0 = int (bp_stream_index p) \<and> r ! 2 < bp_clusters p \<and> r ! 3 = 0"
proof -
  have "length (map_rows cfg p input channels) \<le> 32
    \<and> map (\<lambda>r. (r ! 0, r ! 1)) (map_rows cfg p input channels)
       = map (\<lambda>ch. (int (bp_stream_index p), int ch)) [0..<length (map_rows cfg p input channels)]
    \<and> (r \<in> set (map_rows cfg p input channels) \<longrightarrow> length r = 4 \<and> r ! 0 = int (bp_stream_index p) \<and> r ! 2 < bp_clusters p \<and> r ! 3 = 0)"
  proof (cases "ec_policy cfg = ''role-pools''")
    case False
    then show ?thesis using assms(2) by (auto simp: map_rows_def o_def nat_le_iff)
  next
    case True
    show ?thesis
    proof (cases "primary_segment p input")
      case None
      then show ?thesis using True by (simp add: map_rows_def)
    next
      case (Some g)
      have "0 \<le> seg_offset g \<and> 1 \<le> seg_width g \<and> seg_offset g + seg_width g \<le> bp_clusters p"
        using pool_tiles_mem[OF assms(1) primary_in_pool[OF Some]] .
      then show ?thesis using True Some assms(3) by (auto simp: map_rows_def o_def nat_le_iff)
    qed
  qed
  then show "length (map_rows cfg p input channels) \<le> 32"
    "map (\<lambda>r. (r ! 0, r ! 1)) (map_rows cfg p input channels)
       = map (\<lambda>ch. (int (bp_stream_index p), int ch)) [0..<length (map_rows cfg p input channels)]"
    "r \<in> set (map_rows cfg p input channels) \<Longrightarrow> length r = 4 \<and> r ! 0 = int (bp_stream_index p) \<and> r ! 2 < bp_clusters p \<and> r ! 3 = 0"
    by simp_all
qed

section \<open>From the configuration to the specification\<close>

lemma overlay_port_out_fields:
  "overlay_port_out ovl (j, p) = Inr q \<Longrightarrow> p_clusters q = op_clusters p \<and> p_base_cluster q = op_base_cluster p \<and> p_maps q = op_maps p
     \<and> p_base_map q = op_base_map p \<and> is_dynamic q = (get_or (op_map_mode p) ''static'' = ''dynamic'')"
  by (auto simp: overlay_port_out_def is_dynamic_def get_or_def)

lemma public_dynamic: "(get_or (op_map_mode (port_public input p)) ''static'' = ''dynamic'') = port_dynamic p"
  by (simp add: port_public_def get_or_def)

definition same_port :: "bport \<Rightarrow> port_spec \<Rightarrow> bool" where
  "same_port b q \<longleftrightarrow> p_clusters q = bp_clusters b \<and> p_base_cluster q = bp_base_cluster b \<and> p_maps q = bp_maps b
     \<and> p_base_map q = bp_base_map b \<and> is_dynamic q = port_dynamic b"

lemma emitted_ports_in: "list_all2 same_port ps (map (overlay_port_in \<circ> port_public True) ps)"
  by (auto simp: list_all2_conv_all_nth same_port_def overlay_port_in_def is_dynamic_def port_public_def get_or_def)

lemma emitted_ports_out:
  assumes "mapE (overlay_port_out ovl) (enum (map (port_public False) ps)) = Inr qs"
  shows "list_all2 same_port ps qs"
proof -
  have l: "length qs = length ps" using mapE_length[OF assms] by simp
  have "same_port (ps ! k) (qs ! k)" if "k < length ps" for k
  proof -
    have "overlay_port_out ovl (k, port_public False (ps ! k)) = Inr (qs ! k)"
      using mapE_nth[OF assms, of k] that by (simp add: enum_nth)
    from overlay_port_out_fields[OF this] show ?thesis by (simp add: same_port_def public_dynamic) (simp add: port_public_def)
  qed
  with l show ?thesis by (simp add: list_all2_conv_all_nth)
qed

text \<open>What the specification keeps of the configuration.\<close>

lemma emitted_spec:
  assumes "emit_aem_overlay cfg = Inr ovl" "spec_from_overlay ovl = Inr spec"
  obtains ins outs maps where "overlay_streams cfg = Inr (ins, outs)" "overlay_audio_maps cfg = Inr maps"
    "list_all2 same_port (ec_ports_in cfg) (sp_ports_in spec)" "list_all2 same_port (ec_ports_out cfg) (sp_ports_out spec)"
    "sp_audio_maps spec = map om_mappings (sort_key om_index maps)"
    "mapE overlay_input ins = Inr (sp_stream_inputs spec)" "mapE overlay_output outs = Inr (sp_stream_outputs spec)"
    "length (sp_clock_sources spec) = length (overlay_clock_sources cfg)"
proof -
  obtain ins outs maps clusters where e: "overlay_streams cfg = Inr (ins, outs)" "overlay_audio_maps cfg = Inr maps"
    "ov_ports_in ovl = map (port_public True) (ec_ports_in cfg)" "ov_ports_out ovl = map (port_public False) (ec_ports_out cfg)"
    "ov_audio_maps ovl = maps" "ov_stream_inputs ovl = ins" "ov_stream_outputs ovl = outs"
    "ov_clock_sources ovl = overlay_clock_sources cfg"
    using assms(1) by (auto simp: emit_aem_overlay_def)
  obtain clks where s: "sp_ports_in spec = map overlay_port_in (ov_ports_in ovl)"
    "mapE (overlay_port_out ovl) (enum (ov_ports_out ovl)) = Inr (sp_ports_out spec)"
    "sp_audio_maps spec = map om_mappings (sort_key om_index (ov_audio_maps ovl))"
    "mapE overlay_input (ov_stream_inputs ovl) = Inr (sp_stream_inputs spec)"
    "mapE overlay_output (ov_stream_outputs ovl) = Inr (sp_stream_outputs spec)"
    "mapE overlay_clock_source (ov_clock_sources ovl) = Inr (sp_clock_sources spec)"
    using assms(2) unfolding spec_from_overlay_def Let_def by (auto split: option.split_asm)
  show thesis
  proof (rule that[OF e(1,2)])
    show "list_all2 same_port (ec_ports_in cfg) (sp_ports_in spec)"
      using emitted_ports_in[of "ec_ports_in cfg"] by (simp add: s(1) e(3))
    show "list_all2 same_port (ec_ports_out cfg) (sp_ports_out spec)"
      using emitted_ports_out[of ovl "ec_ports_out cfg"] s(2) by (simp add: e(4))
  qed (use s e mapE_length[OF s(6)] in simp_all)
qed

lemma output_channels:
  assumes "output_row s = Inr r" "overlay_output r = Inr q" "stream_ok Talker s"
  shows "stream_channels q \<noteq> []"
proof -
  obtain fs where fs: "mapE py_int16 (sc_formats s) = Inr fs" "ss_formats q = fs"
    using assms(1,2) by (auto simp: output_row_def overlay_output_def)
  have ok: "sc_formats s \<noteq> []" "\<forall>f \<in> set (sc_formats s). \<exists>n. fmt_word f = Inr n \<and> drop_bit 56 n = 2"
    using assms(3) by (simp_all add: stream_ok_def formats_ok_def)
  obtain n where n: "fmt_word (sc_formats s ! 0) = Inr n" "drop_bit 56 n = 2" using ok by (metis length_greater_0_conv nth_mem)
  have "fs ! 0 = n" "fs \<noteq> []"
    using mapE_nth[OF fs(1), of 0] mapE_length[OF fs(1)] n(1) ok(1) by (auto simp: fmt_word_def split: sum.splits)
  then have "n \<in> set (ss_formats q)" "fmt_channels n \<noteq> None" using fs(2) n(2) by (auto simp: fmt_channels_def)
  then show ?thesis by (force simp: stream_channels_def List.map_filter_def filter_empty_conv)
qed

lemma emitted_outputs:
  assumes "overlay_streams cfg = Inr (ins, outs)" "mapE overlay_output outs = Inr so" "list_all (stream_ok Talker) (ec_talkers cfg)"
  shows "length so = length (ec_talkers cfg) + of_bool (ck_crf_output (ec_clocking cfg))"
    "k < length (ec_talkers cfg) \<Longrightarrow> stream_channels (so ! k) \<noteq> []"
proof -
  obtain rows where r: "mapE output_row (ec_talkers cfg) = Inr rows" "\<exists>crf. outs = rows @ crf \<and> length crf = of_bool (ck_crf_output (ec_clocking cfg))"
    using assms(1) by (auto simp: overlay_streams_def Let_def)
  have l: "length rows = length (ec_talkers cfg)" by (rule mapE_length[OF r(1)])
  then show "length so = length (ec_talkers cfg) + of_bool (ck_crf_output (ec_clocking cfg))"
    using mapE_length[OF assms(2)] r(2) by auto
  assume k: "k < length (ec_talkers cfg)"
  then have "output_row (ec_talkers cfg ! k) = Inr (rows ! k)" "overlay_output (outs ! k) = Inr (so ! k)" "outs ! k = rows ! k"
    using mapE_nth[OF r(1), of k] mapE_nth[OF assms(2), of k] r(2) l by (auto simp: nth_append)
  then show "stream_channels (so ! k) \<noteq> []" using output_channels assms(3) k by (auto simp: list_all_length)
qed

lemma all_dynamic_statics: "list_all (stream_ok Listener) ss \<Longrightarrow> map bp_map_mode ps = map sc_map_mode ss \<Longrightarrow> statics ps = []"
proof -
  assume a: "list_all (stream_ok Listener) ss" "map bp_map_mode ps = map sc_map_mode ss"
  have "\<forall>m \<in> set (map bp_map_mode ps). m = ''dynamic''" unfolding a(2) using a(1) by (auto simp: list_all_iff stream_ok_def)
  then show ?thesis by (auto simp: statics_def filter_empty_conv port_dynamic_def)
qed

lemma statics_maps_zero: "statics ps = [] \<Longrightarrow> numbered i base nm ps \<Longrightarrow> sum_list (map bp_maps ps) = 0"
  by (induction ps arbitrary: i base nm) (auto simp: statics_def split: if_splits)

lemma port_map_Inr:
  "port_map cfg ss input p = Inr m \<Longrightarrow> bp_stream_index p < length ss
    \<Longrightarrow> om_index m = bp_base_map p \<and> om_mappings m = map_rows cfg p input (sc_channels (ss ! bp_stream_index p))"
  "port_map cfg ss input p = Inr m \<Longrightarrow> om_index m = bp_base_map p"
  by (auto simp: port_map_def split: if_splits)

text \<open>The maps of the document, in the order of their descriptor index, are those of the static output ports.\<close>

lemma emitted_maps:
  assumes "overlay_audio_maps cfg = Inr maps" "statics (ec_ports_in cfg) = []" "numbered 0 base 0 (ec_ports_out cfg)"
  shows "length maps = length (statics (ec_ports_out cfg))" "sort_key om_index maps = maps"
    "k < length maps \<Longrightarrow> port_map cfg (ec_talkers cfg) False (statics (ec_ports_out cfg) ! k) = Inr (maps ! k)"
proof -
  obtain outs where o: "mapE (port_map cfg (ec_talkers cfg) False) (statics (ec_ports_out cfg)) = Inr outs" "maps = sort_key om_index outs"
    using assms(1,2) by (auto simp: overlay_audio_maps_def statics_def comp_def)
  have l: "length outs = length (statics (ec_ports_out cfg))" by (rule mapE_length[OF o(1)])
  have row: "port_map cfg (ec_talkers cfg) False (statics (ec_ports_out cfg) ! k) = Inr (outs ! k)" if "k < length outs" for k
    using mapE_nth[OF o(1)] that l by simp
  have "map om_index outs = map bp_base_map (statics (ec_ports_out cfg))"
    using port_map_Inr(2)[OF row] l by (intro nth_equalityI) auto
  then have "sorted (map om_index outs)"
    using numbered_static_maps[OF assms(3)] by (simp add: sorted_map sorted_wrt_iff_nth_less)
  then have "maps = outs" by (simp add: o(2) sort_key_id_if_sorted)
  with l row \<open>sorted _\<close> show "length maps = length (statics (ec_ports_out cfg))" "sort_key om_index maps = maps"
    "k < length maps \<Longrightarrow> port_map cfg (ec_talkers cfg) False (statics (ec_ports_out cfg) ! k) = Inr (maps ! k)"
    by (simp_all add: sort_key_id_if_sorted)
qed

section \<open>The gate accepts\<close>

lemma legacy_clusters_bound:
  assumes "ports_from rules input i base nm b ss = Inr ps" "policy rules \<noteq> ''role-pools''" "\<forall>s \<in> set ss. sc_clusters s \<le> 32" "p \<in> set ps"
  shows "bp_clusters p \<le> 32"
  using assms
proof (induction ss arbitrary: i base nm b ps)
  case (Cons s ss)
  then show ?case by (auto simp: port_pool_def Let_def effective_clusters_def min_def)
qed simp

lemma cfg_built_parts:
  assumes "cfg_built cfg"
  shows "numbered 0 (sum_list (map bp_clusters (ec_ports_in cfg))) 0 (ec_ports_out cfg)" "statics (ec_ports_in cfg) = []"
    "length (ec_ports_in cfg) = length (ec_listeners cfg)" "length (ec_ports_out cfg) = length (ec_talkers cfg)"
    "\<forall>p \<in> set (ec_ports_in cfg @ ec_ports_out cfg). pool_tiles 0 (bp_pool p) (bp_clusters p)"
    "numbered 0 0 0 (ec_ports_in cfg)" "p \<in> set (ec_ports_out cfg) \<Longrightarrow> bp_clusters p \<le> 32 \<or> ec_policy cfg = ''role-pools''"
proof -
  let ?L = "ec_listeners cfg" and ?T = "ec_talkers cfg" and ?pi = "ec_ports_in cfg" and ?po = "ec_ports_out cfg"
  obtain rules where r: "cluster_layout ?L ?T rules = Inr (?pi, ?po)" "1 \<le> iface_channels rules" "policy rules = ec_policy cfg"
    and ok: "list_all (stream_ok Listener) ?L" "list_all (stream_ok Talker) ?T"
    using assms by (auto simp: cfg_built_def)
  note fit = streams_fit_ok[OF ok r(2)]
  obtain page where p: "numbered 0 0 0 ?pi" "numbered 0 (sum_list (map bp_clusters ?pi)) (sum_list (map bp_maps ?pi)) ?po"
    "length ?pi = length ?L" "length ?po = length ?T" "map bp_map_mode ?pi = map sc_map_mode ?L"
    "\<forall>p \<in> set (?pi @ ?po). pool_tiles 0 (bp_pool p) (bp_clusters p)" "1 \<le> (page::int)"
    by (rule cluster_layout_parts[OF r(1) fit])
  show "statics ?pi = []" by (rule all_dynamic_statics[OF ok(1) p(5)])
  from statics_maps_zero[OF this p(1)] p(2)
  show "numbered 0 (sum_list (map bp_clusters ?pi)) 0 ?po" by simp
  show "length ?pi = length ?L" "length ?po = length ?T" "\<forall>p \<in> set (?pi @ ?po). pool_tiles 0 (bp_pool p) (bp_clusters p)"
    "numbered 0 0 0 ?pi" by (rule p)+
  obtain b m where "ports_from rules False 0 b m 0 ?T = Inr ?po"
    using r(1) by (auto simp: cluster_layout_def output_ports_def split: if_splits)
  then show "p \<in> set ?po \<Longrightarrow> bp_clusters p \<le> 32 \<or> ec_policy cfg = ''role-pools''" for p
    using legacy_clusters_bound[of rules False 0 b m 0 ?T ?po p] ok(2) r(3) by (auto simp: list_all_iff stream_ok_def)
qed

lemma static_rows:
  assumes "cfg_built cfg" "overlay_audio_maps cfg = Inr maps" "p \<in> set (ec_ports_out cfg)" "\<not> port_dynamic p"
  shows "0 \<le> bp_base_map p \<and> bp_base_map p < int (length maps) \<and> bp_stream_index p < length (ec_talkers cfg)
    \<and> map om_mappings (sort_key om_index maps) ! nat (bp_base_map p) = map_rows cfg p False (sc_channels (ec_talkers cfg ! bp_stream_index p))"
proof -
  note b = cfg_built_parts[OF assms(1)]
  note m = emitted_maps[OF assms(2) b(2,1)]
  note k = static_map_lookup[OF b(1) assms(3,4)]
  obtain i where "i < length (ec_ports_out cfg)" "ec_ports_out cfg ! i = p" using assms(3) by (auto simp: in_set_conv_nth)
  then have idx: "bp_stream_index p < length (ec_talkers cfg)" using numbered_nth[OF b(1), of i] b(4) by auto
  have "nat (bp_base_map p) < length maps" using k m(1) by (simp add: nat_less_iff)
  moreover from m(3)[OF this] k have "port_map cfg (ec_talkers cfg) False p = Inr (maps ! nat (bp_base_map p))" by simp
  ultimately show ?thesis using k m(1,2) idx port_map_Inr(1)[of cfg "ec_talkers cfg" False p] by simp
qed

lemma distinct_concat_keys:
  "(\<And>k. k < length xs \<Longrightarrow> distinct (f (xs ! k)) \<and> (\<forall>y \<in> set (f (xs ! k)). fst y = int k)) \<Longrightarrow> distinct (concat (map f xs))"
proof (induction xs rule: rev_induct)
  case (snoc x xs)
  have old: "distinct (f (xs ! k)) \<and> (\<forall>y \<in> set (f (xs ! k)). fst y = int k)" if "k < length xs" for k
    using snoc.prems[of k] that by (simp add: nth_append)
  have new: "distinct (f x) \<and> (\<forall>y \<in> set (f x). fst y = int (length xs))" using snoc.prems[of "length xs"] by simp
  have "fst y < int (length xs)" if y: "y \<in> set (concat (map f xs))" for y
  proof -
    obtain x where "x \<in> set xs" "y \<in> set (f x)" using y by auto
    then obtain k where "k < length xs" "y \<in> set (f (xs ! k))" by (auto simp: in_set_conv_nth[of x])
    then show ?thesis using old by force
  qed
  then show ?case using snoc.IH[OF old] new by force
qed simp

lemma emitted_port_accepts:
  assumes "cfg_built cfg" "emit_aem_overlay cfg = Inr ovl" "spec_from_overlay ovl = Inr spec" "k < length (ec_ports_out cfg)"
  shows "port_accepts (map_outputs spec (length (sp_stream_outputs spec))) (sp_audio_maps spec) (sp_ports_out spec ! k)"
    "distinct (map (\<lambda>r. (r ! 0, r ! 1)) (port_rows (sp_audio_maps spec) (sp_ports_out spec ! k)))"
    "y \<in> set (map (\<lambda>r. (r ! 0, r ! 1)) (port_rows (sp_audio_maps spec) (sp_ports_out spec ! k))) \<Longrightarrow> fst y = int k"
proof -
  let ?u = "map_outputs spec (length (sp_stream_outputs spec))"
  note b = cfg_built_parts[OF assms(1)]
  obtain ins outs maps where e: "overlay_streams cfg = Inr (ins, outs)" "overlay_audio_maps cfg = Inr maps"
    "list_all2 same_port (ec_ports_out cfg) (sp_ports_out spec)" "sp_audio_maps spec = map om_mappings (sort_key om_index maps)"
    "mapE overlay_output outs = Inr (sp_stream_outputs spec)"
    by (rule emitted_spec[OF assms(2,3)])
  have T: "list_all (stream_ok Talker) (ec_talkers cfg)" using assms(1) by (simp add: cfg_built_def)
  note so = emitted_outputs[OF e(1,5) T]
  define p q where "p = ec_ports_out cfg ! k" and "q = sp_ports_out spec ! k"
  have pq: "same_port p q" using e(3) assms(4) by (simp add: list_all2_conv_all_nth p_def q_def)
  have p: "p \<in> set (ec_ports_out cfg)" "bp_stream_index p = k" using assms(4) numbered_nth[OF b(1), of k] by (simp_all add: p_def)
  have "port_accepts ?u (sp_audio_maps spec) q \<and> distinct (map (\<lambda>r. (r ! 0, r ! 1)) (port_rows (sp_audio_maps spec) q))
    \<and> (y \<in> set (map (\<lambda>r. (r ! 0, r ! 1)) (port_rows (sp_audio_maps spec) q)) \<longrightarrow> fst y = int k)"
  proof (cases "port_dynamic p")
    case True
    then show ?thesis using pq by (simp add: port_accepts_def port_rows_def same_port_def)
  next
    case False
    note s = static_rows[OF assms(1) e(2) p(1) False]
    let ?ch = "sc_channels (ec_talkers cfg ! k)"
    have rows: "port_rows (sp_audio_maps spec) q = map_rows cfg p False ?ch"
      using s pq False by (simp add: port_rows_def same_port_def e(4) p(2))
    have tile: "pool_tiles 0 (bp_pool p) (bp_clusters p)" using b(5) p(1) by simp
    have ch: "?ch \<le> 32" using T assms(4) b(4) by (simp add: list_all_length stream_ok_def)
    note m = map_rows_ok[OF tile b(7)[OF p(1)] ch, where input = False]
    have k: "k < length (ec_talkers cfg)" using assms(4) b(4) by simp
    have "mapping_ok ?u q r" if "r \<in> set (map_rows cfg p False ?ch)" for r
    proof -
      have "mapping_stream ?u (r ! 0) = Some (sp_stream_outputs spec ! k)"
        using m(3)[OF that] so(1) k p(2) by (simp add: mapping_stream_def map_outputs_def)
      then show ?thesis using m(3)[OF that] so k pq p(2)
        by (simp add: mapping_ok_def map_outputs_def SMAP_CLUSTER_CHANNELS_def same_port_def)
    qed
    moreover have "length (sp_audio_maps spec) = length maps" by (simp add: e(4))
    moreover have "bp_maps p = 1" using numbered_nth[OF b(1), of k] assms(4) False by (simp add: p_def)
    ultimately have "port_accepts ?u (sp_audio_maps spec) q"
      using s pq m(1) rows by (simp add: port_accepts_def same_port_def list_all_iff in_keys_def SMAP_MAX_ROWS_def)
    moreover have "distinct (map (\<lambda>r. (r ! 0, r ! 1)) (map_rows cfg p False ?ch))"
      unfolding m(2) by (simp add: distinct_map inj_on_def)
    moreover have "y \<in> set (map (\<lambda>r. (r ! 0, r ! 1)) (map_rows cfg p False ?ch)) \<longrightarrow> fst y = int k"
      unfolding m(2) by (auto simp: p(2))
    ultimately show ?thesis unfolding rows by blast
  qed
  then show "port_accepts ?u (sp_audio_maps spec) (sp_ports_out spec ! k)"
    "distinct (map (\<lambda>r. (r ! 0, r ! 1)) (port_rows (sp_audio_maps spec) (sp_ports_out spec ! k)))"
    "y \<in> set (map (\<lambda>r. (r ! 0, r ! 1)) (port_rows (sp_audio_maps spec) (sp_ports_out spec ! k))) \<Longrightarrow> fst y = int k"
    unfolding q_def by blast+
qed

lemma emitted_gate:
  assumes "cfg_built cfg" "emit_aem_overlay cfg = Inr ovl" "spec_from_overlay ovl = Inr spec"
  shows "gate_accepts spec (length (sp_stream_inputs spec)) (length (sp_stream_outputs spec))"
proof -
  note b = cfg_built_parts[OF assms(1)] and acc = emitted_port_accepts[OF assms]
  obtain maps where e: "list_all2 same_port (ec_ports_in cfg) (sp_ports_in spec)" "list_all2 same_port (ec_ports_out cfg) (sp_ports_out spec)"
    "overlay_audio_maps cfg = Inr maps" by (rule emitted_spec[OF assms(2,3)])
  have l: "length (sp_ports_in spec) = length (ec_ports_in cfg)" "length (sp_ports_out spec) = length (ec_ports_out cfg)"
    using e by (simp_all add: list_all2_lengthD)
  have dyn: "is_dynamic q" if q: "q \<in> set (sp_ports_in spec)" for q
  proof -
    obtain k where k: "k < length (sp_ports_in spec)" "sp_ports_in spec ! k = q" using q by (auto simp: in_set_conv_nth)
    then have "same_port (ec_ports_in cfg ! k) q" "ec_ports_in cfg ! k \<in> set (ec_ports_in cfg)"
      using list_all2_nthD2[OF e(1), of k] l(1) by simp_all
    then show ?thesis using b(2) by (auto simp: same_port_def statics_def filter_empty_conv)
  qed
  have "distinct (concat (map (\<lambda>p. map (\<lambda>r. (r ! 0, r ! 1)) (port_rows (sp_audio_maps spec) p)) (sp_ports_out spec)))"
  proof (rule distinct_concat_keys)
    fix k assume "k < length (sp_ports_out spec)"
    then have k: "k < length (ec_ports_out cfg)" by (simp only: l(2))
    show "distinct (map (\<lambda>r. (r ! 0, r ! 1)) (port_rows (sp_audio_maps spec) (sp_ports_out spec ! k)))
      \<and> (\<forall>y \<in> set (map (\<lambda>r. (r ! 0, r ! 1)) (port_rows (sp_audio_maps spec) (sp_ports_out spec ! k))). fst y = int k)"
      using acc(2)[OF k] acc(3)[OF k] by (intro conjI ballI)
  qed
  moreover have "list_all (port_accepts (map_outputs spec (length (sp_stream_outputs spec))) (sp_audio_maps spec)) (sp_ports_out spec)"
    using acc(1) l(2) by (simp add: list_all_length)
  moreover have "list_all (port_accepts (map_inputs spec (length (sp_stream_inputs spec))) (sp_audio_maps spec)) (sp_ports_in spec)"
    using dyn by (auto simp: list_all_iff port_accepts_def)
  moreover have "length (ec_ports_in cfg) \<le> 16" "length (ec_ports_out cfg) \<le> 16" using assms(1) b(3,4) by (simp_all add: cfg_built_def)
  ultimately show ?thesis using l by (simp add: gate_accepts_def Let_def)
qed

section \<open>The emission raises nothing\<close>

definition CLUSTER_ROLES :: "string set" where
  "CLUSTER_ROLES = {''physical'', ''virtual'', ''pilot'', ''loopback''}"

lemma role_segments_roles: "g \<in> set (role_segments i off ws) \<Longrightarrow> seg_role g \<in> fst ` set ws"
  by (induction i off ws rule: role_segments.induct) (auto split: if_splits)

lemma legacy_pool_roles: "g \<in> set (legacy_pool b n ph) \<Longrightarrow> seg_role g \<in> CLUSTER_ROLES"
  unfolding legacy_pool_def Let_def CLUSTER_ROLES_def by (auto split: if_splits)

lemma port_pool_roles:
  assumes "port_pool rules input i b s = Inr (pool, n)" "1 \<le> sc_clusters s" "1 \<le> iface_channels rules"
  shows "(\<forall>g \<in> set pool. seg_role g \<in> CLUSTER_ROLES) \<and> (\<not> input \<longrightarrow> pool \<noteq> [])"
proof (cases "policy rules = ''role-pools''")
  case True
  let ?ws = "[(''physical'', if input then fst (cluster_widths rules) else snd (cluster_widths rules)),
      (''pilot'', if input then 0 else if fst (pools rules) then 1 else 0), (''loopback'', if input then 0 else snd (pools rules))]"
  have "pool = [] \<and> input \<or> pool \<noteq> [] \<and> pool = role_segments i 0 ?ws"
    using assms(1) True by (auto simp: port_pool_def role_pool_def Let_def case_prod_beta simp del: role_segments.simps split: if_splits)
  moreover have "seg_role g \<in> CLUSTER_ROLES" if "g \<in> set (role_segments i 0 ?ws)" for g
    using role_segments_roles[OF that] by (auto simp: CLUSTER_ROLES_def)
  ultimately show ?thesis by auto
next
  case False
  then have "pool = legacy_pool b n (if input then fst (cluster_widths rules) else snd (cluster_widths rules))" "n = effective_clusters rules s"
    using assms(1) by (auto simp: port_pool_def Let_def)
  moreover have "1 \<le> effective_clusters rules s" using assms(2,3) by (simp add: effective_clusters_def)
  ultimately have "pool_tiles 0 pool n" "1 \<le> n" using legacy_pool_tile by simp_all
  then have "pool \<noteq> []" by auto
  then show ?thesis using legacy_pool_roles \<open>pool = _\<close> by blast
qed

lemma ports_from_roles:
  assumes "ports_from rules input i base nm b ss = Inr ps" "streams_fit rules ss" "p \<in> set ps"
  shows "(\<forall>g \<in> set (bp_pool p). seg_role g \<in> CLUSTER_ROLES) \<and> (\<not> input \<longrightarrow> bp_pool p \<noteq> [])"
  using assms
proof (induction ss arbitrary: i base nm b ps)
  case (Cons s ss)
  obtain pool n i' base' nm' b' qs q where q: "port_pool rules input i b s = Inr (pool, n)"
    "ports_from rules input i' base' nm' b' ss = Inr qs" "ps = q # qs" "bp_pool q = pool"
    using Cons.prems(1) by (auto simp: Let_def)
  have "streams_fit rules ss" "1 \<le> sc_clusters s" "1 \<le> iface_channels rules" using Cons.prems(2) by (simp_all add: streams_fit_def)
  then show ?case using Cons.IH[OF q(2)] port_pool_roles[OF q(1)] Cons.prems(3) by (auto simp: q(3,4))
qed simp

lemma cfg_built_roles:
  assumes "cfg_built cfg"
  shows "p \<in> set (ec_ports_in cfg @ ec_ports_out cfg) \<Longrightarrow> g \<in> set (bp_pool p) \<Longrightarrow> seg_role g \<in> CLUSTER_ROLES"
    "p \<in> set (ec_ports_out cfg) \<Longrightarrow> bp_pool p \<noteq> []"
proof -
  let ?L = "ec_listeners cfg" and ?T = "ec_talkers cfg" and ?pi = "ec_ports_in cfg" and ?po = "ec_ports_out cfg"
  obtain rules where r: "cluster_layout ?L ?T rules = Inr (?pi, ?po)" "1 \<le> iface_channels rules"
    and ok: "list_all (stream_ok Listener) ?L" "list_all (stream_ok Talker) ?T"
    using assms by (auto simp: cfg_built_def)
  have fit: "streams_fit rules ?L" "streams_fit rules ?T" using streams_fit_ok[OF ok r(2)] by (simp_all add: streams_fit_def)
  obtain raw b m where p: "ports_from rules True 0 0 0 0 ?L = Inr raw" "settle_map_page raw = Inr ?pi" "ports_from rules False 0 b m 0 ?T = Inr ?po"
    using r(1) by (auto simp: cluster_layout_def input_ports_def output_ports_def split: if_splits)
  have "\<exists>q \<in> set raw. bp_pool q = bp_pool p" if "p \<in> set ?pi" for p
    using settle_map_page_ok[OF p(2)] that by (auto split: if_splits) force+
  then show "p \<in> set (?pi @ ?po) \<Longrightarrow> g \<in> set (bp_pool p) \<Longrightarrow> seg_role g \<in> CLUSTER_ROLES" "p \<in> set ?po \<Longrightarrow> bp_pool p \<noteq> []"
    using ports_from_roles[OF p(1) fit(1)] ports_from_roles[OF p(3) fit(2)] by (metis UnE set_append)+
qed

lemma cluster_name_total: "role \<in> CLUSTER_ROLES \<Longrightarrow> \<exists>n. cluster_name ctx role first k = Inr n"
  by (auto simp: CLUSTER_ROLES_def cluster_name_def Let_def split: prod.splits)

lemma pool_width_sum: "pool_tiles off gs n \<Longrightarrow> int (sum_list (map (nat \<circ> seg_width) gs)) = n - off"
proof (induction gs arbitrary: off)
  case (Cons g gs)
  have "int (sum_list (map (nat \<circ> seg_width) gs)) = n - (off + seg_width g)" using Cons.prems by (intro Cons.IH) simp
  then show ?case using Cons.prems by (simp add: comp_def)
qed simp

lemma cluster_names_total:
  assumes "pool_tiles 0 (bp_pool p) (bp_clusters p)" "\<forall>g \<in> set (bp_pool p). seg_role g \<in> CLUSTER_ROLES"
  shows "\<exists>ns. cluster_names ctx p = Inr ns \<and> int (length ns) = bp_clusters p"
proof -
  let ?f = "\<lambda>g. mapE (cluster_name ctx (seg_role g) (seg_first g)) [0..<nat (seg_width g)]"
  have "\<exists>ys. ?f g = Inr ys" if "g \<in> set (bp_pool p)" for g
    using assms(2) that by (intro mapE_exists cluster_name_total) auto
  then obtain ns where ns: "concatE (map ?f (bp_pool p)) = Inr ns" using concatE_total_iff[of "map ?f (bp_pool p)"] by auto
  have "length ns = sum_list (map (nat \<circ> seg_width) (bp_pool p))"
    using ns by (rule length_concatE_map) (auto dest: mapE_length)
  then have "int (length ns) = bp_clusters p" using pool_width_sum[OF assms(1)] by simp
  with ns show ?thesis by (simp add: cluster_names_def)
qed

lemma port_clusters_total:
  assumes "pool_tiles 0 (bp_pool p) (bp_clusters p)" "\<forall>g \<in> set (bp_pool p). seg_role g \<in> CLUSTER_ROLES"
  shows "\<exists>cs. port_clusters ctx input p = Inr cs"
proof -
  obtain ns where ns: "cluster_names ctx p = Inr ns" "int (length ns) = bp_clusters p" using cluster_names_total[OF assms] by blast
  have "\<exists>nm. py_nth ns (seg_offset g + int n) = (Inr nm :: pystr cfg)" if "g \<in> set (bp_pool p)" "n < nat (seg_width g)" for g n
    using pool_tiles_mem[OF assms(1) that(1)] that(2) ns(2) by (auto simp: py_nth_def)
  then show ?thesis unfolding port_clusters_def ns rbind.simps concatE_total_iff by (fastforce intro!: mapE_exists)
qed

definition cfg_declared :: "end_cfg \<Rightarrow> bool" where
  "cfg_declared cfg \<longleftrightarrow> (\<forall>s \<in> set (ec_listeners cfg @ ec_talkers cfg). \<exists>n. sc_name s = YStr n)
     \<and> list_all (\<lambda>hz. hz \<in> {48000, 96000, 192000}) (ck_audio_unit_rates_hz (ec_clocking cfg))
     \<and> oe_firmware_version (ec_entity cfg) \<noteq> None \<and> ck_crf_sink (ec_clocking cfg)
     \<and> (\<exists>n. fmt_word (ck_crf_format (ec_clocking cfg)) = Inr n) \<and> (\<exists>n. fmt_word (ck_crf_output_format (ec_clocking cfg)) = Inr n)
     \<and> list_all (\<lambda>(k, _). k \<in> set (map fst OBJECT_NAMES)) (ec_object_names cfg)"

lemma overlay_streams_total:
  assumes "cfg_declared cfg"
  shows "\<exists>ins outs. overlay_streams cfg = Inr (ins, outs)"
proof -
  have "\<exists>y. input_row s = Inr y" if "s \<in> set (ec_listeners cfg)" for s using assms that by (force simp: cfg_declared_def input_row_def)
  then obtain a where "mapE input_row (ec_listeners cfg) = Inr a" using mapE_exists by blast
  moreover have "\<exists>y. output_row s = Inr y" if "s \<in> set (ec_talkers cfg)" for s using assms that by (force simp: cfg_declared_def output_row_def)
  then obtain b where "mapE output_row (ec_talkers cfg) = Inr b" using mapE_exists by blast
  ultimately show ?thesis by (simp add: overlay_streams_def Let_def)
qed

lemma primary_exists: "bp_pool p \<noteq> [] \<Longrightarrow> primary_segment p input \<noteq> None"
proof (cases "find (\<lambda>role. by_role p role \<noteq> None) (primary_roles input)")
  case None
  assume "bp_pool p \<noteq> []"
  then show ?thesis using None by (cases "bp_pool p") (simp_all add: primary_segment_def)
next
  case (Some role)
  then show ?thesis using find_mem[OF Some] by (simp add: primary_segment_def)
qed

lemma overlay_audio_maps_total:
  assumes "cfg_built cfg"
  shows "\<exists>maps. overlay_audio_maps cfg = Inr maps"
proof -
  note b = cfg_built_parts[OF assms]
  have "\<exists>m. port_map cfg (ec_talkers cfg) False p = Inr m" if p: "p \<in> set (statics (ec_ports_out cfg))" for p
  proof -
    have po: "p \<in> set (ec_ports_out cfg)" using p by (simp add: statics_def)
    then obtain i where "i < length (ec_ports_out cfg)" "ec_ports_out cfg ! i = p" by (auto simp: in_set_conv_nth)
    then have "bp_stream_index p < length (ec_talkers cfg)" using numbered_nth[OF b(1), of i] b(4) by auto
    then show ?thesis using primary_exists[of p False] cfg_built_roles(2)[OF assms po] by (simp add: port_map_def)
  qed
  then obtain outs where "mapE (port_map cfg (ec_talkers cfg) False) (statics (ec_ports_out cfg)) = Inr outs" using mapE_exists by blast
  then show ?thesis using b(2) by (simp add: overlay_audio_maps_def statics_def comp_def)
qed

lemma emit_total:
  assumes "cfg_built cfg" "cfg_declared cfg"
  shows "\<exists>ovl. emit_aem_overlay cfg = Inr ovl"
proof -
  note b = cfg_built_parts[OF assms(1)] and r = cfg_built_roles(1)[OF assms(1)]
  have "\<exists>cs. port_clusters ctx input p = Inr cs" if "p \<in> set (ec_ports_in cfg @ ec_ports_out cfg)" for ctx input p
    using b(5) r that by (intro port_clusters_total) auto
  then have "\<exists>cs. concatE (map (port_clusters ctx input) (ec_ports_in cfg)) = Inr cs"
    "\<exists>cs. concatE (map (port_clusters ctx input) (ec_ports_out cfg)) = Inr cs" for ctx input
    unfolding concatE_total_iff by auto
  then obtain f g where "\<forall>ctx input. concatE (map (port_clusters ctx input) (ec_ports_in cfg)) = Inr (f ctx input)"
    "\<forall>ctx input. concatE (map (port_clusters ctx input) (ec_ports_out cfg)) = Inr (g ctx input)" by metis
  then have "\<exists>cs. overlay_audio_clusters cfg = Inr cs" by (simp add: overlay_audio_clusters_def Let_def)
  moreover obtain ins outs maps where "overlay_streams cfg = Inr (ins, outs)" "overlay_audio_maps cfg = Inr maps"
    using overlay_streams_total[OF assms(2)] overlay_audio_maps_total[OF assms(1)] by blast
  ultimately show ?thesis by (auto simp: emit_aem_overlay_def)
qed

section \<open>The generator reads the emission\<close>

lemma fmt_word_py: "fmt_word f = Inr n \<longleftrightarrow> py_int16 f = Inr n"
  by (auto simp: fmt_word_def split: sum.splits)

definition row_ok :: "overlay_stream \<Rightarrow> bool" where
  "row_ok r \<longleftrightarrow> os_kind r \<noteq> None \<and> os_formats r \<noteq> [] \<and> (\<forall>f \<in> set (os_formats r). \<exists>n. py_int16 f = Inr n)"

lemma emitted_rows_ok:
  assumes "overlay_streams cfg = Inr (ins, outs)" "cfg_built cfg" "cfg_declared cfg"
  shows "list_all row_ok ins" "list_all row_ok outs" "\<exists>r \<in> set ins. os_kind r = Some ''crf''"
proof -
  let ?clk = "ec_clocking cfg"
  obtain a b where m: "mapE input_row (ec_listeners cfg) = Inr a" "mapE output_row (ec_talkers cfg) = Inr b"
    "ins = a @ (if ck_crf_sink ?clk then [\<lparr>os_name = lit ''CRF'', os_kind = Some ''crf'', os_formats = [ck_crf_format ?clk],
        os_buffer_length_ns = Some BUFLEN_DEFAULT_NS\<rparr>] else [])"
    "outs = b @ (if ck_crf_output ?clk then [\<lparr>os_name = lit ''CRF'', os_kind = Some ''crf'', os_formats = [ck_crf_output_format ?clk],
        os_buffer_length_ns = None\<rparr>] else [])"
    using assms(1) by (auto simp: overlay_streams_def Let_def)
  have fs: "sc_formats s \<noteq> [] \<and> (\<forall>f \<in> set (sc_formats s). \<exists>n. py_int16 f = Inr n)" if "stream_ok d s" for s d
    using that by (auto simp: stream_ok_def formats_ok_def fmt_word_py)
  have row: "row_ok r" if "input_row s = Inr r \<or> output_row s = Inr r" "stream_ok d s" for r s d
    using fs[OF that(2)] that(1) by (auto simp: row_ok_def input_row_def output_row_def)
  have "row_ok (a ! k)" if k: "k < length a" for k
    using k mapE_nth[OF m(1), of k] mapE_length[OF m(1)] assms(2)
    by (intro row[where s = "ec_listeners cfg ! k" and d = Listener]) (simp_all add: cfg_built_def list_all_length)
  moreover have "row_ok (b ! k)" if k: "k < length b" for k
    using k mapE_nth[OF m(2), of k] mapE_length[OF m(2)] assms(2)
    by (intro row[where s = "ec_talkers cfg ! k" and d = Talker]) (simp_all add: cfg_built_def list_all_length)
  ultimately have "list_all row_ok a" "list_all row_ok b" by (simp_all add: list_all_length)
  then show "list_all row_ok ins" "list_all row_ok outs" "\<exists>r \<in> set ins. os_kind r = Some ''crf''"
    using assms(3) by (auto simp: m(3,4) row_ok_def cfg_declared_def fmt_word_py)
qed

lemma any_crf_true: "list_all row_ok ss \<Longrightarrow> \<exists>r \<in> set ss. os_kind r = Some ''crf'' \<Longrightarrow> any_crf ss = Inr True"
proof (induction ss)
  case (Cons a ss)
  then show ?case by (cases "os_kind a = Some ''crf''") (auto simp: row_ok_def)
qed simp

lemma overlay_rows_total:
  "row_ok r \<Longrightarrow> \<exists>y. overlay_input r = Inr y" "row_ok r \<Longrightarrow> \<exists>y. overlay_output r = Inr y"
  by (auto simp: row_ok_def overlay_input_def overlay_output_def intro!: mapE_exists)

lemma clock_types_total: "list_all (\<lambda>c. map_of CS_TYPE (oc_type c) \<noteq> None) cs \<Longrightarrow> check_clock_types cs = Inr ()"
  by (induction cs) auto

lemma emitted_clocks:
  "list_all (\<lambda>c. map_of CS_TYPE (oc_type c) \<noteq> None) (overlay_clock_sources cfg)"
  "c \<in> set (overlay_clock_sources cfg) \<Longrightarrow> \<exists>y. overlay_clock_source c = Inr y"
  by (auto simp: overlay_clock_sources_def Let_def CS_TYPE_def overlay_clock_source_def list_all_iff split: if_splits)

lemma rx_channels_total: "list_all row_ok ss \<Longrightarrow> \<exists>rx. rx_channels ss = Inr rx"
  unfolding rx_channels_def concatE_total_iff by (auto simp: list_all_length in_set_enum row_ok_def)

lemma pool_source_total: "role \<in> CLUSTER_ROLES \<Longrightarrow> \<exists>c. pool_source lb rx j role n = Inr c"
  by (auto simp: pool_source_def CLUSTER_ROLES_def Let_def split: prod.splits)

lemma overlay_port_out_total:
  assumes "list_all row_ok (ov_stream_inputs ovl)" "bp_pool p \<noteq> []" "\<forall>g \<in> set (bp_pool p). seg_role g \<in> CLUSTER_ROLES"
  shows "\<exists>q. overlay_port_out ovl (j, port_public False p) = Inr q"
proof -
  obtain rx where rx: "rx_channels (ov_stream_inputs ovl) = Inr rx" using rx_channels_total[OF assms(1)] by blast
  let ?pool = "get_or (op_pool (port_public False p)) []"
  have "?pool \<noteq> []" "\<forall>g \<in> set ?pool. pg_role g \<in> CLUSTER_ROLES" using assms(2,3) by (auto simp: port_public_def get_or_def)
  then have "\<exists>srcs. concatE (map (\<lambda>g. mapE (pool_source lb rx j (pg_role g)) [0..<nat (pg_width g)]) ?pool) = Inr srcs" for lb
    unfolding concatE_total_iff by (auto intro!: mapE_exists pool_source_total)
  then obtain s where "\<forall>lb. concatE (map (\<lambda>g. mapE (pool_source lb rx j (pg_role g)) [0..<nat (pg_width g)]) ?pool) = Inr (s lb)" by metis
  then have "\<exists>x. out_cluster_sources ovl j (port_public False p) = Inr x"
    using \<open>?pool \<noteq> []\<close> by (simp add: out_cluster_sources_def rx Let_def)
  then show ?thesis by (auto simp: overlay_port_out_def)
qed

lemma spec_total:
  assumes "cfg_built cfg" "cfg_declared cfg" "emit_aem_overlay cfg = Inr ovl"
  shows "\<exists>spec. spec_from_overlay ovl = Inr spec"
proof -
  obtain ins outs maps where e: "overlay_streams cfg = Inr (ins, outs)" "ov_stream_inputs ovl = ins" "ov_stream_outputs ovl = outs"
    "ov_ports_out ovl = map (port_public False) (ec_ports_out cfg)" "ov_clock_sources ovl = overlay_clock_sources cfg"
    "ov_schema ovl = Some OVERLAY_SCHEMA_ID" "ov_schema_version ovl = Some OVERLAY_SCHEMA_VERSION" "ov_entity ovl = ec_entity cfg"
    "ov_sampling_rates_hz ovl = ck_audio_unit_rates_hz (ec_clocking cfg)"
    "ov_names ovl = (if ec_object_names cfg = [] then None else Some (ec_object_names cfg))"
    using assms(3) by (auto simp: emit_aem_overlay_def)
  note rows = emitted_rows_ok[OF e(1) assms(1,2)]
  have po: "\<exists>y. overlay_port_out ovl x = Inr y" if x: "x \<in> set (enum (ov_ports_out ovl))" for x
  proof -
    obtain j where j: "j < length (ec_ports_out cfg)" "x = (j, port_public False (ec_ports_out cfg ! j))"
      using x by (auto simp: enum_def e(4) set_zip)
    then have p: "ec_ports_out cfg ! j \<in> set (ec_ports_out cfg)" by simp
    show ?thesis unfolding j(2)
      using rows(1) cfg_built_roles[OF assms(1), of "ec_ports_out cfg ! j"] p by (intro overlay_port_out_total) (auto simp: e(2))
  qed
  have "\<exists>y. mapE overlay_input ins = Inr y" "\<exists>y. mapE overlay_output outs = Inr y"
    using rows overlay_rows_total by (auto simp: list_all_iff intro!: mapE_exists)
  moreover have "\<exists>y. mapE overlay_clock_source (overlay_clock_sources cfg) = Inr y" using emitted_clocks(2) by (intro mapE_exists)
  moreover have "\<exists>y. mapE (overlay_port_out ovl) (enum (ov_ports_out ovl)) = Inr y" using po by (intro mapE_exists)
  moreover have "any_crf ins = Inr True" using any_crf_true rows by blast
  moreover have "\<exists>y. overlay_names ovl = Inr y"
    using assms(2) by (auto simp: overlay_names_def e(10) get_or_def cfg_declared_def Let_def)
  moreover obtain fw where "oe_firmware_version (ec_entity cfg) = Some fw" using assms(2) by (auto simp: cfg_declared_def)
  moreover have "list_all (\<lambda>hz. hz \<in> {48000, 96000, 192000}) (ck_audio_unit_rates_hz (ec_clocking cfg))"
    using assms(2) by (simp add: cfg_declared_def)
  ultimately show ?thesis
    unfolding spec_from_overlay_def Let_def e(2,3,5-9) clock_types_total[OF emitted_clocks(1)]
    by (auto simp: OVERLAY_SCHEMA_ID_def OVERLAY_SCHEMA_VERSION_def get_or_def)
qed

end
