(* ===== verification/Builder_Model.thy ===== *)
theory Builder_Model
  imports Builder_Gate
begin

text \<open>
  The builder composed with the generator: every laid-out configuration whose texts UTF-8 can carry becomes a complete
  descriptor model, and the census the builder publishes is the census of that model.
\<close>

section \<open>Texts\<close>

lemma encodable_append [simp]: "encodable (a @ b) \<longleftrightarrow> encodable a \<and> encodable b"
  by (simp add: encodable_def)

lemma encodable_Nil [simp]: "encodable []"
  by (simp add: encodable_def)

lemma encodable_lit [simp]: "encodable (lit s)"
proof -
  have "of_char c < (256 :: nat)" for c by (cases c) (simp add: of_char_def horner_sum_simps)
  then have "of_char c < (0x110000 :: nat) \<and> \<not> (0xD800 \<le> (of_char c :: nat) \<and> of_char c \<le> (0xDFFF :: nat))" for c
    using less_trans[of "of_char c" 256 "0x110000 :: nat"] less_trans[of "of_char c" 256 "0xD800 :: nat"] by simp
  then show ?thesis by (simp add: encodable_def lit_def list_all_iff)
qed

lemma encodable_dec_nat [simp]: "encodable (dec_nat n)"
  using dec_nat_digits by (force simp: encodable_def list_all_iff)

lemma encodable_dec [simp]: "encodable (dec v)"
  using encodable_dec_nat by (simp add: dec_def encodable_def)

lemma encodable_join [simp]: "encodable (join sep xs) \<longleftrightarrow> (length xs \<le> 1 \<or> encodable sep) \<and> list_all encodable xs"
  by (induction sep xs rule: join.induct) auto

definition cfg_text :: "end_cfg \<Rightarrow> bool" where
  "cfg_text cfg \<longleftrightarrow>
     (let e = ec_entity cfg in
      list_all encodable [oe_name e, get_or (oe_firmware_version e) [], get_or (oe_group_name e) [], oe_serial_number e,
        get_or (oe_vendor_name e) [], get_or (oe_locale e) []])
     \<and> (\<forall>s \<in> set (ec_listeners cfg @ ec_talkers cfg). \<forall>n. sc_name s = YStr n \<longrightarrow> encodable n)
     \<and> list_all encodable (get_or (ec_channel_names cfg) [])
     \<and> list_all (\<lambda>kv. encodable (snd kv)) (ec_object_names cfg @ ec_clock_names cfg)
     \<and> gptp_ok (get_or (ec_gptp cfg) gptp_empty)
     \<and> 0 \<le> ck_sampling_rate_hz (ec_clocking cfg) \<and> ck_sampling_rate_hz (ec_clocking cfg) < 2 ^ 32"

lemma cfg_text_name: "cfg_text cfg \<Longrightarrow> s \<in> set (ec_listeners cfg @ ec_talkers cfg) \<Longrightarrow> sc_name s = YStr n \<Longrightarrow> encodable n"
  unfolding cfg_text_def by blast

section \<open>Cluster names\<close>

lemma ports_from_first:
  assumes "ports_from rules input i base nm b ss = Inr ps" "streams_fit rules ss" "0 \<le> b" "p \<in> set ps" "g \<in> set (bp_pool p)"
  shows "0 \<le> seg_first g"
  using assms
proof (induction ss arbitrary: i base nm b ps)
  case (Cons s ss)
  obtain pool n i' base' nm' qs q where q: "port_pool rules input i b s = Inr (pool, n)"
    "ports_from rules input i' base' nm' (b + n) ss = Inr qs" "ps = q # qs" "bp_pool q = pool"
    using Cons.prems(1) by (auto simp: Let_def)
  have fit: "streams_fit rules ss" "1 \<le> sc_clusters s" "1 \<le> iface_channels rules" using Cons.prems(2) by (simp_all add: streams_fit_def)
  have "pool_tiles 0 pool n" using fit(2,3) by (intro port_pool_tile[OF q(1)]) (simp add: effective_clusters_def)
  then have n: "0 \<le> n" by (auto dest: pool_tiles_le)
  show ?case
  proof (cases "p = q")
    case False
    then show ?thesis using Cons.IH[OF q(2) fit(1)] Cons.prems(3-5) n q(3) by simp
  next
    case True
    then have g: "g \<in> set pool" using Cons.prems(5) q(4) by simp
    show ?thesis
    proof (cases "policy rules = ''role-pools''")
      case True
      have "0 \<le> seg_first h" if "h \<in> set (role_segments i off ws)" for h off ws
        using that by (induction i off ws rule: role_segments.induct) (auto split: if_splits)
      then show ?thesis using q(1) g True
        by (auto simp: port_pool_def role_pool_def Let_def case_prod_beta simp del: role_segments.simps split: if_splits)
    next
      case False
      then show ?thesis using q(1) g Cons.prems(3) by (auto simp: port_pool_def legacy_pool_def Let_def split: if_splits)
    qed
  qed
qed simp

lemma chname_encodable: "list_all encodable (nm_names ctx) \<Longrightarrow> encodable f \<Longrightarrow> 0 \<le> k \<Longrightarrow> encodable (chname ctx k f)"
  by (auto simp: chname_def list_all_length nat_less_iff)

lemma cluster_name_encodable:
  assumes "cluster_name ctx role first k = Inr n" "encodable (nm_label ctx)" "encodable (nm_way ctx)"
    "list_all encodable (nm_names ctx)" "0 \<le> first"
  shows "encodable n"
  using assms by (auto simp: cluster_name_def Let_def intro!: chname_encodable split: if_splits prod.splits)

lemma concatE_map_mem: "concatE (map f xs) = Inr ys \<Longrightarrow> y \<in> set ys \<Longrightarrow> \<exists>x \<in> set xs. \<exists>zs. f x = Inr zs \<and> y \<in> set zs"
  by (induction xs arbitrary: ys) auto

lemma concatE_mapE_mem:
  "concatE (map (\<lambda>g. mapE (f g) (h g)) xs) = Inr ys \<Longrightarrow> y \<in> set ys \<Longrightarrow> \<exists>g \<in> set xs. \<exists>k \<in> set (h g). f g k = Inr y"
  using concatE_map_mem mapE_mem by fastforce

lemma py_nth_mem: "py_nth xs i = Inr x \<Longrightarrow> x \<in> set xs"
  by (auto simp: py_nth_def Let_def split: if_splits)

lemma port_clusters_entries:
  assumes "port_clusters ctx input p = Inr cs" "pool_tiles 0 (bp_pool p) (bp_clusters p)"
    "encodable (nm_label ctx)" "encodable (nm_way ctx)" "list_all encodable (nm_names ctx)" "\<forall>g \<in> set (bp_pool p). 0 \<le> seg_first g"
  shows "int (length cs) = bp_clusters p"
    "c \<in> set cs \<Longrightarrow> ol_direction c = (if input then ''input'' else ''output'') \<and> encodable (ol_name c)"
proof -
  let ?cl = "\<lambda>names g n. rbind (py_nth names (seg_offset g + int n)) (\<lambda>nm. Inr \<lparr>ol_index = bp_base_cluster p + (seg_offset g + int n),
      ol_name = nm, ol_direction = (if input then ''input'' else ''output'')\<rparr>) :: overlay_cluster cfg"
  obtain names where n: "cluster_names ctx p = Inr names"
    "concatE (map (\<lambda>g. mapE (?cl names g) [0..<nat (seg_width g)]) (bp_pool p)) = (Inr cs :: overlay_cluster list cfg)"
    using assms(1) by (auto simp: port_clusters_def)
  have "length cs = sum_list (map (nat \<circ> seg_width) (bp_pool p))"
    using n(2) by (rule length_concatE_map) (auto dest: mapE_length)
  then show "int (length cs) = bp_clusters p" using pool_width_sum[OF assms(2)] by simp
  have enc: "encodable x" if "x \<in> set names" for x
  proof -
    have "concatE (map (\<lambda>g. mapE (cluster_name ctx (seg_role g) (seg_first g)) [0..<nat (seg_width g)]) (bp_pool p)) = Inr names"
      using n(1) by (auto simp: cluster_names_def split: if_splits)
    from concatE_mapE_mem[OF this that] obtain g k where "g \<in> set (bp_pool p)" "cluster_name ctx (seg_role g) (seg_first g) k = Inr x"
      by blast
    then show ?thesis using cluster_name_encodable assms(3-6) by blast
  qed
  assume "c \<in> set cs"
  from concatE_mapE_mem[OF n(2) this] obtain g :: segment and k where "?cl names g k = Inr c" by blast
  then show "ol_direction c = (if input then ''input'' else ''output'') \<and> encodable (ol_name c)"
    using enc by (auto dest: py_nth_mem)
qed

lemma clusters_entries:
  assumes "concatE (map (port_clusters ctx input) ps) = Inr cs"
    "\<forall>p \<in> set ps. pool_tiles 0 (bp_pool p) (bp_clusters p) \<and> (\<forall>g \<in> set (bp_pool p). 0 \<le> seg_first g)"
    "encodable (nm_label ctx)" "encodable (nm_way ctx)" "list_all encodable (nm_names ctx)"
  shows "int (length cs) = sum_list (map bp_clusters ps)
     \<and> (\<forall>c \<in> set cs. ol_direction c = (if input then ''input'' else ''output'') \<and> encodable (ol_name c))"
  using assms(1,2)
proof (induction ps arbitrary: cs)
  case (Cons p ps)
  obtain a b where ab: "port_clusters ctx input p = Inr a" "concatE (map (port_clusters ctx input) ps) = Inr b" "cs = a @ b"
    using Cons.prems(1) by auto
  note ih = Cons.IH[OF ab(2)] and hd = port_clusters_entries[OF ab(1) _ assms(3-5)]
  show ?case using ih hd Cons.prems(2) by (auto simp: ab(3))
qed simp

lemma filter_sort_key: "length (filter P (sort_key f xs)) = length (filter P xs)" "set (filter P (sort_key f xs)) = set (filter P xs)"
  by (metis filter_sort length_sort) simp

lemma cfg_built_first:
  assumes "cfg_built cfg" "p \<in> set (ec_ports_in cfg @ ec_ports_out cfg)" "g \<in> set (bp_pool p)"
  shows "0 \<le> seg_first g"
proof -
  let ?L = "ec_listeners cfg" and ?T = "ec_talkers cfg" and ?pi = "ec_ports_in cfg" and ?po = "ec_ports_out cfg"
  obtain rules where r: "cluster_layout ?L ?T rules = Inr (?pi, ?po)" "1 \<le> iface_channels rules"
    and ok: "list_all (stream_ok Listener) ?L" "list_all (stream_ok Talker) ?T"
    using assms(1) by (auto simp: cfg_built_def)
  have fit: "streams_fit rules ?L" "streams_fit rules ?T" using streams_fit_ok[OF ok r(2)] by (simp_all add: streams_fit_def)
  obtain raw b m where l: "ports_from rules True 0 0 0 0 ?L = Inr raw" "settle_map_page raw = Inr ?pi" "ports_from rules False 0 b m 0 ?T = Inr ?po"
    using r(1) by (auto simp: cluster_layout_def input_ports_def output_ports_def split: if_splits)
  have "\<exists>q \<in> set raw. bp_pool q = bp_pool p" if "p \<in> set ?pi"
    using settle_map_page_ok[OF l(2)] that by (auto split: if_splits) force+
  then show ?thesis
    using assms(2,3) ports_from_first[OF l(1) fit(1)] ports_from_first[OF l(3) fit(2)] by (metis UnE order_refl set_append)
qed

lemma names_or_none:
  assumes "int (length xs) = n" "list_all encodable xs"
  shows "int (length (names_or (or_none xs) d n)) = n" "list_all encodable (names_or (or_none xs) d n)"
  using assms by (cases xs; force simp: names_or_def or_none_def list_all_length)+

lemma emitted_names:
  assumes "cfg_built cfg" "cfg_text cfg" "emit_aem_overlay cfg = Inr ovl"
  shows "int (length (names_or (overlay_cluster_names ovl ''input'') d (sum_list (map bp_clusters (ec_ports_in cfg)))))
      = sum_list (map bp_clusters (ec_ports_in cfg))"
    "list_all encodable (names_or (overlay_cluster_names ovl ''input'') d (sum_list (map bp_clusters (ec_ports_in cfg))))"
    "int (length (names_or (overlay_cluster_names ovl ''output'') d (sum_list (map bp_clusters (ec_ports_out cfg)))))
      = sum_list (map bp_clusters (ec_ports_out cfg))"
    "list_all encodable (names_or (overlay_cluster_names ovl ''output'') d (sum_list (map bp_clusters (ec_ports_out cfg))))"
proof -
  let ?ctx = "cluster_naming (ec_kind cfg) (ec_channel_names cfg) (ec_listeners cfg)"
  obtain a b where ab: "concatE (map (port_clusters (?ctx True) True) (ec_ports_in cfg)) = Inr a"
    "concatE (map (port_clusters (?ctx False) False) (ec_ports_out cfg)) = Inr b" "ov_audio_clusters ovl = Some (a @ b)"
    using assms(3) by (auto simp: emit_aem_overlay_def overlay_audio_clusters_def Let_def)
  have ctx: "encodable (nm_label (?ctx input))" "encodable (nm_way (?ctx input))" "list_all encodable (nm_names (?ctx input))" for input
    using assms(2) by (auto simp: cluster_naming_def cfg_text_def get_or_def split: option.splits)
  have t: "\<forall>p \<in> set (ec_ports_in cfg). pool_tiles 0 (bp_pool p) (bp_clusters p) \<and> (\<forall>g \<in> set (bp_pool p). 0 \<le> seg_first g)"
    "\<forall>p \<in> set (ec_ports_out cfg). pool_tiles 0 (bp_pool p) (bp_clusters p) \<and> (\<forall>g \<in> set (bp_pool p). 0 \<le> seg_first g)"
    using cfg_built_parts(5)[OF assms(1)] by (auto intro: cfg_built_first[OF assms(1)])
  note ea = clusters_entries[OF ab(1) t(1) ctx] and eb = clusters_entries[OF ab(2) t(2) ctx]
  have sel: "filter (\<lambda>c. ol_direction c = ''input'') (a @ b) = a" "filter (\<lambda>c. ol_direction c = ''output'') (a @ b) = b"
    using ea eb by (auto simp: filter_empty_conv filter_id_conv)
  let ?xs = "\<lambda>dir. map ol_name (filter (\<lambda>c. ol_direction c = dir) (sort_key ol_index (a @ b)))"
  have xs: "overlay_cluster_names ovl dir = or_none (?xs dir)" for dir by (simp add: overlay_cluster_names_def ab(3) get_or_def)
  have k: "int (length (?xs ''input'')) = sum_list (map bp_clusters (ec_ports_in cfg))" "list_all encodable (?xs ''input'')"
    "int (length (?xs ''output'')) = sum_list (map bp_clusters (ec_ports_out cfg))" "list_all encodable (?xs ''output'')"
    using ea eb unfolding list_all_iff set_map length_map filter_sort_key sel by auto
  show "int (length (names_or (overlay_cluster_names ovl ''input'') d (sum_list (map bp_clusters (ec_ports_in cfg)))))
      = sum_list (map bp_clusters (ec_ports_in cfg))"
    "list_all encodable (names_or (overlay_cluster_names ovl ''input'') d (sum_list (map bp_clusters (ec_ports_in cfg))))"
    "int (length (names_or (overlay_cluster_names ovl ''output'') d (sum_list (map bp_clusters (ec_ports_out cfg)))))
      = sum_list (map bp_clusters (ec_ports_out cfg))"
    "list_all encodable (names_or (overlay_cluster_names ovl ''output'') d (sum_list (map bp_clusters (ec_ports_out cfg))))"
    unfolding xs by (rule names_or_none[OF k(1,2)] names_or_none[OF k(3,4)])+
qed

section \<open>The specification is encodable\<close>

lemma emitted_stream_rows:
  assumes "overlay_streams cfg = Inr (ins, outs)" "cfg_built cfg" "cfg_text cfg"
  shows "list_all (\<lambda>r. encodable (os_name r) \<and> 0 \<le> get_or (os_buffer_length_ns r) 2126000 \<and> get_or (os_buffer_length_ns r) 2126000 < 2 ^ 32) ins"
    "list_all (\<lambda>r. encodable (os_name r)) outs"
proof -
  let ?clk = "ec_clocking cfg"
  obtain a b where m: "mapE input_row (ec_listeners cfg) = Inr a" "mapE output_row (ec_talkers cfg) = Inr b"
    "ins = a @ (if ck_crf_sink ?clk then [\<lparr>os_name = lit ''CRF'', os_kind = Some ''crf'', os_formats = [ck_crf_format ?clk],
        os_buffer_length_ns = Some BUFLEN_DEFAULT_NS\<rparr>] else [])"
    "outs = b @ (if ck_crf_output ?clk then [\<lparr>os_name = lit ''CRF'', os_kind = Some ''crf'', os_formats = [ck_crf_output_format ?clk],
        os_buffer_length_ns = None\<rparr>] else [])"
    using assms(1) by (auto simp: overlay_streams_def Let_def)
  have "encodable (os_name r) \<and> 0 \<le> get_or (os_buffer_length_ns r) 2126000 \<and> get_or (os_buffer_length_ns r) 2126000 < 2 ^ 32"
    if r: "r \<in> set a" for r
  proof -
    obtain s where s: "s \<in> set (ec_listeners cfg)" "input_row s = Inr r" using mapE_mem[OF m(1) r] by blast
    then obtain n where n: "sc_name s = YStr n" "r = \<lparr>os_name = n, os_kind = Some ''aaf'', os_formats = sc_formats s,
        os_buffer_length_ns = exact_int (sc_buffer s)\<rparr>" by (auto simp: input_row_def elim!: text_of.elims)
    have "stream_ok Listener s" "encodable n"
      using s(1) n(1) assms(2) cfg_text_name[OF assms(3), of s] by (auto simp: cfg_built_def list_all_iff)
    then show ?thesis
      by (auto simp: n(2) stream_ok_def within_def get_or_def BUFLEN_DEFAULT_NS_def UINT32_MAX_def split: option.splits)
  qed
  moreover have "encodable (os_name r)" if r: "r \<in> set b" for r
  proof -
    obtain s where s: "s \<in> set (ec_talkers cfg)" "output_row s = Inr r" using mapE_mem[OF m(2) r] by blast
    then show ?thesis using cfg_text_name[OF assms(3), of s] by (auto simp: output_row_def elim!: text_of.elims)
  qed
  ultimately show "list_all (\<lambda>r. encodable (os_name r) \<and> 0 \<le> get_or (os_buffer_length_ns r) 2126000 \<and> get_or (os_buffer_length_ns r) 2126000 < 2 ^ 32) ins"
    "list_all (\<lambda>r. encodable (os_name r)) outs"
    by (auto simp: m(3,4) list_all_iff get_or_def BUFLEN_DEFAULT_NS_def)
qed

lemma port_map_rows: "port_map cfg ss input p = Inr m \<Longrightarrow> r \<in> set (om_mappings m) \<Longrightarrow> length r = 4"
  by (auto simp: port_map_def map_rows_def split: if_splits option.splits)

lemma emitted_rows_width:
  assumes "overlay_audio_maps cfg = Inr maps"
  shows "list_all (list_all (\<lambda>r. length r = 4)) (map om_mappings (sort_key om_index maps))"
proof -
  have "length r = 4" if m: "m \<in> set maps" and r: "r \<in> set (om_mappings m)" for m r
  proof -
    obtain a b where "mapE (port_map cfg (ec_listeners cfg) True) (statics (ec_ports_in cfg)) = Inr a"
      "mapE (port_map cfg (ec_talkers cfg) False) (statics (ec_ports_out cfg)) = Inr b" "maps = sort_key om_index (a @ b)"
      using assms by (auto simp: overlay_audio_maps_def statics_def comp_def)
    then show ?thesis using m r by (auto dest!: mapE_mem port_map_rows)
  qed
  then show ?thesis by (auto simp: list_all_iff)
qed

lemma emitted_clock_names:
  assumes "cfg_text cfg" "c \<in> set (overlay_clock_sources cfg)"
  shows "encodable (oc_name c)"
proof -
  have "encodable (clock_name cfg k)" for k
    using assms(1) by (force simp: clock_name_def cfg_text_def list_all_iff split: option.splits dest!: map_of_SomeD)
  then show ?thesis using assms(2) by (auto simp: overlay_clock_sources_def Let_def split: if_splits)
qed

lemma spec_fields:
  assumes "emit_aem_overlay cfg = Inr ovl" "spec_from_overlay ovl = Inr spec"
  shows "sp_names spec = Some (ec_object_names cfg)" "sp_gptp spec = ec_gptp cfg" "sp_locale spec = oe_locale (ec_entity cfg)"
    "sp_rates spec = ck_audio_unit_rates_hz (ec_clocking cfg)" "sp_current_rate spec = ck_sampling_rate_hz (ec_clocking cfg)"
    "sp_rates_string spec = join (lit ''/'') (map (\<lambda>hz. dec (hz div 1000)) (sp_rates spec)) @ lit '' kHz''"
    "\<exists>fw. oe_firmware_version (ec_entity cfg) = Some fw \<and> sp_entity spec = \<lparr>e_name = oe_name (ec_entity cfg), e_firmware_version = fw,
       e_group_name = get_or (oe_group_name (ec_entity cfg)) [], e_serial_number = oe_serial_number (ec_entity cfg),
       e_vendor_name = get_or (oe_vendor_name (ec_entity cfg)) (lit ''Kebag Logic'')\<rparr>"
    "mapE overlay_clock_source (overlay_clock_sources cfg) = Inr (sp_clock_sources spec)"
    "sp_cluster_names_in spec = overlay_cluster_names ovl ''input''" "sp_cluster_names_out spec = overlay_cluster_names ovl ''output''"
proof -
  obtain fw names where s: "oe_firmware_version (ov_entity ovl) = Some fw" "overlay_names ovl = Inr names"
    "mapE overlay_clock_source (ov_clock_sources ovl) = Inr (sp_clock_sources spec)"
    "sp_entity spec = \<lparr>e_name = oe_name (ov_entity ovl), e_firmware_version = fw, e_group_name = get_or (oe_group_name (ov_entity ovl)) [],
       e_serial_number = oe_serial_number (ov_entity ovl), e_vendor_name = get_or (oe_vendor_name (ov_entity ovl)) (lit ''Kebag Logic'')\<rparr>"
    "sp_names spec = Some names" "sp_gptp spec = ov_gptp ovl" "sp_locale spec = oe_locale (ov_entity ovl)"
    "sp_rates spec = ov_sampling_rates_hz ovl" "sp_current_rate spec = ov_current_sampling_rate_hz ovl"
    "sp_rates_string spec = join (lit ''/'') (map (\<lambda>hz. dec (hz div 1000)) (sp_rates spec)) @ lit '' kHz''"
    "sp_cluster_names_in spec = overlay_cluster_names ovl ''input''" "sp_cluster_names_out spec = overlay_cluster_names ovl ''output''"
    using assms(2) unfolding spec_from_overlay_def Let_def by (auto split: option.split_asm)
  have e: "ov_entity ovl = ec_entity cfg" "ov_gptp ovl = ec_gptp cfg" "ov_sampling_rates_hz ovl = ck_audio_unit_rates_hz (ec_clocking cfg)"
    "ov_current_sampling_rate_hz ovl = ck_sampling_rate_hz (ec_clocking cfg)" "get_or (ov_names ovl) [] = ec_object_names cfg"
    "ov_clock_sources ovl = overlay_clock_sources cfg"
    using assms(1) by (auto simp: emit_aem_overlay_def get_or_def)
  have "names = ec_object_names cfg" using s(2) e(5) by (auto simp: overlay_names_def Let_def split: if_splits)
  with s e show "sp_names spec = Some (ec_object_names cfg)" "sp_gptp spec = ec_gptp cfg" "sp_locale spec = oe_locale (ec_entity cfg)"
    "sp_rates spec = ck_audio_unit_rates_hz (ec_clocking cfg)" "sp_current_rate spec = ck_sampling_rate_hz (ec_clocking cfg)"
    "sp_rates_string spec = join (lit ''/'') (map (\<lambda>hz. dec (hz div 1000)) (sp_rates spec)) @ lit '' kHz''"
    "\<exists>fw. oe_firmware_version (ec_entity cfg) = Some fw \<and> sp_entity spec = \<lparr>e_name = oe_name (ec_entity cfg), e_firmware_version = fw,
       e_group_name = get_or (oe_group_name (ec_entity cfg)) [], e_serial_number = oe_serial_number (ec_entity cfg),
       e_vendor_name = get_or (oe_vendor_name (ec_entity cfg)) (lit ''Kebag Logic'')\<rparr>"
    "mapE overlay_clock_source (overlay_clock_sources cfg) = Inr (sp_clock_sources spec)"
    "sp_cluster_names_in spec = overlay_cluster_names ovl ''input''" "sp_cluster_names_out spec = overlay_cluster_names ovl ''output''"
    by simp_all
qed

lemma same_ports_clusters: "list_all2 same_port ps qs \<Longrightarrow> sum_list (map p_clusters qs) = sum_list (map bp_clusters ps)"
  by (induction rule: list_all2_induct) (simp_all add: same_port_def)

lemma overlay_stream_fields:
  assumes "mapE overlay_input ins = Inr sis" "list_all row_ok ins" "s \<in> set sis"
  obtains r where "r \<in> set ins" "ss_name s = os_name r" "ss_formats s \<noteq> []" "ss_buffer s = Some (get_or (os_buffer_length_ns r) 2126000)"
proof -
  obtain r where r: "r \<in> set ins" "overlay_input r = Inr s" using mapE_mem[OF assms(1,3)] by blast
  then obtain fs where "mapE py_int16 (os_formats r) = Inr fs" "ss_formats s = fs" "ss_name s = os_name r"
    "ss_buffer s = Some (get_or (os_buffer_length_ns r) 2126000)" by (auto simp: overlay_input_def split: option.split_asm)
  moreover have "os_formats r \<noteq> []" using assms(2) r(1) by (auto simp: list_all_iff row_ok_def)
  ultimately show thesis using that[OF r(1)] mapE_length[of py_int16 "os_formats r" fs] by force
qed

lemma overlay_output_fields:
  assumes "mapE overlay_output outs = Inr sos" "list_all row_ok outs" "s \<in> set sos"
  obtains r where "r \<in> set outs" "ss_name s = os_name r" "ss_formats s \<noteq> []"
proof -
  obtain r where r: "r \<in> set outs" "overlay_output r = Inr s" using mapE_mem[OF assms(1,3)] by blast
  then obtain fs where "mapE py_int16 (os_formats r) = Inr fs" "ss_formats s = fs" "ss_name s = os_name r"
    by (auto simp: overlay_output_def)
  moreover have "os_formats r \<noteq> []" using assms(2) r(1) by (auto simp: list_all_iff row_ok_def)
  ultimately show thesis using that[OF r(1)] mapE_length[of py_int16 "os_formats r" fs] by force
qed

lemma emitted_encodable:
  assumes "cfg_built cfg" "cfg_declared cfg" "cfg_text cfg" "emit_aem_overlay cfg = Inr ovl" "spec_from_overlay ovl = Inr spec"
  shows "spec_encodable spec"
proof -
  note f = spec_fields[OF assms(4,5)] and tx = assms(3)[unfolded cfg_text_def Let_def]
  obtain ins outs maps where e: "overlay_streams cfg = Inr (ins, outs)" "overlay_audio_maps cfg = Inr maps"
    "list_all2 same_port (ec_ports_in cfg) (sp_ports_in spec)" "list_all2 same_port (ec_ports_out cfg) (sp_ports_out spec)"
    "sp_audio_maps spec = map om_mappings (sort_key om_index maps)"
    "mapE overlay_input ins = Inr (sp_stream_inputs spec)" "mapE overlay_output outs = Inr (sp_stream_outputs spec)"
    by (rule emitted_spec[OF assms(4,5)])
  note rows = emitted_rows_ok[OF e(1) assms(1,2)] and sr = emitted_stream_rows[OF e(1) assms(1,3)]
  have sc: "sum_list (map p_clusters (sp_ports_in spec)) = sum_list (map bp_clusters (ec_ports_in cfg))"
    "sum_list (map p_clusters (sp_ports_out spec)) = sum_list (map bp_clusters (ec_ports_out cfg))"
    using same_ports_clusters[OF e(3)] same_ports_clusters[OF e(4)] by simp_all
  obtain fw where ent: "oe_firmware_version (ec_entity cfg) = Some fw" "sp_entity spec = \<lparr>e_name = oe_name (ec_entity cfg), e_firmware_version = fw,
       e_group_name = get_or (oe_group_name (ec_entity cfg)) [], e_serial_number = oe_serial_number (ec_entity cfg),
       e_vendor_name = get_or (oe_vendor_name (ec_entity cfg)) (lit ''Kebag Logic'')\<rparr>" using f(7) by blast
  have ins: "encodable (ss_name s) \<and> ss_formats s \<noteq> [] \<and> (case ss_buffer s of Some b \<Rightarrow> 0 \<le> b \<and> b < 2 ^ 32 | None \<Rightarrow> False)"
    if s: "s \<in> set (sp_stream_inputs spec)" for s
    by (rule overlay_stream_fields[OF e(6) rows(1) s]) (use sr(1) in \<open>simp add: list_all_iff\<close>)
  have outs: "encodable (ss_name s) \<and> ss_formats s \<noteq> []" if s: "s \<in> set (sp_stream_outputs spec)" for s
    by (rule overlay_output_fields[OF e(7) rows(2) s]) (use sr(2) in \<open>simp add: list_all_iff\<close>)
  have clk: "encodable (cs_name c)" if c: "c \<in> set (sp_clock_sources spec)" for c
  proof -
    obtain x where "x \<in> set (overlay_clock_sources cfg)" "overlay_clock_source x = Inr c" using mapE_mem[OF f(8) c] 
      by blast
    moreover from this(2) have "cs_name c = oc_name x" unfolding overlay_clock_source_def by (auto split: option.splits if_splits)
    ultimately show ?thesis using emitted_clock_names[OF assms(3)] by simp
  qed
  have ent_ok: "list_all encodable [e_name (sp_entity spec), e_firmware_version (sp_entity spec), e_group_name (sp_entity spec),
      e_serial_number (sp_entity spec), e_vendor_name (sp_entity spec), sp_rates_string spec, locale_of spec]"
    using tx ent(1) by (auto simp: ent(2) f(3,6) locale_of_def LOCALE_IDENTIFIER_def get_or_def list_all_iff split: option.splits)
  have rates: "list_all (\<lambda>r. 0 \<le> r \<and> r < 2 ^ 32) (sp_current_rate spec # sp_rates spec)"
    using tx assms(2) by (auto simp: f(4,5) cfg_declared_def list_all_iff)
  have names: "list_all (\<lambda>kv. encodable (snd kv)) (get_or (sp_names spec) [])" using tx by (simp add: f(1) get_or_def)
  have maps: "list_all (list_all (\<lambda>r. length r = 4)) (sp_audio_maps spec)" unfolding e(5) by (rule emitted_rows_width[OF e(2)])
  have gp: "gptp_ok (get_or (sp_gptp spec) gptp_empty)" using tx by (simp add: f(2))
  note cl = emitted_names[OF assms(1,3,4)]
  show ?thesis unfolding spec_encodable_def Let_def sc f(9,10) list_all_append
    by (intro conjI ent_ok names rates gp maps cl) (use ins outs clk in \<open>simp_all add: list_all_iff\<close>)
qed

section \<open>The end-to-end contract\<close>

lemma runs_keys_count:
  "distinct (map fst runs) \<Longrightarrow> (t, n) \<in> set runs \<Longrightarrow> length (filter (\<lambda>k. fst k = t) (runs_keys runs)) = n"
proof (induction runs)
  case (Cons r runs)
  obtain t' n' where r: "r = (t', n')" by (cases r)
  have keys: "runs_keys (r # runs) = map (Pair t') [0..<n'] @ runs_keys runs" by (simp add: r runs_keys_def)
  have none: "filter (\<lambda>k. fst k = t') (runs_keys runs) = []" if "t' \<notin> set (map fst runs)"
    using runs_keys_types[of runs] that by (auto simp: filter_empty_conv)
  show ?case
  proof (cases "t = t'")
    case True
    then have "t' \<notin> set (map fst runs)" "n = n'" using Cons.prems r by (simp, force)
    then show ?thesis using none True by (simp add: keys filter_map comp_def)
  next
    case False
    then show ?thesis unfolding keys using Cons r by (auto simp: filter_map comp_def)
  qed
qed simp

lemma model_counts:
  assumes "model_descriptors spec = Inr ds" "(t, n) \<in> set (model_runs spec)"
  shows "length (filter (\<lambda>d. fst d = t) ds) = n"
proof -
  have "length (filter (\<lambda>k. fst k = t) (keys_of ds)) = n"
    unfolding model_descriptors_keys[OF assms(1)] by (rule runs_keys_count[OF model_runs_distinct assms(2)])
  then show ?thesis by (simp add: keys_of_def filter_map comp_def)
qed

lemma emitted_counts:
  assumes "cfg_built cfg" "emit_aem_overlay cfg = Inr ovl" "spec_from_overlay ovl = Inr spec"
  shows "\<exists>cs. descriptor_counts cfg = Inr cs \<and> map snd cs = map (int \<circ> snd) (model_runs spec)"
proof -
  note b = cfg_built_parts[OF assms(1)]
  obtain ins outs maps where e: "overlay_streams cfg = Inr (ins, outs)" "overlay_audio_maps cfg = Inr maps"
    "list_all2 same_port (ec_ports_in cfg) (sp_ports_in spec)" "list_all2 same_port (ec_ports_out cfg) (sp_ports_out spec)"
    "sp_audio_maps spec = map om_mappings (sort_key om_index maps)"
    "mapE overlay_input ins = Inr (sp_stream_inputs spec)" "mapE overlay_output outs = Inr (sp_stream_outputs spec)"
    "length (sp_clock_sources spec) = length (overlay_clock_sources cfg)"
    by (rule emitted_spec[OF assms(2,3)])
  have rows: "length ins = length (ec_listeners cfg) + of_bool (ck_crf_sink (ec_clocking cfg))"
    "length outs = length (ec_talkers cfg) + of_bool (ck_crf_output (ec_clocking cfg))"
    using e(1) by (auto simp: overlay_streams_def Let_def dest!: mapE_length)
  have "0 \<le> bp_clusters p" if "p \<in> set (ec_ports_in cfg @ ec_ports_out cfg)" for p
    using b(5) that by (auto dest: pool_tiles_le)
  then have "0 \<le> sum_list (map bp_clusters (ec_ports_in cfg))" "0 \<le> sum_list (map bp_clusters (ec_ports_out cfg))"
    by (auto intro!: sum_list_nonneg)
  then have "int (cluster_count spec) = sum_list (map bp_clusters (ec_ports_in cfg)) + sum_list (map bp_clusters (ec_ports_out cfg))"
    by (simp add: cluster_count_def same_ports_clusters[OF e(3)] same_ports_clusters[OF e(4)])
  then show ?thesis
    using rows mapE_length[OF e(6)] mapE_length[OF e(7)] list_all2_lengthD[OF e(3)] list_all2_lengthD[OF e(4)] e(8)
    by (simp add: descriptor_counts_def e(2,5) Let_def model_runs_def)
qed


lemma directory_serves:
  assumes "model_descriptors spec = Inr ds" "(t, n) \<in> set (model_runs spec)" "k < n"
  shows "\<exists>b. base_of (snd (fold rom_step ds ([], []))) t k = Inr b"
proof -
  have "(t, k) \<in> set (keys_of ds)" unfolding model_descriptors_keys[OF assms(1)] runs_keys_mem using assms(2,3) by blast
  then have "(t, k) \<in> set (map (\<lambda>r. (fst r, fst (snd r))) (dir_rows 0 ds))" by (simp add: dir_rows_keys keys_of_def)
  then obtain b l where "(t, k, b, l) \<in> set (dir_rows 0 ds)" by auto
  from base_of_total[OF this] show ?thesis by (simp add: rom_fold)
qed

text \<open>
  Property C27. The AUDIO_MAP gate of the descriptor generator never refuses what the builder emits: for a laid-out
  configuration that declares a firmware version, rates the generator knows and a CRF sink, and whose texts UTF-8 can
  carry, the specification read from its document is accepted with the directory the generator itself has recorded
  for the descriptors of that specification.
\<close>

theorem builder_overlay_passes_map_gate:
  assumes "cfg_built cfg" "cfg_declared cfg" "cfg_text cfg"
  shows "\<exists>ovl spec ds t. emit_aem_overlay cfg = Inr ovl \<and> spec_from_overlay ovl = Inr spec \<and> model_descriptors spec = Inr ds
     \<and> static_map_tables spec (base_of (snd (fold rom_step ds ([], []))))
         (length (sp_stream_inputs spec)) (length (sp_stream_outputs spec)) = Inr t"
proof -
  obtain ovl where e: "emit_aem_overlay cfg = Inr ovl" using emit_total[OF assms(1,2)] by blast
  obtain spec where s: "spec_from_overlay ovl = Inr spec" using spec_total[OF assms(1,2) e] by blast
  obtain ds where d: "model_descriptors spec = Inr ds" using model_descriptors_total[OF emitted_encodable[OF assms e s]] by blast
  have "\<forall>b < length (sp_audio_maps spec). \<exists>a. base_of (snd (fold rom_step ds ([], []))) AUDIO_MAP b = Inr a"
    using directory_serves[OF d, of AUDIO_MAP "length (sp_audio_maps spec)"] by (simp add: model_runs_def)
  from gate_sufficient[of spec "base_of (snd (fold rom_step ds ([], [])))", OF this emitted_gate[OF assms(1) e s]] e s d show ?thesis by blast
qed

section \<open>A device\<close>

text \<open>One listener and one talker under the role-pools policy: two physical outputs, the pilot and three loopback clusters.\<close>

definition sample_stream :: "string \<Rightarrow> string \<Rightarrow> int \<Rightarrow> yv \<Rightarrow> int option \<Rightarrow> stream_cfg" where
  "sample_stream nm mode fmt buf offs = \<lparr>sc_name = YStr (lit nm), sc_channels = 2, sc_formats = [hex_fmt 16 fmt], sc_clusters = 2,
     sc_map_mode = mode, sc_map_page = None, sc_buffer = buf, sc_offset = offs\<rparr>"

definition sample_listener :: stream_cfg where
  "sample_listener = sample_stream ''In'' ''dynamic'' 0x0204022000806000 (YInt 2126000) None"

definition sample_talker :: stream_cfg where
  "sample_talker = sample_stream ''Out'' ''static'' 0x0205022000806000 YNull (Some 2000000)"

definition sample_ports :: "bport list \<times> bport list" where
  "sample_ports = (case cluster_layout [sample_listener] [sample_talker] role_rules of Inr ps \<Rightarrow> ps | Inl _ \<Rightarrow> ([], []))"

definition sample_cfg :: end_cfg where
  "sample_cfg = \<lparr>ec_entity = \<lparr>oe_name = lit ''Node'', oe_firmware_version = Some (lit ''2.67''), oe_group_name = None,
       oe_serial_number = lit ''S'', oe_vendor_name = None, oe_locale = None\<rparr>,
     ec_listeners = [sample_listener], ec_talkers = [sample_talker],
     ec_clocking = \<lparr>ck_sampling_rate_hz = 48000, ck_audio_unit_rates_hz = [48000], ck_media_clock_sources = [''internal'', ''crf''],
       ck_crf_sink = True, ck_crf_format = hex_fmt 16 0x041060010000BB80, ck_crf_output = False,
       ck_crf_output_format = hex_fmt 16 0x041060010000BB80\<rparr>,
     ec_kind = ''tdm8'', ec_policy = ''role-pools'', ec_channel_names = None, ec_loopback_lane = True,
     ec_ports_in = fst sample_ports, ec_ports_out = snd sample_ports, ec_object_names = [], ec_clock_names = [],
     ec_gptp = None, ec_model_lint_waivers = []\<rparr>"

lemma sample_layout: "\<exists>ps. cluster_layout [sample_listener] [sample_talker] role_rules = Inr ps"
  by (simp add: cluster_layout_def CLUSTER_POLICIES_def role_rules_def input_ports_def output_ports_def port_pool_def
      role_pool_def cluster_widths_def sample_listener_def sample_talker_def sample_stream_def settle_map_page_def port_dynamic_def
      explicit_pages_def List.map_filter_simps Let_def)

lemma sample_format_rates:
  "base_format_rate (hex_fmt 16 0x0205022000806000) = Inr (Some (48000, 2, False))"
  "base_format_rate (hex_fmt 16 0x0204022000806000) = Inr None"
proof -
  have "aaf_word 5 6 2 False = 0x0205022000806000" by (simp add: aaf_word_def)
  then show "base_format_rate (hex_fmt 16 0x0205022000806000) = Inr (Some (48000, 2, False))"
    using base_format_rate_word[of 48000 5 6 2 False] by (simp add: BASE_RATE_HZ_def)
  show "base_format_rate (hex_fmt 16 0x0204022000806000) = Inr None"
    by (simp add: base_format_rate_def stem_of_def BASE_RATE_HZ_def aaf_word_def)
qed

lemma sample_built: "cfg_built sample_cfg"
proof -
  obtain ps where ps: "cluster_layout [sample_listener] [sample_talker] role_rules = Inr ps" using sample_layout by blast
  have "stream_ok Listener sample_listener"
    by (simp add: stream_ok_def sample_listener_def sample_stream_def formats_ok_def MAX_STREAM_FORMATS_def no_ut_def sample_format_rates
        covered_def row_at_def within_def BUFLEN_DEFAULT_NS_def UINT32_MAX_def AEM_DESCRIPTOR_MAX_BYTES_def STREAM_FORMATS_OFFSET_def
        STREAM_FORMAT_BYTES_def drop_bit_eq_div)
  moreover have "stream_ok Talker sample_talker"
    by (simp add: stream_ok_def sample_talker_def sample_stream_def formats_ok_def MAX_STREAM_FORMATS_def no_ut_def sample_format_rates
        PRESENTATION_TIME_OFFSET_NS_def AEM_DESCRIPTOR_MAX_BYTES_def STREAM_FORMATS_OFFSET_def STREAM_FORMAT_BYTES_def drop_bit_eq_div)
  ultimately show ?thesis
    using ps by (auto simp: cfg_built_def sample_cfg_def sample_ports_def role_rules_def intro!: exI[of _ role_rules])
qed

lemma sample_declared: "cfg_declared sample_cfg"
  by (simp add: cfg_declared_def sample_cfg_def sample_listener_def sample_talker_def sample_stream_def)

lemma sample_text: "cfg_text sample_cfg"
  by (simp add: cfg_text_def sample_cfg_def sample_listener_def sample_talker_def sample_stream_def get_or_def gptp_ok_def
      gptp_empty_def Let_def)


theorem builder_overlay_passes_map_gate_witness:
  "\<exists>ovl spec ds t. emit_aem_overlay sample_cfg = Inr ovl \<and> spec_from_overlay ovl = Inr spec \<and> model_descriptors spec = Inr ds
     \<and> static_map_tables spec (base_of (snd (fold rom_step ds ([], []))))
         (length (sp_stream_inputs spec)) (length (sp_stream_outputs spec)) = Inr t"
  by (rule builder_overlay_passes_map_gate[OF sample_built sample_declared sample_text])

end
