(* ===== verification/Builder_Srp.thy ===== *)
theory Builder_Srp
  imports Builder_Overlay
begin

unbundle bit_operations_syntax

text \<open>
  The stream reservation section of \<^verbatim>\<open>sw/builder/endstation_builder.py\<close>: frame geometry, idle slope, the
  normalisation and validation of the \<^verbatim>\<open>srp:\<close> mapping, the attribute rows, the class budget and the reset words
  of the 0x680 register group. The utilisation percentage, a float for the report, is left out.
\<close>

section \<open>Constants\<close>

record sr_class =
  class_id :: int
  priority :: int
  intervals_ps :: int

definition SRP_SR_CLASSES :: "(string \<times> sr_class) list" where
  "SRP_SR_CLASSES = [(''A'', \<lparr>class_id = 6, priority = 3, intervals_ps = 8000\<rparr>)]"

definition SRP_RANK :: int where "SRP_RANK = 1"

definition AVTP_AAF_HDR_BYTES :: int where "AVTP_AAF_HDR_BYTES = 24"

definition AAF_SAMPLE_OCTETS :: int where "AAF_SAMPLE_OCTETS = 4"

definition L2_HDR_BYTES :: int where "L2_HDR_BYTES = 18"

definition MILAN_TSPEC_HEADROOM_B :: int where "MILAN_TSPEC_HEADROOM_B = 1"

definition SRP_L2_OVERHEAD_B :: int where "SRP_L2_OVERHEAD_B = 22"

definition SRP_MIN_L2_BYTES_B :: int where "SRP_MIN_L2_BYTES_B = 68"

definition SRP_WIRE_OVERHEAD_B :: int where "SRP_WIRE_OVERHEAD_B = 20"

definition SRP_CTX_IDX_BITS :: nat where "SRP_CTX_IDX_BITS = 5"

definition CRF_SRP_MAXFRAME_B :: int where "CRF_SRP_MAXFRAME_B = 28 + MILAN_TSPEC_HEADROOM_B"

definition SRP_QUEUE_BITS :: nat where "SRP_QUEUE_BITS = 3"

text \<open>The section as the code holds it: every value still the one the document gave, or the default.\<close>

record srp_section =
  sr_class_name :: yv
  sr_vid :: yv
  sr_stream_dmac_base :: yv
  sr_accumulated_latency_ns :: yv
  sr_class_queue :: yv
  sr_enable_at_reset :: yv
  sr_talker_declare_at_reset :: yv
  sr_bandwidth_limit_pct :: yv
  sr_join_time_ms :: yv
  sr_leave_time_ms :: yv
  sr_leaveall_time_ms :: yv
  sr_tspec_policy :: yv
  sr_max_frame_bytes :: yv
  sr_interval_frames :: yv
  sr_rtl_table :: yv

definition SRP_DEFAULTS :: srp_section where
  "SRP_DEFAULTS =
     \<lparr>sr_class_name = YStr (lit ''A''), sr_vid = YInt 2, sr_stream_dmac_base = YStr (lit ''0x91E0F000FE01''),
      sr_accumulated_latency_ns = YInt 0, sr_class_queue = YInt 4, sr_enable_at_reset = YBool False,
      sr_talker_declare_at_reset = YBool False, sr_bandwidth_limit_pct = YInt 75, sr_join_time_ms = YInt 200,
      sr_leave_time_ms = YInt 5000, sr_leaveall_time_ms = YInt 10000, sr_tspec_policy = YStr (lit ''derived''),
      sr_max_frame_bytes = YInt 224, sr_interval_frames = YInt 1, sr_rtl_table = YBool False\<rparr>"

section \<open>Geometry and slope\<close>

record frame_geometry =
  samples_per_frame :: int
  payload_bytes :: int
  avtpdu_bytes :: int
  l2_frame_bytes :: int
  max_frame_bytes :: int

definition srp_frame_geometry :: "int \<Rightarrow> int \<Rightarrow> int \<Rightarrow> frame_geometry cfg" where
  "srp_frame_geometry channels rate_hz ips =
     (if rate_hz mod ips \<noteq> 0 then Inl (Refused NotWholeSamples)
      else let spf = rate_hz div ips;
               payload = spf * channels * AAF_SAMPLE_OCTETS;
               avtpdu = AVTP_AAF_HDR_BYTES + payload
           in Inr \<lparr>samples_per_frame = spf, payload_bytes = payload, avtpdu_bytes = avtpdu,
                   l2_frame_bytes = L2_HDR_BYTES + avtpdu, max_frame_bytes = avtpdu + MILAN_TSPEC_HEADROOM_B\<rparr>)"

definition srp_idle_slope_bps :: "int \<Rightarrow> int \<Rightarrow> int \<Rightarrow> int" where
  "srp_idle_slope_bps max_frame interval_frames ips =
     (let f = max_frame + SRP_L2_OVERHEAD_B;
          f = (if f < SRP_MIN_L2_BYTES_B then SRP_MIN_L2_BYTES_B else f)
      in (f + SRP_WIRE_OVERHEAD_B) * interval_frames * ips * 8)"

section \<open>The section\<close>

text \<open>
  \<open>sub_mapping\<close> is \<^verbatim>\<open>raw.get(key) or {}\<close> with the type test after it.
\<close>

definition sub_mapping :: "config_error \<Rightarrow> yv \<Rightarrow> (pystr \<times> yv) list cfg" where
  "sub_mapping e v = (if \<not> truthy v then Inr [] else case v of YMap m \<Rightarrow> Inr m | _ \<Rightarrow> Inl (Refused e))"

definition srp_section_of :: "yv \<Rightarrow> srp_section cfg" where
  "srp_section_of raw0 =
     rbind (sub_mapping (SrpRefused SrpNotMapping) raw0) (\<lambda>raw.
     rbind (sub_mapping (SrpRefused SrpSubNotMapping) (get raw ''timers_ms'' YNull)) (\<lambda>tm.
     rbind (sub_mapping (SrpRefused SrpSubNotMapping) (get raw ''tspec'' YNull)) (\<lambda>ts.
       Inr \<lparr>sr_class_name = get raw ''sr_class'' (sr_class_name SRP_DEFAULTS),
            sr_vid = get raw ''vid'' (sr_vid SRP_DEFAULTS),
            sr_stream_dmac_base = get raw ''stream_dmac_base'' (sr_stream_dmac_base SRP_DEFAULTS),
            sr_accumulated_latency_ns = get raw ''accumulated_latency_ns'' (sr_accumulated_latency_ns SRP_DEFAULTS),
            sr_class_queue = get raw ''class_queue'' (sr_class_queue SRP_DEFAULTS),
            sr_enable_at_reset = get raw ''enable_at_reset'' (sr_enable_at_reset SRP_DEFAULTS),
            sr_talker_declare_at_reset = get raw ''talker_declare_at_reset'' (sr_talker_declare_at_reset SRP_DEFAULTS),
            sr_bandwidth_limit_pct = get raw ''bandwidth_limit_pct'' (sr_bandwidth_limit_pct SRP_DEFAULTS),
            sr_join_time_ms = get tm ''join'' (sr_join_time_ms SRP_DEFAULTS),
            sr_leave_time_ms = get tm ''leave'' (sr_leave_time_ms SRP_DEFAULTS),
            sr_leaveall_time_ms = get tm ''leaveall'' (sr_leaveall_time_ms SRP_DEFAULTS),
            sr_tspec_policy = get ts ''policy'' (sr_tspec_policy SRP_DEFAULTS),
            sr_max_frame_bytes = get ts ''max_frame_bytes'' (sr_max_frame_bytes SRP_DEFAULTS),
            sr_interval_frames = get ts ''interval_frames'' (sr_interval_frames SRP_DEFAULTS),
            sr_rtl_table = get raw ''rtl_table'' (sr_rtl_table SRP_DEFAULTS)\<rparr>)))"

text \<open>The membership test hashes the value: a list or a mapping raises.\<close>

definition sr_class_of :: "yv \<Rightarrow> sr_class cfg" where
  "sr_class_of v = (case v of
     YList _ \<Rightarrow> Inl TypeError
   | YMap _ \<Rightarrow> Inl TypeError
   | _ \<Rightarrow> (case find (\<lambda>(k, _). v = YStr (lit k)) SRP_SR_CLASSES of Some (_, c) \<Rightarrow> Inr c | None \<Rightarrow> Inl (Refused (SrpRefused SrpClass))))"

definition srp_validate :: "srp_section \<Rightarrow> int \<Rightarrow> sr_class cfg" where
  "srp_validate s num_queues =
     rbind (sr_class_of (sr_class_name s)) (\<lambda>cls.
     rbind (ensure (within 1 4094 (as_pyint (sr_vid s))) (Refused (SrpRefused SrpVidRange))) (\<lambda>_.
     rbind (ensure (as_pyint (sr_vid s) = Some 2) (Refused (SrpRefused SrpVidFixed))) (\<lambda>_.
     rbind (ensure (exact_int (sr_join_time_ms s) = Some 200) (Refused (SrpRefused (SrpTimer ''join'')))) (\<lambda>_.
     rbind (ensure (exact_int (sr_leave_time_ms s) = Some 5000) (Refused (SrpRefused (SrpTimer ''leave'')))) (\<lambda>_.
     rbind (ensure (exact_int (sr_leaveall_time_ms s) = Some 10000) (Refused (SrpRefused (SrpTimer ''leaveall'')))) (\<lambda>_.
     rbind (ensure (within 0 (2 ^ SRP_QUEUE_BITS - 1) (as_pyint (sr_class_queue s))) (Refused (SrpRefused SrpQueueBits))) (\<lambda>_.
     rbind (ensure (the (as_pyint (sr_class_queue s)) < num_queues) (Refused (SrpRefused SrpQueueBoard))) (\<lambda>_.
     rbind (ensure (sr_tspec_policy s = YStr (lit ''derived'')) (Refused (SrpRefused SrpPolicy))) (\<lambda>_.
     rbind (ensure (within 1 0xFFFF (exact_int (sr_interval_frames s))) (Refused (SrpRefused SrpIntervalRange))) (\<lambda>_.
     rbind (ensure (exact_int (sr_interval_frames s) = Some 1) (Refused (SrpRefused SrpIntervalFixed))) (\<lambda>_.
     rbind (ensure (within 1 0xFFFF (exact_int (sr_max_frame_bytes s))) (Refused (SrpRefused SrpMaxFrame))) (\<lambda>_.
     rbind (ensure (within 1 75 (exact_int (sr_bandwidth_limit_pct s))) (Refused (SrpRefused SrpBandwidth))) (\<lambda>_.
       Inr cls)))))))))))))"

text \<open>\<^verbatim>\<open>strip().lower() == "maap"\<close>: no letter outside ASCII has one of these three as its lower case.\<close>

definition lower_ascii :: "nat \<Rightarrow> nat" where
  "lower_ascii c = (if 65 \<le> c \<and> c \<le> 90 then c + 32 else c)"

definition is_maap :: "yv \<Rightarrow> bool" where
  "is_maap v = (case v of
     YStr t \<Rightarrow> map lower_ascii (rev (dropWhile is_space (rev (dropWhile is_space t)))) = lit ''maap'' | _ \<Rightarrow> False)"

definition srp_dmac :: "srp_section \<Rightarrow> int cfg" where
  "srp_dmac s =
     (let base = (if is_maap (sr_stream_dmac_base s) then sr_stream_dmac_base SRP_DEFAULTS else sr_stream_dmac_base s) in
      rbind (hex_text base 48) (\<lambda>dmac.
        if drop_bit 40 dmac AND 1 = 0 then Inl (Refused (SrpRefused SrpNotMulticast)) else Inr dmac))"

definition srp_reset_bits :: "srp_section \<Rightarrow> unit cfg" where
  "srp_reset_bits s =
     rbind (ensure (\<exists>b \<in> {False, True}. sr_enable_at_reset s = YBool b) (Refused (SrpRefused (SrpNotBool ''enable_at_reset'')))) (\<lambda>_.
     rbind (ensure (\<exists>b \<in> {False, True}. sr_talker_declare_at_reset s = YBool b) (Refused (SrpRefused (SrpNotBool ''talker_declare_at_reset'')))) (\<lambda>_.
       ensure (\<exists>b \<in> {False, True}. sr_rtl_table s = YBool b) (Refused (SrpRefused (SrpNotBool ''rtl_table'')))))"

text \<open>\<^verbatim>\<open>int(v)\<close>; of text, decimal digits with single underscores, a sign and surrounding space.\<close>

fun dec_run :: "int \<Rightarrow> bool \<Rightarrow> pystr \<Rightarrow> int option" where
  "dec_run v ok [] = (if ok then Some v else None)"
| "dec_run v ok (c # s) =
     (if c = 95 then (if ok then dec_run v False s else None)
      else if 48 \<le> c \<and> c \<le> 57 then dec_run (10 * v + int (c - 48)) True s else None)"

fun to_int :: "yv \<Rightarrow> int cfg" where
  "to_int (YInt i) = Inr i"
| "to_int (YBool b) = Inr (of_bool b)"
| "to_int (YStr s) =
     (let t = rev (dropWhile is_space (rev (dropWhile is_space s)));
          v = (case t of c # r \<Rightarrow> if c = 45 then map_option uminus (dec_run 0 False r)
                                  else if c = 43 then dec_run 0 False r else dec_run 0 False t
               | [] \<Rightarrow> None)
      in case v of Some n \<Rightarrow> Inr n | None \<Rightarrow> Inl ValueError)"
| "to_int (YOther b n) = (case n of Some i \<Rightarrow> Inr i | None \<Rightarrow> Inl TypeError)"
| "to_int _ = Inl TypeError"

section \<open>Rows and budget\<close>

record SrpShape =
  sh_listeners :: "stream_cfg list"
  sh_talkers :: "stream_cfg list"
  sh_clocking :: clocking
  sh_num_queues :: int
  sh_link_mbps :: int
  sh_wire_channels :: "int option"

record srp_row =
  rw_talker :: bool
  rw_stream_index :: nat
  rw_name :: yv
  rw_channels :: int
  rw_unique_id :: "nat option"
  rw_dest_mac :: "pystr option"
  rw_max_frame_bytes :: int
  rw_interval_frames :: int
  rw_latency_ns :: int
  rw_idle_slope_bps :: int
  rw_l2_frame_bytes :: int
  rw_samples_per_frame :: int

definition talker_row :: "srp_section \<Rightarrow> SrpShape \<Rightarrow> sr_class \<Rightarrow> int \<Rightarrow> int \<Rightarrow> nat \<times> stream_cfg \<Rightarrow> srp_row cfg" where
  "talker_row s shape cls dmac lat = (\<lambda>(t, st).
     rbind (srp_frame_geometry (case sh_wire_channels shape of Some w \<Rightarrow> w | None \<Rightarrow> sc_channels st)
              (ck_sampling_rate_hz (sh_clocking shape)) (intervals_ps cls)) (\<lambda>geo.
     rbind (if sr_tspec_policy s = YStr (lit ''derived'') then Inr (max_frame_bytes geo)
            else case exact_int (sr_max_frame_bytes s) of Some n \<Rightarrow> Inr n | None \<Rightarrow> Inl TypeError) (\<lambda>mf.
     if mf > 0xFFFF then Inl (Refused (SrpRefused (SrpFrameWide t mf)))
     else case exact_int (sr_interval_frames s) of None \<Rightarrow> Inl TypeError | Some n \<Rightarrow>
       Inr \<lparr>rw_talker = True, rw_stream_index = t, rw_name = sc_name st, rw_channels = sc_channels st, rw_unique_id = Some t,
            rw_dest_mac = Some (hex_fmt 12 (dmac + int t)), rw_max_frame_bytes = mf, rw_interval_frames = n, rw_latency_ns = lat,
            rw_idle_slope_bps = srp_idle_slope_bps mf n (intervals_ps cls), rw_l2_frame_bytes = l2_frame_bytes geo,
            rw_samples_per_frame = samples_per_frame geo\<rparr>)))"

definition listener_row :: "SrpShape \<Rightarrow> sr_class \<Rightarrow> nat \<times> stream_cfg \<Rightarrow> srp_row cfg" where
  "listener_row shape cls = (\<lambda>(k, sl).
     let rate = ck_sampling_rate_hz (sh_clocking shape) in
     rbind (srp_frame_geometry (sc_channels sl) rate (intervals_ps cls)) (\<lambda>geo.
       Inr \<lparr>rw_talker = False, rw_stream_index = k, rw_name = sc_name sl, rw_channels = sc_channels sl, rw_unique_id = None,
            rw_dest_mac = None, rw_max_frame_bytes = 0, rw_interval_frames = 0, rw_latency_ns = 0, rw_idle_slope_bps = 0,
            rw_l2_frame_bytes = l2_frame_bytes geo, rw_samples_per_frame = rate div intervals_ps cls\<rparr>))"

definition srp_rows :: "srp_section \<Rightarrow> SrpShape \<Rightarrow> sr_class \<Rightarrow> int \<Rightarrow> int \<Rightarrow> (srp_row list \<times> int) cfg" where
  "srp_rows s shape cls dmac lat =
     rbind (mapE (talker_row s shape cls dmac lat) (enum (sh_talkers shape))) (\<lambda>ts.
     rbind (mapE (listener_row shape cls) (enum (sh_listeners shape))) (\<lambda>ls.
       Inr (ts @ ls, sum_list (map rw_idle_slope_bps ts))))"

record srp_budget_rec =
  bg_crf_tk :: nat
  bg_crf_slope :: int
  bg_total_slope :: int
  bg_limit_bps :: int
  bg_link_bps :: int

definition srp_budget :: "srp_section \<Rightarrow> SrpShape \<Rightarrow> sr_class \<Rightarrow> int \<Rightarrow> srp_budget_rec cfg" where
  "srp_budget s shape cls slope =
     rbind (case exact_int (sr_bandwidth_limit_pct s) of Some n \<Rightarrow> Inr n | None \<Rightarrow> Inl TypeError) (\<lambda>pct.
     let link_bps = sh_link_mbps shape * 1000000;
         limit_bps = link_bps * pct div 100;
         crf_tk = (if ck_crf_output (sh_clocking shape) then 1 else 0);
         crf_slope = (if crf_tk \<noteq> 0 then srp_idle_slope_bps CRF_SRP_MAXFRAME_B 1 (intervals_ps cls) else 0);
         total = slope + crf_slope
     in if total > limit_bps then Inl (Refused (SrpRefused (SrpOverBudget total limit_bps)))
        else Inr \<lparr>bg_crf_tk = crf_tk, bg_crf_slope = crf_slope, bg_total_slope = total, bg_limit_bps = limit_bps,
                  bg_link_bps = link_bps\<rparr>)"

text \<open>The section after \<^verbatim>\<open>s.update\<close>: the keys of \<open>srp_section\<close>, the base address and latency now normalised.\<close>

record srp_cfg =
  sg_section :: srp_section
  sg_class :: sr_class
  sg_prio_rank :: int
  sg_dmac_base :: pystr
  sg_latency_ns :: int
  sg_rows :: "srp_row list"
  sg_total_idle_slope_bps :: int
  sg_limit_bps :: int
  sg_link_bps :: int
  sg_ctx_rows_required :: nat
  sg_ctx_rows_available :: nat
  sg_crf_idle_slope_bps :: int

definition load_srp :: "yv \<Rightarrow> SrpShape \<Rightarrow> srp_cfg cfg" where
  "load_srp raw shape =
     rbind (srp_section_of raw) (\<lambda>s.
     rbind (srp_validate s (sh_num_queues shape)) (\<lambda>cls.
     rbind (srp_dmac s) (\<lambda>dmac.
     rbind (to_int (sr_accumulated_latency_ns s)) (\<lambda>lat.
     rbind (ensure (0 \<le> lat \<and> lat \<le> 0xFFFFFFFF) (Refused (SrpRefused SrpLatency))) (\<lambda>_.
     rbind (srp_reset_bits s) (\<lambda>_.
     rbind (srp_rows s shape cls dmac lat) (\<lambda>(rows, slope).
     rbind (srp_budget s shape cls slope) (\<lambda>b.
     let need = length (sh_listeners shape) + length (sh_talkers shape) + bg_crf_tk b in
     if need > 2 ^ SRP_CTX_IDX_BITS then Inl (Refused (SrpRefused (SrpRows need)))
     else Inr \<lparr>sg_section = s, sg_class = cls, sg_prio_rank = push_bit 5 (priority cls) OR push_bit 4 SRP_RANK,
               sg_dmac_base = hex_fmt 12 dmac, sg_latency_ns = lat, sg_rows = rows,
               sg_total_idle_slope_bps = bg_total_slope b, sg_limit_bps = bg_limit_bps b, sg_link_bps = bg_link_bps b,
               sg_ctx_rows_required = need,
               sg_ctx_rows_available = 2 * max (length (sh_listeners shape)) (length (sh_talkers shape)) + bg_crf_tk b,
               sg_crf_idle_slope_bps = bg_crf_slope b\<rparr>))))))))"

section \<open>Reset words\<close>

definition srp_reset_words :: "srp_cfg \<Rightarrow> (string \<times> int) list cfg" where
  "srp_reset_words c =
     (let s = sg_section c in
      rbind (fmt_word (sg_dmac_base c)) (\<lambda>dmac.
      rbind (to_int (sr_enable_at_reset s)) (\<lambda>en.
      rbind (to_int (sr_talker_declare_at_reset s)) (\<lambda>de.
      rbind (case as_pyint (sr_class_queue s) of Some n \<Rightarrow> Inr n | None \<Rightarrow> Inl TypeError) (\<lambda>q.
      rbind (case as_pyint (sr_vid s) of Some n \<Rightarrow> Inr n | None \<Rightarrow> Inl TypeError) (\<lambda>vid.
      rbind (case as_pyint (sr_interval_frames s) of Some n \<Rightarrow> Inr n | None \<Rightarrow> Inl TypeError) (\<lambda>ifr.
      rbind (case as_pyint (sr_max_frame_bytes s) of Some n \<Rightarrow> Inr n | None \<Rightarrow> Inl TypeError) (\<lambda>mf.
        Inr [(''LWSRP_CTRL'', en OR push_bit 1 de OR push_bit 2 q), (''LWSRP_VID'', vid),
             (''LWSRP_DMAC_LO'', dmac AND 0xFFFFFFFF), (''LWSRP_DMAC_HI'', drop_bit 32 dmac AND 0xFFFF),
             (''LWSRP_TSPEC'', push_bit 16 ifr OR mf), (''LWSRP_LATENCY'', sg_latency_ns c)]))))))))"

definition SRP_FROZEN_RESETS :: "(string \<times> int) list" where
  "SRP_FROZEN_RESETS = [(''LWSRP_CTRL'', 0x10), (''LWSRP_VID'', 0x2), (''LWSRP_DMAC_LO'', 0xF000FE01),
     (''LWSRP_DMAC_HI'', 0x91E0), (''LWSRP_TSPEC'', 0x000100E0), (''LWSRP_LATENCY'', 0)]"

definition lwsrp_module_params :: "SrpShape \<Rightarrow> int \<Rightarrow> (string \<times> int) list" where
  "lwsrp_module_params shape milan_clk_hz =
     (let L = int (length (sh_listeners shape)); T = int (length (sh_talkers shape)); N = max L T;
          crf_tk = (if ck_crf_output (sh_clocking shape) then 1 else 0)
      in [(''KL_lwsrp_top.CLK_FREQ_HZ_P'', milan_clk_hz), (''KL_lwsrp_top.N_CTX_P'', N + (N + crf_tk)),
          (''KL_lwsrp_top.N_LISTENERS_P'', N), (''KL_lwsrp_top.N_TALKERS_P'', N + crf_tk),
          (''KL_lwsrp_bw_gate.N_STREAMS_P'', N + crf_tk), (''milan_datapath.N_STREAMS'', max L T),
          (''milan_datapath.MILAN_CLK_FREQ_HZ'', milan_clk_hz), (''milan_csr.N_LISTENERS_P'', L),
          (''milan_csr.N_TALKERS_P'', T), (''milan_csr.NUM_QUEUES'', sh_num_queues shape)])"

section \<open>What an accepted section guarantees\<close>

lemma load_srp_parts:
  assumes "load_srp raw shape = Inr c"
  obtains s cls dmac lat rows slope b where "srp_section_of raw = Inr s" "srp_validate s (sh_num_queues shape) = Inr cls"
    "srp_dmac s = Inr dmac" "to_int (sr_accumulated_latency_ns s) = Inr lat" "0 \<le> lat" "lat \<le> 0xFFFFFFFF" "srp_reset_bits s = Inr ()"
    "srp_rows s shape cls dmac lat = Inr (rows, slope)" "srp_budget s shape cls slope = Inr b"
    "length (sh_listeners shape) + length (sh_talkers shape) + bg_crf_tk b \<le> 32"
    "c = \<lparr>sg_section = s, sg_class = cls, sg_prio_rank = push_bit 5 (priority cls) OR push_bit 4 SRP_RANK,
       sg_dmac_base = hex_fmt 12 dmac, sg_latency_ns = lat, sg_rows = rows,
       sg_total_idle_slope_bps = bg_total_slope b, sg_limit_bps = bg_limit_bps b, sg_link_bps = bg_link_bps b,
       sg_ctx_rows_required = length (sh_listeners shape) + length (sh_talkers shape) + bg_crf_tk b,
       sg_ctx_rows_available = 2 * max (length (sh_listeners shape)) (length (sh_talkers shape)) + bg_crf_tk b,
       sg_crf_idle_slope_bps = bg_crf_slope b\<rparr>"
  using assms unfolding load_srp_def rbind_Inr_iff ensure_Inr_iff
  by (elim exE conjE) (auto simp: Let_def SRP_CTX_IDX_BITS_def split: if_split_asm)

lemma srp_validate_facts:
  assumes "srp_validate s nq = Inr cls"
  shows "cls = \<lparr>class_id = 6, priority = 3, intervals_ps = 8000\<rparr>" "as_pyint (sr_vid s) = Some 2"
    "\<exists>q. as_pyint (sr_class_queue s) = Some q \<and> 0 \<le> q \<and> q < 8 \<and> q < nq" "sr_tspec_policy s = YStr (lit ''derived'')"
    "sr_interval_frames s = YInt 1" "\<exists>n. sr_max_frame_bytes s = YInt n \<and> 1 \<le> n \<and> n \<le> 65535"
    "\<exists>p. sr_bandwidth_limit_pct s = YInt p \<and> 1 \<le> p \<and> p \<le> 75"
proof -
  have ex: "exact_int v = Some n \<Longrightarrow> v = YInt n" for v n by (cases v) auto
  have w: "within lo hi v \<longleftrightarrow> (\<exists>i. v = Some i \<and> lo \<le> i \<and> i \<le> hi)" for lo hi v by (cases v) (auto simp: within_def)
  have "sr_class_of (sr_class_name s) = Inr cls" and a: "as_pyint (sr_vid s) = Some 2"
    "within 0 7 (as_pyint (sr_class_queue s))" "the (as_pyint (sr_class_queue s)) < nq" "sr_tspec_policy s = YStr (lit ''derived'')"
    "exact_int (sr_interval_frames s) = Some 1" "within 1 0xFFFF (exact_int (sr_max_frame_bytes s))"
    "within 1 75 (exact_int (sr_bandwidth_limit_pct s))"
    using assms unfolding srp_validate_def rbind_Inr_iff ensure_Inr_iff by (auto simp: SRP_QUEUE_BITS_def)
  then show "cls = \<lparr>class_id = 6, priority = 3, intervals_ps = 8000\<rparr>"
    by (auto simp: sr_class_of_def SRP_SR_CLASSES_def split: yv.splits if_splits)
  show "as_pyint (sr_vid s) = Some 2" "sr_tspec_policy s = YStr (lit ''derived'')" "sr_interval_frames s = YInt 1" using a ex by auto
  show "\<exists>q. as_pyint (sr_class_queue s) = Some q \<and> 0 \<le> q \<and> q < 8 \<and> q < nq" using a(2,3) by (auto simp: w)
  show "\<exists>n. sr_max_frame_bytes s = YInt n \<and> 1 \<le> n \<and> n \<le> 65535" "\<exists>p. sr_bandwidth_limit_pct s = YInt p \<and> 1 \<le> p \<and> p \<le> 75"
    using a(6,7) ex by (auto simp: w)
qed

text \<open>The octets a frame of \<open>l2\<close> octets occupies on the wire: FCS, the tagged minimum, preamble and gap.\<close>

definition wire_octets :: "int \<Rightarrow> int" where
  "wire_octets l2 = max (l2 + 4) 68 + 20"

lemma geometry_slope:
  assumes "srp_frame_geometry ch rate ips = Inr geo"
  shows "srp_idle_slope_bps (max_frame_bytes geo) 1 8000 \<ge> 64000 * wire_octets (l2_frame_bytes geo)"
  using assms by (auto simp: srp_frame_geometry_def srp_idle_slope_bps_def wire_octets_def Let_def SRP_L2_OVERHEAD_B_def
      SRP_MIN_L2_BYTES_B_def SRP_WIRE_OVERHEAD_B_def L2_HDR_BYTES_def MILAN_TSPEC_HEADROOM_B_def split: if_splits)

lemma talker_row_facts:
  assumes "talker_row s shape cls dmac lat (t, st) = Inr r" "srp_validate s nq = Inr cls"
  shows "rw_talker r \<and> rw_stream_index r = t \<and> rw_dest_mac r = Some (hex_fmt 12 (dmac + int t))
    \<and> rw_max_frame_bytes r \<le> 0xFFFF \<and> 64000 * wire_octets (rw_l2_frame_bytes r) \<le> rw_idle_slope_bps r"
proof -
  note v = srp_validate_facts[OF assms(2)]
  obtain geo where g: "srp_frame_geometry (case sh_wire_channels shape of Some w \<Rightarrow> w | None \<Rightarrow> sc_channels st)
      (ck_sampling_rate_hz (sh_clocking shape)) 8000 = Inr geo" "max_frame_bytes geo \<le> 0xFFFF" "rw_max_frame_bytes r = max_frame_bytes geo"
    "rw_idle_slope_bps r = srp_idle_slope_bps (max_frame_bytes geo) 1 8000" "rw_l2_frame_bytes r = l2_frame_bytes geo"
    "rw_talker r" "rw_stream_index r = t" "rw_dest_mac r = Some (hex_fmt 12 (dmac + int t))"
    using assms(1) unfolding talker_row_def prod.case rbind_Inr_iff
    by (elim exE conjE) (auto simp: v(1,4,5) split: if_split_asm)
  then show ?thesis using geometry_slope[OF g(1)] by simp
qed

lemma listener_row_facts: "listener_row shape cls (k, sl) = Inr r \<Longrightarrow> \<not> rw_talker r \<and> rw_idle_slope_bps r = 0"
  by (auto simp: listener_row_def Let_def)

lemma srp_rows_facts:
  assumes "srp_rows s shape cls dmac lat = Inr (rows, slope)" "srp_validate s nq = Inr cls"
  shows "length rows = length (sh_talkers shape) + length (sh_listeners shape)"
    "slope = sum_list (map rw_idle_slope_bps (take (length (sh_talkers shape)) rows))"
    "t < length (sh_talkers shape) \<Longrightarrow> \<exists>r. rows ! t = r \<and> rw_talker r \<and> rw_stream_index r = t
       \<and> rw_dest_mac r = Some (hex_fmt 12 (dmac + int t)) \<and> rw_max_frame_bytes r \<le> 0xFFFF
       \<and> 64000 * wire_octets (rw_l2_frame_bytes r) \<le> rw_idle_slope_bps r"
    "k < length (sh_listeners shape) \<Longrightarrow> \<not> rw_talker (rows ! (length (sh_talkers shape) + k))
       \<and> rw_idle_slope_bps (rows ! (length (sh_talkers shape) + k)) = 0"
proof -
  obtain ts ls where m: "mapE (talker_row s shape cls dmac lat) (enum (sh_talkers shape)) = Inr ts"
    "mapE (listener_row shape cls) (enum (sh_listeners shape)) = Inr ls" "rows = ts @ ls" "slope = sum_list (map rw_idle_slope_bps ts)"
    using assms(1) by (auto simp: srp_rows_def)
  have l: "length ts = length (sh_talkers shape)" "length ls = length (sh_listeners shape)"
    using mapE_length[OF m(1)] mapE_length[OF m(2)] by simp_all
  then show "length rows = length (sh_talkers shape) + length (sh_listeners shape)"
    "slope = sum_list (map rw_idle_slope_bps (take (length (sh_talkers shape)) rows))" by (simp_all add: m(3,4))
  show "\<exists>r. rows ! t = r \<and> rw_talker r \<and> rw_stream_index r = t
       \<and> rw_dest_mac r = Some (hex_fmt 12 (dmac + int t)) \<and> rw_max_frame_bytes r \<le> 0xFFFF
       \<and> 64000 * wire_octets (rw_l2_frame_bytes r) \<le> rw_idle_slope_bps r" if "t < length (sh_talkers shape)"
    using mapE_nth[OF m(1), of t] that l by (auto simp: m(3) nth_append enum_nth dest!: talker_row_facts[OF _ assms(2)])
  show "\<not> rw_talker (rows ! (length (sh_talkers shape) + k)) \<and> rw_idle_slope_bps (rows ! (length (sh_talkers shape) + k)) = 0"
    if "k < length (sh_listeners shape)"
    using mapE_nth[OF m(2), of k] that l listener_row_facts by (auto simp: m(3) nth_append enum_nth)
qed

lemma srp_budget_facts:
  assumes "srp_budget s shape cls slope = Inr b" "srp_validate s nq = Inr cls" "0 \<le> sh_link_mbps shape"
  shows "bg_total_slope b = slope + bg_crf_slope b" "bg_total_slope b \<le> bg_limit_bps b" "100 * bg_limit_bps b \<le> 75 * bg_link_bps b"
    "bg_link_bps b = 1000000 * sh_link_mbps shape" "bg_crf_tk b = of_bool (ck_crf_output (sh_clocking shape))"
    "bg_crf_slope b = (if ck_crf_output (sh_clocking shape) then 5632000 else 0)"
proof -
  note v = srp_validate_facts[OF assms(2)]
  obtain p where p: "sr_bandwidth_limit_pct s = YInt p" "1 \<le> p" "p \<le> 75" using v(7) by blast
  have "100 * (sh_link_mbps shape * 1000000 * p div 100) \<le> sh_link_mbps shape * 1000000 * p" by simp
  also have "\<dots> \<le> 75 * (sh_link_mbps shape * 1000000)" using p(3) assms(3) mult_left_mono[of p 75 "sh_link_mbps shape * 1000000"] by simp
  finally have le: "100 * (sh_link_mbps shape * 1000000 * p div 100) \<le> 75 * (sh_link_mbps shape * 1000000)" .
  have "srp_idle_slope_bps CRF_SRP_MAXFRAME_B 1 8000 = 5632000"
    by (simp add: srp_idle_slope_bps_def CRF_SRP_MAXFRAME_B_def MILAN_TSPEC_HEADROOM_B_def SRP_L2_OVERHEAD_B_def SRP_MIN_L2_BYTES_B_def
        SRP_WIRE_OVERHEAD_B_def)
  then show "bg_total_slope b = slope + bg_crf_slope b" "bg_total_slope b \<le> bg_limit_bps b" "100 * bg_limit_bps b \<le> 75 * bg_link_bps b"
    "bg_link_bps b = 1000000 * sh_link_mbps shape" "bg_crf_tk b = of_bool (ck_crf_output (sh_clocking shape))"
    "bg_crf_slope b = (if ck_crf_output (sh_clocking shape) then 5632000 else 0)"
    using assms(1) le by (auto simp: srp_budget_def p(1) v(1) Let_def split: if_split_asm)
qed

text \<open>
  Property C28. An accepted reservation fits the wire: the frames of all talker streams, each with its FCS, padded to the
  tagged minimum, with preamble and gap, eight thousand times a second, together with the media clock stream where the
  device has one, take at most three quarters of the port. The published total is that of the rows, the rows are one
  per talker and one per listener, in that order, a listener reserves nothing, and the context rows the engine needs fit
  both its index and the rows the datapath provides.
\<close>

theorem srp_reservation_fits:
  assumes "load_srp raw shape = Inr c" "0 \<le> sh_link_mbps shape"
  defines "T \<equiv> length (sh_talkers shape)" and "L \<equiv> length (sh_listeners shape)"
  shows "100 * (8 * 8000 * ((\<Sum>r \<leftarrow> take T (sg_rows c). wire_octets (rw_l2_frame_bytes r))
            + (if ck_crf_output (sh_clocking shape) then wire_octets 46 else 0)))
          \<le> 75 * (1000000 * sh_link_mbps shape)
     \<and> sg_total_idle_slope_bps c = (\<Sum>r \<leftarrow> sg_rows c. rw_idle_slope_bps r) + sg_crf_idle_slope_bps c
     \<and> sg_total_idle_slope_bps c \<le> sg_limit_bps c
     \<and> length (sg_rows c) = T + L \<and> (\<forall>k < T + L. rw_talker (sg_rows c ! k) = (k < T))
     \<and> sg_ctx_rows_required c \<le> 32 \<and> sg_ctx_rows_required c \<le> sg_ctx_rows_available c"
proof -
  obtain s cls dmac lat rows slope b where p: "srp_validate s (sh_num_queues shape) = Inr cls"
    "srp_rows s shape cls dmac lat = Inr (rows, slope)" "srp_budget s shape cls slope = Inr b" "L + T + bg_crf_tk b \<le> 32"
    and c: "sg_rows c = rows" "sg_total_idle_slope_bps c = bg_total_slope b" "sg_limit_bps c = bg_limit_bps b"
    "sg_crf_idle_slope_bps c = bg_crf_slope b" "sg_ctx_rows_required c = L + T + bg_crf_tk b"
    "sg_ctx_rows_available c = 2 * max L T + bg_crf_tk b"
    unfolding T_def L_def by (rule load_srp_parts[OF assms(1)]) auto
  note r = srp_rows_facts[OF p(2,1), folded T_def L_def] and bg = srp_budget_facts[OF p(3,1) assms(2)]
  have tk: "64000 * wire_octets (rw_l2_frame_bytes x) \<le> rw_idle_slope_bps x" if "x \<in> set (take T rows)" for x
    using that r(1,3) by (auto simp: in_set_conv_nth)
  have "64000 * (\<Sum>x \<leftarrow> take T rows. wire_octets (rw_l2_frame_bytes x)) = (\<Sum>x \<leftarrow> take T rows. 64000 * wire_octets (rw_l2_frame_bytes x))"
    by (simp add: sum_list_const_mult)
  also have "\<dots> \<le> slope" unfolding r(2) by (rule sum_list_mono) (rule tk)
  finally have wire: "64000 * (\<Sum>x \<leftarrow> take T rows. wire_octets (rw_l2_frame_bytes x)) \<le> slope" .
  have "rw_idle_slope_bps x = 0" if "x \<in> set (drop T rows)" for x
    using that r(1,4) by (auto simp: in_set_conv_nth)
  then have "map rw_idle_slope_bps (drop T rows) = map (\<lambda>x. 0) (drop T rows)" by simp
  then have "(\<Sum>x \<leftarrow> drop T rows. rw_idle_slope_bps x) = 0" by (metis map_replicate_const sum_list_replicate mult_zero_right)
  then have sum: "(\<Sum>x \<leftarrow> rows. rw_idle_slope_bps x) = slope"
    unfolding r(2) by (metis (no_types, lifting) add.right_neutral append_take_drop_id map_append sum_list_append)
  have "rw_talker (rows ! k) = (k < T)" if "k < T + L" for k
    using r(3)[of k] r(4)[of "k - T"] that by (cases "k < T") auto
  moreover define A where "A = 64000 * (\<Sum>x \<leftarrow> take T rows. wire_octets (rw_l2_frame_bytes x)) + bg_crf_slope b"
  have "A \<le> bg_limit_bps b" using wire bg(1,2) by (simp add: A_def)
  then have "100 * A \<le> 75 * (1000000 * sh_link_mbps shape)" using bg(3) unfolding bg(4) by linarith
  ultimately show ?thesis using sum bg p(4) r(1) c by (auto simp: A_def wire_octets_def algebra_simps)
qed

section \<open>Reset words\<close>

lemma srp_dmac_range: "srp_dmac s = Inr d \<Longrightarrow> 0 \<le> d \<and> d < 2 ^ 48"
  using hex_text_bounds[of _ 48 d] by (auto simp: srp_dmac_def Let_def split: if_splits)

lemma bool_bits: "srp_reset_bits s = Inr () \<Longrightarrow> \<exists>e d. sr_enable_at_reset s = YBool e \<and> sr_talker_declare_at_reset s = YBool d"
  by (auto simp: srp_reset_bits_def)

lemma div_below: "(a :: int) < b * c \<Longrightarrow> 0 < b \<Longrightarrow> a div b < c"
proof (rule ccontr)
  assume "a < b * c" "0 < b" "\<not> a div b < c"
  then have "b * c \<le> b * (a div b)" by simp
  also have "\<dots> \<le> a" using \<open>0 < b\<close> mult_div_mod_eq[of b a] pos_mod_sign[of b a] by linarith
  finally show False using \<open>a < b * c\<close> by simp
qed

lemma or_shifted: "0 \<le> (a :: int) \<Longrightarrow> a < 2 ^ n \<Longrightarrow> a OR push_bit n b = a + 2 ^ n * b"
  using or_low[of a n b] by (simp add: push_bit_eq_mult mult.commute or.commute)

text \<open>
  Property C29. The six reset words of an accepted section fit 32 bits and keep its values apart: the two enable bits and
  the queue are read back from LWSRP_CTRL, the frame interval and size from LWSRP_TSPEC, the stream address from the two
  DMAC words, and LWSRP_VID and LWSRP_LATENCY are the section's.
\<close>

theorem srp_reset_words_decode:
  assumes "load_srp raw shape = Inr c"
  shows "\<exists>ctrl vid lo hi tspec lat. srp_reset_words c = Inr [(''LWSRP_CTRL'', ctrl), (''LWSRP_VID'', vid), (''LWSRP_DMAC_LO'', lo),
       (''LWSRP_DMAC_HI'', hi), (''LWSRP_TSPEC'', tspec), (''LWSRP_LATENCY'', lat)]
     \<and> (\<forall>w \<in> {ctrl, vid, lo, hi, tspec, lat}. 0 \<le> w \<and> w < 2 ^ 32)
     \<and> sr_enable_at_reset (sg_section c) = YBool (odd ctrl) \<and> sr_talker_declare_at_reset (sg_section c) = YBool (odd (ctrl div 2))
     \<and> as_pyint (sr_class_queue (sg_section c)) = Some (ctrl div 4)
     \<and> sr_interval_frames (sg_section c) = YInt (tspec div 65536) \<and> sr_max_frame_bytes (sg_section c) = YInt (tspec mod 65536)
     \<and> sg_dmac_base c = hex_fmt 12 (hi * 2 ^ 32 + lo) \<and> as_pyint (sr_vid (sg_section c)) = Some vid \<and> lat = sg_latency_ns c"
proof -
  obtain s cls dmac lat where p: "srp_validate s (sh_num_queues shape) = Inr cls" "srp_dmac s = Inr dmac" "0 \<le> lat" "lat \<le> 0xFFFFFFFF"
    "srp_reset_bits s = Inr ()" and c: "sg_section c = s" "sg_dmac_base c = hex_fmt 12 dmac" "sg_latency_ns c = lat"
    by (rule load_srp_parts[OF assms]) auto
  note v = srp_validate_facts[OF p(1)] and d = srp_dmac_range[OF p(2)]
  obtain e t where et: "sr_enable_at_reset s = YBool e" "sr_talker_declare_at_reset s = YBool t" using bool_bits[OF p(5)] by blast
  obtain q mf where q: "as_pyint (sr_class_queue s) = Some q" "0 \<le> q" "q < 8" and mf: "sr_max_frame_bytes s = YInt mf" "1 \<le> mf" "mf \<le> 65535"
    using v(3,6) by blast
  define ctrl where "ctrl = of_bool e + 2 * of_bool t + 4 * q"
  have "of_bool e OR push_bit 1 (of_bool t) = (of_bool e + 2 * of_bool t :: int)" using or_shifted[of "of_bool e" 1 "of_bool t"] by simp
  then have w: "of_bool e OR push_bit 1 (of_bool t) OR push_bit 2 q = ctrl"
    using or_shifted[of "of_bool e + 2 * of_bool t" 2 q] by (simp add: ctrl_def or.assoc[symmetric])
  have ts: "push_bit 16 1 OR mf = 65536 + mf" using or_shifted[of mf 16 1] mf by (simp add: or.commute)
  have hi16: "dmac div 2 ^ 32 < 2 ^ 16" using d by (intro div_below) simp_all
  have lo: "dmac AND 0xFFFFFFFF = dmac mod 2 ^ 32" using take_bit_eq_mask[of 32 dmac] by (simp add: take_bit_eq_mod mask_eq_exp_minus_1)
  have "drop_bit 32 dmac AND 0xFFFF = dmac div 2 ^ 32 mod 2 ^ 16"
    using take_bit_eq_mask[of 16 "drop_bit 32 dmac"] by (simp add: take_bit_eq_mod mask_eq_exp_minus_1 drop_bit_eq_div)
  also have "\<dots> = dmac div 2 ^ 32" using d hi16 by (intro mod_pos_pos_trivial) (simp_all add: pos_imp_zdiv_nonneg_iff)
  finally have hi: "drop_bit 32 dmac AND 0xFFFF = dmac div 2 ^ 32" .
  have "srp_reset_words c = Inr [(''LWSRP_CTRL'', of_bool e OR push_bit 1 (of_bool t) OR push_bit 2 q), (''LWSRP_VID'', 2),
      (''LWSRP_DMAC_LO'', dmac AND 0xFFFFFFFF), (''LWSRP_DMAC_HI'', drop_bit 32 dmac AND 0xFFFF),
      (''LWSRP_TSPEC'', push_bit 16 1 OR mf), (''LWSRP_LATENCY'', lat)]"
    using d by (simp add: srp_reset_words_def c et q(1) v(2,5) mf(1) Let_def)
  then have "srp_reset_words c = Inr [(''LWSRP_CTRL'', ctrl), (''LWSRP_VID'', 2), (''LWSRP_DMAC_LO'', dmac mod 2 ^ 32),
      (''LWSRP_DMAC_HI'', dmac div 2 ^ 32), (''LWSRP_TSPEC'', 65536 + mf), (''LWSRP_LATENCY'', lat)]"
    unfolding w ts lo hi .
  moreover have "ctrl div 2 = of_bool t + 2 * q" unfolding ctrl_def by (cases e; cases t) (simp; linarith)+
  then have "odd ctrl = e" "odd (ctrl div 2) = t" "ctrl div 4 = q" "0 \<le> ctrl" "ctrl < 2 ^ 32"
    using q by (simp_all only:) (auto simp: ctrl_def)
  moreover have "dmac div 2 ^ 32 < 2 ^ 32" "0 \<le> dmac div 2 ^ 32" "0 \<le> dmac mod 2 ^ 32" "dmac mod 2 ^ 32 < 2 ^ 32"
    using d hi16 by auto
  moreover have "dmac div 2 ^ 32 * 2 ^ 32 + dmac mod 2 ^ 32 = dmac" by simp
  ultimately show ?thesis
    using c et q(1) mf v(2,5) p(3,4) by (intro exI conjI) (assumption | simp)+
qed

section \<open>The default section\<close>

lemma default_section: "srp_section_of YNull = Inr SRP_DEFAULTS"
  by (simp add: srp_section_of_def sub_mapping_def get_def SRP_DEFAULTS_def)

lemma default_validate: "srp_validate SRP_DEFAULTS nq = (if 4 < nq then Inr \<lparr>class_id = 6, priority = 3, intervals_ps = 8000\<rparr> else Inl (Refused (SrpRefused SrpQueueBoard)))"
  by (simp add: srp_validate_def SRP_DEFAULTS_def sr_class_of_def SRP_SR_CLASSES_def within_def SRP_QUEUE_BITS_def ensure_def)

lemma default_dmac: "srp_dmac SRP_DEFAULTS = Inr 0x91E0F000FE01"
  by code_simp

text \<open>
  A configuration without an \<^verbatim>\<open>srp:\<close> section, whatever its streams, clock and board, resets the register
  group to the words the hand-written RTL carried (\<^verbatim>\<open>SRP_FROZEN_RESETS\<close>) and drives the same PriorityAndRank octet.
\<close>

lemma default_resets_frozen:
  assumes "load_srp YNull shape = Inr c"
  shows "srp_reset_words c = Inr SRP_FROZEN_RESETS \<and> sg_prio_rank c = 0x70"
proof -
  obtain cls where v: "srp_validate SRP_DEFAULTS (sh_num_queues shape) = Inr cls"
    and c: "sg_section c = SRP_DEFAULTS" "sg_dmac_base c = hex_fmt 12 0x91E0F000FE01" "sg_latency_ns c = 0"
      "sg_prio_rank c = push_bit 5 (priority cls) OR push_bit 4 SRP_RANK"
    by (rule load_srp_parts[OF assms]) (auto simp: default_section default_dmac, simp add: SRP_DEFAULTS_def)
  have "priority cls = 3" using v by (auto simp: default_validate split: if_split_asm)
  then show ?thesis
    by (simp add: srp_reset_words_def c SRP_FROZEN_RESETS_def Let_def SRP_RANK_def) (simp add: SRP_DEFAULTS_def)
qed

text \<open>A Gigabit port with one stereo stream each way and the media clock output.\<close>

definition stereo :: "string \<Rightarrow> stream_cfg" where
  "stereo nm = \<lparr>sc_name = YStr (lit nm), sc_channels = 2, sc_formats = [], sc_clusters = 2, sc_map_mode = ''dynamic'',
     sc_map_page = None, sc_buffer = YInt 2126000, sc_offset = Some 2000000\<rparr>"

definition gigabit_shape :: SrpShape where
  "gigabit_shape = \<lparr>sh_listeners = [stereo ''In''], sh_talkers = [stereo ''Out''],
     sh_clocking = \<lparr>ck_sampling_rate_hz = 48000, ck_audio_unit_rates_hz = [48000], ck_media_clock_sources = [''internal''],
       ck_crf_sink = True, ck_crf_format = CRF_FORMAT_DEFAULT, ck_crf_output = True, ck_crf_output_format = CRF_FORMAT_DEFAULT\<rparr>,
     sh_num_queues = 5, sh_link_mbps = 1000, sh_wire_channels = Some 2\<rparr>"

lemma gigabit_rows:
  "\<exists>a b. srp_rows SRP_DEFAULTS gigabit_shape \<lparr>class_id = 6, priority = 3, intervals_ps = 8000\<rparr> dmac 0 = Inr ([a, b], 7360000)
     \<and> rw_l2_frame_bytes a = 90"
  by (simp add: srp_rows_def talker_row_def listener_row_def enum_def gigabit_shape_def stereo_def SRP_DEFAULTS_def srp_frame_geometry_def
      srp_idle_slope_bps_def MILAN_TSPEC_HEADROOM_B_def SRP_L2_OVERHEAD_B_def SRP_MIN_L2_BYTES_B_def SRP_WIRE_OVERHEAD_B_def
      AVTP_AAF_HDR_BYTES_def AAF_SAMPLE_OCTETS_def L2_HDR_BYTES_def Let_def)

lemma gigabit_budget:
  "srp_budget SRP_DEFAULTS gigabit_shape \<lparr>class_id = 6, priority = 3, intervals_ps = 8000\<rparr> 7360000
     = Inr \<lparr>bg_crf_tk = 1, bg_crf_slope = 5632000, bg_total_slope = 12992000, bg_limit_bps = 750000000, bg_link_bps = 1000000000\<rparr>"
  by (simp add: srp_budget_def gigabit_shape_def SRP_DEFAULTS_def srp_idle_slope_bps_def CRF_SRP_MAXFRAME_B_def
      MILAN_TSPEC_HEADROOM_B_def SRP_L2_OVERHEAD_B_def SRP_MIN_L2_BYTES_B_def SRP_WIRE_OVERHEAD_B_def Let_def)

lemma gigabit_loads:
  "\<exists>c. load_srp YNull gigabit_shape = Inr c \<and> rw_l2_frame_bytes (sg_rows c ! 0) = 90 \<and> sg_total_idle_slope_bps c = 12992000"
proof -
  obtain a b where r: "srp_rows SRP_DEFAULTS gigabit_shape \<lparr>class_id = 6, priority = 3, intervals_ps = 8000\<rparr> 0x91E0F000FE01 0
      = Inr ([a, b], 7360000)" "rw_l2_frame_bytes a = 90" using gigabit_rows by blast
  have v: "srp_validate SRP_DEFAULTS (sh_num_queues gigabit_shape) = Inr \<lparr>class_id = 6, priority = 3, intervals_ps = 8000\<rparr>"
    by (simp add: default_validate gigabit_shape_def)
  have s: "to_int (sr_accumulated_latency_ns SRP_DEFAULTS) = Inr 0" "srp_reset_bits SRP_DEFAULTS = Inr ()"
    "length (sh_listeners gigabit_shape) = 1" "length (sh_talkers gigabit_shape) = 1"
    by (simp_all add: SRP_DEFAULTS_def srp_reset_bits_def gigabit_shape_def)
  show ?thesis unfolding load_srp_def default_section rbind.simps default_dmac v s r(1) prod.case
    using r(2) by (simp add: gigabit_budget SRP_CTX_IDX_BITS_def s ensure_def)
qed

theorem srp_reservation_fits_witness:
  "\<exists>c. load_srp YNull gigabit_shape = Inr c \<and> sg_total_idle_slope_bps c = 12992000 \<and> sg_total_idle_slope_bps c \<le> sg_limit_bps c
     \<and> rw_talker (sg_rows c ! 0) \<and> \<not> rw_talker (sg_rows c ! 1)"
proof -
  obtain c where c: "load_srp YNull gigabit_shape = Inr c" "sg_total_idle_slope_bps c = 12992000" using gigabit_loads by blast
  have "0 \<le> sh_link_mbps gigabit_shape" "length (sh_talkers gigabit_shape) = 1" "length (sh_listeners gigabit_shape) = 1"
    by (simp_all add: gigabit_shape_def)
  with srp_reservation_fits[OF c(1)] c show ?thesis by auto
qed

theorem srp_reset_words_decode_witness:
  "\<exists>c ctrl ws. load_srp YNull gigabit_shape = Inr c \<and> srp_reset_words c = Inr ((''LWSRP_CTRL'', ctrl) # ws) \<and> ctrl div 4 = 4"
proof -
  obtain c where c: "load_srp YNull gigabit_shape = Inr c" using gigabit_loads by blast
  have "sg_section c = SRP_DEFAULTS" by (rule load_srp_parts[OF c]) (simp add: default_section)
  then have "as_pyint (sr_class_queue (sg_section c)) = Some 4" by (simp add: SRP_DEFAULTS_def)
  with srp_reset_words_decode[OF c] c show ?thesis by auto
qed

section \<open>Stream addresses\<close>

text \<open>
  Only the base address is held to be multicast. A base whose low forty bits are all ones is accepted, and the address
  of the next stream carries into the group bit.
\<close>

lemma stream_address_carry:
  "\<exists>s. srp_dmac s = Inr 0x91FFFFFFFFFF \<and> drop_bit 40 (0x91FFFFFFFFFF + 1 :: int) AND 1 = 0"
  by (rule exI[of _ "SRP_DEFAULTS\<lparr>sr_stream_dmac_base := YStr (lit ''91FFFFFFFFFF'')\<rparr>"]) code_simp

lemma stream_addresses:
  assumes "load_srp raw shape = Inr c" "t < length (sh_talkers shape)"
  shows "\<exists>d a. fmt_word (sg_dmac_base c) = Inr d \<and> drop_bit 40 d AND 1 = 1 \<and> rw_dest_mac (sg_rows c ! t) = Some a
     \<and> fmt_word a = Inr (d + int t)"
proof -
  obtain s cls dmac lat rows slope where p: "srp_validate s (sh_num_queues shape) = Inr cls" "srp_dmac s = Inr dmac"
    "srp_rows s shape cls dmac lat = Inr (rows, slope)" and c: "sg_rows c = rows" "sg_dmac_base c = hex_fmt 12 dmac"
    by (rule load_srp_parts[OF assms(1)]) auto
  have "0 \<le> dmac" using srp_dmac_range[OF p(2)] by simp
  moreover have "drop_bit 40 dmac AND 1 = 1" using p(2) by (auto simp: srp_dmac_def Let_def and_one_eq split: if_splits)
  ultimately show ?thesis using srp_rows_facts(3)[OF p(3,1) assms(2)] by (auto simp: c)
qed

end
