(* ===== verification/Builder_Load.thy ===== *)
theory Builder_Load
  imports Builder_Model Builder_Srp
begin

unbundle bit_operations_syntax

text \<open>
  The sections of a configuration document the entity model is made of (\<^verbatim>\<open>load_config\<close> of
  \<^verbatim>\<open>sw/builder/endstation_builder.py\<close>): clocking, gPTP attributes, object names, the audio interface with its pools, and the
  streams, normalised and checked against each other, then laid out. The document is the mapping the YAML loader
  yields. The numbers the gPTP engine generator states are arguments, since its source is a submodule; so are the loaded
  \<^verbatim>\<open>entity:\<close> section and the SHA-256 prefix of the model identity. Where the text of a refusal itself fails to print
  (sorting values of different types), the model keeps the refusal.
\<close>

section \<open>Clocking\<close>

definition MAX_AUDIO_UNIT_RATES :: nat where "MAX_AUDIO_UNIT_RATES = 8"

definition AUDIO_CLK_HZ :: int where "AUDIO_CLK_HZ = 24576000"

definition CLOCK_SOURCE_CLASS_ORDER :: "string list" where
  "CLOCK_SOURCE_CLASS_ORDER = [''internal'', ''crf'', ''input_stream'']"

record loaded_clocking = clocking +
  lc_default_source :: string
  lc_crf_output_offset_ns :: int
  lc_audio_pll_hz :: int

definition source_word :: "yv \<Rightarrow> string option" where
  "source_word v = find (\<lambda>w. v = YStr (lit w)) CLOCK_SOURCE_CLASS_ORDER"

text \<open>What Python iterates over: the items of a list, the keys of a mapping, the characters of a string.\<close>

fun iter_items :: "yv \<Rightarrow> yv list cfg" where
  "iter_items (YList xs) = Inr xs"
| "iter_items (YMap m) = Inr (map (YStr \<circ> fst) m)"
| "iter_items (YStr s) = Inr (map (\<lambda>c. YStr [c]) s)"
| "iter_items _ = Inl TypeError"

fun hashable :: "yv \<Rightarrow> bool" where
  "hashable (YList _) = False"
| "hashable (YMap _) = False"
| "hashable _ = True"

definition media_sources :: "(pystr \<times> yv) list \<Rightarrow> (string list \<times> string) cfg" where
  "media_sources clk =
     (let srcs = get clk ''media_clock_sources'' (YList [YStr (lit ''internal''), YStr (lit ''crf'')]) in
      rbind (ensure (truthy srcs) (Refused (LoadRefused NoClockSource))) (\<lambda>_.
      rbind (iter_items srcs) (\<lambda>xs.
      rbind (ensure (list_all hashable xs) TypeError) (\<lambda>_.
      rbind (ensure (list_all (\<lambda>v. source_word v \<noteq> None) xs) (Refused (LoadRefused UnknownClockSource))) (\<lambda>_.
      rbind (ensure (distinct xs) (Refused (LoadRefused RepeatedClockSource))) (\<lambda>_.
      rbind (case srcs of YList (x # _) \<Rightarrow> Inr x | _ \<Rightarrow> Inl KeyError) (\<lambda>first.
      let dflt = get clk ''default_source'' first in
      rbind (ensure (dflt \<in> set xs) (Refused (LoadRefused DefaultNotOffered))) (\<lambda>_.
        Inr (map (the \<circ> source_word) xs, the (source_word dflt))))))))))"

definition crf_output_section :: "(pystr \<times> yv) list \<Rightarrow> (pystr \<times> yv) list cfg" where
  "crf_output_section clk =
     (let co = get clk ''crf_output'' YNull in
      if \<not> truthy co then Inr [] else case co of YMap m \<Rightarrow> Inr m | _ \<Rightarrow> Inl (Refused (LoadRefused CrfOutputNotMapping)))"

definition read_clocking :: "(pystr \<times> yv) list \<Rightarrow> int \<Rightarrow> loaded_clocking cfg" where
  "read_clocking clk rate =
     rbind (media_sources clk) (\<lambda>(srcs, dflt).
     rbind (crf_output_section clk) (\<lambda>co.
     rbind (iter_items (get clk ''audio_unit_rates_hz'' (YList [YInt rate]))) (\<lambda>rs.
     rbind (mapE to_int rs) (\<lambda>rates.
     rbind (crf_format (get clk ''crf_format'' (YStr CRF_FORMAT_DEFAULT))) (\<lambda>cf.
     rbind (crf_format (get co ''format'' (YStr CRF_FORMAT_DEFAULT))) (\<lambda>cof.
     rbind (factory_offset co) (\<lambda>ofs.
     rbind (to_int (get clk ''audio_pll_hz'' (YInt AUDIO_CLK_HZ))) (\<lambda>pll.
       Inr \<lparr>ck_sampling_rate_hz = rate, ck_audio_unit_rates_hz = rates, ck_media_clock_sources = srcs,
            ck_crf_sink = truthy (get clk ''crf_sink'' (YBool True)), ck_crf_format = cf,
            ck_crf_output = truthy (get co ''enabled'' (YBool False)), ck_crf_output_format = cof,
            lc_default_source = dflt, lc_crf_output_offset_ns = ofs, lc_audio_pll_hz = pll\<rparr>))))))))"

definition check_clocking :: "loaded_clocking \<Rightarrow> unit cfg" where
  "check_clocking c =
     (let rates = ck_audio_unit_rates_hz c; srcs = ck_media_clock_sources c in
      rbind (ensure (length rates \<le> MAX_AUDIO_UNIT_RATES) (Refused (LoadRefused (TooManyRates (length rates))))) (\<lambda>_.
      rbind (ensure (distinct rates) (Refused (LoadRefused DuplicateRates))) (\<lambda>_.
      rbind (ensure (ck_sampling_rate_hz c \<in> set rates) (Refused (LoadRefused CurrentRateMissing))) (\<lambda>_.
      rbind (ensure (lc_audio_pll_hz c = AUDIO_CLK_HZ) (Refused (LoadRefused (PllRate (lc_audio_pll_hz c))))) (\<lambda>_.
      rbind (ensure (\<not> (ck_crf_sink c \<and> ''crf'' \<notin> set srcs)) (Refused (LoadRefused SinkNeedsSource))) (\<lambda>_.
        ensure (\<not> (''crf'' \<in> set srcs \<and> \<not> ck_crf_sink c)) (Refused (LoadRefused SourceNeedsSink))))))))"

fun mapping_of :: "yv \<Rightarrow> (pystr \<times> yv) list cfg" where
  "mapping_of (YMap m) = Inr m"
| "mapping_of _ = Inl AttributeError"

definition load_clocking :: "yv \<Rightarrow> loaded_clocking cfg" where
  "load_clocking doc =
     rbind (req doc ''clocking'') (\<lambda>sec.
     rbind (req sec ''sampling_rate_hz'') (\<lambda>r.
     rbind (to_int r) (\<lambda>rate.
     rbind (ensure (rate \<in> set (map fst BASE_RATE_HZ)) (Refused (LoadRefused NotBaseRate))) (\<lambda>_.
     rbind (mapping_of sec) (\<lambda>clk.
     rbind (read_clocking clk rate) (\<lambda>c.
     rbind (check_clocking c) (\<lambda>_. Inr c)))))))"

section \<open>gPTP attributes\<close>

record gptp_pins =
  pn_priority2 :: int
  pn_clock_class :: int
  pn_clock_accuracy :: int
  pn_offset_scaled_log_variance :: int
  pn_log_sync_interval :: int
  pn_log_announce_interval :: int
  pn_log_pdelay_interval :: int

text \<open>From the numbers the generator's source states: priority2, the clockQuality word and three interval octets.\<close>

definition logint :: "int \<Rightarrow> int cfg" where
  "logint v = (if \<not> (0 \<le> v \<and> v \<le> 0xFF) then Inl (Refused (LoadRefused EnginePins)) else Inr (if v \<ge> 128 then v - 256 else v))"

definition gptp_engine_pins :: "int \<Rightarrow> int \<Rightarrow> int \<Rightarrow> int \<Rightarrow> int \<Rightarrow> gptp_pins cfg" where
  "gptp_engine_pins p2 cq sync announce pdelay =
     rbind (ensure (0 \<le> cq \<and> cq \<le> 0xFFFFFFFF) (Refused (LoadRefused EnginePins))) (\<lambda>_.
     rbind (logint sync) (\<lambda>s. rbind (logint announce) (\<lambda>a. rbind (logint pdelay) (\<lambda>d.
       Inr \<lparr>pn_priority2 = p2, pn_clock_class = drop_bit 24 cq AND 0xFF, pn_clock_accuracy = drop_bit 16 cq AND 0xFF,
            pn_offset_scaled_log_variance = cq AND 0xFFFF, pn_log_sync_interval = s, pn_log_announce_interval = a,
            pn_log_pdelay_interval = d\<rparr>))))"

definition gptp_engine_port_number :: "int \<Rightarrow> int cfg" where
  "gptp_engine_port_number pn = (if \<not> (1 \<le> pn \<and> pn \<le> 0xFFFF) then Inl (Refused (LoadRefused (EnginePort pn))) else Inr pn)"

definition GPTP_KEYS :: "string list" where
  "GPTP_KEYS = [''priority1'', ''priority2'', ''clock_class'', ''clock_accuracy'', ''offset_scaled_log_variance'', ''domain'',
     ''log_sync_interval'', ''log_announce_interval'', ''log_pdelay_interval'', ''ingress_latency_ns'', ''egress_latency_ns'']"

definition gptp_domain_key :: "(pystr \<times> yv) list \<Rightarrow> int cfg" where
  "gptp_domain_key gp = rbind (to_int (get gp ''domain'' (YInt 0))) (\<lambda>v. if v \<noteq> 0 then Inl (Refused (LoadRefused (GptpDomain v))) else Inr v)"

definition gptp_latency_key :: "(pystr \<times> yv) list \<Rightarrow> string \<Rightarrow> int cfg" where
  "gptp_latency_key gp k = (case map_of gp (lit k) of
     None \<Rightarrow> Inl (Refused (LoadRefused (GptpLatencyMissing k)))
   | Some x \<Rightarrow> rbind (to_int x) (\<lambda>v. if \<not> (0 \<le> v \<and> v \<le> 0xFFFF) then Inl (Refused (LoadRefused (GptpLatencyRange k v))) else Inr v))"

definition gptp_u8 :: "(pystr \<times> yv) list \<Rightarrow> string \<Rightarrow> int \<Rightarrow> int cfg" where
  "gptp_u8 gp k dflt = rbind (to_int (get gp k (YInt dflt))) (\<lambda>v.
     if \<not> (0 \<le> v \<and> v \<le> 255) then Inl (Refused (LoadRefused (GptpOctet k v))) else Inr v)"

definition gptp_pinned :: "(pystr \<times> yv) list \<Rightarrow> string \<Rightarrow> int \<Rightarrow> int cfg" where
  "gptp_pinned gp k pin = (case map_of gp (lit k) of
     None \<Rightarrow> Inr pin
   | Some x \<Rightarrow> rbind (to_int x) (\<lambda>v. if v \<noteq> pin then Inl (Refused (LoadRefused (GptpPinned k v))) else Inr pin))"

record loaded_gptp =
  lg_set :: gptp_set
  lg_ingress_latency_ns :: int
  lg_egress_latency_ns :: int

definition load_gptp :: "gptp_pins cfg \<Rightarrow> int cfg \<Rightarrow> (pystr \<times> yv) list \<Rightarrow> loaded_gptp option cfg" where
  "load_gptp pins port doc = (case get doc ''gptp'' YNull of
     YNull \<Rightarrow> Inr None
   | YMap gp \<Rightarrow>
       rbind (ensure (list_all (\<lambda>(k, _). k \<in> set (map lit GPTP_KEYS)) gp) (Refused (LoadRefused GptpKeys))) (\<lambda>_.
       rbind pins (\<lambda>pn.
       rbind port (\<lambda>port_number.
       rbind (gptp_latency_key gp ''ingress_latency_ns'') (\<lambda>ingress.
       rbind (gptp_latency_key gp ''egress_latency_ns'') (\<lambda>egress.
       rbind (gptp_u8 gp ''priority1'' 248) (\<lambda>p1.
       rbind (gptp_pinned gp ''priority2'' (pn_priority2 pn)) (\<lambda>p2.
       rbind (gptp_pinned gp ''clock_class'' (pn_clock_class pn)) (\<lambda>cc.
       rbind (gptp_pinned gp ''clock_accuracy'' (pn_clock_accuracy pn)) (\<lambda>ca.
       rbind (gptp_pinned gp ''offset_scaled_log_variance'' (pn_offset_scaled_log_variance pn)) (\<lambda>va.
       rbind (gptp_domain_key gp) (\<lambda>dom.
       rbind (gptp_pinned gp ''log_sync_interval'' (pn_log_sync_interval pn)) (\<lambda>sy.
       rbind (gptp_pinned gp ''log_announce_interval'' (pn_log_announce_interval pn)) (\<lambda>an.
       rbind (gptp_pinned gp ''log_pdelay_interval'' (pn_log_pdelay_interval pn)) (\<lambda>pd.
         Inr (Some \<lparr>lg_set = \<lparr>gp_priority1 = Some p1, gp_clock_class = Some cc, gp_offset_scaled_log_variance = Some va,
             gp_clock_accuracy = Some ca, gp_priority2 = Some p2, gp_domain = Some dom, gp_log_sync_interval = Some sy,
             gp_log_announce_interval = Some an, gp_log_pdelay_interval = Some pd, gp_port_number = Some port_number\<rparr>,
           lg_ingress_latency_ns = ingress, lg_egress_latency_ns = egress\<rparr>)))))))))))))))
   | _ \<Rightarrow> Inl (Refused (LoadRefused GptpKeys)))"

section \<open>Object names\<close>

definition AEM_STRING_BYTES :: nat where "AEM_STRING_BYTES = 64"

definition CLOCK_SOURCE_NAME_KEY_SOURCE :: "(string \<times> string) list" where
  "CLOCK_SOURCE_NAME_KEY_SOURCE = [(''internal'', ''internal''), (''crf'', ''crf''), (''stream'', ''input_stream'')]"

definition aem_string :: "yv \<Rightarrow> pystr cfg" where
  "aem_string v = (case v of
     YStr s \<Rightarrow>
       (if s = [] then Inl (Refused (LoadRefused NotAemString))
        else case (utf8_encode s :: byte list cfg) of
          Inl _ \<Rightarrow> Inl (Refused (LoadRefused NotAemString))
        | Inr raw \<Rightarrow>
            if 0 \<in> set raw then Inl (Refused (LoadRefused AemStringNul))
            else if length raw > AEM_STRING_BYTES then Inl (Refused (LoadRefused AemStringLong)) else Inr s)
   | _ \<Rightarrow> Inl (Refused (LoadRefused NotAemString)))"

text \<open>The declared ones of the given keys, in their order.\<close>

definition declared_names :: "(pystr \<times> yv) list \<Rightarrow> (string \<Rightarrow> unit cfg) \<Rightarrow> string list \<Rightarrow> (string \<times> pystr) list cfg" where
  "declared_names m ok ks = mapE (\<lambda>k. rbind (ok k) (\<lambda>_. rbind (aem_string (the (map_of m (lit k)))) (\<lambda>n. Inr (k, n))))
     (filter (\<lambda>k. map_of m (lit k) \<noteq> None) ks)"

fun py_len :: "yv \<Rightarrow> nat cfg" where
  "py_len (YList xs) = Inr (length xs)"
| "py_len (YMap m) = Inr (length m)"
| "py_len (YStr s) = Inr (length s)"
| "py_len _ = Inl TypeError"

definition numbered_name_fits :: "(pystr \<times> yv) list \<Rightarrow> (string \<times> pystr) list \<Rightarrow> unit cfg" where
  "numbered_name_fits doc sources = (case map_of sources ''stream'' of
     None \<Rightarrow> Inr ()
   | Some name \<Rightarrow>
       rbind (req (YMap doc) ''streams'') (\<lambda>sec.
       rbind (mapping_of sec) (\<lambda>st.
       let ls = get st ''listeners'' YNull in
       rbind (if truthy ls then py_len ls else Inr 0) (\<lambda>n_l.
         if n_l > 1 then rbind (utf8_encode (name @ lit '' '' @ dec_nat (n_l - 1))) (\<lambda>b.
             ensure (length b \<le> AEM_STRING_BYTES) (Refused (LoadRefused NumberedNameLong)))
         else Inr ()))))"

definition clock_source_names :: "(pystr \<times> yv) list \<Rightarrow> string list \<Rightarrow> yv \<Rightarrow> (string \<times> pystr) list cfg" where
  "clock_source_names doc srcs v = (case v of
     YNull \<Rightarrow> Inr []
   | YMap cs \<Rightarrow>
       rbind (ensure (list_all (\<lambda>(k, _). k \<in> set (map (lit \<circ> fst) CLOCK_SOURCE_NAMES)) cs) (Refused (LoadRefused ClockNamesKeys))) (\<lambda>_.
       rbind (declared_names cs (\<lambda>k. ensure (the (map_of CLOCK_SOURCE_NAME_KEY_SOURCE k) \<in> set srcs) (Refused (LoadRefused (ClockNameNowhere k))))
                (map fst CLOCK_SOURCE_NAMES)) (\<lambda>sources.
       rbind (numbered_name_fits doc sources) (\<lambda>_. Inr sources)))
   | _ \<Rightarrow> Inl (Refused (LoadRefused ClockNamesKeys)))"

definition load_names :: "(pystr \<times> yv) list \<Rightarrow> string list \<Rightarrow> ((string \<times> pystr) list \<times> (string \<times> pystr) list) cfg" where
  "load_names doc srcs = (case get doc ''names'' YNull of
     YNull \<Rightarrow> Inr ([], [])
   | YMap raw \<Rightarrow>
       rbind (ensure (list_all (\<lambda>(k, _). k \<in> set (map lit (map fst OBJECT_NAMES @ [''clock_sources'']))) raw) (Refused (LoadRefused NamesKeys))) (\<lambda>_.
       rbind (declared_names raw (\<lambda>_. Inr ()) (map fst OBJECT_NAMES)) (\<lambda>objects.
       rbind (clock_source_names doc srcs (get raw ''clock_sources'' YNull)) (\<lambda>sources. Inr (objects, sources))))
   | _ \<Rightarrow> Inl (Refused (LoadRefused NamesKeys)))"

section \<open>The audio interface\<close>

record iface_info =
  ii_channels :: int
  ii_word_bits :: "int list"
  ii_rtl :: string

definition INTERFACES :: "(string \<times> iface_info) list" where
  "INTERFACES =
     [(''i2s_philips'', \<lparr>ii_channels = 2, ii_word_bits = [16, 24], ii_rtl = ''present''\<rparr>),
      (''tdm8'', \<lparr>ii_channels = 8, ii_word_bits = [16, 24, 32], ii_rtl = ''present''\<rparr>),
      (''tdm16'', \<lparr>ii_channels = 16, ii_word_bits = [16, 24, 32], ii_rtl = ''present''\<rparr>),
      (''tdm32'', \<lparr>ii_channels = 32, ii_word_bits = [16, 24, 32], ii_rtl = ''present''\<rparr>),
      (''aes3'', \<lparr>ii_channels = 2, ii_word_bits = [16, 20, 24], ii_rtl = ''serdes''\<rparr>),
      (''spdif'', \<lparr>ii_channels = 2, ii_word_bits = [16, 20, 24], ii_rtl = ''serdes''\<rparr>)]"

definition AES3_UI_PER_FRAME :: int where "AES3_UI_PER_FRAME = 128"

definition AES3_OVERSAMPLE :: int where "AES3_OVERSAMPLE = 4"

text \<open>A value that has to be one of the given words.\<close>

definition one_of :: "string list \<Rightarrow> yv \<Rightarrow> config_error \<Rightarrow> string cfg" where
  "one_of ks v e = (case find (\<lambda>w. v = YStr (lit w)) ks of None \<Rightarrow> Inl (Refused e) | Some k \<Rightarrow> Inr k)"

text \<open>\<^verbatim>\<open>v or {}\<close>, refused unless it is a mapping with keys among the given ones.\<close>

definition section_or_empty :: "yv \<Rightarrow> string list \<Rightarrow> config_error \<Rightarrow> (pystr \<times> yv) list cfg" where
  "section_or_empty v ks e =
     (if \<not> truthy v then Inr []
      else case v of YMap m \<Rightarrow> (if list_all (\<lambda>(k, _). k \<in> set (map lit ks)) m then Inr m else Inl (Refused e))
           | _ \<Rightarrow> Inl (Refused e))"

definition physical_channels :: "(pystr \<times> yv) list \<Rightarrow> int \<Rightarrow> (int \<times> int) cfg" where
  "physical_channels aif channels =
     rbind (case get aif ''physical_channels'' YNull of
         YNull \<Rightarrow> Inr (channels, channels)
       | YMap pc \<Rightarrow>
           rbind (ensure (list_all (\<lambda>(k, _). k \<in> {lit ''capture'', lit ''render''}) pc) (Refused (LoadRefused PhysicalKeys))) (\<lambda>_.
           rbind (to_int (get pc ''capture'' (YInt channels))) (\<lambda>c.
           rbind (to_int (get pc ''render'' (YInt channels))) (\<lambda>r. Inr (c, r))))
       | _ \<Rightarrow> Inl (Refused (LoadRefused PhysicalKeys))) (\<lambda>(c, r).
     rbind (ensure (0 \<le> c \<and> c \<le> channels) (Refused (LoadRefused (PhysicalRange ''capture'' c)))) (\<lambda>_.
     rbind (ensure (0 \<le> r \<and> r \<le> channels) (Refused (LoadRefused (PhysicalRange ''render'' r)))) (\<lambda>_. Inr (c, r))))"

definition load_cluster_pools :: "(pystr \<times> yv) list \<Rightarrow> (pystr \<times> yv) list \<Rightarrow> int \<Rightarrow> string \<Rightarrow> ((int \<times> int) \<times> (pystr \<times> yv) list \<times> bool) cfg" where
  "load_cluster_pools aif cm channels pol =
     rbind (physical_channels aif channels) (\<lambda>ph.
     rbind (section_or_empty (get cm ''pools'' YNull) [''pilot'', ''loopback''] (LoadRefused PoolKeys)) (\<lambda>pl.
     rbind (ensure (\<not> (pl \<noteq> [] \<and> pol \<noteq> ''role-pools'')) (Refused (LoadRefused PoolsUnread))) (\<lambda>_.
     rbind (section_or_empty (get cm ''fabric'' YNull) [''loopback_lane''] (LoadRefused FabricKeys)) (\<lambda>fab.
     rbind (ensure (\<not> (fab \<noteq> [] \<and> pol \<noteq> ''role-pools'')) (Refused (LoadRefused FabricUnread))) (\<lambda>_.
     let lane = truthy (get fab ''loopback_lane'' (YBool False)) in
     rbind (if lane then to_int (get pl ''loopback'' (YInt 0)) else Inr 1) (\<lambda>n.
     rbind (ensure (n \<noteq> 0) (Refused (LoadRefused LaneWithoutPool))) (\<lambda>_. Inr (ph, pl, lane))))))))"

fun channel_text :: "yv \<Rightarrow> pystr option" where
  "channel_text (YStr s) = (if 0 < length s \<and> length s \<le> 48 then Some s else None)"
| "channel_text _ = None"

definition load_channel_names :: "(pystr \<times> yv) list \<Rightarrow> int \<times> int \<Rightarrow> pystr list option cfg" where
  "load_channel_names aif ph = (case get aif ''channel_names'' YNull of
     YNull \<Rightarrow> Inr None
   | YList ns \<Rightarrow>
       rbind (ensure (ns \<noteq> [] \<and> list_all (\<lambda>n. channel_text n \<noteq> None) ns) (Refused (LoadRefused BadChannelNames))) (\<lambda>_.
       rbind (ensure (int (length ns) \<ge> max (fst ph) (snd ph)) (Refused (LoadRefused (TooFewChannelNames (length ns))))) (\<lambda>_.
         Inr (Some (map (the \<circ> channel_text) ns))))
   | _ \<Rightarrow> Inl (Refused (LoadRefused BadChannelNames)))"

record interface =
  if_kind :: string
  if_channels :: int
  if_word_length_bits :: int
  if_policy :: string
  if_rtl :: string
  if_phys :: "int \<times> int"
  if_pools :: "(pystr \<times> yv) list"
  if_channel_names :: "pystr list option"
  if_loopback_lane :: bool
  if_serial :: "(int \<times> int) option"

definition serial_clock :: "iface_info \<Rightarrow> int \<Rightarrow> int \<Rightarrow> (int \<times> int) option cfg" where
  "serial_clock info rate pll =
     (if ii_rtl info \<noteq> ''serdes'' then Inr None
      else let need = rate * AES3_UI_PER_FRAME * AES3_OVERSAMPLE in
        if need = 0 then Inl ZeroDivisionError
        else if pll mod need \<noteq> 0 then Inl (Refused (LoadRefused (SerialClock need))) else Inr (Some (need, pll div need)))"

text \<open>\<^verbatim>\<open>aif.get("cluster_mapping") or {}\<close>, then the membership test for the retired key.\<close>

definition cluster_mapping :: "(pystr \<times> yv) list \<Rightarrow> (pystr \<times> yv) list cfg" where
  "cluster_mapping aif =
     (let v = get aif ''cluster_mapping'' YNull in
      if \<not> truthy v then Inr []
      else case v of
        YMap m \<Rightarrow> (if map_of m (lit ''rule'') \<noteq> None then Inl (Refused (LoadRefused RuleRetired)) else Inr m)
      | YList xs \<Rightarrow> (if YStr (lit ''rule'') \<in> set xs then Inl (Refused (LoadRefused RuleRetired)) else Inl AttributeError)
      | YStr s \<Rightarrow> (if sublist (lit ''rule'') s then Inl (Refused (LoadRefused RuleRetired)) else Inl AttributeError)
      | _ \<Rightarrow> Inl TypeError)"

definition load_interface :: "(pystr \<times> yv) list \<Rightarrow> loaded_clocking \<Rightarrow> interface cfg" where
  "load_interface doc clocking =
     rbind (req (YMap doc) ''audio_interface'') (\<lambda>sec.
     rbind (req sec ''kind'') (\<lambda>kv.
     rbind (ensure (hashable kv) TypeError) (\<lambda>_.
     rbind (one_of (map fst INTERFACES) kv (LoadRefused UnknownInterface)) (\<lambda>kind.
     let info = the (map_of INTERFACES kind) in
     rbind (mapping_of sec) (\<lambda>aif.
     rbind (to_int (get aif ''word_length_bits'' (YInt 24))) (\<lambda>wl.
     rbind (ensure (wl \<in> set (ii_word_bits info)) (Refused (LoadRefused (WordLength wl)))) (\<lambda>_.
     rbind (cluster_mapping aif) (\<lambda>cm.
     rbind (one_of CLUSTER_POLICIES (get cm ''policy'' (YStr (lit ''cluster-per-stream-channel''))) UnknownPolicy) (\<lambda>pol.
     rbind (load_cluster_pools aif cm (ii_channels info) pol) (\<lambda>(ph, pl, lane).
     rbind (load_channel_names aif ph) (\<lambda>names.
     rbind (serial_clock info (ck_sampling_rate_hz clocking) (lc_audio_pll_hz clocking)) (\<lambda>serial.
       Inr \<lparr>if_kind = kind, if_channels = ii_channels info, if_word_length_bits = wl, if_policy = pol, if_rtl = ii_rtl info,
            if_phys = ph, if_pools = pl, if_channel_names = names, if_loopback_lane = lane, if_serial = serial\<rparr>))))))))))))"

section \<open>The streams\<close>

definition validate_output_clock_sources :: "yv \<Rightarrow> loaded_clocking \<Rightarrow> unit cfg" where
  "validate_output_clock_sources talkers clocking =
     ensure (\<not> ((truthy talkers \<or> ck_crf_output clocking) \<and> ''internal'' \<notin> set (ck_media_clock_sources clocking))) (Refused (LoadRefused NeedsInternal))"

definition load_streams :: "(pystr \<times> yv) list \<Rightarrow> loaded_clocking \<Rightarrow> (stream_cfg list \<times> stream_cfg list) cfg" where
  "load_streams doc clocking =
     rbind (req (YMap doc) ''streams'') (\<lambda>sec.
     rbind (mapping_of sec) (\<lambda>st.
     rbind (validate_output_clock_sources (get st ''talkers'' (YList [])) clocking) (\<lambda>_.
     rbind (req sec ''listeners'') (\<lambda>ls.
     rbind (streams ls Listener (ck_sampling_rate_hz clocking)) (\<lambda>listeners.
     rbind (req sec ''talkers'') (\<lambda>ts.
     rbind (streams ts Talker (ck_sampling_rate_hz clocking)) (\<lambda>talkers.
     rbind (ensure (card (sc_map_mode ` set talkers) \<le> 1) (Refused (LoadRefused MixedMapModes))) (\<lambda>_.
     rbind (ensure (\<not> (length listeners \<ge> 2 \<and> \<not> ck_crf_output clocking)) (Refused (LoadRefused NeedsCrfOutput))) (\<lambda>_.
       Inr (listeners, talkers))))))))))"

section \<open>The model identity\<close>

definition MODEL_ID_OUI :: int where "MODEL_ID_OUI = 0x001BC5"

definition MODEL_ID_HASH_BITS :: nat where "MODEL_ID_HASH_BITS = 40"

text \<open>\<open>top8\<close> is the first eight octets of the SHA-256 of the model shape, as a number.\<close>

definition derive_model_id :: "int \<Rightarrow> int \<Rightarrow> int" where
  "derive_model_id top8 oui = push_bit MODEL_ID_HASH_BITS oui OR (top8 AND (push_bit MODEL_ID_HASH_BITS 1 - 1))"

definition vendor_oui :: "(pystr \<times> yv) list \<Rightarrow> int cfg" where
  "vendor_oui ent = (case map_of ent (lit ''vendor_oui'') of
     None \<Rightarrow> Inr MODEL_ID_OUI
   | Some v \<Rightarrow> rbind (hex_text v 24) (\<lambda>oui. if oui AND 0x010000 \<noteq> 0 then Inl (Refused (LoadRefused GroupOui)) else Inr oui))"

definition declared_id :: "yv \<Rightarrow> int option cfg" where
  "declared_id raw = (if raw = YStr (lit ''hash-derived'') then Inr None else rbind (model_id raw) (\<lambda>n. Inr (Some n)))"

text \<open>A pin wins over the hash, and the hash stands where no literal does.\<close>

definition chosen_id :: "(pystr \<times> yv) list \<Rightarrow> int \<Rightarrow> int option \<Rightarrow> (int \<times> string) cfg" where
  "chosen_id ent hashed literal = (case map_of ent (lit ''model_id_pin'') of
     Some pin \<Rightarrow> rbind (model_id pin) (\<lambda>n. Inr (n, ''pin''))
   | None \<Rightarrow> (case literal of
       None \<Rightarrow> rbind (model_id (YStr (hex_fmt 16 hashed))) (\<lambda>n. Inr (n, ''hash''))
     | Some n \<Rightarrow> Inr (n, ''literal'')))"

definition resolve_model_id :: "(pystr \<times> yv) list \<Rightarrow> int \<Rightarrow> (int \<times> string) cfg" where
  "resolve_model_id ent top8 =
     rbind (vendor_oui ent) (\<lambda>oui.
     rbind (req (YMap ent) ''entity_model_id'') (\<lambda>raw.
     rbind (declared_id raw) (\<lambda>literal.
     rbind (chosen_id ent (derive_model_id top8 oui) literal) (\<lambda>(mid, src).
     rbind (ensure (\<not> (src \<noteq> ''hash'' \<and> map_of ent (lit ''vendor_oui'') \<noteq> None \<and> drop_bit MODEL_ID_HASH_BITS mid \<noteq> oui))
              (Refused (LoadRefused OuiContradicts))) (\<lambda>_. Inr (mid, src))))))"

section \<open>The composition\<close>

definition pool_widths :: "(pystr \<times> yv) list \<Rightarrow> (bool \<times> int) cfg" where
  "pool_widths pl = rbind (to_int (get pl ''loopback'' (YInt 0))) (\<lambda>n. Inr (truthy (get pl ''pilot'' YNull), n))"

definition cluster_rules :: "interface \<Rightarrow> bool \<times> int \<Rightarrow> ClusterRules" where
  "cluster_rules i pw = \<lparr>policy = if_policy i, iface_channels = if_channels i, phys = Some (snd (if_phys i), fst (if_phys i)),
     pools = pw, lb_backed = if_loopback_lane i\<rparr>"

definition load_model_sections ::
    "gptp_pins cfg \<Rightarrow> int cfg \<Rightarrow> overlay_entity \<Rightarrow> pystr list \<Rightarrow> (pystr \<times> yv) list \<Rightarrow> (end_cfg \<times> loaded_clocking \<times> interface) cfg" where
  "load_model_sections pins port entity waivers doc =
     rbind (load_clocking (YMap doc)) (\<lambda>clocking.
     rbind (load_gptp pins port doc) (\<lambda>gptp.
     rbind (load_names doc (ck_media_clock_sources clocking)) (\<lambda>(objects, clock_names).
     rbind (load_interface doc clocking) (\<lambda>i.
     rbind (load_streams doc clocking) (\<lambda>(listeners, talkers).
     rbind (pool_widths (if_pools i)) (\<lambda>pw.
     rbind (cluster_layout listeners talkers (cluster_rules i pw)) (\<lambda>(ports_in, ports_out).
       Inr (\<lparr>ec_entity = entity, ec_listeners = listeners, ec_talkers = talkers, ec_clocking = clocking.truncate clocking,
             ec_kind = if_kind i, ec_policy = if_policy i, ec_channel_names = if_channel_names i,
             ec_loopback_lane = if_loopback_lane i, ec_ports_in = ports_in, ec_ports_out = ports_out,
             ec_object_names = objects, ec_clock_names = clock_names, ec_gptp = map_option lg_set gptp,
             ec_model_lint_waivers = waivers\<rparr>, clocking, i))))))))"

section \<open>What loading guarantees\<close>

lemma source_word_order: "source_word v = Some w \<Longrightarrow> w \<in> set CLOCK_SOURCE_CLASS_ORDER \<and> v = YStr (lit w)"
  unfolding source_word_def by (auto simp: find_Some_iff)

lemma media_sources_ok:
  assumes "media_sources clk = Inr (srcs, dflt)"
  shows "distinct srcs \<and> set srcs \<subseteq> set CLOCK_SOURCE_CLASS_ORDER \<and> dflt \<in> set srcs"
proof -
  obtain xs d where x: "list_all (\<lambda>v. source_word v \<noteq> None) xs" "distinct xs" "d \<in> set xs"
    "srcs = map (the \<circ> source_word) xs" "dflt = the (source_word d)"
    using assms by (auto simp: media_sources_def Let_def)
  have w: "the (source_word v) \<in> set CLOCK_SOURCE_CLASS_ORDER \<and> v = YStr (lit (the (source_word v)))" if "v \<in> set xs" for v
    using x(1) that source_word_order[of v] by (auto simp: list_all_iff)
  have "inj_on (the \<circ> source_word) (set xs)"
  proof (rule inj_onI)
    fix u v assume "u \<in> set xs" "v \<in> set xs" "(the \<circ> source_word) u = (the \<circ> source_word) v"
    then have "u = YStr (lit (the (source_word v)))" "v = YStr (lit (the (source_word v)))" using w[of u] w[of v] by simp_all
    then show "u = v" by simp
  qed
  then show ?thesis using x(2-5) w by (auto simp: distinct_map)
qed

lemma crf_format_word: "crf_format v = Inr f \<Longrightarrow> f = CRF_FORMAT_DEFAULT"
  by (auto simp: crf_format_def validate_stream_formats_def)

definition clocking_ok :: "loaded_clocking \<Rightarrow> bool" where
  "clocking_ok c \<longleftrightarrow> ck_sampling_rate_hz c \<in> set (map fst BASE_RATE_HZ) \<and> ck_sampling_rate_hz c \<in> set (ck_audio_unit_rates_hz c)
     \<and> distinct (ck_audio_unit_rates_hz c) \<and> length (ck_audio_unit_rates_hz c) \<le> MAX_AUDIO_UNIT_RATES
     \<and> distinct (ck_media_clock_sources c) \<and> set (ck_media_clock_sources c) \<subseteq> set CLOCK_SOURCE_CLASS_ORDER
     \<and> lc_default_source c \<in> set (ck_media_clock_sources c) \<and> (ck_crf_sink c \<longleftrightarrow> ''crf'' \<in> set (ck_media_clock_sources c))
     \<and> ck_crf_format c = CRF_FORMAT_DEFAULT \<and> ck_crf_output_format c = CRF_FORMAT_DEFAULT"

lemma load_clocking_ok:
  assumes "load_clocking doc = Inr c"
  shows "clocking_ok c"
proof -
  obtain clk rate where c: "rate \<in> set (map fst BASE_RATE_HZ)" "read_clocking clk rate = Inr c" "check_clocking c = Inr ()"
    using assms by (auto simp: load_clocking_def)
  obtain srcs dflt where s: "media_sources clk = Inr (srcs, dflt)" "ck_sampling_rate_hz c = rate" "ck_media_clock_sources c = srcs"
    "lc_default_source c = dflt" "ck_crf_format c = CRF_FORMAT_DEFAULT" "ck_crf_output_format c = CRF_FORMAT_DEFAULT"
    using c(2) by (auto simp: read_clocking_def dest!: crf_format_word)
  show ?thesis
    using c(1,3) s(2-6) media_sources_ok[OF s(1)] by (auto simp: clocking_ok_def check_clocking_def Let_def)
qed

lemma one_of_mem: "one_of ks v e = Inr k \<Longrightarrow> k \<in> set ks"
  unfolding one_of_def by (auto simp: find_Some_iff split: option.splits)

lemma interface_channels: "k \<in> set (map fst INTERFACES) \<Longrightarrow> 1 \<le> ii_channels (the (map_of INTERFACES k))"
  by (auto simp: INTERFACES_def)

lemma physical_channels_ok: "physical_channels aif n = Inr (c, r) \<Longrightarrow> 0 \<le> c \<and> c \<le> n \<and> 0 \<le> r \<and> r \<le> n"
  by (auto simp: physical_channels_def)

lemma channel_names_ok:
  "load_channel_names aif ph = Inr (Some ns) \<Longrightarrow> (\<forall>n \<in> set ns. 0 < length n \<and> length n \<le> 48) \<and> max (fst ph) (snd ph) \<le> int (length ns)"
proof -
  have "channel_text v \<noteq> None \<Longrightarrow> 0 < length (the (channel_text v)) \<and> length (the (channel_text v)) \<le> 48" for v
    by (cases v) (auto split: if_splits)
  then have "list_all (\<lambda>v. channel_text v \<noteq> None) vs \<Longrightarrow> \<forall>n \<in> set (map (the \<circ> channel_text) vs). 0 < length n \<and> length n \<le> 48" for vs
    by (fastforce simp: list_all_iff simp del: length_greater_0_conv)
  then show "load_channel_names aif ph = Inr (Some ns) \<Longrightarrow> ?thesis"
    by (auto simp: load_channel_names_def simp del: set_map split: yv.splits)
qed

definition interface_ok :: "interface \<Rightarrow> bool" where
  "interface_ok i \<longleftrightarrow> 1 \<le> if_channels i \<and> if_policy i \<in> set CLUSTER_POLICIES
     \<and> list_all (\<lambda>w. 0 \<le> w \<and> w \<le> if_channels i) [fst (if_phys i), snd (if_phys i)]
     \<and> (case if_channel_names i of None \<Rightarrow> True
        | Some ns \<Rightarrow> list_all (\<lambda>n. 0 < length n \<and> length n \<le> 48) ns \<and> max (fst (if_phys i)) (snd (if_phys i)) \<le> int (length ns))"

lemma load_interface_ok:
  assumes "load_interface doc clk = Inr i"
  shows "interface_ok i"
proof -
  obtain kind aif cm pol ph pl lane names where p: "kind \<in> set (map fst INTERFACES)"
    "if_channels i = ii_channels (the (map_of INTERFACES kind))" "if_policy i = pol" "if_phys i = ph" "if_channel_names i = names"
    "pol \<in> set CLUSTER_POLICIES" "load_cluster_pools aif cm (if_channels i) pol = Inr (ph, pl, lane)"
    "load_channel_names aif ph = Inr names"
    using assms by (auto simp: load_interface_def Let_def dest!: one_of_mem simp del: set_map)
  have "physical_channels aif (if_channels i) = Inr ph" using p(7) by (auto simp: load_cluster_pools_def Let_def)
  then show ?thesis
    using physical_channels_ok[of aif "if_channels i" "fst ph" "snd ph"] interface_channels[OF p(1)] p(2-6,8) channel_names_ok[of aif ph]
    by (auto simp: interface_ok_def list_all_iff split: option.splits)
qed

lemma load_streams_ok:
  assumes "load_streams doc clk = Inr (ls, ts)"
  shows "list_all (stream_ok Listener) ls \<and> list_all (stream_ok Talker) ts \<and> ls \<noteq> [] \<and> ts \<noteq> [] \<and> length ls \<le> 16 \<and> length ts \<le> 16
    \<and> ''internal'' \<in> set (ck_media_clock_sources clk) \<and> card (sc_map_mode ` set ts) \<le> 1 \<and> (length ls \<ge> 2 \<longrightarrow> ck_crf_output clk)"
proof -
  obtain st lv tv where p: "map_of st (lit ''talkers'') = Some tv" "validate_output_clock_sources (get st ''talkers'' (YList [])) clk = Inr ()"
    "streams lv Listener (ck_sampling_rate_hz clk) = Inr ls" "streams tv Talker (ck_sampling_rate_hz clk) = Inr ts"
    "card (sc_map_mode ` set ts) \<le> 1" "length ls \<ge> 2 \<longrightarrow> ck_crf_output clk"
    using assms by (auto simp: load_streams_def elim!: mapping_of.elims split: option.splits)
  have "truthy tv" using p(4) by (auto simp: streams_def split: yv.splits if_splits)
  then have "''internal'' \<in> set (ck_media_clock_sources clk)" using p(1,2) by (auto simp: validate_output_clock_sources_def get_def)
  then show ?thesis using streams_ok[OF p(3)] streams_ok[OF p(4)] p(5,6) by blast
qed

lemma load_model_sections_parts:
  assumes "load_model_sections pins port entity waivers doc = Inr (cfg, clk, i)"
  obtains rules where "load_clocking (YMap doc) = Inr clk" "load_interface doc clk = Inr i"
    "load_streams doc clk = Inr (ec_listeners cfg, ec_talkers cfg)"
    "ec_clocking cfg = clocking.truncate clk" "ec_policy cfg = if_policy i" "ec_entity cfg = entity"
    "load_names doc (ck_media_clock_sources clk) = Inr (ec_object_names cfg, ec_clock_names cfg)"
    "policy rules = if_policy i" "iface_channels rules = if_channels i"
    "cluster_layout (ec_listeners cfg) (ec_talkers cfg) rules = Inr (ec_ports_in cfg, ec_ports_out cfg)"
proof -
  have "policy (cluster_rules i pw) = if_policy i" "iface_channels (cluster_rules i pw) = if_channels i" for pw
    by (simp_all add: cluster_rules_def)
  moreover obtain pw where "cluster_layout (ec_listeners cfg) (ec_talkers cfg) (cluster_rules i pw) = Inr (ec_ports_in cfg, ec_ports_out cfg)"
    using assms unfolding load_model_sections_def by auto
  ultimately show thesis using assms that[of "cluster_rules i pw"] unfolding load_model_sections_def by auto
qed

lemma loaded_built:
  assumes "load_model_sections pins port entity waivers doc = Inr (cfg, clk, i)"
  shows "cfg_built cfg"
proof (rule load_model_sections_parts[OF assms])
  fix rules
  assume p: "load_interface doc clk = Inr i" "load_streams doc clk = Inr (ec_listeners cfg, ec_talkers cfg)" "ec_policy cfg = if_policy i"
    "policy rules = if_policy i" "iface_channels rules = if_channels i"
    "cluster_layout (ec_listeners cfg) (ec_talkers cfg) rules = Inr (ec_ports_in cfg, ec_ports_out cfg)"
  moreover have "1 \<le> if_channels i" using load_interface_ok[OF p(1)] by (simp add: interface_ok_def)
  ultimately show ?thesis using load_streams_ok[OF p(2)] unfolding cfg_built_def by metis
qed

lemma crf_default_hex: "CRF_FORMAT_DEFAULT = hex_fmt 16 0x041060010000BB80"
proof -
  have "hex_nat 0x041060010000BB80 = map ((!) HEXDIGITS) [4, 1, 0, 6, 0, 0, 1, 0, 0, 0, 0, 11, 11, 8, 0]" by (simp add: hex_nat.simps)
  also have "\<dots> = [52, 49, 48, 54, 48, 48, 49, 48, 48, 48, 48, 66, 66, 56, 48]" by (simp add: HEXDIGITS_def lit_def)
  finally show ?thesis by (simp add: CRF_FORMAT_DEFAULT_def hex_fmt_def lit_def)
qed

lemma crf_default_word: "\<exists>n. fmt_word CRF_FORMAT_DEFAULT = Inr n"
  by (simp add: crf_default_hex)

lemma declared_names_keys: "declared_names m ok ks = Inr ns \<Longrightarrow> list_all (\<lambda>(k, _). k \<in> set ks) ns"
  by (auto simp: declared_names_def list_all_iff dest!: mapE_mem)

lemma load_names_keys: "load_names doc srcs = Inr (objects, sources) \<Longrightarrow> list_all (\<lambda>(k, _). k \<in> set (map fst OBJECT_NAMES)) objects"
proof -
  assume l: "load_names doc srcs = Inr (objects, sources)"
  have "objects = [] \<or> (\<exists>raw. declared_names raw (\<lambda>_. Inr ()) (map fst OBJECT_NAMES) = Inr objects)"
    using l by (cases "get doc ''names'' YNull") (auto simp only: load_names_def yv.case rbind_Inr_iff prod.inject sum.inject sum.distinct)
  then show ?thesis
  proof
    assume "\<exists>raw. declared_names raw (\<lambda>_. Inr ()) (map fst OBJECT_NAMES) = Inr objects"
    then show ?thesis using declared_names_keys by blast
  qed simp
qed

lemma input_row_kind: "input_row s = Inr r \<Longrightarrow> os_kind r = Some ''aaf''"
  by (auto simp: input_row_def)

lemma mapE_arg: "mapE f xs = Inr ys \<Longrightarrow> x \<in> set xs \<Longrightarrow> \<exists>y. f x = Inr y"
  by (metis in_set_conv_nth mapE_nth)

lemma truncated_clocking [simp]:
  "ck_sampling_rate_hz (clocking.truncate c) = ck_sampling_rate_hz c" "ck_audio_unit_rates_hz (clocking.truncate c) = ck_audio_unit_rates_hz c"
  "ck_media_clock_sources (clocking.truncate c) = ck_media_clock_sources c" "ck_crf_sink (clocking.truncate c) = ck_crf_sink c"
  "ck_crf_format (clocking.truncate c) = ck_crf_format c" "ck_crf_output (clocking.truncate c) = ck_crf_output c"
  "ck_crf_output_format (clocking.truncate c) = ck_crf_output_format c"
  by (simp_all add: clocking.truncate_def)

text \<open>
  The sections of a document that loads agree with one another: the streams and ports are laid out; the clock
  rate is a base rate the unit lists; the offered sources are distinct and known, with the default among them and INTERNAL
  offered to the outputs; CRF is offered just when there is a CRF sink; all talkers map the same way; two listeners come
  with a CRF output; and the physical channels fit the interface and have names.
\<close>

lemma loaded_sections_consistent:
  assumes "load_model_sections pins port entity waivers doc = Inr (cfg, clk, i)"
  shows "cfg_built cfg \<and> clocking_ok clk \<and> interface_ok i \<and> ec_listeners cfg \<noteq> [] \<and> ec_talkers cfg \<noteq> []
     \<and> ''internal'' \<in> set (ck_media_clock_sources clk) \<and> card (sc_map_mode ` set (ec_talkers cfg)) \<le> 1
     \<and> (length (ec_listeners cfg) \<ge> 2 \<longrightarrow> ck_crf_output clk)"
proof (rule load_model_sections_parts[OF assms])
  assume p: "load_clocking (YMap doc) = Inr clk" "load_interface doc clk = Inr i" "load_streams doc clk = Inr (ec_listeners cfg, ec_talkers cfg)"
  show ?thesis using loaded_built[OF assms] load_clocking_ok[OF p(1)] load_interface_ok[OF p(2)] load_streams_ok[OF p(3)] by blast
qed

text \<open>
  Property C37. Every clock source of the emitted document that is located on a STREAM_INPUT names a stream input the document has,
  of its own kind: the CRF source the CRF sink, and each input stream source an AAF listener, one for every listener.
\<close>

theorem clock_sources_follow_streams:
  assumes "load_model_sections pins port entity waivers doc = Inr (cfg, clk, i)" "overlay_streams cfg = Inr (ins, outs)"
    "c \<in> set (overlay_clock_sources cfg)" "oc_location_type c = ''STREAM_INPUT''"
  shows "\<exists>k < length ins. oc_location_index c = int k \<and> os_kind (ins ! k) = Some (if oc_type c = ''crf'' then ''crf'' else ''aaf'')
     \<and> (oc_type c \<noteq> ''crf'' \<longrightarrow> k < length (ec_listeners cfg))"
proof (rule load_model_sections_parts[OF assms(1)])
  assume p: "load_clocking (YMap doc) = Inr clk" "ec_clocking cfg = clocking.truncate clk"
  let ?n = "length (ec_listeners cfg)"
  obtain rows where rows: "mapE input_row (ec_listeners cfg) = Inr rows"
    "ins = rows @ (if ck_crf_sink clk then [\<lparr>os_name = lit ''CRF'', os_kind = Some ''crf'', os_formats = [ck_crf_format clk],
       os_buffer_length_ns = Some BUFLEN_DEFAULT_NS\<rparr>] else [])"
    using assms(2) p(2) by (auto simp: overlay_streams_def Let_def)
  have len: "length rows = ?n" using mapE_length[OF rows(1)] .
  have aaf: "os_kind (rows ! k) = Some ''aaf''" if "k < ?n" for k
    using input_row_kind[OF mapE_nth[OF rows(1) that]] .
  have sink: "''crf'' \<in> set (ck_media_clock_sources clk) \<Longrightarrow> ck_crf_sink clk" using load_clocking_ok[OF p(1)] by (simp add: clocking_ok_def)
  consider "oc_type c = ''crf''" "oc_location_index c = int ?n" "ck_crf_sink clk"
    | k where "oc_type c = ''input_stream''" "oc_location_index c = int k" "k < ?n"
    using assms(3,4) sink by (auto simp: overlay_clock_sources_def p(2) Let_def split: if_splits)
  then show ?thesis
  proof cases
    case 1
    then show ?thesis by (intro exI[of _ ?n]) (simp add: rows(2) nth_append len)
  next
    case (2 k)
    then show ?thesis by (intro exI[of _ k]) (simp add: rows(2) nth_append len aaf)
  qed
qed

lemma emitted_rows:
  assumes "emit_aem_overlay cfg = Inr ovl"
  obtains ins outs where "overlay_streams cfg = Inr (ins, outs)" "ov_stream_inputs ovl = ins"
    "ov_sampling_rates_hz ovl = ck_audio_unit_rates_hz (ec_clocking cfg)"
  using assms by (auto simp: emit_aem_overlay_def)

lemma overlay_streams_texts: "overlay_streams cfg = Inr (ins, outs) \<Longrightarrow> s \<in> set (ec_listeners cfg @ ec_talkers cfg) \<Longrightarrow> \<exists>n. sc_name s = YStr n"
proof -
  have "text_of v = Inr n \<Longrightarrow> v = YStr n" for v n by (cases v) auto
  moreover assume "overlay_streams cfg = Inr (ins, outs)" "s \<in> set (ec_listeners cfg @ ec_talkers cfg)"
  then have "(\<exists>r. input_row s = Inr r) \<or> (\<exists>r. output_row s = Inr r)"
    by (auto simp: overlay_streams_def Let_def dest: mapE_arg)
  ultimately show ?thesis by (auto simp: input_row_def output_row_def)
qed

lemma accepted_has_sink:
  assumes "emit_aem_overlay cfg = Inr ovl" "spec_from_overlay ovl = Inr spec"
  shows "ck_crf_sink (ec_clocking cfg) \<and> list_all (\<lambda>hz. hz \<in> {48000, 96000, 192000}) (ck_audio_unit_rates_hz (ec_clocking cfg))"
proof -
  obtain ins outs where e: "overlay_streams cfg = Inr (ins, outs)" "ov_stream_inputs ovl = ins"
    "ov_sampling_rates_hz ovl = ck_audio_unit_rates_hz (ec_clocking cfg)" by (rule emitted_rows[OF assms(1)])
  have s: "any_crf ins = Inr True" "list_all (\<lambda>hz. hz \<in> {48000, 96000, 192000}) (ov_sampling_rates_hz ovl)"
    using assms(2) by (auto simp: spec_from_overlay_def e(2) Let_def split: option.splits)
  have "any_crf ins = Inr False" if "\<not> ck_crf_sink (ec_clocking cfg)"
  proof -
    have rows: "mapE input_row (ec_listeners cfg) = Inr ins" using e(1) that by (auto simp: overlay_streams_def Let_def)
    have "os_kind r = Some ''aaf''" if "r \<in> set ins" for r using mapE_mem[OF rows that] input_row_kind by blast
    then show ?thesis by (induction ins) auto
  qed
  then show ?thesis using s e(3) by fastforce
qed

text \<open>
  Property C36. What the generator accepts, of the documents that load: with a firmware version and texts UTF-8 can carry, the
  document is emitted, read and completely described just when it has a CRF sink, the unit's rates are base rates and the
  stream names are text. The loader refuses none of the three itself.
\<close>

theorem document_accepted_iff:
  assumes "load_model_sections pins port entity waivers doc = Inr (cfg, clk, i)" "oe_firmware_version entity \<noteq> None" "cfg_text cfg"
  shows "(\<exists>ovl spec ds. emit_aem_overlay cfg = Inr ovl \<and> spec_from_overlay ovl = Inr spec \<and> model_descriptors spec = Inr ds)
     \<longleftrightarrow> ck_crf_sink clk \<and> list_all (\<lambda>hz. hz \<in> {48000, 96000, 192000}) (ck_audio_unit_rates_hz clk)
       \<and> (\<forall>s \<in> set (ec_listeners cfg @ ec_talkers cfg). \<exists>n. sc_name s = YStr n)"
    (is "?accepted \<longleftrightarrow> ?declared")
proof (rule load_model_sections_parts[OF assms(1)])
  assume p: "load_clocking (YMap doc) = Inr clk" "ec_clocking cfg = clocking.truncate clk" "ec_entity cfg = entity"
    "load_names doc (ck_media_clock_sources clk) = Inr (ec_object_names cfg, ec_clock_names cfg)"
  have d: "cfg_declared cfg" if ?declared
    using that assms(2) p(2,3) load_names_keys[OF p(4)] load_clocking_ok[OF p(1)] crf_default_word
    by (auto simp: cfg_declared_def clocking_ok_def)
  show ?thesis
  proof
    assume ?accepted
    then obtain ovl spec where e: "emit_aem_overlay cfg = Inr ovl" "spec_from_overlay ovl = Inr spec" by blast
    obtain ins outs where o: "overlay_streams cfg = Inr (ins, outs)" by (rule emitted_rows[OF e(1)])
    show ?declared using accepted_has_sink[OF e] overlay_streams_texts[OF o] by (simp add: p(2))
  next
    assume ?declared
    note b = loaded_built[OF assms(1)] and d = d[OF this]
    obtain ovl where e: "emit_aem_overlay cfg = Inr ovl" using emit_total[OF b d] by blast
    obtain spec where s: "spec_from_overlay ovl = Inr spec" using spec_total[OF b d e] by blast
    obtain ds where "model_descriptors spec = Inr ds" using model_descriptors_total[OF emitted_encodable[OF b d assms(3) e s]] by blast
    then show ?accepted using e s by blast
  qed
qed

section \<open>The model identity that results\<close>

lemma derived_id_prefix:
  assumes "0 \<le> oui" "oui < 2 ^ 24"
  shows "drop_bit MODEL_ID_HASH_BITS (derive_model_id top8 oui) = oui \<and> 0 \<le> derive_model_id top8 oui \<and> derive_model_id top8 oui < 16 ^ 16"
proof -
  define low where "low = top8 AND (2 ^ 40 - 1)"
  have l: "0 \<le> low" "low < 2 ^ 40" by (simp_all add: low_def flip: mask_eq_exp_minus_1 take_bit_eq_mask)
  have "derive_model_id top8 oui = oui * 2 ^ 40 + low"
    using or_shifted[OF l, of oui] by (simp add: derive_model_id_def MODEL_ID_HASH_BITS_def low_def or.commute)
  then show ?thesis using l assms by (simp add: MODEL_ID_HASH_BITS_def drop_bit_eq_div)
qed

lemma vendor_oui_ok: "vendor_oui ent = Inr oui \<Longrightarrow> 0 \<le> oui \<and> oui < 2 ^ 24"
  using hex_text_bounds[of _ 24] by (fastforce simp: vendor_oui_def MODEL_ID_OUI_def split: option.splits if_splits)

lemma model_id_bounds: "model_id v = Inr n \<Longrightarrow> 0 < n \<and> n < EUI64_MAX"
proof -
  assume m: "model_id v = Inr n"
  then have e: "hex_text v 64 = Inr n" "n \<noteq> 0" "n \<noteq> EUI64_MAX" by (auto simp: model_id_def eui64_def split: if_splits)
  then show ?thesis using hex_text_bounds[OF e(1)] by (simp add: EUI64_MAX_def push_bit_eq_mult)
qed

lemma model_id_hex: "0 \<le> n \<Longrightarrow> n < 16 ^ 16 \<Longrightarrow> model_id (YStr (hex_fmt 16 n)) = Inr m \<Longrightarrow> m = n"
  using hex_text_hex_fmt[of n 15] by (simp add: model_id_def eui64_def split: if_splits)

text \<open>
  No identity is reserved, and one that is derived, or stands beside a declared vendor prefix, carries that prefix in its upper 24 bits.
\<close>

lemma resolved_id_prefix:
  assumes "resolve_model_id ent top8 = Inr (mid, src)"
  shows "0 < mid \<and> mid < EUI64_MAX \<and> (src = ''hash'' \<or> map_of ent (lit ''vendor_oui'') \<noteq> None \<longrightarrow> vendor_oui ent = Inr (drop_bit MODEL_ID_HASH_BITS mid))"
proof -
  obtain oui raw literal where o: "vendor_oui ent = Inr oui" "declared_id raw = Inr literal"
    and r: "chosen_id ent (derive_model_id top8 oui) literal = Inr (mid, src)"
    and c: "\<not> (src \<noteq> ''hash'' \<and> map_of ent (lit ''vendor_oui'') \<noteq> None \<and> drop_bit MODEL_ID_HASH_BITS mid \<noteq> oui)"
    using assms by (auto simp: resolve_model_id_def simp del: req.simps)
  note d = derived_id_prefix[of oui top8] vendor_oui_ok[OF o(1)]
  have "0 < mid \<and> mid < EUI64_MAX" using r o(2) by (auto simp: chosen_id_def declared_id_def split: option.splits if_splits dest: model_id_bounds)
  moreover have "mid = derive_model_id top8 oui" if "src = ''hash''"
    using r that d by (auto simp: chosen_id_def split: option.splits dest: model_id_hex)
  ultimately show ?thesis using c d o(1) by auto
qed

section \<open>A document\<close>

definition sample_doc :: "(pystr \<times> yv) list" where
  "sample_doc =
     [(lit ''clocking'', YMap [(lit ''sampling_rate_hz'', YInt 48000)]),
      (lit ''audio_interface'', YMap [(lit ''kind'', YStr (lit ''tdm8''))]),
      (lit ''streams'', YMap
        [(lit ''listeners'', YList [YMap [(lit ''channels'', YInt 2), (lit ''formats'', YList [YStr (hex_fmt 16 0x0204022000806000)])]]),
         (lit ''talkers'', YList [YMap [(lit ''channels'', YInt 2)]])])]"

definition sample_clocking :: loaded_clocking where
  "sample_clocking = \<lparr>ck_sampling_rate_hz = 48000, ck_audio_unit_rates_hz = [48000], ck_media_clock_sources = [''internal'', ''crf''],
     ck_crf_sink = True, ck_crf_format = CRF_FORMAT_DEFAULT, ck_crf_output = False, ck_crf_output_format = CRF_FORMAT_DEFAULT,
     lc_default_source = ''internal'', lc_crf_output_offset_ns = 2000000, lc_audio_pll_hz = 24576000\<rparr>"

declare lit_inject [simp]

lemma crf_format_default: "crf_format (YStr CRF_FORMAT_DEFAULT) = Inr CRF_FORMAT_DEFAULT"
  using hex_text_hex_fmt[of "0x041060010000BB80" 15]
  by (simp add: crf_format_def fmt64_def eui64_def crf_default_hex validate_stream_formats_def MAX_STREAM_FORMATS_def
      AEM_DESCRIPTOR_MAX_BYTES_def STREAM_FORMATS_OFFSET_def STREAM_FORMAT_BYTES_def)

lemma sample_load_clocking: "load_clocking (YMap sample_doc) = Inr sample_clocking"
  by (simp add: load_clocking_def sample_doc_def read_clocking_def get_def media_sources_def source_word_def CLOCK_SOURCE_CLASS_ORDER_def
      crf_output_section_def crf_format_default factory_offset_def check_clocking_def AUDIO_CLK_HZ_def MAX_AUDIO_UNIT_RATES_def
      BASE_RATE_HZ_def PRESENTATION_TIME_OFFSET_NS_def sample_clocking_def Let_def)

lemma sample_load_interface: "load_interface sample_doc sample_clocking = Inr
   \<lparr>if_kind = ''tdm8'', if_channels = 8, if_word_length_bits = 24, if_policy = ''cluster-per-stream-channel'', if_rtl = ''present'',
    if_phys = (8, 8), if_pools = [], if_channel_names = None, if_loopback_lane = False, if_serial = None\<rparr>"
  by (simp add: load_interface_def sample_doc_def get_def one_of_def INTERFACES_def CLUSTER_POLICIES_def cluster_mapping_def
      load_cluster_pools_def physical_channels_def section_or_empty_def load_channel_names_def serial_clock_def Let_def)

definition sample_row :: "string \<Rightarrow> string \<Rightarrow> int \<Rightarrow> int option \<Rightarrow> stream_cfg" where
  "sample_row name mode word ofs = \<lparr>sc_name = YStr (lit name), sc_channels = 2, sc_formats = [hex_fmt 16 word], sc_clusters = 2,
     sc_map_mode = mode, sc_map_page = None, sc_buffer = YInt BUFLEN_DEFAULT_NS, sc_offset = ofs\<rparr>"

lemma sample_words:
  "fmt64 (YStr (hex_fmt 16 0x0204022000806000)) = Inr (hex_fmt 16 0x0204022000806000)"
  "fmt64 (YStr (hex_fmt 16 0x0205022000806000)) = Inr (hex_fmt 16 0x0205022000806000)"
  "validate_stream_formats [hex_fmt 16 0x0204022000806000] AAF = Inr ()"
  "validate_stream_formats [hex_fmt 16 0x0205022000806000] AAF = Inr ()"
proof -
  have "aaf_pcm32 0 48000 False = Inr 0x0205022000006000" by (simp add: aaf_pcm32_def BASE_RATE_HZ_def aaf_word_def)
  then show "validate_stream_formats [hex_fmt 16 0x0204022000806000] AAF = Inr ()" "validate_stream_formats [hex_fmt 16 0x0205022000806000] AAF = Inr ()"
    by (simp_all add: validate_stream_formats_def drop_bit_eq_div MAX_STREAM_FORMATS_def AEM_DESCRIPTOR_MAX_BYTES_def
        STREAM_FORMATS_OFFSET_def STREAM_FORMAT_BYTES_def)
qed (use hex_text_hex_fmt[of "0x0204022000806000" 15] hex_text_hex_fmt[of "0x0205022000806000" 15] in \<open>simp_all add: fmt64_def eui64_def\<close>)

lemma sample_talker_format: "aaf_pcm32 2 48000 False = Inr 0x0205022000806000"
  by (simp add: aaf_pcm32_def BASE_RATE_HZ_def aaf_word_def)

lemma sample_load_streams: "load_streams sample_doc sample_clocking =
   Inr ([sample_row ''Stream In 0'' ''dynamic'' 0x0204022000806000 None], [sample_row ''Stream Out 0'' ''static'' 0x0205022000806000 (Some 2000000)])"
proof -
  let ?g = "hex_fmt 16 0x0204022000806000" and ?f = "hex_fmt 16 0x0205022000806000"
  let ?l = "[(lit ''channels'', YInt 2), (lit ''formats'', YList [YStr ?g])]" and ?t = "[(lit ''channels'', YInt 2)]"
  have "base_format_complete [?g] = Inr [?g]"
    by (simp add: base_format_complete_def base_format_cover_def cover_step_def sample_format_rates)
  then have l: "stream_formats ?l 2 Listener 48000 = Inr [?g]"
    using sample_words by (simp add: stream_formats_def get_def sample_format_rates)
  have t: "stream_formats ?t 2 Talker 48000 = Inr [?f]"
    using sample_words by (simp add: stream_formats_def get_def sample_talker_format sample_format_rates)
  have n: "lit ''Stream '' @ lit ''In'' @ lit '' '' @ dec_nat 0 = lit ''Stream In 0''"
    "lit ''Stream '' @ lit ''Out'' @ lit '' '' @ dec_nat 0 = lit ''Stream Out 0''"
    by (simp_all add: lit_def dec_nat.simps)
  have "streams (YList [YMap ?l]) Listener 48000 = Inr [sample_row ''Stream In 0'' ''dynamic'' 0x0204022000806000 None]"
    using l n by (simp add: streams_def enum_def stream_row_def get_def within_def map_mode_of_def map_page_of_def stream_buffer_ns_def
      sample_row_def BUFLEN_DEFAULT_NS_def UINT32_MAX_def)
  moreover have "streams (YList [YMap ?t]) Talker 48000 = Inr [sample_row ''Stream Out 0'' ''static'' 0x0205022000806000 (Some 2000000)]"
    using t n by (simp add: streams_def enum_def stream_row_def get_def within_def map_mode_of_def map_page_of_def stream_buffer_ns_def
      factory_offset_def PRESENTATION_TIME_OFFSET_NS_def sample_row_def)
  ultimately show ?thesis
    by (simp add: load_streams_def sample_doc_def get_def validate_output_clock_sources_def sample_clocking_def)
qed

definition sample_entity :: overlay_entity where
  "sample_entity = \<lparr>oe_name = lit ''Node'', oe_firmware_version = Some (lit ''2.67''), oe_group_name = None,
     oe_serial_number = lit ''S'', oe_vendor_name = None, oe_locale = None\<rparr>"

lemma sample_doc_loads: "\<exists>cfg i. load_model_sections (Inl TypeError) (Inl TypeError) sample_entity [] sample_doc = Inr (cfg, sample_clocking, i)
   \<and> ec_gptp cfg = None \<and> ec_channel_names cfg = None"
proof -
  have n: "load_gptp (Inl TypeError) (Inl TypeError) sample_doc = Inr None" "load_names sample_doc srcs = Inr ([], [])" for srcs
    by (simp_all add: load_gptp_def load_names_def get_def sample_doc_def)
  show ?thesis
    by (simp add: load_model_sections_def sample_load_clocking sample_load_interface sample_load_streams n pool_widths_def get_def
        cluster_layout_def cluster_rules_def sample_row_def CLUSTER_POLICIES_def input_ports_def output_ports_def port_pool_def legacy_pool_def
        effective_clusters_def cluster_widths_def settle_map_page_def port_dynamic_def explicit_pages_def List.map_filter_simps Let_def)
qed

lemma sample_loaded:
  obtains cfg i where "load_model_sections (Inl TypeError) (Inl TypeError) sample_entity [] sample_doc = Inr (cfg, sample_clocking, i)"
    "cfg_text cfg" "ec_clocking cfg = clocking.truncate sample_clocking"
    "ec_listeners cfg = [sample_row ''Stream In 0'' ''dynamic'' 0x0204022000806000 None]"
    "ec_talkers cfg = [sample_row ''Stream Out 0'' ''static'' 0x0205022000806000 (Some 2000000)]"
proof -
  obtain cfg i where l: "load_model_sections (Inl TypeError) (Inl TypeError) sample_entity [] sample_doc = Inr (cfg, sample_clocking, i)"
    "ec_gptp cfg = None" "ec_channel_names cfg = None" using sample_doc_loads by blast
  show thesis
  proof (rule load_model_sections_parts[OF l(1)])
    assume p: "load_streams sample_doc sample_clocking = Inr (ec_listeners cfg, ec_talkers cfg)" "ec_entity cfg = sample_entity"
      "ec_clocking cfg = clocking.truncate sample_clocking"
      "load_names sample_doc (ck_media_clock_sources sample_clocking) = Inr (ec_object_names cfg, ec_clock_names cfg)"
    have s: "ec_listeners cfg = [sample_row ''Stream In 0'' ''dynamic'' 0x0204022000806000 None]"
      "ec_talkers cfg = [sample_row ''Stream Out 0'' ''static'' 0x0205022000806000 (Some 2000000)]"
      using p(1) by (simp_all add: sample_load_streams)
    have n: "ec_object_names cfg = []" "ec_clock_names cfg = []" using p(4) by (simp_all add: load_names_def get_def sample_doc_def)
    have "cfg_text cfg"
      by (simp add: cfg_text_def p(2,3) n l(2,3) s sample_entity_def sample_row_def sample_clocking_def get_or_def gptp_ok_def gptp_empty_def)
    then show thesis using that l(1) p(3) s by blast
  qed
qed

theorem clock_sources_follow_streams_witness:
  "\<exists>cfg ins outs c. overlay_streams cfg = Inr (ins, outs) \<and> c \<in> set (overlay_clock_sources cfg) \<and> oc_type c = ''crf''
     \<and> (\<exists>k < length ins. oc_location_index c = int k \<and> os_kind (ins ! k) = Some ''crf'')"
proof (rule sample_loaded)
  fix cfg i assume l: "load_model_sections (Inl TypeError) (Inl TypeError) sample_entity [] sample_doc = Inr (cfg, sample_clocking, i)"
    and p: "ec_clocking cfg = clocking.truncate sample_clocking" "ec_listeners cfg = [sample_row ''Stream In 0'' ''dynamic'' 0x0204022000806000 None]"
      "ec_talkers cfg = [sample_row ''Stream Out 0'' ''static'' 0x0205022000806000 (Some 2000000)]"
  obtain ins outs where o: "overlay_streams cfg = Inr (ins, outs)" by (simp add: overlay_streams_def p sample_row_def input_row_def output_row_def Let_def)
  let ?c = "\<lparr>oc_name = clock_name cfg ''crf'', oc_type = ''crf'', oc_location_type = ''STREAM_INPUT'', oc_location_index = 1\<rparr>"
  have c: "?c \<in> set (overlay_clock_sources cfg)" by (simp add: overlay_clock_sources_def p sample_clocking_def)
  show ?thesis using clock_sources_follow_streams[OF l o c] o c by fastforce
qed

theorem document_accepted_iff_witness:
  "\<exists>cfg ovl spec ds. cfg_text cfg \<and> emit_aem_overlay cfg = Inr ovl \<and> spec_from_overlay ovl = Inr spec \<and> model_descriptors spec = Inr ds"
proof (rule sample_loaded)
  fix cfg i assume l: "load_model_sections (Inl TypeError) (Inl TypeError) sample_entity [] sample_doc = Inr (cfg, sample_clocking, i)"
    and p: "cfg_text cfg" "ec_listeners cfg = [sample_row ''Stream In 0'' ''dynamic'' 0x0204022000806000 None]"
      "ec_talkers cfg = [sample_row ''Stream Out 0'' ''static'' 0x0205022000806000 (Some 2000000)]"
  have "oe_firmware_version sample_entity \<noteq> None" by (simp add: sample_entity_def)
  from document_accepted_iff[OF l this p(1)] show ?thesis using p(1) by (simp add: p(2,3) sample_row_def sample_clocking_def) blast
qed

text \<open>
  A document that offers the internal clock alone and declares no sink loads, and its document is refused.
\<close>

lemma no_sink_refused:
  assumes "load_model_sections pins port entity waivers doc = Inr (cfg, clk, i)" "''crf'' \<notin> set (ck_media_clock_sources clk)"
    "emit_aem_overlay cfg = Inr ovl"
  shows "\<exists>e. spec_from_overlay ovl = Inl e"
proof (rule load_model_sections_parts[OF assms(1)])
  assume "load_clocking (YMap doc) = Inr clk" and p: "ec_clocking cfg = clocking.truncate clk"
  then have "\<not> ck_crf_sink (ec_clocking cfg)" using load_clocking_ok assms(2) by (auto simp: clocking_ok_def)
  then show ?thesis using accepted_has_sink[OF assms(3)] by (cases "spec_from_overlay ovl") auto
qed

lemma internal_clocking_loads: "\<exists>c. load_clocking (YMap [(lit ''clocking'', YMap [(lit ''sampling_rate_hz'', YInt 48000),
     (lit ''media_clock_sources'', YList [YStr (lit ''internal'')]), (lit ''crf_sink'', YBool False)])]) = Inr c
   \<and> ck_media_clock_sources c = [''internal'']"
  by (simp add: load_clocking_def read_clocking_def get_def media_sources_def source_word_def CLOCK_SOURCE_CLASS_ORDER_def
      crf_output_section_def crf_format_default factory_offset_def check_clocking_def AUDIO_CLK_HZ_def MAX_AUDIO_UNIT_RATES_def
      BASE_RATE_HZ_def PRESENTATION_TIME_OFFSET_NS_def Let_def)

end
