(* ===== verification/Builder_Platform.thy ===== *)
theory Builder_Platform
  imports Builder_Load
begin

unbundle bit_operations_syntax

text \<open>
  The board side of \<^verbatim>\<open>load_config\<close> (\<^verbatim>\<open>sw/builder/endstation_builder.py\<close>): the station MAC and the processor memory, the
  optional blocks with the gate that refuses a prune the rest of the configuration needs, the board constraints, the SoC policy,
  the render lane and the width of the talkers' frames, and \<^verbatim>\<open>load_config\<close> itself. What the code reads out of other source files
  (whether the SoC drives a TDM bus, which headers a board routes) is the record \<open>fabric\<close>.
\<close>

section \<open>Platform\<close>

definition PP_MEM_BYTES :: int where "PP_MEM_BYTES = 0x100000"

definition LOWER_HEX :: pystr where "LOWER_HEX = lit ''0123456789abcdef''"

text \<open>Six two-digit octets with one separator throughout.\<close>

definition is_mac_octets :: "pystr \<Rightarrow> bool" where
  "is_mac_octets s \<longleftrightarrow> length s = 17 \<and> (s ! 2 = 58 \<or> s ! 2 = 45)
     \<and> list_all (\<lambda>i. if i mod 3 = 2 then s ! i = s ! 2 else hex_digit (s ! i) \<noteq> None) [0..<17]"

definition mac_digits :: "pystr \<Rightarrow> pystr" where
  "mac_digits s =
     (if is_mac_octets s then filter (\<lambda>c. c \<noteq> s ! 2) s
      else if hex_run 0 False (strip_0x s) \<noteq> None then filter (\<lambda>c. c \<noteq> 95) (strip_0x s)
      else [])"

definition mac48 :: "yv \<Rightarrow> int cfg" where
  "mac48 v = (case v of
     YStr s \<Rightarrow>
       (if length (mac_digits s) \<noteq> 12 then Inl (Refused (BoardRefused BadMac))
        else let n = foldl (\<lambda>a c. 16 * a + int (the (hex_digit c))) 0 (mac_digits s) in
          if n = 0 then Inl (Refused (BoardRefused ZeroMac))
          else if drop_bit 40 n AND 1 \<noteq> 0 then Inl (Refused (BoardRefused GroupMac)) else Inr n)
   | _ \<Rightarrow> Inl (Refused (BoardRefused MacNotQuoted)))"

definition hex_octet :: "int \<Rightarrow> pystr" where
  "hex_octet b = [LOWER_HEX ! nat (b div 16), LOWER_HEX ! nat (b mod 16)]"

definition mac_text :: "int \<Rightarrow> pystr" where
  "mac_text mac = join [58] (map (\<lambda>sh. hex_octet (drop_bit sh mac AND 0xFF)) [40, 32, 24, 16, 8, 0])"

record platform =
  pf_mac_address :: pystr
  pf_pp_mem_phys :: int
  pf_pp_mem_bytes :: int

definition load_platform :: "yv \<Rightarrow> platform cfg" where
  "load_platform v =
     rbind (section_or_empty v [''mac_address'', ''pp_mem_phys'', ''rx_address_filter''] (BoardRefused PlatformKeys)) (\<lambda>raw.
     rbind (to_int (get raw ''pp_mem_phys'' (YInt 0x4FE00000))) (\<lambda>mem.
     rbind (case map_of raw (lit ''mac_address'') of None \<Rightarrow> Inl (Refused (BoardRefused MacRequired)) | Some m \<Rightarrow> Inr m) (\<lambda>m.
     rbind (mac48 m) (\<lambda>mac.
     rbind (ensure (\<not> (mem \<le> 0 \<or> mem mod 0x1000 \<noteq> 0)) (Refused (BoardRefused (PpMemAlign mem)))) (\<lambda>_.
     rbind (ensure (get raw ''rx_address_filter'' (YStr (lit ''promiscuous'')) = YStr (lit ''promiscuous'')) (Refused (BoardRefused FilterPosture))) (\<lambda>_.
       Inr \<lparr>pf_mac_address = mac_text mac, pf_pp_mem_phys = mem, pf_pp_mem_bytes = PP_MEM_BYTES\<rparr>))))))"

section \<open>Optional blocks\<close>

definition OPTIONAL_BLOCKS :: "string list" where
  "OPTIONAL_BLOCKS = [''media_clock_servo'', ''latency_taps'', ''maap'', ''i2s_playback'', ''rx_mac_filter'', ''render_lpf'', ''datapath_probes'']"

type_synonym features = "(string \<times> bool) list"

definition feat :: "features \<Rightarrow> string \<Rightarrow> bool" where
  "feat fs k = (map_of fs k = Some True)"

definition feature_of :: "(pystr \<times> yv) list \<Rightarrow> string \<Rightarrow> (string \<times> bool) cfg" where
  "feature_of raw k = (case get raw k (YBool True) of YBool b \<Rightarrow> Inr (k, b) | _ \<Rightarrow> Inl (Refused (BoardRefused (FeatureNotBool k))))"

definition load_features :: "yv \<Rightarrow> features cfg" where
  "load_features v =
     rbind (section_or_empty v (OPTIONAL_BLOCKS @ [''fabric_gptp'']) (BoardRefused FeatureKeys)) (\<lambda>raw.
       mapE (feature_of raw) (OPTIONAL_BLOCKS @ [''fabric_gptp'']))"

definition validate_features :: "features \<Rightarrow> string list \<Rightarrow> string \<Rightarrow> unit cfg" where
  "validate_features fs srcs kind =
     rbind (ensure (\<not> (\<not> feat fs ''media_clock_servo'' \<and> \<not> set srcs \<subseteq> {''internal''})) (Refused (BoardRefused ServoNeeded))) (\<lambda>_.
     rbind (ensure (feat fs ''maap'') (Refused (BoardRefused MaapNeeded))) (\<lambda>_.
     rbind (ensure (\<not> (\<not> feat fs ''i2s_playback'' \<and> kind = ''i2s_philips'')) (Refused (BoardRefused PlaybackNeeded))) (\<lambda>_.
       ensure (\<not> (feat fs ''render_lpf'' \<and> \<not> feat fs ''i2s_playback'')) (Refused (BoardRefused FilterWithoutPlayback)))))"

section \<open>Render lane and frame width\<close>

record fabric =
  fb_tdm_wired :: bool
  fb_tdm_master :: bool
  fb_routes_tdm :: "string \<Rightarrow> bool"
  fb_routes_i2s_pmod :: "string \<Rightarrow> bool"

definition AUDIO_IF_SLOTS :: "(string \<times> nat) list" where
  "AUDIO_IF_SLOTS = [(''tdm8'', 8), (''tdm16'', 16), (''tdm32'', 32)]"

definition WIRE_CHANS_MIN :: int where "WIRE_CHANS_MIN = 2"

definition WIRE_CHANS_MAX :: int where "WIRE_CHANS_MAX = 8"

definition RENDER_LANES :: "(string \<times> int \<times> int) list" where
  "RENDER_LANES = [(''i2s'', 0, 2), (''tdm'', 2, 8)]"

definition if_slots :: "string \<Rightarrow> nat" where
  "if_slots kind = (case map_of AUDIO_IF_SLOTS kind of Some n \<Rightarrow> n | None \<Rightarrow> 0)"

definition interface_is_placeholder :: "fabric \<Rightarrow> string \<Rightarrow> bool" where
  "interface_is_placeholder fab kind \<longleftrightarrow> if_slots kind \<noteq> 0 \<and> \<not> fb_tdm_wired fab"

definition audio_if_slots :: "fabric \<Rightarrow> string \<Rightarrow> nat" where
  "audio_if_slots fab kind = (if interface_is_placeholder fab kind then 0 else if_slots kind)"

definition i2s_pair_blended :: "fabric \<Rightarrow> string \<Rightarrow> string \<Rightarrow> bool" where
  "i2s_pair_blended fab board kind \<longleftrightarrow>
     \<not> (interface_is_placeholder fab kind \<or> \<not> fb_tdm_master fab) \<and> if_slots kind \<noteq> 0
     \<and> fb_routes_tdm fab board \<and> fb_routes_i2s_pmod fab board"

definition render_lane :: "features \<Rightarrow> string \<Rightarrow> string option" where
  "render_lane fs kind = (if feat fs ''i2s_playback'' then Some ''i2s'' else if if_slots kind \<noteq> 0 then Some ''tdm'' else None)"

definition render_lane_base :: "features \<Rightarrow> string \<Rightarrow> int" where
  "render_lane_base fs kind = (case render_lane fs kind of None \<Rightarrow> 0 | Some l \<Rightarrow> fst (the (map_of RENDER_LANES l)))"

definition render_lane_width :: "features \<Rightarrow> string \<Rightarrow> int" where
  "render_lane_width fs kind = (case render_lane fs kind of
     None \<Rightarrow> 0
   | Some l \<Rightarrow> let width = snd (the (map_of RENDER_LANES l)) in
       if l = ''tdm'' then min width (int (if_slots kind)) else width)"

definition validate_render_lane :: "features \<Rightarrow> interface \<Rightarrow> unit cfg" where
  "validate_render_lane fs i =
     (let want = snd (if_phys i); kind = if_kind i in
      if want \<le> 0 then Inr ()
      else case render_lane fs kind of
        None \<Rightarrow> Inl (Refused (BoardRefused (NoRenderLane want)))
      | Some lane \<Rightarrow>
          rbind (ensure (\<not> want > render_lane_width fs kind) (Refused (BoardRefused (RenderTooWide want)))) (\<lambda>_.
            ensure (\<not> (lane = ''tdm'' \<and> want \<noteq> int (if_slots kind))) (Refused (BoardRefused (RenderNotFullBus want)))))"

definition render_slots :: "fabric \<Rightarrow> features \<Rightarrow> string \<Rightarrow> interface \<Rightarrow> int" where
  "render_slots fab fs board i =
     (if render_lane fs (if_kind i) \<noteq> Some ''tdm'' \<or> audio_if_slots fab (if_kind i) = 0 then 0
      else let n = snd (if_phys i) in if n \<le> 0 then 0 else if fb_routes_tdm fab board then n else 0)"

definition framer_pair_supply :: "fabric \<Rightarrow> string \<Rightarrow> string \<Rightarrow> int" where
  "framer_pair_supply fab board kind =
     (let slots = audio_if_slots fab kind in
      if slots = 0 then 1 else int (slots div 2) + (if i2s_pair_blended fab board kind then 1 else 0))"

text \<open>The widest \<^verbatim>\<open>channels_per_frame\<close> any talker advertises, over all its formats.\<close>

definition framer_declared_channels :: "stream_cfg list \<Rightarrow> int cfg" where
  "framer_declared_channels talkers =
     rbind (mapE fmt_channels_of (concat (map sc_formats talkers))) (\<lambda>cs.
       let want = foldl (\<lambda>w c. case c of None \<Rightarrow> w | Some n \<Rightarrow> max w n) 0 cs
       in Inr (if want \<noteq> 0 then want else WIRE_CHANS_MIN))"

definition framer_wire_channels :: "fabric \<Rightarrow> string \<Rightarrow> string \<Rightarrow> stream_cfg list \<Rightarrow> int cfg" where
  "framer_wire_channels fab board kind talkers =
     (let supply = min WIRE_CHANS_MAX (framer_pair_supply fab board kind * 2) in
      rbind (framer_declared_channels talkers) (\<lambda>d. Inr (max WIRE_CHANS_MIN (min supply d))))"

section \<open>Board and SoC\<close>

record board_info =
  bi_phy :: string
  bi_link_mbps :: int
  bi_sys_clk_hz :: int
  bi_gmii_knobs :: bool
  bi_eth_ports :: "string list"

definition BOARDS :: "(string \<times> board_info) list" where
  "BOARDS =
     [(''arty'', \<lparr>bi_phy = ''mii-100'', bi_link_mbps = 100, bi_sys_clk_hz = 100000000, bi_gmii_knobs = False, bi_eth_ports = []\<rparr>),
      (''ax7101'', \<lparr>bi_phy = ''gmii-1g'', bi_link_mbps = 1000, bi_sys_clk_hz = 100000000, bi_gmii_knobs = True, bi_eth_ports = [''e1'', ''e2'']\<rparr>)]"

definition BAREMETAL_CLK_HZ :: int where "BAREMETAL_CLK_HZ = 50000000"

definition CONSTRAINT_KEYS :: "string list" where
  "CONSTRAINT_KEYS = [''sys_clk_hz'', ''milan_clk_hz'', ''l2_bytes'', ''phy'', ''gtx_tx_invert'', ''floorplan'', ''flashboot'',
     ''uart_baudrate'', ''num_queues'', ''eth_port'']"

record board_cons =
  bc_sys_clk_hz :: int
  bc_milan_clk_hz :: int
  bc_l2_bytes :: int
  bc_phy :: string
  bc_gtx_tx_invert :: bool
  bc_floorplan :: bool
  bc_flashboot :: string
  bc_uart_baudrate :: int
  bc_num_queues :: int
  bc_eth_port :: "string option"

text \<open>\<^verbatim>\<open>v == 0\<close> holds of \<^verbatim>\<open>False\<close> and of a zero of another numeric type as well.\<close>

definition pow2_or_zero :: "yv \<Rightarrow> int cfg" where
  "pow2_or_zero v = (if v \<in> {YInt 0, YBool False, YOther False (Some 0)} then Inr 0 else pow2 v)"

definition eth_port_of :: "string list \<Rightarrow> yv \<Rightarrow> string option cfg" where
  "eth_port_of ports v = (case v of YNull \<Rightarrow> Inr None | _ \<Rightarrow> rbind (one_of ports v (BoardRefused BadEthPort)) (\<lambda>p. Inr (Some p)))"

definition load_constraints :: "board_info \<Rightarrow> (pystr \<times> yv) list \<Rightarrow> board_cons cfg" where
  "load_constraints info c =
     rbind (ensure (list_all (\<lambda>(k, _). k \<in> set (map lit CONSTRAINT_KEYS)) c) (Refused (BoardRefused ConstraintKeys))) (\<lambda>_.
     rbind (to_int (get c ''sys_clk_hz'' (YInt (bi_sys_clk_hz info)))) (\<lambda>sys.
     rbind (rbind (req (YMap c) ''milan_clk_hz'') to_int) (\<lambda>milan.
     rbind (rbind (req (YMap c) ''l2_bytes'') pow2_or_zero) (\<lambda>l2.
     rbind (req (YMap c) ''phy'') (\<lambda>phy_v.
     rbind (to_int (get c ''uart_baudrate'' (YInt 115200))) (\<lambda>uart.
     rbind (to_int (get c ''num_queues'' (YInt 5))) (\<lambda>queues.
     rbind (ensure (phy_v = YStr (lit (bi_phy info))) (Refused (BoardRefused PhyContradicts))) (\<lambda>_.
     let gtx = truthy (get c ''gtx_tx_invert'' (YBool False)) in
     rbind (ensure (\<not> (gtx \<and> \<not> bi_gmii_knobs info)) (Refused (BoardRefused GmiiKnob))) (\<lambda>_.
     rbind (one_of [''none'', ''baremetal''] (get c ''flashboot'' (YStr (lit ''baremetal''))) (BoardRefused BadFlashboot)) (\<lambda>fb.
     rbind (ensure (1 \<le> queues \<and> queues \<le> 8) (Refused (BoardRefused (QueueCount queues)))) (\<lambda>_.
     rbind (ensure (milan \<le> sys) (Refused (BoardRefused ClockOrder))) (\<lambda>_.
     rbind (eth_port_of (bi_eth_ports info) (get c ''eth_port'' YNull)) (\<lambda>port.
       Inr \<lparr>bc_sys_clk_hz = sys, bc_milan_clk_hz = milan, bc_l2_bytes = l2, bc_phy = bi_phy info, bc_gtx_tx_invert = gtx,
            bc_floorplan = truthy (get c ''floorplan'' (YBool False)), bc_flashboot = fb, bc_uart_baudrate = uart,
            bc_num_queues = queues, bc_eth_port = port\<rparr>)))))))))))))"

definition load_board :: "(pystr \<times> yv) list \<Rightarrow> (string \<times> board_cons) cfg" where
  "load_board doc =
     rbind (req (YMap doc) ''board'') (\<lambda>brd.
     rbind (req brd ''target'') (\<lambda>tv.
     rbind (ensure (hashable tv) TypeError) (\<lambda>_.
     rbind (one_of (map fst BOARDS) tv (BoardRefused UnknownBoard)) (\<lambda>target.
     rbind (req brd ''constraints'') (\<lambda>cv.
     rbind (case cv of YMap m \<Rightarrow> Inr m | _ \<Rightarrow> Inl (Refused (BoardRefused ConstraintKeys))) (\<lambda>c.
     rbind (load_constraints (the (map_of BOARDS target)) c) (\<lambda>cons. Inr (target, cons))))))))"

text \<open>A CPU count written as the float 1.0 passes in Python; the value type does not tell it from 1.5, and the model refuses both.\<close>

record soc_cfg =
  so_cpu :: string
  so_cpu_count :: yv
  so_xlen :: int
  so_timing_opt :: yv

definition load_soc :: "(pystr \<times> yv) list \<Rightarrow> board_cons \<Rightarrow> soc_cfg cfg" where
  "load_soc doc cons =
     rbind (section_or_empty (get doc ''soc'' YNull)
              [''cpu'', ''cpu_count'', ''software_profile'', ''xlen'', ''full'', ''timing_opt'', ''scala_args''] (BoardRefused SocKeys)) (\<lambda>raw.
     rbind (one_of [''vexiiriscv'', ''naxriscv''] (get raw ''cpu'' (YStr (lit ''vexiiriscv''))) (BoardRefused UnknownCpu)) (\<lambda>cpu.
     rbind (ensure (get raw ''software_profile'' (YStr (lit ''baremetal'')) = YStr (lit ''baremetal'')) (Refused (BoardRefused ProfileRetired))) (\<lambda>_.
     rbind (ensure (get raw ''full'' (YBool True) = YBool True) (Refused (BoardRefused SocNotFull))) (\<lambda>_.
     rbind (to_int (get raw ''xlen'' (YInt 32))) (\<lambda>xlen.
     rbind (ensure (xlen \<in> {32, 64}) (Refused (BoardRefused BadXlen))) (\<lambda>_.
     rbind (ensure (bc_milan_clk_hz cons = BAREMETAL_CLK_HZ) (Refused (BoardRefused BaremetalClock))) (\<lambda>_.
     let count = get raw ''cpu_count'' (YInt 1) in
     rbind (ensure (cpu = ''vexiiriscv'' \<and> xlen = 32 \<and> count \<in> {YInt 1, YBool True}) (Refused (BoardRefused BaremetalCpu))) (\<lambda>_.
     rbind (ensure (bc_l2_bytes cons = 0 \<and> \<not> truthy (get raw ''scala_args'' (YList []))) (Refused (BoardRefused BaremetalCache))) (\<lambda>_.
     rbind (ensure (bc_flashboot cons \<in> {''baremetal'', ''none''}) (Refused (BoardRefused BaremetalFlashboot))) (\<lambda>_.
       Inr \<lparr>so_cpu = cpu, so_cpu_count = count, so_xlen = xlen, so_timing_opt = get raw ''timing_opt'' (YBool True)\<rparr>))))))))))"

section \<open>The whole configuration\<close>

record full_cfg =
  fc_model :: end_cfg
  fc_target :: string
  fc_cons :: board_cons
  fc_clocking :: loaded_clocking
  fc_gptp :: "loaded_gptp option"
  fc_interface :: interface
  fc_soc :: soc_cfg
  fc_wire_channels :: int
  fc_srp :: srp_cfg
  fc_platform :: platform
  fc_features :: features
  fc_model_id :: "int \<times> string"

text \<open>The owner of the clock is the fabric plane, and it needs its section.\<close>

definition check_gptp_owner :: "features \<Rightarrow> loaded_gptp option \<Rightarrow> unit cfg" where
  "check_gptp_owner fs gptp =
     rbind (ensure (feat fs ''fabric_gptp'') (Refused (BoardRefused FabricOwnerRetired))) (\<lambda>_.
       ensure (\<not> (feat fs ''fabric_gptp'' \<and> gptp = None)) (Refused (BoardRefused FabricOwnerNeedsGptp)))"

text \<open>
  \<open>entity\<close> stands for the loaded \<^verbatim>\<open>entity:\<close> section, \<open>hash\<close> for the SHA-256 of the model shape. The sections the entity model
  is made of are loaded by the same functions \<^const>\<open>load_model_sections\<close> composes.
\<close>

definition load_config ::
    "fabric \<Rightarrow> gptp_pins cfg \<Rightarrow> int cfg \<Rightarrow> overlay_entity cfg \<Rightarrow> (end_cfg \<Rightarrow> int) \<Rightarrow> pystr list \<Rightarrow> (pystr \<times> yv) list \<Rightarrow> full_cfg cfg" where
  "load_config fab pins port entity hash waivers doc =
     rbind (req (YMap doc) ''entity'') (\<lambda>ent_v.
     rbind (req (YMap doc) ''board'') (\<lambda>brd_v.
     rbind entity (\<lambda>ent.
     rbind (load_board doc) (\<lambda>(target, cons).
     rbind (load_clocking (YMap doc)) (\<lambda>clocking.
     rbind (load_gptp pins port doc) (\<lambda>gptp.
     rbind (load_names doc (ck_media_clock_sources clocking)) (\<lambda>(objects, clock_names).
     rbind (load_interface doc clocking) (\<lambda>i.
     rbind (load_streams doc clocking) (\<lambda>(listeners, talkers).
     rbind (load_soc doc cons) (\<lambda>soc.
     rbind (framer_wire_channels fab target (if_kind i) talkers) (\<lambda>wire.
     rbind (load_srp (get doc ''srp'' YNull)
              \<lparr>sh_listeners = listeners, sh_talkers = talkers, sh_clocking = clocking.truncate clocking,
               sh_num_queues = bc_num_queues cons, sh_link_mbps = bi_link_mbps (the (map_of BOARDS target)),
               sh_wire_channels = Some wire\<rparr>) (\<lambda>srp.
     rbind (load_platform (get doc ''platform'' YNull)) (\<lambda>plat.
     rbind (mapping_of brd_v) (\<lambda>brd.
     rbind (load_features (get brd ''features'' YNull)) (\<lambda>fs.
     rbind (validate_features fs (ck_media_clock_sources clocking) (if_kind i)) (\<lambda>_.
     rbind (check_gptp_owner fs gptp) (\<lambda>_.
     rbind (validate_render_lane fs i) (\<lambda>_.
     rbind (pool_widths (if_pools i)) (\<lambda>pw.
     rbind (cluster_layout listeners talkers (cluster_rules i pw)) (\<lambda>(ports_in, ports_out).
     let model = \<lparr>ec_entity = ent, ec_listeners = listeners, ec_talkers = talkers, ec_clocking = clocking.truncate clocking,
             ec_kind = if_kind i, ec_policy = if_policy i, ec_channel_names = if_channel_names i,
             ec_loopback_lane = if_loopback_lane i, ec_ports_in = ports_in, ec_ports_out = ports_out,
             ec_object_names = objects, ec_clock_names = clock_names, ec_gptp = map_option lg_set gptp,
             ec_model_lint_waivers = waivers\<rparr> in
     rbind (mapping_of ent_v) (\<lambda>raw_ent.
     rbind (resolve_model_id raw_ent (hash model)) (\<lambda>mid.
       Inr \<lparr>fc_model = model, fc_target = target, fc_cons = cons, fc_clocking = clocking, fc_gptp = gptp, fc_interface = i,
            fc_soc = soc, fc_wire_channels = wire, fc_srp = srp, fc_platform = plat, fc_features = fs, fc_model_id = mid\<rparr>))))))))))))))))))))))"

section \<open>The station address\<close>

definition nib :: "int \<Rightarrow> nat \<Rightarrow> nat" where
  "nib n i = LOWER_HEX ! nat (n div 16 ^ i mod 16)"

lemma LOWER_HEX_digit:
  assumes "d < 16"
  shows "hex_digit (LOWER_HEX ! d) = Some d"
proof -
  have "\<forall>d \<in> set [0..<16]. hex_digit (LOWER_HEX ! d) = Some d" by code_simp
  then show ?thesis using assms by simp
qed

lemma nib_digit: "hex_digit (nib n i) = Some (nat (n div 16 ^ i mod 16))"
  unfolding nib_def by (rule LOWER_HEX_digit) (simp add: nat_less_iff)

lemma nib_not_colon: "nib n i \<noteq> 58"
proof
  assume "nib n i = 58"
  moreover have "hex_digit 58 = None" by code_simp
  ultimately show False using nib_digit[of n i] by simp
qed

lemma nibs_value: "0 \<le> n \<Longrightarrow> foldl (\<lambda>a c. 16 * a + int (the (hex_digit c))) a (map (nib n) (rev [0..<k])) = a * 16 ^ k + n mod 16 ^ k"
proof (induction k arbitrary: a)
  case (Suc k)
  have "n mod (16 ^ k * 16) = 16 ^ k * (n div 16 ^ k mod 16) + n mod 16 ^ k" using zmod_zmult2_eq[of 16 n "16 ^ k"] by simp
  then show ?case using Suc by (simp add: nib_digit algebra_simps)
qed simp

lemma mac_text_nibs: "mac_text n = [nib n 11, nib n 10, 58, nib n 9, nib n 8, 58, nib n 7, nib n 6, 58, nib n 5, nib n 4, 58, nib n 3, nib n 2, 58, nib n 1, nib n 0]"
proof -
  have "hex_octet (drop_bit (4 * i) n AND 0xFF) = [nib n (Suc i), nib n i]" for i
  proof -
    have m: "drop_bit (4 * i) n AND 0xFF = (n div 16 ^ i) mod 256"
      using take_bit_eq_mask[of 8 "drop_bit (4 * i) n"] by (simp add: mask_eq_exp_minus_1 take_bit_eq_mod drop_bit_eq_div power_mult)
    have "x mod 256 div 16 = x div 16 mod 16" "x mod 256 mod 16 = x mod 16" for x :: int
      using zmod_zmult2_eq[of 16 x 16] by simp_all
    moreover have "n div 16 ^ i div 16 = n div 16 ^ Suc i" by (simp add: zdiv_zmult2_eq[symmetric] mult.commute)
    ultimately have "(n div 16 ^ i) mod 256 div 16 = n div 16 ^ Suc i mod 16" "(n div 16 ^ i) mod 256 mod 16 = n div 16 ^ i mod 16" by simp_all
    then show ?thesis by (simp add: hex_octet_def nib_def m)
  qed
  from this[of 10] this[of 8] this[of 6] this[of 4] this[of 2] this[of 0] show ?thesis by (simp add: mac_text_def)
qed

lemma mac_text_reads:
  assumes "0 \<le> n" "n < 2 ^ 48"
  shows "mac_digits (mac_text n) = map (nib n) (rev [0..<12])" "foldl (\<lambda>a c. 16 * a + int (the (hex_digit c))) 0 (mac_digits (mac_text n)) = n"
proof -
  have u: "[0..<17] = [0 :: nat, 1, 2, 3, 4, 5, 6, 7, 8, 9, 10, 11, 12, 13, 14, 15, 16]" "rev [0..<12] = [11 :: nat, 10, 9, 8, 7, 6, 5, 4, 3, 2, 1, 0]"
    by code_simp+
  have "is_mac_octets (mac_text n)" unfolding is_mac_octets_def u by (simp add: mac_text_nibs nib_digit)
  then show d: "mac_digits (mac_text n) = map (nib n) (rev [0..<12])"
    using nib_not_colon unfolding u by (simp add: mac_digits_def mac_text_nibs)
  show "foldl (\<lambda>a c. 16 * a + int (the (hex_digit c))) 0 (mac_digits (mac_text n)) = n"
    unfolding d using nibs_value[OF assms(1), of 0 12] assms by simp
qed

lemma hex_foldl_bound: "0 \<le> a \<Longrightarrow> \<forall>c \<in> set s. hex_digit c \<noteq> None \<Longrightarrow>
   0 \<le> foldl (\<lambda>a c. 16 * a + int (the (hex_digit c))) a s \<and> foldl (\<lambda>a c. 16 * a + int (the (hex_digit c))) a s < (a + 1) * 16 ^ length s"
proof (induction s arbitrary: a)
  case (Cons c s)
  obtain d where d: "hex_digit c = Some d" "d < 16" using Cons.prems(2) by (auto simp: hex_digit_def split: if_splits)
  have "(16 * a + int d + 1) * 16 ^ length s \<le> (a + 1) * 16 * 16 ^ length s" using d(2) by (intro mult_right_mono) auto
  moreover have "0 \<le> 16 * a + int d" using Cons.prems(1) by simp
  moreover have "\<forall>c \<in> set s. hex_digit c \<noteq> None" using Cons.prems(2) by simp
  ultimately have "0 \<le> foldl (\<lambda>a c. 16 * a + int (the (hex_digit c))) (16 * a + int d) s
      \<and> foldl (\<lambda>a c. 16 * a + int (the (hex_digit c))) (16 * a + int d) s < (a + 1) * 16 * 16 ^ length s"
    using Cons.IH[of "16 * a + int d"] by linarith
  moreover have "(a + 1) * 16 * 16 ^ length s = (a + 1) * 16 ^ length (c # s)" by simp
  ultimately show ?case using d(1) by (simp only: foldl.simps option.sel)
qed simp

lemma mac_digits_hex: "c \<in> set (mac_digits s) \<Longrightarrow> hex_digit c \<noteq> None"
proof -
  assume c: "c \<in> set (mac_digits s)"
  consider "is_mac_octets s" "c \<in> set s" "c \<noteq> s ! 2" | "hex_run 0 False (strip_0x s) \<noteq> None" "c \<in> set (strip_0x s)" "c \<noteq> 95"
    using c by (auto simp: mac_digits_def split: if_splits)
  then show ?thesis
  proof cases
    case 1
    then obtain i where i: "i < 17" "s ! i = c" by (auto simp: is_mac_octets_def in_set_conv_nth)
    then have "i \<in> set [0..<17]" by simp
    then show ?thesis using 1 i unfolding is_mac_octets_def list_all_iff by (metis (full_types))
  next
    case 2
    have "hex_run v ok t \<noteq> None \<Longrightarrow> c \<in> set t \<Longrightarrow> hex_digit c \<noteq> None" for v ok t
      by (induction v ok t rule: hex_run.induct) (use 2 in \<open>auto split: if_splits option.splits\<close>)
    then show ?thesis using 2 by blast
  qed
qed

lemma mac48_range: "mac48 v = Inr n \<Longrightarrow> 0 < n \<and> n < 2 ^ 48 \<and> drop_bit 40 n AND 1 = 0"
proof -
  assume m: "mac48 v = Inr n"
  then obtain s where s: "v = YStr s" "length (mac_digits s) = 12" "n = foldl (\<lambda>a c. 16 * a + int (the (hex_digit c))) 0 (mac_digits s)"
    "n \<noteq> 0" "drop_bit 40 n AND 1 = 0" by (auto simp: mac48_def Let_def split: yv.splits if_splits)
  then show ?thesis using hex_foldl_bound[of 0 "mac_digits s"] mac_digits_hex by simp
qed


section \<open>Render lane\<close>

lemma role_segments_first: "g \<in> set (role_segments i off ws) \<Longrightarrow> seg_role g = ''physical'' \<Longrightarrow>
   seg_first g = 0 \<and> (''physical'', seg_width g) \<in> set ws"
  by (induction i off ws rule: role_segments.induct) (auto split: if_splits)

lemma port_pool_physical:
  assumes "port_pool rules True i b s = Inr (pool, n)" "g \<in> set pool" "seg_role g = ''physical''"
  shows "seg_first g + seg_width g \<le> fst (cluster_widths rules)"
proof (cases "policy rules = ''role-pools''")
  case True
  then obtain ws where "g \<in> set (role_segments i 0 [(''physical'', fst (cluster_widths rules)), (''pilot'', 0), (''loopback'', 0)])"
    using assms by (auto simp: port_pool_def role_pool_def Let_def case_prod_beta simp del: role_segments.simps split: if_splits)
  from role_segments_first[OF this assms(3)] show ?thesis by simp
next
  case False
  then show ?thesis using assms by (auto simp: port_pool_def legacy_pool_def Let_def split: if_splits)
qed

lemma ports_from_physical:
  assumes "ports_from rules True i base nm b ss = Inr ps" "p \<in> set ps" "g \<in> set (bp_pool p)" "seg_role g = ''physical''"
  shows "seg_first g + seg_width g \<le> fst (cluster_widths rules)"
  using assms
proof (induction ss arbitrary: i base nm b ps)
  case (Cons s ss)
  obtain pool n i' base' nm' qs q where q: "port_pool rules True i b s = Inr (pool, n)"
    "ports_from rules True i' base' nm' (b + n) ss = Inr qs" "ps = q # qs" "bp_pool q = pool"
    using Cons.prems(1) by (auto simp: Let_def)
  then show ?case using Cons.IH[OF q(2)] port_pool_physical[OF q(1), of g] Cons.prems(2-4) by auto
qed simp

lemma layout_physical:
  assumes "cluster_layout L T rules = Inr (pi, po)" "p \<in> set pi" "g \<in> set (bp_pool p)" "seg_role g = ''physical''"
  shows "seg_first g + seg_width g \<le> fst (cluster_widths rules)"
proof -
  obtain raw where r: "ports_from rules True 0 0 0 0 L = Inr raw" "settle_map_page raw = Inr pi"
    using assms(1) by (auto simp: cluster_layout_def input_ports_def split: if_splits)
  obtain page where "pi = map (\<lambda>p. if port_dynamic p then p\<lparr>bp_map_page := Some page\<rparr> else p) raw"
    using settle_map_page_ok[OF r(2)] by blast
  then obtain q where "q \<in> set raw" "bp_pool q = bp_pool p" using assms(2) by auto
  then show ?thesis using ports_from_physical[OF r(1), of q g] assms(3,4) by simp
qed

lemma render_lane_fits:
  assumes "validate_render_lane fs i = Inr ()"
  shows "snd (if_phys i) \<le> render_lane_width fs (if_kind i) \<or> snd (if_phys i) \<le> 0"
  using assms by (auto simp: validate_render_lane_def Let_def split: if_splits option.splits)

section \<open>What an accepted configuration satisfies\<close>

lemma load_config_parts:
  assumes "load_config fab pins port entity hash waivers doc = Inr fc"
  obtains ent brd ent_v raw_ent where "entity = Inr ent" "load_board doc = Inr (fc_target fc, fc_cons fc)"
    "load_model_sections pins port ent waivers doc = Inr (fc_model fc, fc_clocking fc, fc_interface fc)"
    "load_gptp pins port doc = Inr (fc_gptp fc)" "load_soc doc (fc_cons fc) = Inr (fc_soc fc)"
    "framer_wire_channels fab (fc_target fc) (if_kind (fc_interface fc)) (ec_talkers (fc_model fc)) = Inr (fc_wire_channels fc)"
    "load_srp (get doc ''srp'' YNull)
       \<lparr>sh_listeners = ec_listeners (fc_model fc), sh_talkers = ec_talkers (fc_model fc), sh_clocking = ec_clocking (fc_model fc),
        sh_num_queues = bc_num_queues (fc_cons fc), sh_link_mbps = bi_link_mbps (the (map_of BOARDS (fc_target fc))),
        sh_wire_channels = Some (fc_wire_channels fc)\<rparr> = Inr (fc_srp fc)"
    "load_platform (get doc ''platform'' YNull) = Inr (fc_platform fc)" "load_features (get brd ''features'' YNull) = Inr (fc_features fc)"
    "validate_features (fc_features fc) (ck_media_clock_sources (fc_clocking fc)) (if_kind (fc_interface fc)) = Inr ()"
    "check_gptp_owner (fc_features fc) (fc_gptp fc) = Inr ()" "validate_render_lane (fc_features fc) (fc_interface fc) = Inr ()"
    "resolve_model_id raw_ent (hash (fc_model fc)) = Inr (fc_model_id fc)"
  using assms unfolding load_config_def Let_def
  by (auto simp: load_model_sections_def simp del: req.simps)

lemma sections_layout:
  assumes "load_model_sections pins port ent waivers doc = Inr (cfg, clk, i)"
  obtains pw where "cluster_layout (ec_listeners cfg) (ec_talkers cfg) (cluster_rules i pw) = Inr (ec_ports_in cfg, ec_ports_out cfg)"
  using assms unfolding load_model_sections_def by auto

lemma load_platform_ok: "load_platform v = Inr p \<Longrightarrow> 0 < pf_pp_mem_phys p \<and> pf_pp_mem_phys p mod 0x1000 = 0"
  by (auto simp: load_platform_def)

text \<open>
  Property C39. Every physical cluster a loaded configuration gives its listeners has a render key: it lies within the keys of the lane
  the configuration renders through, the DAC's two or the TDM bus's, and a TDM lane is used in full or not at all.
\<close>

theorem physical_clusters_have_keys:
  assumes "load_config fab pins port entity hash waivers doc = Inr fc" "p \<in> set (ec_ports_in (fc_model fc))"
    "g \<in> set (bp_pool p)" "seg_role g = ''physical''" "0 < seg_width g"
  shows "\<exists>lane. render_lane (fc_features fc) (if_kind (fc_interface fc)) = Some lane \<and> 0 \<le> seg_first g
     \<and> seg_first g + seg_width g \<le> render_lane_width (fc_features fc) (if_kind (fc_interface fc))
     \<and> (lane = ''tdm'' \<longrightarrow> snd (if_phys (fc_interface fc)) = int (if_slots (if_kind (fc_interface fc))))"
proof (rule load_config_parts[OF assms(1)])
  fix ent
  assume l: "load_model_sections pins port ent waivers doc = Inr (fc_model fc, fc_clocking fc, fc_interface fc)"
    and v: "validate_render_lane (fc_features fc) (fc_interface fc) = Inr ()"
  let ?i = "fc_interface fc"
  obtain pw where lay: "cluster_layout (ec_listeners (fc_model fc)) (ec_talkers (fc_model fc)) (cluster_rules ?i pw)
      = Inr (ec_ports_in (fc_model fc), ec_ports_out (fc_model fc))" by (rule sections_layout[OF l])
  have fits: "seg_first g + seg_width g \<le> snd (if_phys ?i)"
    using layout_physical[OF lay assms(2-4)] by (simp add: cluster_widths_def cluster_rules_def)
  have first: "0 \<le> seg_first g" by (rule cfg_built_first[OF loaded_built[OF l] _ assms(3)]) (simp add: assms(2))
  then have want: "0 < snd (if_phys ?i)" using fits assms(5) by linarith
  then obtain lane where "render_lane (fc_features fc) (if_kind ?i) = Some lane" "snd (if_phys ?i) \<le> render_lane_width (fc_features fc) (if_kind ?i)"
    "lane = ''tdm'' \<longrightarrow> snd (if_phys ?i) = int (if_slots (if_kind ?i))"
    using v by (auto simp: validate_render_lane_def Let_def split: option.splits)
  then show ?thesis using fits first by auto
qed

lemma load_constraints_ok:
  "load_constraints info c = Inr cons \<Longrightarrow> bc_milan_clk_hz cons \<le> bc_sys_clk_hz cons \<and> 1 \<le> bc_num_queues cons \<and> bc_num_queues cons \<le> 8
     \<and> (\<forall>p. bc_eth_port cons = Some p \<longrightarrow> p \<in> set (bi_eth_ports info)) \<and> (bc_gtx_tx_invert cons \<longrightarrow> bi_gmii_knobs info)"
  by (auto simp: load_constraints_def Let_def eth_port_of_def split: yv.splits dest: one_of_mem)

lemma load_soc_ok: "load_soc doc cons = Inr s \<Longrightarrow> bc_milan_clk_hz cons = BAREMETAL_CLK_HZ \<and> bc_l2_bytes cons = 0 \<and> so_xlen s = 32 \<and> so_cpu s = ''vexiiriscv''"
  by (auto simp: load_soc_def Let_def)

lemma framer_wire_range: "framer_wire_channels fab board kind ts = Inr w \<Longrightarrow> WIRE_CHANS_MIN \<le> w \<and> w \<le> WIRE_CHANS_MAX"
  by (auto simp: framer_wire_channels_def Let_def WIRE_CHANS_MIN_def WIRE_CHANS_MAX_def)


section \<open>A configuration\<close>

definition sample_fabric :: fabric where
  "sample_fabric = \<lparr>fb_tdm_wired = False, fb_tdm_master = False, fb_routes_tdm = (\<lambda>_. False), fb_routes_i2s_pmod = (\<lambda>_. True)\<rparr>"

definition sample_pins :: gptp_pins where
  "sample_pins = \<lparr>pn_priority2 = 248, pn_clock_class = 248, pn_clock_accuracy = 254, pn_offset_scaled_log_variance = 17258,
     pn_log_sync_interval = -3, pn_log_announce_interval = 0, pn_log_pdelay_interval = 0\<rparr>"

definition full_doc :: "(pystr \<times> yv) list" where
  "full_doc =
     [(lit ''entity'', YMap [(lit ''entity_model_id'', YStr (hex_fmt 16 0x001BC50000000001))]),
      (lit ''board'', YMap [(lit ''target'', YStr (lit ''arty'')),
         (lit ''constraints'', YMap [(lit ''milan_clk_hz'', YInt 50000000), (lit ''l2_bytes'', YInt 0), (lit ''phy'', YStr (lit ''mii-100''))])]),
      (lit ''clocking'', YMap [(lit ''sampling_rate_hz'', YInt 48000)]),
      (lit ''gptp'', YMap [(lit ''ingress_latency_ns'', YInt 0), (lit ''egress_latency_ns'', YInt 0)]),
      (lit ''audio_interface'', YMap [(lit ''kind'', YStr (lit ''tdm8'')),
         (lit ''physical_channels'', YMap [(lit ''capture'', YInt 8), (lit ''render'', YInt 2)])]),
      (lit ''streams'', YMap
        [(lit ''listeners'', YList [YMap [(lit ''channels'', YInt 2), (lit ''formats'', YList [YStr (hex_fmt 16 0x0204022000806000)])]]),
         (lit ''talkers'', YList [YMap [(lit ''channels'', YInt 2)]])]),
      (lit ''platform'', YMap [(lit ''mac_address'', YStr (lit ''02:00:00:00:00:01''))])]"

lemma full_sections:
  "req (YMap full_doc) ''clocking'' = req (YMap sample_doc) ''clocking''" "req (YMap full_doc) ''streams'' = req (YMap sample_doc) ''streams''"
  by (simp_all add: full_doc_def sample_doc_def)

lemma full_clocking: "load_clocking (YMap full_doc) = Inr sample_clocking"
  using sample_load_clocking unfolding load_clocking_def full_sections .

lemma full_streams: "load_streams full_doc sample_clocking =
   Inr ([sample_row ''Stream In 0'' ''dynamic'' 0x0204022000806000 None], [sample_row ''Stream Out 0'' ''static'' 0x0205022000806000 (Some 2000000)])"
  using sample_load_streams unfolding load_streams_def full_sections .

lemma full_interface: "load_interface full_doc sample_clocking = Inr
   \<lparr>if_kind = ''tdm8'', if_channels = 8, if_word_length_bits = 24, if_policy = ''cluster-per-stream-channel'', if_rtl = ''present'',
    if_phys = (8, 2), if_pools = [], if_channel_names = None, if_loopback_lane = False, if_serial = None\<rparr>"
  by (simp add: load_interface_def full_doc_def get_def one_of_def INTERFACES_def CLUSTER_POLICIES_def cluster_mapping_def
      load_cluster_pools_def physical_channels_def section_or_empty_def load_channel_names_def serial_clock_def Let_def)

lemma full_board: "load_board full_doc = Inr (''arty'', \<lparr>bc_sys_clk_hz = 100000000, bc_milan_clk_hz = 50000000, bc_l2_bytes = 0,
    bc_phy = ''mii-100'', bc_gtx_tx_invert = False, bc_floorplan = False, bc_flashboot = ''baremetal'', bc_uart_baudrate = 115200,
    bc_num_queues = 5, bc_eth_port = None\<rparr>)"
  by (simp add: load_board_def full_doc_def one_of_def BOARDS_def load_constraints_def CONSTRAINT_KEYS_def get_def pow2_or_zero_def
      eth_port_of_def Let_def)

lemma full_gptp: "\<exists>g. load_gptp (Inr sample_pins) (Inr 1) full_doc = Inr (Some g)"
  by (simp add: load_gptp_def full_doc_def get_def GPTP_KEYS_def gptp_latency_key_def gptp_u8_def gptp_pinned_def gptp_domain_key_def)

lemma full_names: "load_names full_doc srcs = Inr ([], [])"
  by (simp add: load_names_def full_doc_def get_def)

lemma full_wire: "framer_wire_channels sample_fabric ''arty'' ''tdm8'' [sample_row ''Stream Out 0'' ''static'' 0x0205022000806000 (Some 2000000)] = Inr 2"
  by (simp add: framer_wire_channels_def framer_pair_supply_def audio_if_slots_def interface_is_placeholder_def if_slots_def AUDIO_IF_SLOTS_def
      sample_fabric_def framer_declared_channels_def sample_row_def fmt_channels_of_def WIRE_CHANS_MIN_def WIRE_CHANS_MAX_def Let_def drop_bit_eq_div)

lemma full_platform: "\<exists>p. load_platform (get full_doc ''platform'' YNull) = Inr p"
proof -
  have "[0..<17] = [0 :: nat, 1, 2, 3, 4, 5, 6, 7, 8, 9, 10, 11, 12, 13, 14, 15, 16]" by code_simp
  then have "is_mac_octets (lit ''02:00:00:00:00:01'')" by (simp add: is_mac_octets_def lit_def hex_digit_def)
  then have "mac48 (YStr (lit ''02:00:00:00:00:01'')) = Inr 0x020000000001"
    by (simp add: mac48_def mac_digits_def lit_def hex_digit_def drop_bit_eq_div)
  then show ?thesis by (simp add: load_platform_def full_doc_def get_def section_or_empty_def)
qed

definition full_shape :: SrpShape where
  "full_shape = \<lparr>sh_listeners = [sample_row ''Stream In 0'' ''dynamic'' 0x0204022000806000 None],
     sh_talkers = [sample_row ''Stream Out 0'' ''static'' 0x0205022000806000 (Some 2000000)], sh_clocking = clocking.truncate sample_clocking,
     sh_num_queues = 5, sh_link_mbps = 100, sh_wire_channels = Some 2\<rparr>"

lemma full_srp: "\<exists>c. load_srp YNull full_shape = Inr c"
proof -
  let ?cls = "\<lparr>class_id = 6, priority = 3, intervals_ps = 8000\<rparr>"
  have "\<exists>a b. srp_rows SRP_DEFAULTS full_shape ?cls 0x91E0F000FE01 0 = Inr ([a, b], 7360000)"
    by (simp add: srp_rows_def talker_row_def listener_row_def enum_def full_shape_def sample_row_def sample_clocking_def SRP_DEFAULTS_def srp_frame_geometry_def
        srp_idle_slope_bps_def MILAN_TSPEC_HEADROOM_B_def SRP_L2_OVERHEAD_B_def SRP_MIN_L2_BYTES_B_def SRP_WIRE_OVERHEAD_B_def
        AVTP_AAF_HDR_BYTES_def AAF_SAMPLE_OCTETS_def L2_HDR_BYTES_def Let_def)
  then obtain a b where r: "srp_rows SRP_DEFAULTS full_shape ?cls 0x91E0F000FE01 0 = Inr ([a, b], 7360000)" by blast
  obtain g where g: "srp_budget SRP_DEFAULTS full_shape ?cls 7360000 = Inr g" "bg_crf_tk g = 0"
    by (simp add: srp_budget_def full_shape_def SRP_DEFAULTS_def sample_clocking_def srp_idle_slope_bps_def CRF_SRP_MAXFRAME_B_def
        MILAN_TSPEC_HEADROOM_B_def SRP_L2_OVERHEAD_B_def SRP_MIN_L2_BYTES_B_def SRP_WIRE_OVERHEAD_B_def Let_def)
  have v: "srp_validate SRP_DEFAULTS (sh_num_queues full_shape) = Inr ?cls" by (simp add: default_validate full_shape_def)
  have s: "to_int (sr_accumulated_latency_ns SRP_DEFAULTS) = Inr 0" "srp_reset_bits SRP_DEFAULTS = Inr ()"
    "length (sh_listeners full_shape) = 1" "length (sh_talkers full_shape) = 1"
    by (simp_all add: SRP_DEFAULTS_def srp_reset_bits_def full_shape_def)
  show ?thesis unfolding load_srp_def default_section rbind.simps default_dmac v s r prod.case g(1)
    by (simp add: SRP_CTX_IDX_BITS_def s g(2))
qed

definition all_features :: features where
  "all_features = map (\<lambda>k. (k, True)) (OPTIONAL_BLOCKS @ [''fabric_gptp''])"

lemma full_features: "load_features YNull = Inr all_features"
  by (simp add: load_features_def section_or_empty_def feature_of_def get_def all_features_def OPTIONAL_BLOCKS_def)


lemma full_layout: "\<exists>po. cluster_layout [sample_row ''Stream In 0'' ''dynamic'' 0x0204022000806000 None]
     [sample_row ''Stream Out 0'' ''static'' 0x0205022000806000 (Some 2000000)]
     \<lparr>policy = ''cluster-per-stream-channel'', iface_channels = 8, phys = Some (2, 8), pools = (False, 0), lb_backed = False\<rparr>
   = Inr ([\<lparr>bp_index = 0, bp_stream_index = 0, bp_clusters = 2, bp_base_cluster = 0, bp_maps = 0, bp_base_map = 0, bp_map_mode = ''dynamic'',
       bp_map_page = Some 2, bp_pool = [\<lparr>seg_role = ''physical'', seg_offset = 0, seg_width = 2, seg_first = 0\<rparr>], bp_lb_backed = True\<rparr>], po)"
  by (simp add: cluster_layout_def sample_row_def CLUSTER_POLICIES_def input_ports_def output_ports_def port_pool_def legacy_pool_def
      effective_clusters_def cluster_widths_def settle_map_page_def port_dynamic_def explicit_pages_def List.map_filter_simps Let_def)

lemma full_id: "resolve_model_id [(lit ''entity_model_id'', YStr (hex_fmt 16 0x001BC50000000001))] h = Inr (0x001BC50000000001, ''literal'')"
proof -
  have n: "YStr (hex_fmt 16 0x001BC50000000001) \<noteq> YStr (lit ''hash-derived'')" by (simp add: hex_fmt_def lit_def Let_def)
  have "model_id (YStr (hex_fmt 16 0x001BC50000000001)) = Inr 0x001BC50000000001"
    using hex_text_hex_fmt[of "0x001BC50000000001" 15] by (simp add: model_id_def eui64_def EUI64_MAX_def push_bit_eq_mult)
  then show ?thesis using n by (simp add: resolve_model_id_def vendor_oui_def declared_id_def chosen_id_def)
qed

lemma full_loads: "\<exists>fc. load_config sample_fabric (Inr sample_pins) (Inr 1) (Inr sample_entity) (\<lambda>_. 0) [] full_doc = Inr fc
   \<and> fc_features fc = all_features \<and> if_kind (fc_interface fc) = ''tdm8''
   \<and> map bp_pool (ec_ports_in (fc_model fc)) = [[\<lparr>seg_role = ''physical'', seg_offset = 0, seg_width = 2, seg_first = 0\<rparr>]]"
proof -
  obtain po where lay: "cluster_layout [sample_row ''Stream In 0'' ''dynamic'' 0x0204022000806000 None]
     [sample_row ''Stream Out 0'' ''static'' 0x0205022000806000 (Some 2000000)]
     \<lparr>policy = ''cluster-per-stream-channel'', iface_channels = 8, phys = Some (2, 8), pools = (False, 0), lb_backed = False\<rparr>
   = Inr ([\<lparr>bp_index = 0, bp_stream_index = 0, bp_clusters = 2, bp_base_cluster = 0, bp_maps = 0, bp_base_map = 0, bp_map_mode = ''dynamic'',
       bp_map_page = Some 2, bp_pool = [\<lparr>seg_role = ''physical'', seg_offset = 0, seg_width = 2, seg_first = 0\<rparr>], bp_lb_backed = True\<rparr>], po)"
    using full_layout by blast
  obtain g where g: "load_gptp (Inr sample_pins) (Inr 1) full_doc = Inr (Some g)" using full_gptp by blast
  obtain srp where srp: "load_srp YNull full_shape = Inr srp" using full_srp by blast
  obtain pl where pl: "load_platform (get full_doc ''platform'' YNull) = Inr pl" using full_platform by blast
  have soc: "\<exists>so. load_soc full_doc \<lparr>bc_sys_clk_hz = 100000000, bc_milan_clk_hz = 50000000, bc_l2_bytes = 0,
    bc_phy = ''mii-100'', bc_gtx_tx_invert = False, bc_floorplan = False, bc_flashboot = ''baremetal'', bc_uart_baudrate = 115200,
    bc_num_queues = 5, bc_eth_port = None\<rparr> = Inr so"
    by (simp add: load_soc_def section_or_empty_def get_def full_doc_def one_of_def BAREMETAL_CLK_HZ_def Let_def)
  then obtain so where so: "load_soc full_doc \<lparr>bc_sys_clk_hz = 100000000, bc_milan_clk_hz = 50000000, bc_l2_bytes = 0,
    bc_phy = ''mii-100'', bc_gtx_tx_invert = False, bc_floorplan = False, bc_flashboot = ''baremetal'', bc_uart_baudrate = 115200,
    bc_num_queues = 5, bc_eth_port = None\<rparr> = Inr so" by blast
  have req: "req (YMap full_doc) ''entity'' = Inr (YMap [(lit ''entity_model_id'', YStr (hex_fmt 16 0x001BC50000000001))])"
    "\<exists>b. req (YMap full_doc) ''board'' = Inr (YMap b) \<and> get b ''features'' YNull = YNull"
    "get full_doc ''srp'' YNull = YNull" by (simp_all add: full_doc_def get_def)
  then obtain brd where brd: "req (YMap full_doc) ''board'' = Inr (YMap brd)" "get brd ''features'' YNull = YNull" by blast
  have link: "bi_link_mbps (the (map_of BOARDS ''arty'')) = 100" by (simp add: BOARDS_def)
  have feats: "validate_features all_features (ck_media_clock_sources sample_clocking) ''tdm8'' = Inr ()"
    "check_gptp_owner all_features (Some g) = Inr ()"
    by (simp_all add: validate_features_def check_gptp_owner_def all_features_def feat_def OPTIONAL_BLOCKS_def)
  have lane: "render_lane all_features ''tdm8'' = Some ''i2s''" by (simp add: render_lane_def all_features_def feat_def OPTIONAL_BLOCKS_def)
  have pw: "pool_widths [] = Inr (False, 0)" by (simp add: pool_widths_def get_def)
  show ?thesis
    unfolding load_config_def req(1,3) brd full_board full_clocking g full_names full_interface full_streams so pl full_features rbind.simps prod.case
      if_slots_def interface.simps full_wire board_cons.simps link
    using srp[unfolded full_shape_def] feats lane lay full_id
    by (simp add: brd(2) full_features validate_render_lane_def render_lane_width_def RENDER_LANES_def pw cluster_rules_def)
qed



theorem physical_clusters_have_keys_witness:
  "\<exists>(fc :: full_cfg) (g :: segment). (\<exists>p \<in> set (ec_ports_in (fc_model fc)). bp_pool p = [g]) \<and> seg_width g = 2 \<and> seg_first g + 2 \<le> render_lane_width (fc_features fc) ''tdm8''"
proof -
  obtain fc where f0: "load_config sample_fabric (Inr sample_pins) (Inr 1) (Inr sample_entity) (\<lambda>_. 0) [] full_doc = Inr fc
      \<and> fc_features fc = all_features \<and> if_kind (fc_interface fc) = ''tdm8''
      \<and> map bp_pool (ec_ports_in (fc_model fc)) = [[\<lparr>seg_role = ''physical'', seg_offset = 0, seg_width = 2, seg_first = 0\<rparr>]]"
    using full_loads by (elim exE) (rule that)
  note l = f0[THEN conjunct1] and f = f0[THEN conjunct2, THEN conjunct2, THEN conjunct1] f0[THEN conjunct2, THEN conjunct2, THEN conjunct2]
  obtain p where p: "ec_ports_in (fc_model fc) = [p]" "bp_pool p = [\<lparr>seg_role = ''physical'', seg_offset = 0, seg_width = 2, seg_first = 0\<rparr>]"
    using f(2) by auto
  let ?g = "\<lparr>seg_role = ''physical'', seg_offset = 0, seg_width = 2, seg_first = 0\<rparr>"
  have m: "p \<in> set (ec_ports_in (fc_model fc))" "?g \<in> set (bp_pool p)" "seg_role ?g = ''physical''" "0 < seg_width ?g" by (simp_all add: p)
  from physical_clusters_have_keys[OF l m]
  have "seg_first ?g + seg_width ?g \<le> render_lane_width (fc_features fc) ''tdm8''" unfolding f(1) by blast
  then have "seg_width ?g = 2 \<and> seg_first ?g + 2 \<le> render_lane_width (fc_features fc) ''tdm8''" by simp
  then show ?thesis using m(1) p(2) by blast
qed

text \<open>
  The width of the talkers' frames is not always even, as its documentation has it: a talker of three channels on an elaborated TDM bus
  is given three.
\<close>

lemma framer_width_odd:
  "framer_wire_channels (sample_fabric\<lparr>fb_tdm_wired := True\<rparr>) ''arty'' ''tdm8''
     [(sample_row ''Stream Out 0'' ''static'' 0 None)\<lparr>sc_channels := 3, sc_formats := [hex_fmt 16 0x0205022000C06000]\<rparr>] = Inr 3"
  "aaf_pcm32 3 48000 False = Inr 0x0205022000C06000"
  by (simp_all add: framer_wire_channels_def framer_pair_supply_def audio_if_slots_def interface_is_placeholder_def if_slots_def AUDIO_IF_SLOTS_def
      sample_fabric_def i2s_pair_blended_def framer_declared_channels_def sample_row_def fmt_channels_of_def WIRE_CHANS_MIN_def
      WIRE_CHANS_MAX_def Let_def drop_bit_eq_div aaf_pcm32_def BASE_RATE_HZ_def aaf_word_def)

end
