(* ===== verification/Spec2Isabelle.thy ===== *)
theory Spec2Isabelle
  imports Aem_Model Aem_Dynmap Mailbox_Rules Nvm_Crc Nvm_Verdicts Nvm_Maps Trace_Bundle Builder_Platform
begin

text \<open>
  Verification of the AVDECC model compiler of the repository.
\<close>

end
